(* ===== verification/Go_Prelude.thy ===== *)
theory Go_Prelude
  imports Main "HOL-Library.AList" "HOL-Library.Multiset" "HOL-Library.Word"
begin

text \<open>
  Shared vocabulary of the development: machine integers, Go maps, sums over the
  rows of a map, and the fact collections the component theories extend.

  A Go map is an association list. The order of the list is one order in which a
  \<^verbatim>\<open>for k, v := range m\<close> loop may visit the entries; Go leaves that order
  open, and no theorem of the development restricts it: every statement holds for
  every list that represents the map.
\<close>

type_synonym u8 = "8 word"
type_synonym u16 = "16 word"
type_synonym u32 = "32 word"
type_synonym u64 = "64 word"

text \<open>
  \<^verbatim>\<open>time.Time\<close> is nanoseconds since the zero instant (so the zero value is 0)
  and \<^verbatim>\<open>time.Duration\<close> is nanoseconds.
\<close>

type_synonym gotime = int
type_synonym duration = int

named_theorems map_simps \<open>lookup equations of the Go-map operations\<close>
named_theorems sum_simps \<open>equations that move a sum over a map across an update\<close>

section \<open>Go maps\<close>

type_synonym ('k, 'v) gomap = "('k \<times> 'v) list"

definition mget :: "('k, 'v) gomap \<Rightarrow> 'k \<Rightarrow> 'v option" where
  "mget m k = map_of m k"

definition mput :: "'k \<Rightarrow> 'v \<Rightarrow> ('k, 'v) gomap \<Rightarrow> ('k, 'v) gomap" where
  "mput k v m = AList.update k v m"

definition mdel :: "'k \<Rightarrow> ('k, 'v) gomap \<Rightarrow> ('k, 'v) gomap" where
  "mdel k m = AList.delete k m"

definition mhas :: "('k, 'v) gomap \<Rightarrow> 'k \<Rightarrow> bool" where
  "mhas m k = (mget m k \<noteq> None)"

definition mwf :: "('k, 'v) gomap \<Rightarrow> bool" where
  "mwf m = distinct (map fst m)"

text \<open>The two loops that load many entries or drop many keys.\<close>

definition mputs :: "('k \<times> 'v) list \<Rightarrow> ('k, 'v) gomap \<Rightarrow> ('k, 'v) gomap" where
  "mputs kvs m = fold (\<lambda>(k, v). mput k v) kvs m"

definition mdels :: "'k list \<Rightarrow> ('k, 'v) gomap \<Rightarrow> ('k, 'v) gomap" where
  "mdels ks m = fold mdel ks m"

lemma mget_Nil [simp, map_simps]: "mget [] k = None"
  by (simp add: mget_def)

lemma mget_Cons [map_simps]: "mget ((a, b) # m) k = (if a = k then Some b else mget m k)"
  by (simp add: mget_def)

lemma keys_mput: "fst ` set (mput k v m) = insert k (fst ` set m)"
  by (simp add: mput_def AList.dom_update)

lemma mget_mput [simp, map_simps]: "mget (mput k v m) k' = (if k' = k then Some v else mget m k')"
  by (simp add: mget_def mput_def update_conv')

lemma mget_mdel [simp, map_simps]: "mget (mdel k m) k' = (if k' = k then None else mget m k')"
  by (simp add: mget_def mdel_def delete_conv')

lemma mhas_mput [simp, map_simps]: "mhas (mput k v m) k' \<longleftrightarrow> k' = k \<or> mhas m k'"
  by (simp add: mhas_def)

lemma mhas_mdel [simp, map_simps]: "mhas (mdel k m) k' \<longleftrightarrow> k' \<noteq> k \<and> mhas m k'"
  by (simp add: mhas_def)

lemma mhas_Nil [simp, map_simps]: "\<not> mhas [] k"
  by (simp add: mhas_def)

lemma mwf_Nil [simp, intro]: "mwf []"
  by (simp add: mwf_def)

lemma mwf_Cons [simp]: "mwf ((a, b) # m) \<longleftrightarrow> mget m a = None \<and> mwf m"
  by (auto simp: mwf_def mget_def map_of_eq_None_iff)

lemma mwf_mput [simp, intro]: "mwf m \<Longrightarrow> mwf (mput k v m)"
  by (simp add: mwf_def mput_def distinct_update)

lemma mwf_mdel [simp, intro]: "mwf m \<Longrightarrow> mwf (mdel k m)"
  by (simp add: mwf_def mdel_def distinct_delete)

lemma mget_in_set: "mwf m \<Longrightarrow> (k, v) \<in> set m \<longleftrightarrow> mget m k = Some v"
  by (simp add: mwf_def mget_def)

lemma mget_SomeD: "mget m k = Some v \<Longrightarrow> (k, v) \<in> set m"
  by (simp add: mget_def map_of_SomeD)

lemma gomap_emptyI: "(\<And>k. mget m k = None) \<Longrightarrow> m = []"
proof (rule ccontr)
  assume none: "\<And>k. mget m k = None" and "m \<noteq> []"
  then obtain kv m' where "m = kv # m'" by (cases m) auto
  then have "mget m (fst kv) = Some (snd kv)" by (cases kv) (simp add: mget_Cons)
  with none show False by simp
qed

lemma mhas_iff: "mhas m k \<longleftrightarrow> k \<in> fst ` set m"
  by (auto simp: mhas_def mget_def map_of_eq_None_iff)

lemma mput_Cons: "mput k v ((a, b) # m) = (if a = k then (k, v) # m else (a, b) # mput k v m)"
  by (simp add: mput_def)

lemma mput_Nil [simp]: "mput k v [] = [(k, v)]"
  by (simp add: mput_def)

lemma mdel_Cons: "mdel k ((a, b) # m) = (if a = k then mdel k m else (a, b) # mdel k m)"
  by (auto simp: mdel_def)

lemma mdel_Nil [simp]: "mdel k [] = []"
  by (simp add: mdel_def)

lemma mdel_absent: "mget m k = None \<Longrightarrow> mdel k m = m"
  by (induction m) (auto simp: mdel_Cons mget_Cons split: if_splits)

lemma length_mput: "length (mput k v m) = (if mhas m k then length m else Suc (length m))"
  by (induction m) (auto simp: mput_Cons mhas_def mget_Cons split: if_splits)

lemma length_mdel: "mwf m \<Longrightarrow> length (mdel k m) = (if mhas m k then length m - 1 else length m)"
proof (induction m)
  case (Cons kv m)
  obtain a b where kv: "kv = (a, b)" by (cases kv)
  show ?case
  proof (cases "a = k")
    case True
    with Cons.prems kv have "mget m k = None" by simp
    then show ?thesis using True kv by (simp add: mdel_Cons mhas_def mget_Cons mdel_absent)
  next
    case False
    have "mhas m k \<Longrightarrow> length m > 0" by (cases m) auto
    then show ?thesis using False kv Cons by (auto simp: mdel_Cons mhas_def mget_Cons)
  qed
qed simp

section \<open>The interface of a Go map\<close>

text \<open>
  What the components rely on: a lookup after a store or a delete. Bulk loads and bulk
  deletes are derived from the laws once and used by every restore, replace and sweep.
\<close>

locale go_map =
  fixes get :: "'m \<Rightarrow> 'k \<Rightarrow> 'v option"
    and put :: "'k \<Rightarrow> 'v \<Rightarrow> 'm \<Rightarrow> 'm"
    and del :: "'k \<Rightarrow> 'm \<Rightarrow> 'm"
    and wf :: "'m \<Rightarrow> bool"
  assumes get_put: "wf m \<Longrightarrow> get (put k v m) k' = (if k' = k then Some v else get m k')"
    and get_del: "wf m \<Longrightarrow> get (del k m) k' = (if k' = k then None else get m k')"
    and wf_put: "wf m \<Longrightarrow> wf (put k v m)"
    and wf_del: "wf m \<Longrightarrow> wf (del k m)"
begin

lemma wf_fold_put: "wf m \<Longrightarrow> wf (fold (\<lambda>(k, v). put k v) kvs m)"
  by (induction kvs rule: rev_induct) (auto simp: wf_put split: prod.splits)

lemma wf_fold_del: "wf m \<Longrightarrow> wf (fold del ks m)"
  by (induction ks rule: rev_induct) (auto simp: wf_del)

lemma get_fold_put:
  "wf m \<Longrightarrow> get (fold (\<lambda>(k, v). put k v) kvs m) k =
     (case map_of (rev kvs) k of Some v \<Rightarrow> Some v | None \<Rightarrow> get m k)"
proof (induction kvs rule: rev_induct)
  case (snoc kv kvs)
  then show ?case by (cases kv) (auto simp: get_put wf_fold_put split: option.splits)
qed simp

lemma get_fold_del: "wf m \<Longrightarrow> get (fold del ks m) k = (if k \<in> set ks then None else get m k)"
  by (induction ks rule: rev_induct) (auto simp: get_del wf_fold_del)

end

text \<open>
  An association list obeys the lookup laws whether or not its keys are distinct; the second
  interpretation adds that distinctness is kept.
\<close>

interpretation gm: go_map mget mput mdel "\<lambda>_. True"
  by unfold_locales auto

interpretation gmd: go_map mget mput mdel mwf
  by unfold_locales auto

lemma mget_mputs [map_simps]:
  "mget (mputs kvs m) k = (case map_of (rev kvs) k of Some v \<Rightarrow> Some v | None \<Rightarrow> mget m k)"
  unfolding mputs_def by (rule gm.get_fold_put) simp

lemma mget_mdels [simp, map_simps]: "mget (mdels ks m) k = (if k \<in> set ks then None else mget m k)"
  unfolding mdels_def by (rule gm.get_fold_del) simp

lemma mwf_mputs [simp, intro]: "mwf m \<Longrightarrow> mwf (mputs kvs m)"
  unfolding mputs_def by (rule gmd.wf_fold_put)

lemma mwf_mdels [simp, intro]: "mwf m \<Longrightarrow> mwf (mdels ks m)"
  unfolding mdels_def by (rule gmd.wf_fold_del)

lemma mputs_Nil [simp]: "mputs [] m = m"
  by (simp add: mputs_def)

lemma map_of_rev_mwf: "mwf m \<Longrightarrow> map_of (rev m) = map_of m"
proof
  fix k
  assume "mwf m"
  then have "distinct (map fst m)" and "distinct (map fst (rev m))"
    by (simp_all add: mwf_def rev_map flip: rev_map)
  then have "map_of (rev m) k = Some v \<longleftrightarrow> map_of m k = Some v" for v
    by (metis map_of_eq_Some_iff set_rev)
  then show "map_of (rev m) k = map_of m k"
    by (metis not_Some_eq)
qed

lemma mget_mputs_self: "mwf m \<Longrightarrow> mget (mputs m []) k = mget m k"
  by (simp add: mget_mputs map_of_rev_mwf split: option.splits) (simp add: mget_def)

lemma length_mdels:
  "mwf m \<Longrightarrow> distinct ks \<Longrightarrow> (\<And>k. k \<in> set ks \<Longrightarrow> mhas m k) \<Longrightarrow> length (mdels ks m) = length m - length ks"
proof (induction ks arbitrary: m)
  case (Cons k ks)
  have "mdels (k # ks) m = mdels ks (mdel k m)" by (simp add: mdels_def)
  moreover have "length (mdels ks (mdel k m)) = length (mdel k m) - length ks"
    using Cons.prems by (intro Cons.IH) auto
  ultimately show ?case using Cons.prems by (simp add: length_mdel)
qed (simp add: mdels_def)

section \<open>Sums over the rows of a map\<close>

definition msum :: "('k \<Rightarrow> 'v \<Rightarrow> 'a) \<Rightarrow> ('k, 'v) gomap \<Rightarrow> 'a::comm_monoid_add" where
  "msum f m = (\<Sum>(k, v) \<leftarrow> m. f k v)"

lemma msum_Nil [simp]: "msum f [] = 0"
  by (simp add: msum_def)

lemma msum_Cons [simp]: "msum f ((k, v) # m) = f k v + msum f m"
  by (simp add: msum_def)

lemma msum_mput [sum_simps]:
  fixes f :: "'k \<Rightarrow> 'v \<Rightarrow> 'a::ab_group_add"
  shows "msum f (mput k v m) =
    msum f m + f k v - (case mget m k of None \<Rightarrow> 0 | Some v0 \<Rightarrow> f k v0)"
  by (induction m) (auto simp: mput_Cons mget_Cons split: option.splits)

lemma msum_mdel [sum_simps]:
  fixes f :: "'k \<Rightarrow> 'v \<Rightarrow> 'a::ab_group_add"
  assumes "mwf m"
  shows "msum f (mdel k m) = msum f m - (case mget m k of None \<Rightarrow> 0 | Some v0 \<Rightarrow> f k v0)"
  using assms
  by (induction m) (auto simp: mdel_Cons mget_Cons mdel_absent split: option.splits)

lemma msum_cong: "(\<And>k v. (k, v) \<in> set m \<Longrightarrow> f k v = g k v) \<Longrightarrow> msum f m = msum g m"
  by (induction m) auto

lemma msum_zero: "(\<And>k v. (k, v) \<in> set m \<Longrightarrow> f k v = 0) \<Longrightarrow> msum f m = 0"
  by (induction m) auto

lemma msum_add: "msum (\<lambda>k v. f k v + g k v) m = msum f m + msum g m"
  by (induction m) (auto simp: ac_simps)

lemma msum_mset: "mset m = mset m' \<Longrightarrow> msum f m = msum f m'"
  unfolding msum_def by (metis mset_map sum_mset_sum_list)

text \<open>Two lists that represent the same map give the same sums: range order is irrelevant.\<close>

lemma mset_eq_of_mget:
  assumes "mwf m" and "mwf m'" and "\<And>k. mget m k = mget m' k"
  shows "mset m = mset m'"
proof -
  have "set m = set m'"
    using assms by (auto simp: mget_in_set)
  moreover have "distinct m" and "distinct m'"
    using assms by (auto simp: mwf_def distinct_map)
  ultimately show ?thesis by (simp add: set_eq_iff_mset_eq_distinct)
qed

lemma msum_order:
  "mwf m \<Longrightarrow> mwf m' \<Longrightarrow> (\<And>k. mget m k = mget m' k) \<Longrightarrow> msum f m = msum f m'"
  by (rule msum_mset) (rule mset_eq_of_mget)

section \<open>Decimal rendering\<close>

text \<open>\<^verbatim>\<open>strconv.FormatUint(n, 10)\<close> and the reading of decimal digits that inverts it.\<close>

definition digit_char :: "nat \<Rightarrow> char" where
  "digit_char n = char_of (48 + n)"

definition is_digit :: "char \<Rightarrow> bool" where
  "is_digit c \<longleftrightarrow> 48 \<le> (of_char c :: nat) \<and> (of_char c :: nat) \<le> 57"

fun format_uint :: "nat \<Rightarrow> string" where
  "format_uint n = (if n < 10 then [digit_char n] else format_uint (n div 10) @ [digit_char (n mod 10)])"

definition parse_digits :: "string \<Rightarrow> nat" where
  "parse_digits s = foldl (\<lambda>a c. 10 * a + (of_char c - 48)) 0 s"

declare format_uint.simps [simp del]

lemma of_char_digit [simp]: "n < 10 \<Longrightarrow> (of_char (digit_char n) :: nat) = 48 + n"
  by (simp add: digit_char_def)

lemma is_digit_digit_char [simp]: "n < 10 \<Longrightarrow> is_digit (digit_char n)"
  by (simp add: is_digit_def)

lemma format_uint_nonempty [simp]: "format_uint n \<noteq> []"
  by (subst format_uint.simps) simp

lemma format_uint_digits: "c \<in> set (format_uint n) \<Longrightarrow> is_digit c"
  by (induction n rule: format_uint.induct) (subst (asm) (2) format_uint.simps, auto split: if_splits)

lemma parse_format_uint [simp]: "parse_digits (format_uint n) = n"
proof (induction n rule: format_uint.induct)
  case (1 n)
  then show ?case by (subst format_uint.simps) (simp add: parse_digits_def)
qed

lemma format_uint_eq_iff [simp]: "format_uint m = format_uint n \<longleftrightarrow> m = n"
  by (metis parse_format_uint)

lemma format_uint_not_word: "\<not> is_digit (hd s) \<Longrightarrow> s \<noteq> [] \<Longrightarrow> format_uint n \<noteq> s"
  by (metis format_uint_digits list.set_sel(1))

section \<open>Lists and words\<close>

lemma fold_invariant_pres:
  assumes "P s" and "\<And>x s. x \<in> set xs \<Longrightarrow> P s \<Longrightarrow> P (f x s)"
  shows "P (fold f xs s)"
  using assms by (induction xs arbitrary: s) auto

text \<open>
  A \<^verbatim>\<open>range\<close> loop whose body changes only the row it visits: an invariant and a measure
  that every iteration keeps are kept by the loop.
\<close>

lemma range_loop_keeps:
  assumes "I s" and "distinct (map fst rows)"
    and "\<And>k v. (k, v) \<in> set rows \<Longrightarrow> look s k = Some v"
    and step: "\<And>k v s. I s \<Longrightarrow> look s k = Some v \<Longrightarrow>
      I (f (k, v) s) \<and> M (f (k, v) s) = M s \<and> (\<forall>k'. k' \<noteq> k \<longrightarrow> look (f (k, v) s) k' = look s k')"
  shows "I (fold f rows s) \<and> M (fold f rows s) = M s"
  using assms(1-3)
proof (induction rows arbitrary: s)
  case (Cons kv rows)
  obtain k v where kv: "kv = (k, v)" by (cases kv)
  have st: "I (f (k, v) s)" "M (f (k, v) s) = M s"
    "\<forall>k'. k' \<noteq> k \<longrightarrow> look (f (k, v) s) k' = look s k'"
    using step[of s k v] Cons.prems kv by auto
  have "look (f (k, v) s) k' = Some v'" if "(k', v') \<in> set rows" for k' v'
  proof -
    have "k' \<noteq> k" using that Cons.prems(2) kv by force
    then show ?thesis using st(3) Cons.prems(3)[of k' v'] that by simp
  qed
  from Cons.IH[OF st(1) _ this] Cons.prems(2) st(2) kv show ?case by simp
qed simp

lemma unat_eqD: "unat (a :: 'a::len word) = unat b \<Longrightarrow> a = b"
  by (simp add: word_unat_eq_iff)

lemma word_diff_nat: "b \<le> a \<Longrightarrow> unat (a - b :: 'a::len word) = unat a - unat b"
  by (simp add: unat_sub)

end
