(* ===== verification/Bpf_Abi.thy ===== *)
theory Bpf_Abi
  imports Go_Prelude
begin

text \<open>
  The kernel/userspace ABI (\<^verbatim>\<open>internal/bpf/schema.go\<close>, \<^verbatim>\<open>abi.go\<close>, \<^verbatim>\<open>stats.go\<close>):
  the flow key and flow metrics of \<^verbatim>\<open>telemetry_map\<close>, the zone, direction and L4 codes
  with their label strings, the packing of MACs, tenant values, trie keys and Amphora keys, the
  reader of the per-CPU failure counters and the map-size check of the loader.

  The codes stay 8-bit words because the WAL and the kernel may carry any byte; the map sizes are
  the constants the loader compares with the compiled object.
\<close>

unbundle bit_operations_syntax

section \<open>Types\<close>

datatype mac = Mac u8 u8 u8 u8 u8 u8

text \<open>
  The fields are those of the C structs in \<^verbatim>\<open>bpf/telemetry.c\<close>, which the generated Go
  mirrors copy.
\<close>

record flow_key =
  SrcMac :: mac
  DstMac :: mac
  EthProto :: u16
  Direction :: u8
  DstZone :: u8
  L4Proto :: u8
  Pad :: u8

record flow_metrics =
  Bytes :: u64
  Packets :: u64
  LastSeenNs :: u64
  CreatedNs :: u64

record lpm_key =
  Prefixlen :: u32
  LpmTenantId :: u32
  LpmIp :: u32

record amphora_key =
  AmpTenantId :: u32
  AmpIp :: u32

definition zero_metrics :: flow_metrics where
  "zero_metrics = \<lparr>Bytes = 0, Packets = 0, LastSeenNs = 0, CreatedNs = 0\<rparr>"

section \<open>Codes and their labels\<close>

definition ZoneExternal :: u8 where "ZoneExternal = 0"
definition ZoneSameTenant :: u8 where "ZoneSameTenant = 1"
definition ZoneOtherTenant :: u8 where "ZoneOtherTenant = 2"
definition ZoneInfra :: u8 where "ZoneInfra = 3"
definition ZoneMiss :: u8 where "ZoneMiss = 4"
definition ZoneShared :: u8 where "ZoneShared = 5"
definition ZoneMulticast :: u8 where "ZoneMulticast = 6"

definition DirectionIngress :: u8 where "DirectionIngress = 0"
definition DirectionEgress :: u8 where "DirectionEgress = 1"

definition L4ProtoUnknown :: u8 where "L4ProtoUnknown = 0"
definition L4ProtoTCP :: u8 where "L4ProtoTCP = 1"
definition L4ProtoUDP :: u8 where "L4ProtoUDP = 2"
definition L4ProtoICMP :: u8 where "L4ProtoICMP = 3"
definition L4ProtoOther :: u8 where "L4ProtoOther = 4"

definition StatUpdateFailure :: u32 where "StatUpdateFailure = 0"
definition StatSkippedEthertype :: u32 where "StatSkippedEthertype = 1"
definition statReasonCount :: nat where "statReasonCount = 2"

lemmas zone_codes = ZoneExternal_def ZoneSameTenant_def ZoneOtherTenant_def ZoneInfra_def
  ZoneMiss_def ZoneShared_def ZoneMulticast_def
lemmas dir_codes = DirectionIngress_def DirectionEgress_def
lemmas l4_codes = L4ProtoUnknown_def L4ProtoTCP_def L4ProtoUDP_def L4ProtoICMP_def L4ProtoOther_def
lemmas stat_codes = StatUpdateFailure_def StatSkippedEthertype_def

definition ZoneCode_String :: "u8 \<Rightarrow> string" where
  "ZoneCode_String z =
    (if z = ZoneExternal then ''external''
     else if z = ZoneSameTenant then ''same_tenant''
     else if z = ZoneOtherTenant then ''other_tenant''
     else if z = ZoneInfra then ''infra''
     else if z = ZoneMiss then ''miss''
     else if z = ZoneShared then ''shared''
     else if z = ZoneMulticast then ''multicast''
     else format_uint (unat z))"

definition L4Proto_String :: "u8 \<Rightarrow> string" where
  "L4Proto_String p =
    (if p = L4ProtoUnknown then ''unknown''
     else if p = L4ProtoTCP then ''tcp''
     else if p = L4ProtoUDP then ''udp''
     else if p = L4ProtoICMP then ''icmp''
     else if p = L4ProtoOther then ''other''
     else format_uint (unat p))"

definition Direction_String :: "u8 \<Rightarrow> string" where
  "Direction_String d =
    (if d = DirectionIngress then ''tx''
     else if d = DirectionEgress then ''rx''
     else format_uint (unat d))"

definition StatReason_String :: "u32 \<Rightarrow> string" where
  "StatReason_String r =
    (if r = StatUpdateFailure then ''update_failure''
     else if r = StatSkippedEthertype then ''skipped_ethertype''
     else format_uint (unat r))"

section \<open>Key packing\<close>

fun MACKey :: "mac \<Rightarrow> u64" where
  "MACKey (Mac a b c d e f) =
     push_bit 40 (ucast a) OR push_bit 32 (ucast b) OR push_bit 24 (ucast c) OR
     push_bit 16 (ucast d) OR push_bit 8 (ucast e) OR ucast f"

definition TenantAmphoraFlag :: u32 where "TenantAmphoraFlag = 0x80000000"
definition TenantIDMask :: u32 where "TenantIDMask = 0x7fffffff"

definition TenantValue :: "u32 \<Rightarrow> bool \<Rightarrow> u32" where
  "TenantValue tenantID isAmphora =
     (if isAmphora then tenantID OR TenantAmphoraFlag else tenantID)"

definition LpmKeyTenantBits :: u32 where "LpmKeyTenantBits = 32"

text \<open>
  \<^verbatim>\<open>netip.Addr\<close> as the code uses it: an IPv4 address (its 32-bit value, most significant
  byte first in \<^verbatim>\<open>As4\<close>), or any other address. A prefix is an address with a bit
  count. \<^verbatim>\<open>binary.NativeEndian\<close> depends on the host, so the byte order is an argument.
\<close>

datatype addr = Addr4 u32 | Addr6 "128 word" string

record prefix =
  PAddr :: addr
  PBits :: nat

datatype endian = Little | Big

definition As4 :: "u32 \<Rightarrow> u8 list" where
  "As4 a = [ucast (drop_bit 24 a), ucast (drop_bit 16 a), ucast (drop_bit 8 a), ucast a]"

definition be_uint32 :: "u8 list \<Rightarrow> u32" where
  "be_uint32 bs = fold (\<lambda>b acc. push_bit 8 acc OR ucast b) bs 0"

definition native_uint32 :: "endian \<Rightarrow> u8 list \<Rightarrow> u32" where
  "native_uint32 en bs = (case en of Big \<Rightarrow> be_uint32 bs | Little \<Rightarrow> be_uint32 (rev bs))"

definition native_bytes :: "endian \<Rightarrow> u32 \<Rightarrow> u8 list" where
  "native_bytes en w = (case en of Big \<Rightarrow> As4 w | Little \<Rightarrow> rev (As4 w))"

datatype 'a outcome = Ret 'a | Panic string

definition LpmKeyForPrefix :: "endian \<Rightarrow> u32 \<Rightarrow> prefix \<Rightarrow> lpm_key outcome" where
  "LpmKeyForPrefix en tenantID p =
    (case PAddr p of
       Addr6 _ _ \<Rightarrow> Panic ''LpmKeyForPrefix: IPv6 prefix unsupported''
     | Addr4 a \<Rightarrow> Ret \<lparr>Prefixlen = LpmKeyTenantBits + of_nat (PBits p),
                       LpmTenantId = tenantID,
                       LpmIp = native_uint32 en (As4 a)\<rparr>)"

definition AmphoraKeyForIP :: "endian \<Rightarrow> u32 \<Rightarrow> addr \<Rightarrow> amphora_key outcome" where
  "AmphoraKeyForIP en tenantID ad =
    (case ad of
       Addr6 _ _ \<Rightarrow> Panic ''AmphoraKeyForIP: IPv6 address unsupported''
     | Addr4 a \<Rightarrow> Ret \<lparr>AmpTenantId = tenantID, AmpIp = native_uint32 en (As4 a)\<rparr>)"

section \<open>Map sizes\<close>

definition MapTelemetryMaxEntries :: u32 where "MapTelemetryMaxEntries = 65536"
definition MapSubnetZoneTrieMaxEntries :: u32 where "MapSubnetZoneTrieMaxEntries = 16384"
definition MapMacTenantMaxEntries :: u32 where "MapMacTenantMaxEntries = 8192"
definition MapTelemetryStatsMaxEntries :: u32 where "MapTelemetryStatsMaxEntries = of_nat statReasonCount"
definition MapAmphoraBaseIPMaxEntries :: u32 where "MapAmphoraBaseIPMaxEntries = 1024"

definition map_size_checks :: "(string \<times> u32) list" where
  "map_size_checks =
    [(''telemetry_map'', MapTelemetryMaxEntries),
     (''mac_tenant_map'', MapMacTenantMaxEntries),
     (''subnet_zone_trie'', MapSubnetZoneTrieMaxEntries),
     (''telemetry_stats'', MapTelemetryStatsMaxEntries),
     (''amphora_base_ip'', MapAmphoraBaseIPMaxEntries)]"

datatype map_size_problem = NotPresent string | SizeDrift string u32 u32
datatype map_size_error = NilSpec | MapSizeDrift "map_size_problem list"

fun map_size_problems :: "(string, u32) gomap \<Rightarrow> (string \<times> u32) list \<Rightarrow> map_size_problem list" where
  "map_size_problems maps [] = []"
| "map_size_problems maps ((name, want) # cs) =
    (case mget maps name of
       None \<Rightarrow> NotPresent name # map_size_problems maps cs
     | Some got \<Rightarrow>
         if got \<noteq> want then SizeDrift name got want # map_size_problems maps cs
         else map_size_problems maps cs)"

definition ValidateMapSizes :: "(string, u32) gomap option \<Rightarrow> map_size_error option" where
  "ValidateMapSizes spec =
    (case spec of
       None \<Rightarrow> Some NilSpec
     | Some maps \<Rightarrow>
         (let problems = map_size_problems maps map_size_checks
          in if problems = [] then None else Some (MapSizeDrift problems)))"

section \<open>The stats reader\<close>

text \<open>
  The kernel map is an argument: \<^verbatim>\<open>lookup slot\<close> gives the per-CPU values of a slot or the
  error of the map call. The error carries the slot it failed on.
\<close>

datatype ('e) read_error = ReadError u32 'e

fun read_slots :: "(u32 \<Rightarrow> 'e + u64 list) \<Rightarrow> nat list \<Rightarrow> u64 list \<Rightarrow> 'e read_error + u64 list" where
  "read_slots lookup [] counts = Inr counts"
| "read_slots lookup (r # rs) counts =
    (case lookup (of_nat r) of
       Inl e \<Rightarrow> Inl (ReadError (of_nat r) e)
     | Inr buf \<Rightarrow> read_slots lookup rs (counts[r := sum_list buf]))"

definition StatsReader_Read :: "(u32 \<Rightarrow> 'e + u64 list) \<Rightarrow> 'e read_error + u64 list" where
  "StatsReader_Read lookup = read_slots lookup [0..<statReasonCount] (replicate statReasonCount 0)"

definition NewStatsReader :: "'m option \<Rightarrow> string + 'm" where
  "NewStatsReader m = (case m of None \<Rightarrow> Inl ''bpf: NewStatsReader: map is nil'' | Some h \<Rightarrow> Inr h)"

section \<open>Lemmas\<close>

lemma byte_field:
  fixes a :: u8
  assumes "j \<le> 56" and "j + 8 \<le> i \<or> i + 8 \<le> j \<or> i = j"
  shows "(ucast (drop_bit i (push_bit j (ucast a :: u64))) :: u8) = (if i = j then a else 0)"
proof (rule bit_word_eqI)
  fix n
  assume n: "n < LENGTH(8)"
  have "\<not> bit a m" if "8 \<le> m" for m
    using that bit_imp_le_length[of a m] by auto
  then show "bit (ucast (drop_bit i (push_bit j (ucast a :: u64))) :: u8) n =
      bit (if i = j then a else 0) n"
    using n assms by (auto simp: bit_simps)
qed

lemma byte_below:
  fixes a :: u8
  assumes "j + 8 \<le> n"
  shows "take_bit n (push_bit j (ucast a :: u64)) = push_bit j (ucast a)"
proof (rule bit_word_eqI)
  fix m
  have *: "\<not> bit a i" if "8 \<le> i" for i
    using that bit_imp_le_length[of a i] by auto
  have "m < n" if "j \<le> m" "bit a (m - j)"
    using that assms *[of "m - j"] by linarith
  then show "bit (take_bit n (push_bit j (ucast a :: u64))) m = bit (push_bit j (ucast a :: u64)) m"
    by (auto simp: bit_simps)
qed

lemma MACKey_fields:
  "MACKey (Mac a b c d e f) =
     push_bit 40 (ucast a) OR push_bit 32 (ucast b) OR push_bit 24 (ucast c) OR
     push_bit 16 (ucast d) OR push_bit 8 (ucast e) OR push_bit 0 (ucast f)"
  by simp

lemma MACKey_bytes:
  "ucast (drop_bit 40 (MACKey (Mac a b c d e f))) = a"
  "ucast (drop_bit 32 (MACKey (Mac a b c d e f))) = b"
  "ucast (drop_bit 24 (MACKey (Mac a b c d e f))) = c"
  "ucast (drop_bit 16 (MACKey (Mac a b c d e f))) = d"
  "ucast (drop_bit 8 (MACKey (Mac a b c d e f))) = e"
  "ucast (drop_bit 0 (MACKey (Mac a b c d e f))) = f"
  unfolding MACKey_fields drop_bit_or unsigned_or_eq by (simp_all add: byte_field
      byte_field[where j = 0, simplified] byte_field[where i = 0, simplified]
      byte_field[where i = 0 and j = 0, simplified])

lemma MACKey_eq_iff [simp]: "MACKey m = MACKey m' \<longleftrightarrow> m = m'"
proof (cases m; cases m')
  fix a b c d e f a' b' c' d' e' f'
  assume m: "m = Mac a b c d e f" and m': "m' = Mac a' b' c' d' e' f'"
  have "m = m'" if "MACKey m = MACKey m'"
    using that m m' MACKey_bytes[of a b c d e f] MACKey_bytes[of a' b' c' d' e' f']
    by (simp del: MACKey.simps)
  then show ?thesis by auto
qed

lemma MACKey_48: "unat (MACKey m) < 2 ^ 48"
proof (cases m)
  case (Mac a b c d e f)
  have "take_bit 48 (MACKey m) = MACKey m"
    unfolding Mac MACKey_fields by (simp only: take_bit_or) (simp only: byte_below)
  then show ?thesis
    by (metis take_bit_nat_less_exp unsigned_take_bit_eq)
qed

lemma flag_bits [simp]:
  "TenantAmphoraFlag AND TenantIDMask = 0" "TenantAmphoraFlag \<noteq> 0"
  by (simp_all add: TenantAmphoraFlag_def TenantIDMask_def)

lemma TenantValue_mask:
  "TenantValue t b AND TenantIDMask = t AND TenantIDMask"
  unfolding TenantValue_def by (simp add: bit.conj_disj_distrib2)

lemma TenantValue_flag:
  assumes "t AND TenantIDMask = t"
  shows "TenantValue t b AND TenantAmphoraFlag \<noteq> 0 \<longleftrightarrow> b"
proof -
  have "t AND TenantAmphoraFlag = t AND (TenantIDMask AND TenantAmphoraFlag)"
    by (metis assms and.assoc)
  then have "t AND TenantAmphoraFlag = 0"
    by (simp add: and.commute[of TenantIDMask])
  then show ?thesis
    by (simp add: TenantValue_def bit.conj_disj_distrib2)
qed

lemma be_uint32_As4: "be_uint32 (As4 a) = a"
proof (rule bit_word_eqI)
  fix n
  assume "n < LENGTH(32)"
  then have "n < 8 \<or> (8 \<le> n \<and> n < 16) \<or> (16 \<le> n \<and> n < 24) \<or> (24 \<le> n \<and> n < 32)"
    by auto
  then show "bit (be_uint32 (As4 a)) n = bit a n"
    unfolding be_uint32_def As4_def by (elim disjE) (auto simp: bit_simps)
qed

lemma As4_be_uint32:
  assumes "length bs = 4"
  shows "As4 (be_uint32 bs) = bs"
proof -
  obtain a b c d where bs: "bs = [a, b, c, d]"
    using assms by (auto simp: length_Suc_conv numeral_eq_Suc)
  have "\<not> bit (w :: u8) m" if "8 \<le> m" for w m
    using that bit_imp_le_length[of w m] by auto
  then show ?thesis
    unfolding bs As4_def be_uint32_def by (auto intro!: bit_word_eqI simp: bit_simps)
qed

lemma native_bytes_native_uint32: "length bs = 4 \<Longrightarrow> native_bytes en (native_uint32 en bs) = bs"
  by (cases en) (simp_all add: native_bytes_def native_uint32_def As4_be_uint32)

lemma native_uint32_inj:
  "length bs = 4 \<Longrightarrow> length bs' = 4 \<Longrightarrow> native_uint32 en bs = native_uint32 en bs' \<longleftrightarrow> bs = bs'"
  by (metis native_bytes_native_uint32)

lemma length_As4 [simp]: "length (As4 a) = 4"
  by (simp add: As4_def)

lemma As4_inj [simp]: "As4 a = As4 b \<longleftrightarrow> a = b"
  by (metis be_uint32_As4)

subsection \<open>Labels\<close>

lemma label_not_number:
  "\<not> is_digit (hd s) \<Longrightarrow> s \<noteq> [] \<Longrightarrow> (format_uint n = s) = False"
  "\<not> is_digit (hd s) \<Longrightarrow> s \<noteq> [] \<Longrightarrow> (s = format_uint n) = False"
  using format_uint_not_word by metis+

lemma label_eq_number [simp]:
  "\<not> is_digit c \<Longrightarrow> (c # s = format_uint n) = False"
  "\<not> is_digit c \<Longrightarrow> (format_uint n = c # s) = False"
  using label_not_number[of "c # s" n] by simp_all

lemma ZoneCode_String_eq_iff: "ZoneCode_String z = ZoneCode_String z' \<longleftrightarrow> z = z'"
  unfolding ZoneCode_String_def by (auto simp: is_digit_def dest!: unat_eqD split: if_splits)

lemma Direction_String_eq_iff: "Direction_String d = Direction_String d' \<longleftrightarrow> d = d'"
  unfolding Direction_String_def by (auto simp: is_digit_def dest!: unat_eqD split: if_splits)

lemma L4Proto_String_eq_iff: "L4Proto_String p = L4Proto_String p' \<longleftrightarrow> p = p'"
  unfolding L4Proto_String_def by (auto simp: is_digit_def dest!: unat_eqD split: if_splits)

lemma StatReason_String_eq_iff: "StatReason_String r = StatReason_String r' \<longleftrightarrow> r = r'"
  unfolding StatReason_String_def by (auto simp: is_digit_def dest!: unat_eqD split: if_splits)

subsection \<open>Map sizes and the stats reader\<close>

lemma map_size_problems_Nil_iff:
  "map_size_problems maps cs = [] \<longleftrightarrow> (\<forall>(name, want) \<in> set cs. mget maps name = Some want)"
  by (induction maps cs rule: map_size_problems.induct) (auto split: option.splits)

lemma ValidateMapSizes_ok:
  "ValidateMapSizes (Some maps) = None \<longleftrightarrow>
     (\<forall>(name, want) \<in> set map_size_checks. mget maps name = Some want)"
  by (simp add: ValidateMapSizes_def Let_def map_size_problems_Nil_iff)

lemma read_slots_error:
  "read_slots lookup rs counts = Inl (ReadError r e) \<Longrightarrow>
     \<exists>i \<in> set rs. r = of_nat i \<and> lookup r = Inl e"
  by (induction lookup rs counts rule: read_slots.induct) (auto split: sum.splits)

lemma read_slots_ok:
  assumes "read_slots lookup rs counts = Inr counts'" and "distinct rs"
    and "i \<in> set rs" and "i < length counts"
  shows "\<exists>buf. lookup (of_nat i) = Inr buf \<and> counts' ! i = sum_list buf"
proof -
  have other: "read_slots lookup rs counts = Inr counts' \<Longrightarrow> j \<notin> set rs \<Longrightarrow> counts' ! j = counts ! j"
    for lookup :: "u32 \<Rightarrow> 'a + u64 list" and rs counts j
    by (induction lookup rs counts rule: read_slots.induct) (auto split: sum.splits)
  show ?thesis using assms
  proof (induction lookup rs counts rule: read_slots.induct)
    case (2 lookup r rs counts)
    then obtain buf where buf: "lookup (of_nat r) = Inr buf"
      by (auto split: sum.splits)
    with 2 show ?case
      by (cases "i = r") (auto dest: other)
  qed simp
qed

end
