(* ===== verification/Global_State.thy ===== *)
theory Global_State
  imports Bpf_Abi
begin

text \<open>
  The authoritative counter store (\<^verbatim>\<open>internal/state/schema.go\<close> and \<^verbatim>\<open>state.go\<close>): live flow
  rows with their delta-math baselines, the tenant, server and total accumulators that absorb the
  bytes of rows and buckets whose owner goes away, and every operation on them.

  The mutex of \<^verbatim>\<open>GlobalState\<close> is held for the whole body of every method, so each method is
  one atomic function of the state record. The counters are 64-bit words and \<^term>\<open>(+)\<close> wraps as it
  does in Go.
\<close>

section \<open>Data\<close>

record counter =
  Total :: flow_metrics
  LastEbpfRaw :: flow_metrics

record entry =
  EKey :: flow_key
  ETotal :: flow_metrics

record owner =
  OTenant :: string
  OExtNet :: string
  OServer :: string

record flow_record =
  RKey :: flow_key
  RCounter :: counter
  ROwner :: owner

record tenant_settled_key =
  TsTenant :: string
  TsExtNet :: string
  TsZone :: u8
  TsDir :: u8

record server_settled_key =
  SsServerID :: string
  SsTenant :: string
  SsExtNet :: string
  SsZone :: u8
  SsDir :: u8

record total_settled_key =
  ToExtNet :: string
  ToZone :: u8
  ToDir :: u8

record settledTotal =
  sbytes :: u64
  spackets :: u64

text \<open>The three copy-out record types differ only in the type of their key.\<close>

record 'k settled_record =
  SKey :: 'k
  SBytes :: u64
  SPackets :: u64

type_synonym tenant_settled_record = "tenant_settled_key settled_record"
type_synonym server_settled_record = "server_settled_key settled_record"
type_synonym total_settled_record = "total_settled_key settled_record"

datatype settle_mode = SettleEvict | SettleRebase

record global_state =
  counts :: "(flow_key, counter) gomap"
  tenantSettled :: "(tenant_settled_key, settledTotal) gomap"
  serverSettled :: "(server_settled_key, settledTotal) gomap"
  totalSettled :: "(total_settled_key, settledTotal) gomap"

text \<open>A resolver callback: tenant, external network and server, or nothing.\<close>

type_synonym attribution3 = "string \<times> string \<times> string"
type_synonym settle_resolver = "flow_key \<Rightarrow> attribution3 option"

definition zero_owner :: owner where
  "zero_owner = \<lparr>OTenant = [], OExtNet = [], OServer = []\<rparr>"

definition New :: global_state where
  "New = \<lparr>counts = [], tenantSettled = [], serverSettled = [], totalSettled = []\<rparr>"

section \<open>Operations\<close>

text \<open>\<^verbatim>\<open>AddDelta(total, lastRaw, current)\<close> returns the new values of both pointers.\<close>

definition AddDelta :: "u64 \<Rightarrow> u64 \<Rightarrow> u64 \<Rightarrow> u64 \<times> u64" where
  "AddDelta tot lastRaw current =
    ((if current \<ge> lastRaw then tot + (current - lastRaw) else tot + current), current)"

definition add_deltas :: "flow_metrics \<Rightarrow> counter \<Rightarrow> counter" where
  "add_deltas raw c =
    (let (tb, lb) = AddDelta (Bytes (Total c)) (Bytes (LastEbpfRaw c)) (Bytes raw);
         (tp, lp) = AddDelta (Packets (Total c)) (Packets (LastEbpfRaw c)) (Packets raw)
     in c\<lparr>Total := (Total c)\<lparr>Bytes := tb, Packets := tp\<rparr>,
          LastEbpfRaw := (LastEbpfRaw c)\<lparr>Bytes := lb, Packets := lp\<rparr>\<rparr>)"

definition take_whole :: "flow_metrics \<Rightarrow> counter \<Rightarrow> counter" where
  "take_whole raw c =
    c\<lparr>Total := (Total c)\<lparr>Bytes := Bytes (Total c) + Bytes raw, Packets := Packets (Total c) + Packets raw\<rparr>,
      LastEbpfRaw := (LastEbpfRaw c)\<lparr>Bytes := Bytes raw, Packets := Packets raw\<rparr>\<rparr>"

definition bump_seen :: "u64 \<Rightarrow> flow_metrics \<Rightarrow> flow_metrics" where
  "bump_seen ns m = (if ns > LastSeenNs m then m\<lparr>LastSeenNs := ns\<rparr> else m)"

definition counter_step :: "flow_metrics \<Rightarrow> counter \<Rightarrow> counter" where
  "counter_step raw c =
    (let c1 = (if CreatedNs (LastEbpfRaw c) = 0 then add_deltas raw c
               else if CreatedNs raw \<noteq> CreatedNs (LastEbpfRaw c) then take_whole raw c
               else add_deltas raw c)
     in c1\<lparr>Total := bump_seen (LastSeenNs raw) (Total c1),
           LastEbpfRaw := (LastEbpfRaw c1)\<lparr>LastSeenNs := LastSeenNs raw, CreatedNs := CreatedNs raw\<rparr>\<rparr>)"

definition ApplyDelta :: "flow_key \<Rightarrow> flow_metrics \<Rightarrow> global_state \<Rightarrow> global_state" where
  "ApplyDelta key raw g =
    (case mget (counts g) key of
       None \<Rightarrow> g\<lparr>counts := mput key \<lparr>Total = raw, LastEbpfRaw = raw\<rparr> (counts g)\<rparr>
     | Some c \<Rightarrow> g\<lparr>counts := mput key (counter_step raw c) (counts g)\<rparr>)"

definition fold_total :: "flow_metrics \<Rightarrow> counter \<Rightarrow> counter" where
  "fold_total m c =
    c\<lparr>Total := bump_seen (LastSeenNs m)
        ((Total c)\<lparr>Bytes := Bytes (Total c) + Bytes m, Packets := Packets (Total c) + Packets m\<rparr>)\<rparr>"

definition Add :: "flow_key \<Rightarrow> flow_metrics \<Rightarrow> global_state \<Rightarrow> global_state" where
  "Add key m g =
    (case mget (counts g) key of
       None \<Rightarrow> g\<lparr>counts := mput key \<lparr>Total = m, LastEbpfRaw = zero_metrics\<rparr> (counts g)\<rparr>
     | Some c \<Rightarrow> g\<lparr>counts := mput key (fold_total m c) (counts g)\<rparr>)"

definition Resolve :: "flow_key \<Rightarrow> flow_metrics \<Rightarrow> flow_metrics \<Rightarrow> global_state \<Rightarrow> global_state" where
  "Resolve key tot lastRaw g =
    (case mget (counts g) key of
       None \<Rightarrow> g\<lparr>counts := mput key \<lparr>Total = tot, LastEbpfRaw = lastRaw\<rparr> (counts g)\<rparr>
     | Some c \<Rightarrow> g\<lparr>counts := mput key ((fold_total tot c)\<lparr>LastEbpfRaw := lastRaw\<rparr>) (counts g)\<rparr>)"

text \<open>Crediting a bucket, which is created empty when it is missing.\<close>

definition credit :: "'k \<Rightarrow> u64 \<Rightarrow> u64 \<Rightarrow> ('k, settledTotal) gomap \<Rightarrow> ('k, settledTotal) gomap" where
  "credit k b p m =
    (let t = (case mget m k of None \<Rightarrow> \<lparr>sbytes = 0, spackets = 0\<rparr> | Some t \<Rightarrow> t)
     in mput k (t\<lparr>sbytes := sbytes t + b, spackets := spackets t + p\<rparr>) m)"

definition zero_total :: "counter \<Rightarrow> counter" where
  "zero_total c = c\<lparr>Total := (Total c)\<lparr>Bytes := 0, Packets := 0\<rparr>\<rparr>"

text \<open>
  One iteration of \<^verbatim>\<open>for k, c := range g.counts\<close> in \<^verbatim>\<open>Settle\<close>. The loop changes only the
  row it visits, so the counter it visits is the one the loop started with.
\<close>

fun settle_row :: "settle_mode \<Rightarrow> settle_resolver \<Rightarrow> flow_key \<times> counter \<Rightarrow>
    global_state \<times> nat \<Rightarrow> global_state \<times> nat" where
  "settle_row mode resolve (k, c) (g, folded) =
    (case resolve k of
       None \<Rightarrow> (g, folded)
     | Some (tenant, extNet, server) \<Rightarrow>
         (let b = Bytes (Total c);
              p = Packets (Total c);
              sk = \<lparr>TsTenant = tenant, TsExtNet = extNet, TsZone = DstZone k, TsDir = Direction k\<rparr>;
              g1 = g\<lparr>tenantSettled := credit sk b p (tenantSettled g)\<rparr>;
              ck = \<lparr>SsServerID = server, SsTenant = tenant, SsExtNet = extNet,
                    SsZone = DstZone k, SsDir = Direction k\<rparr>;
              g2 = (if server \<noteq> [] then g1\<lparr>serverSettled := credit ck b p (serverSettled g1)\<rparr> else g1);
              g3 = (case mode of
                      SettleEvict \<Rightarrow> g2\<lparr>counts := mdel k (counts g2)\<rparr>
                    | SettleRebase \<Rightarrow> g2\<lparr>counts := mput k (zero_total c) (counts g2)\<rparr>)
          in (g3, Suc folded)))"

definition Settle :: "settle_mode \<Rightarrow> settle_resolver \<Rightarrow> global_state \<Rightarrow> global_state \<times> nat" where
  "Settle mode resolve g = fold (settle_row mode resolve) (counts g) (g, 0)"

definition Snapshot :: "entry list \<Rightarrow> global_state \<Rightarrow> entry list" where
  "Snapshot dst g = dst @ map (\<lambda>(k, c). \<lparr>EKey = k, ETotal = Total c\<rparr>) (counts g)"

definition copy_out :: "('k, settledTotal) gomap \<Rightarrow> 'k settled_record list" where
  "copy_out m = map (\<lambda>(k, t). \<lparr>SKey = k, SBytes = sbytes t, SPackets = spackets t\<rparr>) m"

definition SnapshotWithSettled ::
  "entry list \<Rightarrow> tenant_settled_record list \<Rightarrow> server_settled_record list \<Rightarrow> total_settled_record list \<Rightarrow>
   global_state \<Rightarrow>
   entry list \<times> tenant_settled_record list \<times> server_settled_record list \<times> total_settled_record list" where
  "SnapshotWithSettled flows settled server tot g =
    (flows @ map (\<lambda>(k, c). \<lparr>EKey = k, ETotal = Total c\<rparr>) (counts g),
     settled @ copy_out (tenantSettled g),
     server @ copy_out (serverSettled g),
     tot @ copy_out (totalSettled g))"

definition SnapshotForWAL ::
  "flow_record list \<Rightarrow> tenant_settled_record list \<Rightarrow> server_settled_record list \<Rightarrow> total_settled_record list \<Rightarrow>
   global_state \<Rightarrow>
   flow_record list \<times> tenant_settled_record list \<times> server_settled_record list \<times> total_settled_record list" where
  "SnapshotForWAL flows settled server tot g =
    (flows @ map (\<lambda>(k, c). \<lparr>RKey = k, RCounter = c, ROwner = zero_owner\<rparr>) (counts g),
     settled @ copy_out (tenantSettled g),
     server @ copy_out (serverSettled g),
     tot @ copy_out (totalSettled g))"

definition Len :: "global_state \<Rightarrow> nat" where
  "Len g = length (counts g)"

definition TenantSettledLen :: "global_state \<Rightarrow> nat" where
  "TenantSettledLen g = length (tenantSettled g)"

definition ServerSettledLen :: "global_state \<Rightarrow> nat" where
  "ServerSettledLen g = length (serverSettled g)"

definition TotalSettledLen :: "global_state \<Rightarrow> nat" where
  "TotalSettledLen g = length (totalSettled g)"

definition Restore :: "flow_record list \<Rightarrow> global_state \<Rightarrow> global_state" where
  "Restore records g = g\<lparr>counts := mputs (map (\<lambda>r. (RKey r, RCounter r)) records) (counts g)\<rparr>"

definition load_settled :: "'k settled_record list \<Rightarrow> ('k, settledTotal) gomap \<Rightarrow> ('k, settledTotal) gomap" where
  "load_settled records m =
    mputs (map (\<lambda>r. (SKey r, \<lparr>sbytes = SBytes r, spackets = SPackets r\<rparr>)) records) m"

definition RestoreTenantSettled :: "tenant_settled_record list \<Rightarrow> global_state \<Rightarrow> global_state" where
  "RestoreTenantSettled records g = g\<lparr>tenantSettled := load_settled records (tenantSettled g)\<rparr>"

definition RestoreServerSettled :: "server_settled_record list \<Rightarrow> global_state \<Rightarrow> global_state" where
  "RestoreServerSettled records g = g\<lparr>serverSettled := load_settled records (serverSettled g)\<rparr>"

definition RestoreTotalSettled :: "total_settled_record list \<Rightarrow> global_state \<Rightarrow> global_state" where
  "RestoreTotalSettled records g = g\<lparr>totalSettled := load_settled records (totalSettled g)\<rparr>"

text \<open>The alive set of a prune is the key set of a Go map, here a list of names.\<close>

fun prune_server_row :: "string list \<Rightarrow> server_settled_key \<times> settledTotal \<Rightarrow>
    global_state \<times> nat \<Rightarrow> global_state \<times> nat" where
  "prune_server_row alive (k, t) (g, dropped) =
    (if SsServerID k \<notin> set alive then (g\<lparr>serverSettled := mdel k (serverSettled g)\<rparr>, Suc dropped)
     else (g, dropped))"

definition PruneServerSettled :: "string list \<Rightarrow> global_state \<Rightarrow> global_state \<times> nat" where
  "PruneServerSettled alive g = fold (prune_server_row alive) (serverSettled g) (g, 0)"

fun prune_tenant_row :: "string list \<Rightarrow> tenant_settled_key \<times> settledTotal \<Rightarrow>
    global_state \<times> nat \<Rightarrow> global_state \<times> nat" where
  "prune_tenant_row alive (k, t) (g, dropped) =
    (if TsTenant k \<in> set alive then (g, dropped)
     else (let tk = \<lparr>ToExtNet = TsExtNet k, ToZone = TsZone k, ToDir = TsDir k\<rparr>
           in (g\<lparr>totalSettled := credit tk (sbytes t) (spackets t) (totalSettled g),
                 tenantSettled := mdel k (tenantSettled g)\<rparr>, Suc dropped)))"

definition PruneTenantSettled :: "string list \<Rightarrow> global_state \<Rightarrow> global_state \<times> nat" where
  "PruneTenantSettled alive g = fold (prune_tenant_row alive) (tenantSettled g) (g, 0)"

section \<open>Delta math over the life of kernel entries\<close>

text \<open>
  An epoch is the life of one kernel entry of a key: its creation stamp and the readings
  (bytes, packets, last seen) the scraper took of it, in order. Counters of one entry never
  decrease; consecutive entries have different stamps.
\<close>

type_synonym epoch = "u64 \<times> (u64 \<times> u64 \<times> u64) list"

definition reading :: "u64 \<Rightarrow> u64 \<times> u64 \<times> u64 \<Rightarrow> flow_metrics" where
  "reading created r = (case r of (b, p, seen) \<Rightarrow>
     \<lparr>Bytes = b, Packets = p, LastSeenNs = seen, CreatedNs = created\<rparr>)"

definition epoch_readings :: "epoch \<Rightarrow> flow_metrics list" where
  "epoch_readings e = (case e of (created, rs) \<Rightarrow> map (reading created) rs)"

fun epochs_ok :: "u64 \<Rightarrow> epoch list \<Rightarrow> bool" where
  "epochs_ok prev [] = True"
| "epochs_ok prev ((created, rs) # es) \<longleftrightarrow>
     created \<noteq> 0 \<and> created \<noteq> prev \<and> rs \<noteq> [] \<and>
     sorted (map fst rs) \<and> sorted (map (\<lambda>r. fst (snd r)) rs) \<and> epochs_ok created es"

lemma reading_simps [simp]:
  "Bytes (reading created r) = fst r" "Packets (reading created r) = fst (snd r)"
  "LastSeenNs (reading created r) = snd (snd r)" "CreatedNs (reading created r) = created"
  by (simp_all add: reading_def split: prod.splits)

lemma LastEbpfRaw_counter_step [simp]: "LastEbpfRaw (counter_step raw c) = raw"
  by (simp add: counter_step_def Let_def add_deltas_def take_whole_def AddDelta_def)

lemma bump_seen_same [simp]: "Bytes (bump_seen ns m) = Bytes m" "Packets (bump_seen ns m) = Packets m"
  by (simp_all add: bump_seen_def)

definition reading_delta :: "flow_metrics \<Rightarrow> flow_metrics \<Rightarrow> u64 \<times> u64" where
  "reading_delta l raw =
    (if CreatedNs l \<noteq> 0 \<and> CreatedNs raw \<noteq> CreatedNs l then (Bytes raw, Packets raw)
     else (if Bytes raw \<ge> Bytes l then Bytes raw - Bytes l else Bytes raw,
           if Packets raw \<ge> Packets l then Packets raw - Packets l else Packets raw))"

lemma counter_step_delta:
  "Bytes (Total (counter_step raw c)) = Bytes (Total c) + fst (reading_delta (LastEbpfRaw c) raw)"
  "Packets (Total (counter_step raw c)) = Packets (Total c) + snd (reading_delta (LastEbpfRaw c) raw)"
  by (simp_all add: counter_step_def Let_def add_deltas_def take_whole_def AddDelta_def reading_delta_def)

lemma fold_counter_step_same:
  assumes "sorted (Bytes (LastEbpfRaw c) # map fst rs)"
    and "sorted (Packets (LastEbpfRaw c) # map (\<lambda>r. fst (snd r)) rs)"
    and "CreatedNs (LastEbpfRaw c) = created"
  shows "Bytes (Total (fold counter_step (map (reading created) rs) c)) =
      Bytes (Total c) + (last (Bytes (LastEbpfRaw c) # map fst rs) - Bytes (LastEbpfRaw c)) \<and>
    Packets (Total (fold counter_step (map (reading created) rs) c)) =
      Packets (Total c) + (last (Packets (LastEbpfRaw c) # map (\<lambda>r. fst (snd r)) rs) - Packets (LastEbpfRaw c))"
  using assms
proof (induction rs arbitrary: c)
  case (Cons r rs)
  obtain b p sn where r: "r = (b, p, sn)" by (cases r)
  let ?c = "counter_step (reading created r) c"
  have d: "reading_delta (LastEbpfRaw c) (reading created r) =
      (b - Bytes (LastEbpfRaw c), p - Packets (LastEbpfRaw c))"
    using Cons.prems by (simp add: reading_delta_def r)
  have "Bytes (Total (fold counter_step (map (reading created) rs) ?c)) =
        Bytes (Total ?c) + (last (b # map fst rs) - b) \<and>
      Packets (Total (fold counter_step (map (reading created) rs) ?c)) =
        Packets (Total ?c) + (last (p # map (\<lambda>r. fst (snd r)) rs) - p)"
    using Cons.IH[of ?c] Cons.prems r by simp
  then show ?case by (simp add: r counter_step_delta d[unfolded r])
qed simp

lemma LastEbpfRaw_fold: "raws \<noteq> [] \<Longrightarrow> LastEbpfRaw (fold counter_step raws c) = last raws"
  by (induction raws arbitrary: c rule: rev_induct) simp_all

lemma fold_epochs:
  assumes "epochs_ok (CreatedNs (LastEbpfRaw c)) es" and "CreatedNs (LastEbpfRaw c) \<noteq> 0"
  shows "Bytes (Total (fold counter_step (concat (map epoch_readings es)) c)) =
      Bytes (Total c) + (\<Sum>(created, rs) \<leftarrow> es. fst (last rs)) \<and>
    Packets (Total (fold counter_step (concat (map epoch_readings es)) c)) =
      Packets (Total c) + (\<Sum>(created, rs) \<leftarrow> es. fst (snd (last rs)))"
  using assms
proof (induction es arbitrary: c)
  case (Cons e es)
  obtain created rs where e: "e = (created, rs)" by (cases e)
  with Cons.prems obtain r rs' where rs: "rs = r # rs'" by (cases rs) auto
  obtain b p sn where r: "r = (b, p, sn)" by (cases r)
  let ?c1 = "counter_step (reading created r) c"
  let ?c2 = "fold counter_step (map (reading created) rs') ?c1"
  have l1: "LastEbpfRaw ?c1 = reading created r" by simp
  have f1: "Bytes (Total ?c1) = Bytes (Total c) + b" "Packets (Total ?c1) = Packets (Total c) + p"
    using Cons.prems e by (simp_all add: counter_step_delta reading_delta_def r)
  have s: "Bytes (Total ?c2) = Bytes (Total c) + fst (last rs) \<and>
      Packets (Total ?c2) = Packets (Total c) + fst (snd (last rs))"
    using fold_counter_step_same[of ?c1 rs' created] Cons.prems e rs r f1
    by (cases "rs' = []") (simp_all add: last_map)
  have cr: "CreatedNs (LastEbpfRaw ?c2) = created"
    by (cases "rs' = []") (simp_all add: LastEbpfRaw_fold last_map)
  have "epochs_ok (CreatedNs (LastEbpfRaw ?c2)) es" "CreatedNs (LastEbpfRaw ?c2) \<noteq> 0"
    using Cons.prems e by (simp_all add: cr)
  from Cons.IH[OF this] s show ?case
    by (simp add: e rs epoch_readings_def algebra_simps)
qed simp

lemma mget_counts_ApplyDelta:
  "mget (counts (ApplyDelta key raw g)) k =
    (if k = key then Some (case mget (counts g) key of None \<Rightarrow> \<lparr>Total = raw, LastEbpfRaw = raw\<rparr>
                           | Some c \<Rightarrow> counter_step raw c)
     else mget (counts g) k)"
  by (simp add: ApplyDelta_def split: option.splits)

lemma mget_counts_Add:
  "mget (counts (Add key m g)) k =
    (if k = key then Some (case mget (counts g) key of None \<Rightarrow> \<lparr>Total = m, LastEbpfRaw = zero_metrics\<rparr>
                           | Some c \<Rightarrow> fold_total m c)
     else mget (counts g) k)"
  by (simp add: Add_def split: option.splits)

lemma mget_counts_Resolve:
  "mget (counts (Resolve key t l g)) k =
    (if k = key then Some (case mget (counts g) key of None \<Rightarrow> \<lparr>Total = t, LastEbpfRaw = l\<rparr>
                           | Some c \<Rightarrow> (fold_total t c)\<lparr>LastEbpfRaw := l\<rparr>)
     else mget (counts g) k)"
  by (simp add: Resolve_def split: option.splits)

lemma mget_fold_ApplyDelta:
  "mget (counts g) key = Some c \<Longrightarrow>
   mget (counts (fold (ApplyDelta key) raws g)) key = Some (fold counter_step raws c)"
  by (induction raws arbitrary: g c) (simp_all add: mget_counts_ApplyDelta)

lemma mget_fold_ApplyDelta_other:
  "k \<noteq> key \<Longrightarrow> mget (counts (fold (ApplyDelta key) raws g)) k = mget (counts g) k"
  by (induction raws arbitrary: g) (simp_all add: mget_counts_ApplyDelta)

lemma epochs_ok_nonempty: "epochs_ok prev es \<Longrightarrow> e \<in> set es \<Longrightarrow> snd e \<noteq> []"
  by (induction prev es rule: epochs_ok.induct) auto

lemma LastEbpfRaw_fold': "LastEbpfRaw (fold counter_step raws c) = last (LastEbpfRaw c # raws)"
  by (cases "raws = []") (simp_all add: LastEbpfRaw_fold)

lemma last_epoch_reading:
  assumes "epochs_ok prev es" and "es \<noteq> []"
  shows "last (concat (map epoch_readings es)) = last (epoch_readings (last es))"
proof -
  have "epoch_readings (last es) \<noteq> []"
    using epochs_ok_nonempty[OF assms(1), of "last es"] assms(2)
    by (auto simp: epoch_readings_def split: prod.splits)
  then show ?thesis
    using assms(2) by (induction es rule: rev_induct) auto
qed

section \<open>Well-formedness\<close>

definition gs_wf :: "global_state \<Rightarrow> bool" where
  "gs_wf g \<longleftrightarrow> mwf (counts g) \<and> mwf (tenantSettled g) \<and> mwf (serverSettled g) \<and> mwf (totalSettled g)"

lemma gs_wfI [intro]:
  "mwf (counts g) \<Longrightarrow> mwf (tenantSettled g) \<Longrightarrow> mwf (serverSettled g) \<Longrightarrow> mwf (totalSettled g) \<Longrightarrow> gs_wf g"
  by (simp add: gs_wf_def)

lemma gs_wfD [dest]:
  assumes "gs_wf g"
  shows "mwf (counts g)" "mwf (tenantSettled g)" "mwf (serverSettled g)" "mwf (totalSettled g)"
  using assms by (simp_all add: gs_wf_def)

lemma mwf_credit [simp, intro]: "mwf m \<Longrightarrow> mwf (credit k b p m)"
  by (simp add: credit_def Let_def)

lemma gs_wf_New [simp]: "gs_wf New"
  by (simp add: gs_wf_def New_def)

lemma gs_wf_ApplyDelta [simp]: "gs_wf g \<Longrightarrow> gs_wf (ApplyDelta k r g)"
  by (auto simp: gs_wf_def ApplyDelta_def split: option.splits)

lemma gs_wf_Add [simp]: "gs_wf g \<Longrightarrow> gs_wf (Add k m g)"
  by (auto simp: gs_wf_def Add_def split: option.splits)

lemma gs_wf_Resolve [simp]: "gs_wf g \<Longrightarrow> gs_wf (Resolve k t l g)"
  by (auto simp: gs_wf_def Resolve_def split: option.splits)

lemma gs_wf_settle_row: "gs_wf (fst gn) \<Longrightarrow> gs_wf (fst (settle_row mode res kc gn))"
  by (cases kc; cases gn; cases mode)
     (auto simp: gs_wf_def Let_def split: option.splits prod.splits)

lemma gs_wf_Settle [simp]: "gs_wf g \<Longrightarrow> gs_wf (fst (Settle mode res g))"
  unfolding Settle_def
  by (rule fold_invariant_pres[where P = "\<lambda>gn. gs_wf (fst gn)"]) (auto intro: gs_wf_settle_row)

lemma gs_wf_Restore [simp]: "gs_wf g \<Longrightarrow> gs_wf (Restore rs g)"
  by (auto simp: gs_wf_def Restore_def)

lemma mwf_load_settled [simp]: "mwf m \<Longrightarrow> mwf (load_settled rs m)"
  by (simp add: load_settled_def)

lemma gs_wf_RestoreSettled [simp]:
  "gs_wf g \<Longrightarrow> gs_wf (RestoreTenantSettled ts g)"
  "gs_wf g \<Longrightarrow> gs_wf (RestoreServerSettled ss g)"
  "gs_wf g \<Longrightarrow> gs_wf (RestoreTotalSettled tos g)"
  by (auto simp: gs_wf_def RestoreTenantSettled_def RestoreServerSettled_def RestoreTotalSettled_def)

lemma gs_wf_PruneServerSettled [simp]: "gs_wf g \<Longrightarrow> gs_wf (fst (PruneServerSettled alive g))"
  unfolding PruneServerSettled_def
  by (rule fold_invariant_pres[where P = "\<lambda>gn. gs_wf (fst gn)"]) (auto simp: gs_wf_def)

lemma gs_wf_PruneTenantSettled [simp]: "gs_wf g \<Longrightarrow> gs_wf (fst (PruneTenantSettled alive g))"
  unfolding PruneTenantSettled_def
  by (rule fold_invariant_pres[where P = "\<lambda>gn. gs_wf (fst gn)"]) (auto simp: gs_wf_def Let_def)

section \<open>What the tiers expose\<close>

text \<open>
  A measure picks bytes or packets. The exposed value of a label tuple is the sum of the live rows
  that carry the label and the bucket of that label. The display resolver is total: an unknown MAC
  shows as the \<^verbatim>\<open>unknown\<close> tenant.
\<close>

type_synonym measure_pick = "u64 \<Rightarrow> u64 \<Rightarrow> u64"

definition pick_bytes :: measure_pick where "pick_bytes b p = b"
definition pick_packets :: measure_pick where "pick_packets b p = p"

definition live_val :: "measure_pick \<Rightarrow> counter \<Rightarrow> u64" where
  "live_val pick c = pick (Bytes (Total c)) (Packets (Total c))"

definition bucket_val :: "measure_pick \<Rightarrow> settledTotal \<Rightarrow> u64" where
  "bucket_val pick t = pick (sbytes t) (spackets t)"

definition bucket_at :: "measure_pick \<Rightarrow> ('k, settledTotal) gomap \<Rightarrow> 'k \<Rightarrow> u64" where
  "bucket_at pick m k = (case mget m k of None \<Rightarrow> 0 | Some t \<Rightarrow> bucket_val pick t)"

definition live_sum :: "measure_pick \<Rightarrow> (flow_key \<Rightarrow> bool) \<Rightarrow> (flow_key, counter) gomap \<Rightarrow> u64" where
  "live_sum pick P m = msum (\<lambda>k c. if P k then live_val pick c else 0) m"

definition tenant_label :: "attribution3 \<Rightarrow> flow_key \<Rightarrow> tenant_settled_key" where
  "tenant_label a k = (case a of (t, e, s) \<Rightarrow>
     \<lparr>TsTenant = t, TsExtNet = e, TsZone = DstZone k, TsDir = Direction k\<rparr>)"

definition server_label :: "attribution3 \<Rightarrow> flow_key \<Rightarrow> server_settled_key option" where
  "server_label a k = (case a of (t, e, s) \<Rightarrow> if s = [] then None else Some
     \<lparr>SsServerID = s, SsTenant = t, SsExtNet = e, SsZone = DstZone k, SsDir = Direction k\<rparr>)"

definition total_label :: "tenant_settled_key \<Rightarrow> total_settled_key" where
  "total_label sk = \<lparr>ToExtNet = TsExtNet sk, ToZone = TsZone sk, ToDir = TsDir sk\<rparr>"

definition tenant_tier ::
  "measure_pick \<Rightarrow> (flow_key \<Rightarrow> attribution3) \<Rightarrow> global_state \<Rightarrow> tenant_settled_key \<Rightarrow> u64" where
  "tenant_tier pick res g sk =
     live_sum pick (\<lambda>k. tenant_label (res k) k = sk) (counts g) + bucket_at pick (tenantSettled g) sk"

definition server_tier ::
  "measure_pick \<Rightarrow> (flow_key \<Rightarrow> attribution3) \<Rightarrow> global_state \<Rightarrow> server_settled_key \<Rightarrow> u64" where
  "server_tier pick res g ck =
     live_sum pick (\<lambda>k. server_label (res k) k = Some ck) (counts g) + bucket_at pick (serverSettled g) ck"

definition total_tier ::
  "measure_pick \<Rightarrow> (flow_key \<Rightarrow> attribution3) \<Rightarrow> global_state \<Rightarrow> total_settled_key \<Rightarrow> u64" where
  "total_tier pick res g tk =
     live_sum pick (\<lambda>k. total_label (tenant_label (res k) k) = tk) (counts g) +
     msum (\<lambda>sk t. if total_label sk = tk then bucket_val pick t else 0) (tenantSettled g) +
     bucket_at pick (totalSettled g) tk"

text \<open>Everything the store has ever been credited and still holds, whatever its label.\<close>

definition held :: "measure_pick \<Rightarrow> global_state \<Rightarrow> u64" where
  "held pick g = live_sum pick (\<lambda>_. True) (counts g) +
     msum (\<lambda>_. bucket_val pick) (tenantSettled g) + msum (\<lambda>_. bucket_val pick) (totalSettled g)"

lemma msum_change_at:
  fixes f g :: "'k \<Rightarrow> 'v \<Rightarrow> 'a::ab_group_add"
  assumes "mwf m" and "\<And>k' v. k' \<noteq> k \<Longrightarrow> f k' v = g k' v"
  shows "msum f m = msum g m + (case mget m k of None \<Rightarrow> 0 | Some v \<Rightarrow> f k v - g k v)"
proof -
  have "msum f (mdel k m) = msum g (mdel k m)"
    by (rule msum_cong) (use assms in \<open>auto simp: mget_in_set split: if_splits\<close>)
  then show ?thesis
    using assms(1) by (auto simp: msum_mdel algebra_simps split: option.splits)
qed

lemma settle_row_keys:
  "mhas (counts (fst (settle_row mode sr (k, c) (g, n)))) k' \<Longrightarrow> k' = k \<or> mhas (counts g) k'"
  by (auto simp: Let_def split: option.splits settle_mode.splits prod.splits if_splits)

lemma settle_fold_keys:
  assumes "mhas (counts (fst (fold (settle_row mode sr) (counts g) (g, n)))) k"
  shows "mhas (counts g) k"
proof -
  have "mhas (counts (fst (fold (settle_row mode sr) rows gn))) k \<Longrightarrow>
      k \<in> fst ` set rows \<or> mhas (counts (fst gn)) k" for rows gn
  proof (induction rows arbitrary: gn)
    case (Cons kc rows)
    then have "k \<in> fst ` set rows \<or> mhas (counts (fst (settle_row mode sr kc gn))) k"
      by (simp del: settle_row.simps)
    then show ?case
      using settle_row_keys[of mode sr "fst kc" "snd kc" "fst gn" "snd gn" k] by auto
  qed simp
  from this[of "counts g" "(g, n)"] assms show ?thesis by (auto simp: mhas_iff)
qed

lemma gs_wf_rows:
  assumes "gs_wf g"
  shows "distinct (map fst (counts g))" "distinct (map fst (tenantSettled g))"
    "(k, c) \<in> set (counts g) \<Longrightarrow> mget (counts g) k = Some c"
    "(sk, t) \<in> set (tenantSettled g) \<Longrightarrow> mget (tenantSettled g) sk = Some t"
  using assms by (auto simp: gs_wf_def mwf_def mget_def)

lemma settle_row_facts:
  "k' \<noteq> k \<Longrightarrow> mget (counts (fst (settle_row mode sr (k, c) gn))) k' = mget (counts (fst gn)) k'"
  by (cases gn) (auto simp: Let_def split: option.splits settle_mode.splits)

lemma prune_row_facts:
  "k' \<noteq> k \<Longrightarrow> mget (tenantSettled (fst (prune_tenant_row alive (k, t) gn))) k' = mget (tenantSettled (fst gn)) k'"
  "gs_wf (fst gn) \<Longrightarrow> gs_wf (fst (prune_tenant_row alive (k, t) gn))"
  by (cases gn; auto simp: gs_wf_def Let_def)+

locale tier_measure =
  fixes pick :: measure_pick
  assumes pick_add: "pick (a + b) (c + d) = pick a c + pick b d"
begin

lemma pick_zero [simp]: "pick 0 0 = 0"
  using pick_add[of 0 0 0 0] by simp

lemma live_val_zero [simp]: "live_val pick (zero_total c) = 0"
  by (simp add: live_val_def zero_total_def)

lemma bucket_at_credit:
  "bucket_at pick (credit k b p m) k' = bucket_at pick m k' + (if k' = k then pick b p else 0)"
  by (auto simp: bucket_at_def credit_def bucket_val_def Let_def pick_add split: option.splits)

lemma msum_credit:
  "msum (\<lambda>k t. if Q k then bucket_val pick t else 0) (credit k b p m) =
     msum (\<lambda>k t. if Q k then bucket_val pick t else 0) m + (if Q k then pick b p else 0)"
  by (auto simp: credit_def bucket_val_def Let_def pick_add msum_mput split: option.splits)

lemma msum_credit_all:
  "msum (\<lambda>_. bucket_val pick) (credit k b p m) = msum (\<lambda>_. bucket_val pick) m + pick b p"
  using msum_credit[of "\<lambda>_. True"] by simp

text \<open>Taking a row out of the live sum, whatever its new label would be.\<close>

lemma live_sum_evict:
  assumes "mwf m" and "mget m k = Some c" and "\<And>k'. k' \<noteq> k \<Longrightarrow> P' k' = P k'"
  shows "live_sum pick P' (mdel k m) = live_sum pick P m - (if P k then live_val pick c else 0)"
proof -
  have "live_sum pick P' (mdel k m) = live_sum pick P (mdel k m)"
    unfolding live_sum_def
    by (rule msum_cong) (use assms in \<open>auto simp: mget_in_set split: if_splits\<close>)
  then show ?thesis
    using assms by (simp add: live_sum_def msum_mdel)
qed

lemma live_sum_rebase:
  assumes "mwf m" and "mget m k = Some c" and "\<And>k'. k' \<noteq> k \<Longrightarrow> P' k' = P k'"
  shows "live_sum pick P' (mput k (zero_total c) m) = live_sum pick P m - (if P k then live_val pick c else 0)"
proof -
  have "live_sum pick P' (mput k (zero_total c) m) = live_sum pick P (mput k (zero_total c) m)"
    unfolding live_sum_def
    by (rule msum_cong) (use assms in \<open>auto simp: mget_in_set split: if_splits\<close>)
  then show ?thesis
    using assms by (simp add: live_sum_def msum_mput)
qed

lemma settle_row_tiers:
  assumes "gs_wf g" and "mget (counts g) k = Some c"
    and "sr k = Some (res k)" and "\<And>k'. k' \<noteq> k \<Longrightarrow> res' k' = res k'"
  shows "tenant_tier pick res' (fst (settle_row mode sr (k, c) (g, n))) sk = tenant_tier pick res g sk"
    and "server_tier pick res' (fst (settle_row mode sr (k, c) (g, n))) ck = server_tier pick res g ck"
    and "total_tier pick res' (fst (settle_row mode sr (k, c) (g, n))) tk = total_tier pick res g tk"
proof -
  obtain t e s where a: "res k = (t, e, s)" by (cases "res k")
  note wf = gs_wfD[OF assms(1)]
  have ev: "live_sum pick P' (mdel k (counts g)) = live_sum pick P (counts g) - (if P k then live_val pick c else 0)"
    and rb: "live_sum pick P' (mput k (zero_total c) (counts g)) =
        live_sum pick P (counts g) - (if P k then live_val pick c else 0)"
    if "\<And>k'. k' \<noteq> k \<Longrightarrow> P' k' = P k'" for P P'
    using live_sum_evict[OF wf(1) assms(2)] live_sum_rebase[OF wf(1) assms(2)] that by blast+
  show "tenant_tier pick res' (fst (settle_row mode sr (k, c) (g, n))) sk = tenant_tier pick res g sk"
    using ev[of "\<lambda>k. tenant_label (res' k) k = sk" "\<lambda>k. tenant_label (res k) k = sk"]
      rb[of "\<lambda>k. tenant_label (res' k) k = sk" "\<lambda>k. tenant_label (res k) k = sk"] assms(3,4) a
    by (cases mode)
       (auto simp: tenant_tier_def tenant_label_def live_val_def bucket_at_credit Let_def)
  show "server_tier pick res' (fst (settle_row mode sr (k, c) (g, n))) ck = server_tier pick res g ck"
    using ev[of "\<lambda>k. server_label (res' k) k = Some ck" "\<lambda>k. server_label (res k) k = Some ck"]
      rb[of "\<lambda>k. server_label (res' k) k = Some ck" "\<lambda>k. server_label (res k) k = Some ck"] assms(3,4) a
    by (cases mode)
       (auto simp: server_tier_def server_label_def live_val_def bucket_at_credit Let_def)
  show "total_tier pick res' (fst (settle_row mode sr (k, c) (g, n))) tk = total_tier pick res g tk"
    using ev[of "\<lambda>k. total_label (tenant_label (res' k) k) = tk" "\<lambda>k. total_label (tenant_label (res k) k) = tk"]
      rb[of "\<lambda>k. total_label (tenant_label (res' k) k) = tk" "\<lambda>k. total_label (tenant_label (res k) k) = tk"]
      assms(3,4) a
    by (cases mode)
       (auto simp: total_tier_def tenant_label_def total_label_def live_val_def msum_credit Let_def)
qed

text \<open>
  The fold over the rows. Every row the resolver settles may carry any new label afterwards
  (\<^term>\<open>res'\<close>); the other rows keep theirs.
\<close>

lemma settle_fold_tiers:
  assumes "gs_wf g" and "distinct (map fst rows)"
    and "\<And>k c. (k, c) \<in> set rows \<Longrightarrow> mget (counts g) k = Some c"
    and "\<And>k a. k \<in> fst ` set rows \<Longrightarrow> sr k = Some a \<Longrightarrow> res k = a"
  shows "(let g' = fst (fold (settle_row mode sr) rows (g, n));
              r = (\<lambda>k. if k \<in> fst ` set rows \<and> sr k \<noteq> None then res' k else res k)
          in tenant_tier pick r g' sk = tenant_tier pick res g sk \<and>
             server_tier pick r g' ck = server_tier pick res g ck \<and>
             total_tier pick r g' tk = total_tier pick res g tk)"
  using assms
proof (induction rows arbitrary: g n res)
  case (Cons kc rows)
  obtain k c where kc: "kc = (k, c)" by (cases kc)
  let ?g1 = "fst (settle_row mode sr (k, c) (g, n))"
  let ?n1 = "snd (settle_row mode sr (k, c) (g, n))"
  let ?r1 = "\<lambda>k'. if k' = k \<and> sr k \<noteq> None then res' k' else res k'"
  have kn: "k \<notin> fst ` set rows" using Cons.prems(2) kc by simp
  have wf1: "gs_wf ?g1" using Cons.prems(1) by (simp add: gs_wf_settle_row del: settle_row.simps)
  have rows1: "mget (counts ?g1) k' = Some c'" if "(k', c') \<in> set rows" for k' c'
  proof -
    have "k' \<noteq> k" using that kn by force
    then show ?thesis using Cons.prems(3)[of k' c'] that kc
      by (auto simp: Let_def split: option.splits settle_mode.splits)
  qed
  have res1: "?r1 k' = a" if "k' \<in> fst ` set rows" "sr k' = Some a" for k' a
    using that kn Cons.prems(4)[of k' a] kc by auto
  have step: "tenant_tier pick ?r1 ?g1 sk = tenant_tier pick res g sk \<and>
      server_tier pick ?r1 ?g1 ck = server_tier pick res g ck \<and>
      total_tier pick ?r1 ?g1 tk = total_tier pick res g tk"
  proof (cases "sr k")
    case None
    then show ?thesis by simp
  next
    case (Some a)
    with Cons.prems(4)[of k a] kc have "sr k = Some (res k)" by simp
    then show ?thesis
      using settle_row_tiers[of g k c sr res ?r1] Cons.prems(1,3) kc by simp
  qed
  have eq: "(\<lambda>k'. if k' \<in> fst ` set rows \<and> sr k' \<noteq> None then res' k' else ?r1 k') =
      (\<lambda>k'. if k' \<in> fst ` set (kc # rows) \<and> sr k' \<noteq> None then res' k' else res k')"
    using kc by (intro ext) (auto simp del: not_None_eq)
  have "distinct (map fst rows)" using Cons.prems(2) by simp
  from Cons.IH[where res = ?r1 and n = ?n1, OF wf1 this rows1 res1] step show ?case
    by (simp only: eq kc fold_simps prod.collapse Let_def o_apply)
qed (simp add: Let_def)

lemma Settle_tiers:
  assumes "gs_wf g"
    and "\<And>k a. mhas (counts g) k \<Longrightarrow> sr k = Some a \<Longrightarrow> res k = a"
    and "\<And>k. mhas (counts g) k \<Longrightarrow> sr k = None \<Longrightarrow> res' k = res k"
  shows "tenant_tier pick res' (fst (Settle mode sr g)) sk = tenant_tier pick res g sk"
    and "server_tier pick res' (fst (Settle mode sr g)) ck = server_tier pick res g ck"
    and "total_tier pick res' (fst (Settle mode sr g)) tk = total_tier pick res g tk"
proof -
  let ?g' = "fst (Settle mode sr g)"
  let ?r = "\<lambda>k. if k \<in> fst ` set (counts g) \<and> sr k \<noteq> None then res' k else res k"
  have keys: "mhas (counts ?g') k \<Longrightarrow> mhas (counts g) k" for k
    unfolding Settle_def
    by (rule settle_fold_keys)
  have "res' k = ?r k" if "mhas (counts ?g') k" for k
    using keys[OF that] assms(3)[of k] by (simp add: mhas_iff del: not_None_eq)
  then have "tenant_tier pick res' ?g' sk = tenant_tier pick ?r ?g' sk"
    "server_tier pick res' ?g' ck = server_tier pick ?r ?g' ck"
    "total_tier pick res' ?g' tk = total_tier pick ?r ?g' tk"
    unfolding tenant_tier_def server_tier_def total_tier_def live_sum_def
    by (auto intro!: msum_cong simp: mhas_iff image_iff) (metis fst_conv)+
  moreover have "distinct (map fst (counts g))"
    using assms(1) by (auto simp: mwf_def)
  ultimately show
    "tenant_tier pick res' ?g' sk = tenant_tier pick res g sk"
    "server_tier pick res' ?g' ck = server_tier pick res g ck"
    "total_tier pick res' ?g' tk = total_tier pick res g tk"
    using settle_fold_tiers[of g "counts g" sr res mode 0 res' sk ck tk] assms
    by (auto simp: Settle_def Let_def mhas_iff mget_in_set gs_wf_def)
qed

lemma prune_row_total_tier:
  assumes "gs_wf g" and "mget (tenantSettled g) k = Some t"
  shows "total_tier pick res (fst (prune_tenant_row alive (k, t) (g, n))) tk = total_tier pick res g tk"
  using assms
  by (auto simp: total_tier_def total_label_def bucket_at_credit msum_mdel bucket_val_def Let_def gs_wf_def)

lemma PruneTenantSettled_total_tier:
  assumes "gs_wf g"
  shows "total_tier pick res (fst (PruneTenantSettled alive g)) tk = total_tier pick res g tk"
proof -
  have "gs_wf (fst (fold (prune_tenant_row alive) (tenantSettled g) (g, 0))) \<and>
      total_tier pick res (fst (fold (prune_tenant_row alive) (tenantSettled g) (g, 0))) tk =
      total_tier pick res (fst (g, 0 :: nat)) tk"
    by (rule range_loop_keeps[where I = "\<lambda>gn. gs_wf (fst gn)" and look = "\<lambda>gn. mget (tenantSettled (fst gn))"
          and M = "\<lambda>gn. total_tier pick res (fst gn) tk"])
       (use assms in \<open>auto simp: prune_row_facts prune_row_total_tier gs_wf_rows
          simp del: prune_tenant_row.simps\<close>)
  then show ?thesis by (simp add: PruneTenantSettled_def)
qed

text \<open>
  The whole store as a ledger. The total tier with every label merged is the value held, so the
  conservation laws above carry over.
\<close>

lemma live_sum_mput:
  "live_sum pick (\<lambda>_. True) (mput k c m) =
     live_sum pick (\<lambda>_. True) m + live_val pick c - (case mget m k of None \<Rightarrow> 0 | Some c0 \<Rightarrow> live_val pick c0)"
  by (simp add: live_sum_def msum_mput)

lemma held_ApplyDelta:
  "held pick (ApplyDelta k raw g) = held pick g +
     (case mget (counts g) k of
        None \<Rightarrow> pick (Bytes raw) (Packets raw)
      | Some c \<Rightarrow> (case reading_delta (LastEbpfRaw c) raw of (b, p) \<Rightarrow> pick b p))"
  by (cases "mget (counts g) k")
     (auto simp: held_def ApplyDelta_def live_sum_mput live_val_def counter_step_delta pick_add split: prod.splits)

lemma fold_total_val [simp]: "live_val pick (fold_total m c) = live_val pick c + pick (Bytes m) (Packets m)"
  by (simp add: live_val_def fold_total_def pick_add)

lemma held_Add: "held pick (Add k m g) = held pick g + pick (Bytes m) (Packets m)"
  by (cases "mget (counts g) k")
     (auto simp: held_def Add_def live_sum_mput live_val_def[where c = "\<lparr>Total = m, LastEbpfRaw = l\<rparr>" for l])

lemma held_Resolve: "held pick (Resolve k t l g) = held pick g + pick (Bytes t) (Packets t)"
  by (cases "mget (counts g) k")
     (auto simp: held_def Resolve_def live_sum_mput live_val_def fold_total_def pick_add)

lemma held_settle_row:
  assumes "gs_wf g" and "mget (counts g) k = Some c"
  shows "held pick (fst (settle_row mode sr (k, c) (g, n))) = held pick g"
proof (cases "sr k")
  case (Some a)
  obtain t e s where a: "a = (t, e, s)" by (cases a)
  show ?thesis
    using Some a assms live_sum_evict[of "counts g" k c "\<lambda>_. True" "\<lambda>_. True"]
      live_sum_rebase[of "counts g" k c "\<lambda>_. True" "\<lambda>_. True"]
    by (cases mode) (auto simp: held_def live_val_def Let_def gs_wf_def msum_credit_all)
qed simp

lemma held_Settle:
  assumes "gs_wf g"
  shows "held pick (fst (Settle mode sr g)) = held pick g"
proof -
  have "gs_wf (fst (fold (settle_row mode sr) (counts g) (g, 0))) \<and>
      held pick (fst (fold (settle_row mode sr) (counts g) (g, 0))) = held pick (fst (g, 0 :: nat))"
    by (rule range_loop_keeps[where I = "\<lambda>gn. gs_wf (fst gn)" and look = "\<lambda>gn. mget (counts (fst gn))"
          and M = "\<lambda>gn. held pick (fst gn)"])
       (use assms in \<open>auto simp: settle_row_facts held_settle_row gs_wf_settle_row gs_wf_rows
          simp del: settle_row.simps\<close>)
  then show ?thesis by (simp add: Settle_def)
qed

lemma held_prune_row:
  assumes "gs_wf g" and "mget (tenantSettled g) k = Some t"
  shows "held pick (fst (prune_tenant_row alive (k, t) (g, n))) = held pick g"
  using assms
  by (auto simp: held_def msum_mdel msum_credit_all bucket_val_def[where t = t] Let_def gs_wf_def)

lemma held_PruneTenantSettled:
  assumes "gs_wf g"
  shows "held pick (fst (PruneTenantSettled alive g)) = held pick g"
proof -
  have "gs_wf (fst (fold (prune_tenant_row alive) (tenantSettled g) (g, 0))) \<and>
      held pick (fst (fold (prune_tenant_row alive) (tenantSettled g) (g, 0))) = held pick (fst (g, 0 :: nat))"
    by (rule range_loop_keeps[where I = "\<lambda>gn. gs_wf (fst gn)" and look = "\<lambda>gn. mget (tenantSettled (fst gn))"
          and M = "\<lambda>gn. held pick (fst gn)"])
       (use assms in \<open>auto simp: prune_row_facts held_prune_row gs_wf_rows
          simp del: prune_tenant_row.simps\<close>)
  then show ?thesis by (simp add: PruneTenantSettled_def)
qed

end

interpretation bytes_m: tier_measure pick_bytes
  by unfold_locales (simp add: pick_bytes_def)

interpretation packets_m: tier_measure pick_packets
  by unfold_locales (simp add: pick_packets_def)

lemma settle_tiers:
  assumes "gs_wf g" and "pick \<in> {pick_bytes, pick_packets}"
    and "\<And>k a. mhas (counts g) k \<Longrightarrow> sr k = Some a \<Longrightarrow> res k = a"
    and "\<And>k. mhas (counts g) k \<Longrightarrow> sr k = None \<Longrightarrow> res' k = res k"
  shows "tenant_tier pick res' (fst (Settle mode sr g)) sk = tenant_tier pick res g sk \<and>
    server_tier pick res' (fst (Settle mode sr g)) ck = server_tier pick res g ck \<and>
    total_tier pick res' (fst (Settle mode sr g)) tk = total_tier pick res g tk"
  using assms(2) bytes_m.Settle_tiers[OF assms(1,3,4)] packets_m.Settle_tiers[OF assms(1,3,4)]
  by auto

section \<open>What each loop leaves behind\<close>

lemma settle_fold_counts:
  assumes "distinct (map fst rows)" and "\<And>k c. (k, c) \<in> set rows \<Longrightarrow> mget (counts g) k = Some c"
  shows "mget (counts (fst (fold (settle_row mode sr) rows (g, n)))) k =
    (if k \<in> fst ` set rows \<and> sr k \<noteq> None
     then (case mode of SettleEvict \<Rightarrow> None | SettleRebase \<Rightarrow> map_option zero_total (mget (counts g) k))
     else mget (counts g) k)"
  using assms
proof (induction rows arbitrary: g n)
  case (Cons kc rows)
  obtain k0 c where kc: "kc = (k0, c)" by (cases kc)
  obtain g1 n1 where s1: "settle_row mode sr (k0, c) (g, n) = (g1, n1)"
    by (cases "settle_row mode sr (k0, c) (g, n)")
  have other: "mget (counts g1) k' = mget (counts g) k'" if "k' \<noteq> k0" for k'
    using settle_row_facts[OF that, of mode sr c "(g, n)"] s1 by simp
  have own: "mget (counts g1) k0 =
      (if sr k0 \<noteq> None then (case mode of SettleEvict \<Rightarrow> None | SettleRebase \<Rightarrow> Some (zero_total c)) else Some c)"
    using s1 Cons.prems(2)[of k0 c] kc
    by (cases mode) (auto simp: Let_def split: option.splits prod.splits)
  have k0: "k0 \<notin> fst ` set rows" using Cons.prems(1) kc by simp
  have "mget (counts g1) k' = Some c'" if "(k', c') \<in> set rows" for k' c'
    using other[of k'] that k0 Cons.prems(2)[of k' c'] by force
  from Cons.IH[OF _ this, of n1] Cons.prems(1)
  have IH: "mget (counts (fst (fold (settle_row mode sr) rows (g1, n1)))) k =
    (if k \<in> fst ` set rows \<and> sr k \<noteq> None
     then (case mode of SettleEvict \<Rightarrow> None | SettleRebase \<Rightarrow> map_option zero_total (mget (counts g1) k))
     else mget (counts g1) k)"
    by simp
  have c: "mget (counts g) k0 = Some c" using Cons.prems(2) kc by simp
  show ?case
    by (cases "k = k0")
       (use IH own other k0 s1 c kc in \<open>auto simp del: settle_row.simps not_None_eq split: settle_mode.splits\<close>)
qed simp

lemma settle_row_None: "sr k = None \<Longrightarrow> settle_row mode sr (k, c) gn = gn"
  by (cases gn) simp

lemma Settle_None:
  assumes "\<And>k. sr k = None"
  shows "Settle mode sr g = (g, 0)"
proof -
  have "fold (settle_row mode sr) rows gn = gn" for rows gn
  proof (induction rows arbitrary: gn)
    case (Cons kc rows)
    then show ?case by (cases kc) (simp add: settle_row_None assms del: settle_row.simps)
  qed simp
  then show ?thesis by (simp add: Settle_def)
qed

lemma counts_Settle:
  assumes "gs_wf g"
  shows "mget (counts (fst (Settle mode sr g))) k =
    (if sr k \<noteq> None
     then (case mode of SettleEvict \<Rightarrow> None | SettleRebase \<Rightarrow> map_option zero_total (mget (counts g) k))
     else mget (counts g) k)"
  using settle_fold_counts[OF gs_wf_rows(1)[OF assms], of g mode sr 0 k] assms
  by (auto simp: Settle_def gs_wf_rows mhas_iff[symmetric] mhas_def split: settle_mode.splits)

lemma prune_tenant_fold_map:
  "mget (tenantSettled (fst (fold (prune_tenant_row alive) rows (g, n)))) k =
     (if k \<in> fst ` set rows \<and> TsTenant k \<notin> set alive then None else mget (tenantSettled g) k)"
proof (induction rows arbitrary: g n)
  case (Cons kt rows)
  then show ?case by (cases kt) (simp add: Let_def)
qed simp

lemma tenantSettled_Prune:
  "mget (tenantSettled (fst (PruneTenantSettled alive g))) k =
     (if TsTenant k \<notin> set alive then None else mget (tenantSettled g) k)"
  by (auto simp: PruneTenantSettled_def prune_tenant_fold_map mhas_iff[symmetric] mhas_def)

lemma prune_tenant_fold_other:
  "counts (fst (fold (prune_tenant_row alive) rows (g, n))) = counts g"
  "serverSettled (fst (fold (prune_tenant_row alive) rows (g, n))) = serverSettled g"
  by (induction rows arbitrary: g n) (auto simp: Let_def)

lemma Prune_other [simp]:
  "counts (fst (PruneTenantSettled alive g)) = counts g"
  "serverSettled (fst (PruneTenantSettled alive g)) = serverSettled g"
  by (simp_all add: PruneTenantSettled_def prune_tenant_fold_other)

lemma prune_server_fold_map:
  "mget (serverSettled (fst (fold (prune_server_row alive) rows (g, n)))) k =
     (if k \<in> fst ` set rows \<and> SsServerID k \<notin> set alive then None else mget (serverSettled g) k)"
proof (induction rows arbitrary: g n)
  case (Cons kt rows)
  then show ?case by (cases kt) simp
qed simp

lemma serverSettled_Prune:
  "mget (serverSettled (fst (PruneServerSettled alive g))) k =
     (if SsServerID k \<notin> set alive then None else mget (serverSettled g) k)"
  by (auto simp: PruneServerSettled_def prune_server_fold_map mhas_iff[symmetric] mhas_def)

lemma prune_server_fold_other:
  "counts (fst (fold (prune_server_row alive) rows (g, n))) = counts g"
  "tenantSettled (fst (fold (prune_server_row alive) rows (g, n))) = tenantSettled g"
  "totalSettled (fst (fold (prune_server_row alive) rows (g, n))) = totalSettled g"
  by (induction rows arbitrary: g n) auto

lemma PruneServer_other [simp]:
  "counts (fst (PruneServerSettled alive g)) = counts g"
  "tenantSettled (fst (PruneServerSettled alive g)) = tenantSettled g"
  "totalSettled (fst (PruneServerSettled alive g)) = totalSettled g"
  by (simp_all add: PruneServerSettled_def prune_server_fold_other)

lemma copy_out_rows:
  "map (\<lambda>r. (SKey r, \<lparr>sbytes = SBytes r, spackets = SPackets r\<rparr>)) (copy_out m) = m"
  by (induction m) (auto simp: copy_out_def)

lemma load_copy_out: "mwf m \<Longrightarrow> mget (load_settled (copy_out m) []) k = mget m k"
  by (simp add: load_settled_def copy_out_rows mget_mputs_self)

section \<open>The ledger the store implements\<close>

text \<open>
  The abstract store is a baseline per key (what the next kernel reading is compared with) and one
  number, the value credited so far. Settling and pruning move value between the maps of the
  concrete store and never change the ledger, apart from the baselines an eviction forgets.
\<close>

datatype store_op =
    OpApply flow_key flow_metrics
  | OpAdd flow_key flow_metrics
  | OpResolve flow_key flow_metrics flow_metrics
  | OpSettle settle_mode settle_resolver
  | OpPruneTenant "string list"
  | OpPruneServer "string list"

fun store_step :: "store_op \<Rightarrow> global_state \<Rightarrow> global_state" where
  "store_step (OpApply k raw) g = ApplyDelta k raw g"
| "store_step (OpAdd k m) g = Add k m g"
| "store_step (OpResolve k t l) g = Resolve k t l g"
| "store_step (OpSettle mode sr) g = fst (Settle mode sr g)"
| "store_step (OpPruneTenant alive) g = fst (PruneTenantSettled alive g)"
| "store_step (OpPruneServer alive) g = fst (PruneServerSettled alive g)"

type_synonym ledger = "(flow_key \<Rightarrow> flow_metrics option) \<times> u64"

definition ledger_of :: "measure_pick \<Rightarrow> global_state \<Rightarrow> ledger" where
  "ledger_of pick g = ((\<lambda>k. map_option LastEbpfRaw (mget (counts g) k)), held pick g)"

fun ledger_step :: "measure_pick \<Rightarrow> store_op \<Rightarrow> ledger \<Rightarrow> ledger" where
  "ledger_step pick (OpApply k raw) (base, v) =
     (base(k := Some raw),
      v + (case base k of
             None \<Rightarrow> pick (Bytes raw) (Packets raw)
           | Some l \<Rightarrow> (case reading_delta l raw of (b, p) \<Rightarrow> pick b p)))"
| "ledger_step pick (OpAdd k m) (base, v) =
     ((case base k of None \<Rightarrow> base(k := Some zero_metrics) | Some _ \<Rightarrow> base),
      v + pick (Bytes m) (Packets m))"
| "ledger_step pick (OpResolve k t l) (base, v) = (base(k := Some l), v + pick (Bytes t) (Packets t))"
| "ledger_step pick (OpSettle SettleEvict sr) (base, v) =
     ((\<lambda>k. if sr k \<noteq> None then None else base k), v)"
| "ledger_step pick (OpSettle SettleRebase sr) l = l"
| "ledger_step pick (OpPruneTenant alive) l = l"
| "ledger_step pick (OpPruneServer alive) l = l"

lemma gs_wf_store_step [simp]: "gs_wf g \<Longrightarrow> gs_wf (store_step op g)"
  by (cases op) simp_all

lemma held_PruneServer [simp]: "held pick (fst (PruneServerSettled alive g)) = held pick g"
  by (simp add: held_def)

lemma LastEbpfRaw_simps [simp]:
  "LastEbpfRaw (zero_total c) = LastEbpfRaw c" "LastEbpfRaw (fold_total m c) = LastEbpfRaw c"
  by (simp_all add: zero_total_def fold_total_def)

context tier_measure
begin

lemma ledger_refines:
  assumes "gs_wf g"
  shows "ledger_of pick (store_step op g) = ledger_step pick op (ledger_of pick g)"
proof (cases op)
  case (OpApply k raw)
  then show ?thesis
    by (cases "mget (counts g) k")
       (auto simp: ledger_of_def held_ApplyDelta mget_counts_ApplyDelta intro!: ext)
next
  case (OpAdd k m)
  then show ?thesis
    by (cases "mget (counts g) k") (auto simp: ledger_of_def held_Add mget_counts_Add intro!: ext)
next
  case (OpResolve k t l)
  then show ?thesis
    by (cases "mget (counts g) k") (auto simp: ledger_of_def held_Resolve mget_counts_Resolve intro!: ext)
next
  case (OpSettle mode sr)
  then show ?thesis
    by (cases mode)
       (auto simp: ledger_of_def held_Settle assms counts_Settle option.map_comp o_def
             simp del: not_None_eq intro!: ext)
qed (simp_all add: ledger_of_def held_PruneTenantSettled assms)

end

section \<open>Properties\<close>

text \<open>Concrete values the witnesses share: two flows of one VM and a store that holds them.\<close>

definition ex_key :: "u8 \<Rightarrow> flow_key" where
  "ex_key z = \<lparr>SrcMac = Mac 2 0 0 0 0 10, DstMac = Mac 2 0 0 0 0 11, EthProto = 0x0800,
     Direction = DirectionIngress, DstZone = z, L4Proto = L4ProtoTCP, Pad = 0\<rparr>"

definition ex_metrics :: "u64 \<Rightarrow> u64 \<Rightarrow> flow_metrics" where
  "ex_metrics b created = \<lparr>Bytes = b, Packets = 1, LastSeenNs = 5, CreatedNs = created\<rparr>"

definition ex_state :: global_state where
  "ex_state = \<lparr>counts =
      [(ex_key 1, \<lparr>Total = ex_metrics 100 7, LastEbpfRaw = ex_metrics 60 7\<rparr>),
       (ex_key 2, \<lparr>Total = ex_metrics 30 8, LastEbpfRaw = ex_metrics 30 8\<rparr>)],
     tenantSettled = [(\<lparr>TsTenant = ''a'', TsExtNet = ''-'', TsZone = 1, TsDir = 0\<rparr>, \<lparr>sbytes = 5, spackets = 1\<rparr>)],
     serverSettled = [], totalSettled = []\<rparr>"

definition ex_sr :: settle_resolver where
  "ex_sr k = (if DstZone k = 1 then Some (''a'', ''-'', ''vm'') else None)"

lemmas ex_defs = ex_key_def ex_metrics_def ex_state_def ex_sr_def dir_codes l4_codes zone_codes

lemma gs_wf_ex_state: "gs_wf ex_state"
  by (simp add: gs_wf_def ex_defs mget_Cons)

text \<open>
  C1. Delta math is exact across kernel-entry lifetimes. Feed \<^verbatim>\<open>ApplyDelta\<close> every reading of any
  sequence of kernel entries of one key, first seen with the key absent: counters of one entry do not
  decrease, and each new entry has a non-zero creation stamp other than its predecessor's. The row's
  cumulative then is the sum of the last readings of the entries (modulo 2^64), for bytes and for
  packets, nothing twice and nothing lost, however often the entry was destroyed in between; its
  baseline is the last reading, and no other row changes.
\<close>

theorem apply_readings_exact:
  assumes "epochs_ok 0 es" and "es \<noteq> []" and "mget (counts g) key = None"
  defines "g' \<equiv> fold (ApplyDelta key) (concat (map epoch_readings es)) g"
  shows "\<exists>c. mget (counts g') key = Some c \<and>
      Bytes (Total c) = (\<Sum>(created, rs) \<leftarrow> es. fst (last rs)) \<and>
      Packets (Total c) = (\<Sum>(created, rs) \<leftarrow> es. fst (snd (last rs))) \<and>
      LastEbpfRaw c = last (epoch_readings (last es)) \<and>
      (\<forall>k. k \<noteq> key \<longrightarrow> mget (counts g') k = mget (counts g) k)"
proof -
  obtain created r rs es' where es: "es = (created, r # rs) # es'"
    using assms(1,2) by (cases es; cases "snd (hd es)") auto
  let ?c0 = "\<lparr>Total = reading created r, LastEbpfRaw = reading created r\<rparr>"
  let ?all = "map (reading created) rs @ concat (map epoch_readings es')"
  have ok: "sorted (map fst (r # rs))" "sorted (map (\<lambda>r. fst (snd r)) (r # rs))" "created \<noteq> 0"
    "epochs_ok created es'"
    using assms(1) es by auto
  have row: "mget (counts g') key = Some (fold counter_step ?all ?c0)"
    using mget_fold_ApplyDelta[of "ApplyDelta key (reading created r) g" key ?c0 ?all] assms(3)
    by (simp add: g'_def es epoch_readings_def mget_counts_ApplyDelta)
  let ?c1 = "fold counter_step (map (reading created) rs) ?c0"
  have c1: "Bytes (Total ?c1) = fst (last (r # rs)) \<and> Packets (Total ?c1) = fst (snd (last (r # rs)))"
    using fold_counter_step_same[of ?c0 rs created] ok by (cases "rs = []") (simp_all add: last_map)
  have cr: "CreatedNs (LastEbpfRaw ?c1) = created"
    by (cases "rs = []") (simp_all add: LastEbpfRaw_fold last_map)
  have "LastEbpfRaw (fold counter_step ?all ?c0) = last (concat (map epoch_readings es))"
    by (simp only: LastEbpfRaw_fold') (simp add: es epoch_readings_def)
  then have "LastEbpfRaw (fold counter_step ?all ?c0) = last (epoch_readings (last es))"
    by (simp only: last_epoch_reading[OF assms(1,2)])
  moreover have "epochs_ok (CreatedNs (LastEbpfRaw ?c1)) es'" using ok cr by simp
  moreover have "\<forall>k. k \<noteq> key \<longrightarrow> mget (counts g') k = mget (counts g) k"
    unfolding g'_def by (simp add: mget_fold_ApplyDelta_other)
  ultimately show ?thesis
    using fold_epochs[of ?c1 es'] c1 cr ok row by (simp add: es)
qed

theorem apply_readings_exact_witness:
  "\<exists>c. mget (counts (fold (ApplyDelta (ex_key 1)) (concat (map epoch_readings
       [(7, [(60, 1, 1), (100, 2, 2)]), (9, [(40, 1, 3)])])) New)) (ex_key 1) = Some c \<and>
     Bytes (Total c) = 140 \<and> Packets (Total c) = 3"
  using apply_readings_exact[of "[(7, [(60, 1, 1), (100, 2, 2)]), (9, [(40, 1, 3)])]" New "ex_key 1"]
  by (auto simp: New_def)

text \<open>
  C2. Settling conserves what every tier exposes. Let \<^verbatim>\<open>res\<close> be the attribution in force, \<^verbatim>\<open>sr\<close>
  a settle callback that agrees with it on the rows it resolves, and \<^verbatim>\<open>res'\<close> any later attribution
  that changes only rows that were settled. In both modes, evict and rebase, the tenant, server and
  total series of every label, in bytes and in packets, have after \<^verbatim>\<open>Settle\<close> under the new
  attribution the value they had before it under the old one: a tenant change, a re-created NIC or a
  swept ghost never moves history between series and never makes one dip.
\<close>

theorem settle_keeps_exposure:
  assumes "gs_wf g" and "pick \<in> {pick_bytes, pick_packets}"
    and "\<And>k a. mhas (counts g) k \<Longrightarrow> sr k = Some a \<Longrightarrow> res k = a"
    and "\<And>k. mhas (counts g) k \<Longrightarrow> sr k = None \<Longrightarrow> res' k = res k"
  shows "tenant_tier pick res' (fst (Settle mode sr g)) sk = tenant_tier pick res g sk \<and>
    server_tier pick res' (fst (Settle mode sr g)) ck = server_tier pick res g ck \<and>
    total_tier pick res' (fst (Settle mode sr g)) tk = total_tier pick res g tk"
  by (rule settle_tiers[OF assms])

theorem settle_keeps_exposure_witness:
  "tenant_tier pick_bytes (\<lambda>k. if DstZone k = 1 then (''b'', ''-'', ''vm2'') else (''a'', ''-'', ''vm''))
     (fst (Settle SettleRebase ex_sr ex_state))
     \<lparr>TsTenant = ''a'', TsExtNet = ''-'', TsZone = 1, TsDir = 0\<rparr> = 105"
proof -
  have "tenant_tier pick_bytes (\<lambda>k. if DstZone k = 1 then (''b'', ''-'', ''vm2'') else (''a'', ''-'', ''vm''))
     (fst (Settle SettleRebase ex_sr ex_state))
     \<lparr>TsTenant = ''a'', TsExtNet = ''-'', TsZone = 1, TsDir = 0\<rparr> =
     tenant_tier pick_bytes (\<lambda>_. (''a'', ''-'', ''vm'')) ex_state
       \<lparr>TsTenant = ''a'', TsExtNet = ''-'', TsZone = 1, TsDir = 0\<rparr>"
    by (rule settle_keeps_exposure[THEN conjunct1])
       (auto simp: gs_wf_ex_state ex_sr_def split: if_splits)
  then show ?thesis
    by (simp add: tenant_tier_def live_sum_def tenant_label_def live_val_def bucket_at_def bucket_val_def
        pick_bytes_def ex_defs mget_Cons)
qed

text \<open>
  C3. The store refines a one-number ledger. Every operation on the store, seen through the map of
  baselines and the value held in live rows, tenant buckets and total buckets together, is the ledger's
  operation: a reading credits exactly its delta against the baseline (the whole reading when the key
  is new or the kernel entry is another one), \<^verbatim>\<open>Add\<close> and \<^verbatim>\<open>Resolve\<close> credit what they are
  given, and settling and pruning credit nothing.
\<close>

theorem store_refines_ledger:
  assumes "gs_wf g" and "pick \<in> {pick_bytes, pick_packets}"
  shows "ledger_of pick (store_step op g) = ledger_step pick op (ledger_of pick g)"
  using assms bytes_m.ledger_refines[OF assms(1)] packets_m.ledger_refines[OF assms(1)] by auto

theorem store_refines_ledger_witness:
  "snd (ledger_of pick_bytes (store_step (OpApply (ex_key 1) (ex_metrics 90 7)) ex_state)) = 165"
  using store_refines_ledger[OF gs_wf_ex_state, of pick_bytes "OpApply (ex_key 1) (ex_metrics 90 7)"]
  by (simp add: ledger_of_def held_def live_sum_def live_val_def bucket_val_def
      pick_bytes_def reading_delta_def ex_defs mget_Cons)

text \<open>
  A rebased row counts only new traffic. After a row was settled in rebase mode, the next reading of
  the same kernel entry (not below the last one) gives the row exactly the growth since the last reading,
  not the kernel's cumulative; after an eviction the next reading is a new flow and is taken whole.
\<close>

theorem settle_then_reading:
  assumes "gs_wf g" and "mget (counts g) k = Some c" and "sr k \<noteq> None"
    and "CreatedNs raw = CreatedNs (LastEbpfRaw c)"
    and "Bytes (LastEbpfRaw c) \<le> Bytes raw" and "Packets (LastEbpfRaw c) \<le> Packets raw"
  shows "(\<exists>c'. mget (counts (ApplyDelta k raw (fst (Settle SettleRebase sr g)))) k = Some c' \<and>
      Bytes (Total c') = Bytes raw - Bytes (LastEbpfRaw c) \<and>
      Packets (Total c') = Packets raw - Packets (LastEbpfRaw c)) \<and>
    mget (counts (ApplyDelta k raw (fst (Settle SettleEvict sr g)))) k =
      Some \<lparr>Total = raw, LastEbpfRaw = raw\<rparr>"
  using assms
  by (simp add: mget_counts_ApplyDelta counts_Settle counter_step_delta reading_delta_def
      zero_total_def del: not_None_eq)

theorem settle_then_reading_witness:
  "\<exists>c'. mget (counts (ApplyDelta (ex_key 1) (ex_metrics 90 7) (fst (Settle SettleRebase ex_sr ex_state)))) (ex_key 1)
      = Some c' \<and> Bytes (Total c') = 30"
  using settle_then_reading[OF gs_wf_ex_state, of "ex_key 1"
      "\<lparr>Total = ex_metrics 100 7, LastEbpfRaw = ex_metrics 60 7\<rparr>" ex_sr "ex_metrics 90 7"]
  by (auto simp: ex_defs mget_Cons)

text \<open>
  Releasing dead tenants never lowers a total series. \<^verbatim>\<open>PruneTenantSettled\<close> drops exactly the
  buckets whose tenant is not alive, keeps every other bucket and the live rows as they are, and leaves
  every total series, in bytes and packets, at its value, because each dying bucket folds into the total
  absorber in the same step.
\<close>

theorem prune_tenant_keeps_total:
  assumes "gs_wf g" and "pick \<in> {pick_bytes, pick_packets}"
  shows "total_tier pick res (fst (PruneTenantSettled alive g)) tk = total_tier pick res g tk \<and>
    mget (tenantSettled (fst (PruneTenantSettled alive g))) sk =
      (if TsTenant sk \<in> set alive then mget (tenantSettled g) sk else None) \<and>
    counts (fst (PruneTenantSettled alive g)) = counts g \<and>
    serverSettled (fst (PruneTenantSettled alive g)) = serverSettled g"
  using assms(1,2) bytes_m.PruneTenantSettled_total_tier packets_m.PruneTenantSettled_total_tier
  by (auto simp: tenantSettled_Prune)

theorem prune_tenant_keeps_total_witness:
  "total_tier pick_bytes (\<lambda>_. (''b'', ''-'', [])) (fst (PruneTenantSettled [''b''] ex_state))
     \<lparr>ToExtNet = ''-'', ToZone = 1, ToDir = 0\<rparr> = 105"
  using prune_tenant_keeps_total[OF gs_wf_ex_state, of pick_bytes "\<lambda>_. (''b'', ''-'', [])" "[''b'']"
      "\<lparr>ToExtNet = ''-'', ToZone = 1, ToDir = 0\<rparr>"]
  by (simp add: total_tier_def total_label_def live_sum_def tenant_label_def live_val_def
      bucket_at_def bucket_val_def pick_bytes_def ex_defs)

text \<open>
  A snapshot for the WAL restores the store. Loading the four record lists of \<^verbatim>\<open>SnapshotForWAL\<close>
  into an empty store gives back every row with its cumulative and its baseline, and every tenant, server
  and total bucket, and nothing else.
\<close>

theorem snapshot_restore_roundtrip:
  assumes "gs_wf g" and "SnapshotForWAL [] [] [] [] g = (flows, ts, ss, tot)"
  defines "g' \<equiv> RestoreTotalSettled tot (RestoreServerSettled ss (RestoreTenantSettled ts (Restore flows New)))"
  shows "mget (counts g') k = mget (counts g) k \<and> mget (tenantSettled g') tk = mget (tenantSettled g) tk \<and>
    mget (serverSettled g') sk = mget (serverSettled g) sk \<and> mget (totalSettled g') ok = mget (totalSettled g) ok"
proof -
  have rows: "map (\<lambda>r. (RKey r, RCounter r)) flows = counts g"
    using assms(2) by (auto simp: SnapshotForWAL_def o_def split_def)
  show ?thesis
    using assms(1,2) rows
    by (auto simp: g'_def SnapshotForWAL_def RestoreTotalSettled_def RestoreServerSettled_def
        RestoreTenantSettled_def Restore_def load_copy_out New_def mget_mputs_self gs_wf_def)
qed

theorem snapshot_restore_roundtrip_witness:
  "mget (counts (RestoreTotalSettled [] (RestoreServerSettled [] (RestoreTenantSettled
      (copy_out (tenantSettled ex_state)) (Restore (fst (SnapshotForWAL [] [] [] [] ex_state)) New))))) (ex_key 2)
    = Some \<lparr>Total = ex_metrics 30 8, LastEbpfRaw = ex_metrics 30 8\<rparr>"
  using snapshot_restore_roundtrip[OF gs_wf_ex_state, of "fst (SnapshotForWAL [] [] [] [] ex_state)"
      "copy_out (tenantSettled ex_state)" "[]" "[]" "ex_key 2"]
  by (simp add: SnapshotForWAL_def copy_out_def ex_defs mget_Cons)

end
