(* ===== verification/Metadata.thy ===== *)
theory Metadata
  imports Global_State
begin

text \<open>
  The userspace mirror of \<^verbatim>\<open>mac_tenant_map\<close> (\<^verbatim>\<open>internal/metadata\<close>): the sharded map from MAC
  keys to tenant metadata, the interner of project ids, the router-interface map, and the resolver the
  collector and every settle fold label flows with.

  Stored \<^verbatim>\<open>TenantMeta\<close> values are immutable behind their pointers, so a pointer is modelled by
  the value it points to. Each shard operation holds the shard's lock for its body.
\<close>

section \<open>Data\<close>

record tenant_meta =
  ProjectID :: string
  ServerID :: string
  PortID :: string
  ExternalNetwork :: string
  IsAmphora :: bool
  DeleteAt :: gotime

record attribution =
  AtTenant :: string
  AtServerID :: string
  AtPortID :: string
  AtExternalNetwork :: string

definition numShards :: nat where "numShards = 64"
definition TenantIDUnset :: u32 where "TenantIDUnset = 0"
definition UnknownTenantID :: string where "UnknownTenantID = ''unknown''"
definition NoExternalNetwork :: string where "NoExternalNetwork = ''none''"

definition SameAttribution :: "tenant_meta \<Rightarrow> tenant_meta \<Rightarrow> bool" where
  "SameAttribution m ot = (m\<lparr>DeleteAt := 0\<rparr> = ot\<lparr>DeleteAt := 0\<rparr>)"

section \<open>The sharded map\<close>

type_synonym sharded_map = "(u64, tenant_meta) gomap list"

definition ShardedMetadataMap_New :: sharded_map where
  "ShardedMetadataMap_New = replicate numShards []"

definition shardFor :: "u64 \<Rightarrow> nat" where
  "shardFor mac = unat (mac AND of_nat (numShards - 1))"

definition ShardedMetadataMap_Lookup :: "sharded_map \<Rightarrow> u64 \<Rightarrow> tenant_meta option" where
  "ShardedMetadataMap_Lookup s mac = mget (s ! shardFor mac) mac"

definition ShardedMetadataMap_Insert :: "u64 \<Rightarrow> tenant_meta \<Rightarrow> sharded_map \<Rightarrow> sharded_map" where
  "ShardedMetadataMap_Insert mac meta s = s[shardFor mac := mput mac meta (s ! shardFor mac)]"

definition ShardedMetadataMap_Delete :: "u64 \<Rightarrow> sharded_map \<Rightarrow> sharded_map" where
  "ShardedMetadataMap_Delete mac s = s[shardFor mac := mdel mac (s ! shardFor mac)]"

definition ShardedMetadataMap_MarkDelete :: "u64 \<Rightarrow> gotime \<Rightarrow> sharded_map \<Rightarrow> sharded_map \<times> bool" where
  "ShardedMetadataMap_MarkDelete mac at s =
    (case mget (s ! shardFor mac) mac of
       None \<Rightarrow> (s, False)
     | Some prior \<Rightarrow> (s[shardFor mac := mput mac (prior\<lparr>DeleteAt := at\<rparr>) (s ! shardFor mac)], True))"

definition ShardedMetadataMap_Len :: "sharded_map \<Rightarrow> nat" where
  "ShardedMetadataMap_Len s = sum_list (map length s)"

text \<open>
  \<^verbatim>\<open>Range\<close> with a callback that threads a state and says whether to go on; the flag of the
  result is the \<^verbatim>\<open>stop\<close> of the last shard visited.
\<close>

fun range_shard :: "('s \<Rightarrow> u64 \<Rightarrow> tenant_meta \<Rightarrow> 's \<times> bool) \<Rightarrow> (u64, tenant_meta) gomap \<Rightarrow> 's \<Rightarrow> 's \<times> bool" where
  "range_shard f [] st = (st, False)"
| "range_shard f ((mac, meta) # rest) st =
    (case f st mac meta of (st', go) \<Rightarrow> if go then range_shard f rest st' else (st', True))"

fun ShardedMetadataMap_Range :: "('s \<Rightarrow> u64 \<Rightarrow> tenant_meta \<Rightarrow> 's \<times> bool) \<Rightarrow> sharded_map \<Rightarrow> 's \<Rightarrow> 's" where
  "ShardedMetadataMap_Range f [] st = st"
| "ShardedMetadataMap_Range f (sh # shs) st =
    (case range_shard f sh st of (st', stop) \<Rightarrow> if stop then st' else ShardedMetadataMap_Range f shs st')"

section \<open>The tenant interner\<close>

record interner =
  nextID :: u32
  forward :: "(string, u32) gomap"
  reverse :: "(u32, string) gomap"

definition NewTenantInterner :: interner where
  "NewTenantInterner = \<lparr>nextID = 1, forward = [], reverse = []\<rparr>"

definition Intern :: "string \<Rightarrow> interner \<Rightarrow> u32 \<times> interner" where
  "Intern projectID t =
    (if projectID = [] then (TenantIDUnset, t)
     else (case mget (forward t) projectID of
             Some i \<Rightarrow> (i, t)
           | None \<Rightarrow>
               (let i = nextID t
                in (i, t\<lparr>nextID := nextID t + 1, forward := mput projectID i (forward t),
                         reverse := mput i projectID (reverse t)\<rparr>))))"

definition Interner_Lookup :: "interner \<Rightarrow> string \<Rightarrow> u32 option" where
  "Interner_Lookup t projectID = (if projectID = [] then None else mget (forward t) projectID)"

definition Interner_Reverse :: "interner \<Rightarrow> u32 \<Rightarrow> string option" where
  "Interner_Reverse t i = (if i = TenantIDUnset then None else mget (reverse t) i)"

definition Interner_Len :: "interner \<Rightarrow> nat" where
  "Interner_Len t = length (forward t)"

section \<open>Router MACs and the resolver\<close>

text \<open>
  \<^verbatim>\<open>RouterMACs\<close> is a pointer to a whole map that \<^verbatim>\<open>Replace\<close> swaps, so the store is the map;
  a nil store is \<^term>\<open>None\<close>.
\<close>

type_synonym router_macs = "(u64, string) gomap"

definition NewRouterMACs :: router_macs where "NewRouterMACs = []"

definition RouterMACs_Replace :: "router_macs \<Rightarrow> router_macs \<Rightarrow> router_macs" where
  "RouterMACs_Replace m r = m"

definition RouterMACs_Lookup :: "router_macs \<Rightarrow> u64 \<Rightarrow> string option" where
  "RouterMACs_Lookup r mac = mget r mac"

definition RouterMACs_Snapshot :: "router_macs \<Rightarrow> router_macs" where
  "RouterMACs_Snapshot r = r"

definition VMMAC :: "flow_key \<Rightarrow> u64" where
  "VMMAC key = (if Direction key = DirectionIngress then MACKey (SrcMac key) else MACKey (DstMac key))"

definition PeerMAC :: "flow_key \<Rightarrow> u64" where
  "PeerMAC key = (if Direction key = DirectionIngress then MACKey (DstMac key) else MACKey (SrcMac key))"

definition ExternalNetworkLabel :: "string \<Rightarrow> u8 \<Rightarrow> string" where
  "ExternalNetworkLabel extNet zone =
    (if zone \<noteq> ZoneExternal \<or> extNet = [] then NoExternalNetwork else extNet)"

definition FlowExternalLabel :: "router_macs option \<Rightarrow> string \<Rightarrow> flow_key \<Rightarrow> string" where
  "FlowExternalLabel routers vmExtNet key =
    (if DstZone key \<noteq> ZoneExternal then NoExternalNetwork
     else (case (case routers of None \<Rightarrow> None | Some r \<Rightarrow> RouterMACs_Lookup r (PeerMAC key)) of
             Some ext \<Rightarrow> ext
           | None \<Rightarrow> ExternalNetworkLabel vmExtNet (DstZone key)))"

definition Resolver_Resolve :: "sharded_map \<Rightarrow> router_macs option \<Rightarrow> flow_key \<Rightarrow> attribution" where
  "Resolver_Resolve m routers key =
    (case ShardedMetadataMap_Lookup m (VMMAC key) of
       None \<Rightarrow> \<lparr>AtTenant = UnknownTenantID, AtServerID = [], AtPortID = [], AtExternalNetwork = NoExternalNetwork\<rparr>
     | Some meta \<Rightarrow> \<lparr>AtTenant = ProjectID meta, AtServerID = ServerID meta, AtPortID = PortID meta,
         AtExternalNetwork = FlowExternalLabel routers (ExternalNetwork meta) key\<rparr>)"

definition SettleResolver :: "router_macs option \<Rightarrow> (flow_key \<Rightarrow> tenant_meta option) \<Rightarrow> settle_resolver" where
  "SettleResolver routers pick k =
    (case pick k of
       None \<Rightarrow> None
     | Some meta \<Rightarrow> Some (ProjectID meta, FlowExternalLabel routers (ExternalNetwork meta) k, ServerID meta))"

section \<open>The sharded map is a map\<close>

definition sharded_wf :: "sharded_map \<Rightarrow> bool" where
  "sharded_wf s \<longleftrightarrow> length s = numShards \<and>
     (\<forall>i < numShards. mwf (s ! i) \<and> (\<forall>mac. mhas (s ! i) mac \<longrightarrow> shardFor mac = i))"

lemma shardFor_mod: "shardFor mac = unat mac mod 64"
proof -
  have "of_nat (numShards - 1) = (mask 6 :: u64)"
    by (simp add: numShards_def mask_eq_exp_minus_1)
  then show ?thesis
    by (simp only: shardFor_def take_bit_eq_mask[symmetric] unsigned_take_bit_eq) (simp add: take_bit_eq_mod)
qed

lemma shardFor_less [simp]: "shardFor mac < numShards"
  by (simp add: shardFor_mod numShards_def)

lemma sharded_wf_length [simp]: "sharded_wf s \<Longrightarrow> length s = numShards"
  by (simp add: sharded_wf_def)

lemma sharded_wfD:
  assumes "sharded_wf s" and "i < numShards"
  shows "mwf (s ! i)" and "mhas (s ! i) mac \<Longrightarrow> shardFor mac = i"
  using assms by (auto simp: sharded_wf_def)

lemma sharded_wf_upd:
  assumes "sharded_wf s" and "mwf sh" and "\<And>m. mhas sh m \<Longrightarrow> m = mac \<or> mhas (s ! shardFor mac) m"
  shows "sharded_wf (s[shardFor mac := sh])"
  unfolding sharded_wf_def
proof (intro conjI allI impI)
  show "length (s[shardFor mac := sh]) = numShards" using assms(1) by simp
  fix i
  assume i: "i < numShards"
  show "mwf (s[shardFor mac := sh] ! i)"
    using assms(2) sharded_wfD(1)[OF assms(1) i] assms(1) i by (cases "i = shardFor mac") simp_all
  fix m
  assume "mhas (s[shardFor mac := sh] ! i) m"
  then show "shardFor m = i"
    using assms(3)[of m] sharded_wfD(2)[OF assms(1) i] assms(1) i by (cases "i = shardFor mac") auto
qed

interpretation shm: go_map ShardedMetadataMap_Lookup ShardedMetadataMap_Insert ShardedMetadataMap_Delete sharded_wf
proof
  show "sharded_wf m \<Longrightarrow> ShardedMetadataMap_Lookup (ShardedMetadataMap_Insert k v m) k' =
      (if k' = k then Some v else ShardedMetadataMap_Lookup m k')" for m k v k'
    by (cases "shardFor k' = shardFor k") (auto simp: ShardedMetadataMap_Lookup_def ShardedMetadataMap_Insert_def)
  show "sharded_wf m \<Longrightarrow> ShardedMetadataMap_Lookup (ShardedMetadataMap_Delete k m) k' =
      (if k' = k then None else ShardedMetadataMap_Lookup m k')" for m k k'
    by (cases "shardFor k' = shardFor k") (auto simp: ShardedMetadataMap_Lookup_def ShardedMetadataMap_Delete_def)
  show "sharded_wf m \<Longrightarrow> sharded_wf (ShardedMetadataMap_Insert k v m)" for m k v
    unfolding ShardedMetadataMap_Insert_def by (rule sharded_wf_upd) (auto simp: sharded_wfD)
  show "sharded_wf m \<Longrightarrow> sharded_wf (ShardedMetadataMap_Delete k m)" for m k
    unfolding ShardedMetadataMap_Delete_def by (rule sharded_wf_upd) (auto simp: sharded_wfD)
qed

lemma sharded_wf_New [simp]: "sharded_wf ShardedMetadataMap_New"
  by (simp add: sharded_wf_def ShardedMetadataMap_New_def)

lemma Lookup_New [simp]: "ShardedMetadataMap_Lookup ShardedMetadataMap_New mac = None"
  by (simp add: ShardedMetadataMap_Lookup_def ShardedMetadataMap_New_def)

lemma MarkDelete_is_Insert:
  "fst (ShardedMetadataMap_MarkDelete mac at s) =
    (case ShardedMetadataMap_Lookup s mac of None \<Rightarrow> s
     | Some prior \<Rightarrow> ShardedMetadataMap_Insert mac (prior\<lparr>DeleteAt := at\<rparr>) s)"
  "snd (ShardedMetadataMap_MarkDelete mac at s) \<longleftrightarrow> ShardedMetadataMap_Lookup s mac \<noteq> None"
  by (simp_all add: ShardedMetadataMap_MarkDelete_def ShardedMetadataMap_Lookup_def
      ShardedMetadataMap_Insert_def split: option.splits)

lemma sharded_wf_MarkDelete [simp]:
  "sharded_wf s \<Longrightarrow> sharded_wf (fst (ShardedMetadataMap_MarkDelete mac at s))"
  by (auto simp: MarkDelete_is_Insert shm.wf_put split: option.splits)

text \<open>The rows of all shards together are one well-formed Go map with the same lookups.\<close>

definition flat :: "sharded_map \<Rightarrow> (u64, tenant_meta) gomap" where
  "flat s = concat s"

lemma mget_append: "mget (a @ b) k = (case mget a k of None \<Rightarrow> mget b k | Some v \<Rightarrow> Some v)"
  by (simp add: mget_def map_add_def split: option.splits)

lemma mget_concat_None: "\<forall>x \<in> set xs. mget x k = None \<Longrightarrow> mget (concat xs) k = None"
  by (induction xs) (auto simp: mget_append)

lemma mget_concat_only:
  assumes "i < length xs" and "\<And>j. j < length xs \<Longrightarrow> j \<noteq> i \<Longrightarrow> mget (xs ! j) k = None"
  shows "mget (concat xs) k = mget (xs ! i) k"
proof -
  have xs: "xs = take i xs @ xs ! i # drop (Suc i) xs"
    using assms(1) by (simp add: id_take_nth_drop)
  have "mget (concat (take i xs)) k = None" and "mget (concat (drop (Suc i) xs)) k = None"
    using assms by (auto intro!: mget_concat_None simp: in_set_conv_nth)
  then show ?thesis
    by (subst xs) (simp add: mget_append split: option.splits)
qed

lemma mget_flat: "sharded_wf s \<Longrightarrow> mget (flat s) mac = ShardedMetadataMap_Lookup s mac"
  unfolding flat_def ShardedMetadataMap_Lookup_def
  by (rule mget_concat_only) (simp, metis sharded_wfD(2) mhas_def sharded_wf_length)

lemma mwf_append: "mwf (a @ b) \<longleftrightarrow> mwf a \<and> mwf b \<and> (\<forall>k. mhas a k \<longrightarrow> \<not> mhas b k)"
  by (auto simp: mwf_def mhas_iff)

lemma mhas_concat: "mhas (concat xs) k \<longleftrightarrow> (\<exists>x \<in> set xs. mhas x k)"
  by (auto simp: mhas_iff)

lemma mwf_concat:
  assumes "\<And>i. i < length xs \<Longrightarrow> mwf (xs ! i)"
    and "\<And>i j k. i < length xs \<Longrightarrow> j < length xs \<Longrightarrow> mhas (xs ! i) k \<Longrightarrow> mhas (xs ! j) k \<Longrightarrow> i = j"
  shows "mwf (concat xs)"
  using assms
proof (induction xs)
  case (Cons x xs)
  have "mwf x" using Cons.prems(1)[of 0] by simp
  moreover have "mwf (concat xs)"
  proof (rule Cons.IH)
    show "mwf (xs ! i)" if "i < length xs" for i
      using Cons.prems(1)[of "Suc i"] that by simp
    show "i = j" if "i < length xs" "j < length xs" "mhas (xs ! i) k" "mhas (xs ! j) k" for i j k
      using Cons.prems(2)[of "Suc i" "Suc j" k] that by simp
  qed
  moreover have "\<not> mhas (concat xs) k" if "mhas x k" for k
  proof
    assume "mhas (concat xs) k"
    then obtain j where "j < length xs" "mhas (xs ! j) k"
      by (auto simp: mhas_concat in_set_conv_nth)
    then show False using Cons.prems(2)[of 0 "Suc j" k] that by simp
  qed
  ultimately show ?case by (simp add: mwf_append)
qed simp

lemma mwf_flat: "sharded_wf s \<Longrightarrow> mwf (flat s)"
  unfolding flat_def by (rule mwf_concat) (auto simp: sharded_wfD, metis sharded_wfD(2))

lemma Len_flat: "ShardedMetadataMap_Len s = length (flat s)"
  by (simp add: ShardedMetadataMap_Len_def flat_def length_concat)

text \<open>A callback that never stops sees every row once: \<^verbatim>\<open>Range\<close> is the fold over the flat map.\<close>

lemma range_shard_fold:
  "range_shard (\<lambda>st mac meta. (f mac meta st, True)) sh st = (fold (\<lambda>(mac, meta). f mac meta) sh st, False)"
  by (induction sh arbitrary: st) auto

lemma Range_fold:
  "ShardedMetadataMap_Range (\<lambda>st mac meta. (f mac meta st, True)) s st = fold (\<lambda>(mac, meta). f mac meta) (flat s) st"
  by (induction s arbitrary: st) (auto simp: range_shard_fold flat_def)

section \<open>The interner\<close>

text \<open>
  The 32-bit counter wraps, so the invariant bounds the number of projects: with fewer than
  2^32 - 1 of them every id is fresh and none is the unset id.
\<close>

definition interner_ok :: "interner \<Rightarrow> bool" where
  "interner_ok t \<longleftrightarrow> mwf (forward t) \<and> unat (nextID t) = length (forward t) + 1 \<and>
     (\<forall>p i. mget (forward t) p = Some i \<longleftrightarrow> mget (reverse t) i = Some p) \<and>
     (\<forall>p i. mget (forward t) p = Some i \<longrightarrow> p \<noteq> [] \<and> i \<noteq> TenantIDUnset \<and> i < nextID t)"

lemma interner_ok_New [simp]: "interner_ok NewTenantInterner"
  by (simp add: interner_ok_def NewTenantInterner_def)

lemma Intern_known: "p \<noteq> [] \<Longrightarrow> mget (forward t) p = Some i \<Longrightarrow> Intern p t = (i, t)"
  by (simp add: Intern_def)

lemma interner_ok_Intern:
  assumes ok: "interner_ok t" and len: "length (forward t) < 2 ^ 32 - 2"
  shows "interner_ok (snd (Intern p t))"
proof (cases "p = [] \<or> mget (forward t) p \<noteq> None")
  case True
  then show ?thesis using ok by (auto simp: Intern_def)
next
  case False
  let ?i = "nextID t"
  let ?t = "t\<lparr>nextID := ?i + 1, forward := mput p ?i (forward t), reverse := mput ?i p (reverse t)\<rparr>"
  have none: "mget (forward t) p = None" "p \<noteq> []" using False by auto
  have fr: "mget (forward t) p' = Some i \<longleftrightarrow> mget (reverse t) i = Some p'"
    and bd: "mget (forward t) p' = Some i \<Longrightarrow> p' \<noteq> [] \<and> i \<noteq> TenantIDUnset \<and> i < ?i" for p' i
    using ok by (auto simp: interner_ok_def)
  have len1: "unat ?i = length (forward t) + 1" using ok by (simp add: interner_ok_def)
  have suc: "unat (?i + 1) = unat ?i + 1"
    using len1 len by (simp add: unat_word_ariths)
  have lt: "?i < ?i + 1" using suc by (simp add: word_less_nat_alt)
  have nz: "?i \<noteq> TenantIDUnset" using len1 by (auto simp: TenantIDUnset_def)
  have fresh: "mget (reverse t) ?i \<noteq> Some p'" for p'
    using bd[of p' ?i] fr[of p' ?i] by auto
  have "snd (Intern p t) = ?t"
    using none by (simp add: Intern_def Let_def)
  moreover have "mget (forward ?t) p' = Some i \<longleftrightarrow> mget (reverse ?t) i = Some p'" for p' i
    using fr[of p' i] fr[of p i] none fresh[of p'] by auto
  moreover have "p' \<noteq> [] \<and> i \<noteq> TenantIDUnset \<and> i < nextID ?t" if "mget (forward ?t) p' = Some i" for p' i
    using that bd[of p' i] none nz lt by (auto split: if_splits intro: order_less_trans)
  moreover have "mwf (forward ?t)" "unat (nextID ?t) = length (forward ?t) + 1"
    using ok suc len1 none by (simp_all add: interner_ok_def length_mput mhas_def)
  ultimately show ?thesis by (simp only: interner_ok_def) blast
qed

definition intern_all :: "string list \<Rightarrow> interner \<Rightarrow> interner" where
  "intern_all ps t = fold (\<lambda>p t. snd (Intern p t)) ps t"

lemma intern_all_simps [simp]:
  "intern_all [] t = t" "intern_all (p # ps) t = intern_all ps (snd (Intern p t))"
  "intern_all (ps @ qs) t = intern_all qs (intern_all ps t)"
  by (simp_all add: intern_all_def)

lemma length_Intern: "length (forward (snd (Intern p t))) \<le> Suc (length (forward t))"
  by (auto simp: Intern_def Let_def length_mput split: option.splits)

lemma length_intern_all: "length (forward (intern_all ps t)) \<le> length ps + length (forward t)"
proof (induction ps arbitrary: t)
  case (Cons p ps)
  then show ?case using length_Intern[of p t] by (metis (no_types, lifting) Suc_leI add_Suc add_Suc_right
      intern_all_simps(2) length_Cons le_trans nat_add_left_cancel_le)
qed simp

lemma interner_ok_all:
  "interner_ok t \<Longrightarrow> length ps + length (forward t) < 2 ^ 32 - 2 \<Longrightarrow> interner_ok (intern_all ps t)"
proof (induction ps arbitrary: t)
  case (Cons p ps)
  then show ?case using interner_ok_Intern[of t p] length_Intern[of p t] by simp
qed simp

lemma Intern_keeps: "mget (forward t) q = Some i \<Longrightarrow> mget (forward (snd (Intern p t))) q = Some i"
  by (auto simp: Intern_def Let_def split: option.splits)

lemma intern_all_keeps: "mget (forward t) q = Some i \<Longrightarrow> mget (forward (intern_all ps t)) q = Some i"
  by (induction ps arbitrary: t) (simp_all add: Intern_keeps)

lemma Intern_binds: "p \<noteq> [] \<Longrightarrow> mget (forward (snd (Intern p t))) p = Some (fst (Intern p t))"
  by (auto simp: Intern_def Let_def split: option.splits)

lemma interner_ok_bound:
  assumes "interner_ok t" and "mget (forward t) p = Some i"
  shows "unat i \<le> length (forward t)"
proof -
  have "i < nextID t" "unat (nextID t) = length (forward t) + 1"
    using assms by (auto simp: interner_ok_def)
  then show ?thesis by (simp add: word_less_nat_alt)
qed

lemma mask_small:
  assumes "unat (i :: u32) < 2 ^ 31"
  shows "i AND TenantIDMask = i"
proof -
  have "TenantIDMask = mask 31" by (simp add: TenantIDMask_def mask_eq_exp_minus_1)
  then have "i AND TenantIDMask = take_bit 31 i" by (simp only: take_bit_eq_mask)
  moreover have "unat (take_bit 31 i) = unat i"
    using assms by (simp only: unsigned_take_bit_eq take_bit_nat_eq_self)
  ultimately show ?thesis by (simp only: unat_eqD)
qed

section \<open>Attribution and its changes\<close>

text \<open>What the collector shows for a flow, as the triple a settle fold uses.\<close>

definition display :: "sharded_map \<Rightarrow> router_macs option \<Rightarrow> flow_key \<Rightarrow> attribution3" where
  "display m routers k = (case Resolver_Resolve m routers k of a \<Rightarrow> (AtTenant a, AtExternalNetwork a, AtServerID a))"

lemma SettleResolver_display:
  "pick k = Some meta \<Longrightarrow> ShardedMetadataMap_Lookup m (VMMAC k) = Some meta \<Longrightarrow>
   SettleResolver routers pick k = Some (display m routers k)"
  by (simp add: SettleResolver_def display_def Resolver_Resolve_def)

lemma SettleResolver_None [simp]: "SettleResolver routers pick k = None \<longleftrightarrow> pick k = None"
  by (simp add: SettleResolver_def split: option.splits)

lemma display_cong:
  "ShardedMetadataMap_Lookup m (VMMAC k) = ShardedMetadataMap_Lookup m' (VMMAC k) \<Longrightarrow>
   display m routers k = display m' routers k"
  by (simp add: display_def Resolver_Resolve_def)

section \<open>Properties\<close>

text \<open>
  C4. The 64-way sharded map is one map. In a well-formed map, which every operation keeps, a lookup
  after an insert, a delete or a ghost mark gives what a single map would give (a mark changes only the
  deletion time and reports whether the MAC was there); the rows of all shards are one map with distinct
  keys and the same lookups, \<^verbatim>\<open>Len\<close> counts them, and \<^verbatim>\<open>Range\<close> with a callback that goes on
  visits each of them exactly once.
\<close>

theorem sharded_map_is_map:
  assumes "sharded_wf s"
  shows "ShardedMetadataMap_Lookup (ShardedMetadataMap_Insert mac v s) mac' =
      (if mac' = mac then Some v else ShardedMetadataMap_Lookup s mac') \<and>
    ShardedMetadataMap_Lookup (ShardedMetadataMap_Delete mac s) mac' =
      (if mac' = mac then None else ShardedMetadataMap_Lookup s mac') \<and>
    ShardedMetadataMap_Lookup (fst (ShardedMetadataMap_MarkDelete mac at s)) mac' =
      (if mac' = mac then map_option (DeleteAt_update (\<lambda>_. at)) (ShardedMetadataMap_Lookup s mac)
       else ShardedMetadataMap_Lookup s mac') \<and>
    snd (ShardedMetadataMap_MarkDelete mac at s) = (ShardedMetadataMap_Lookup s mac \<noteq> None) \<and>
    sharded_wf (ShardedMetadataMap_Insert mac v s) \<and> sharded_wf (ShardedMetadataMap_Delete mac s) \<and>
    sharded_wf (fst (ShardedMetadataMap_MarkDelete mac at s)) \<and>
    mwf (flat s) \<and> mget (flat s) mac' = ShardedMetadataMap_Lookup s mac' \<and>
    ShardedMetadataMap_Len s = length (flat s) \<and>
    ShardedMetadataMap_Range (\<lambda>st mac meta. (f mac meta st, True)) s st =
      fold (\<lambda>(mac, meta). f mac meta) (flat s) st"
  using assms
  by (simp add: shm.get_put shm.get_del shm.wf_put shm.wf_del MarkDelete_is_Insert mwf_flat mget_flat
      Len_flat Range_fold split: option.splits)

definition ex_meta :: "string \<Rightarrow> tenant_meta" where
  "ex_meta p = \<lparr>ProjectID = p, ServerID = ''vm'', PortID = ''port'', ExternalNetwork = [],
     IsAmphora = False, DeleteAt = 0\<rparr>"

definition ex_meta_map :: sharded_map where
  "ex_meta_map = ShardedMetadataMap_Insert (MACKey (Mac 2 0 0 0 0 10)) (ex_meta ''a'') ShardedMetadataMap_New"

lemma sharded_wf_ex: "sharded_wf ex_meta_map"
  by (simp add: ex_meta_map_def shm.wf_put del: MACKey.simps)

lemma lookup_ex: "ShardedMetadataMap_Lookup ex_meta_map (MACKey (Mac 2 0 0 0 0 10)) = Some (ex_meta ''a'')"
  by (simp add: ex_meta_map_def shm.get_put del: MACKey.simps)

lemma ex_meta_map_other: "x \<noteq> MACKey (Mac 2 0 0 0 0 10) \<Longrightarrow> ShardedMetadataMap_Lookup ex_meta_map x = None"
  by (simp add: ex_meta_map_def shm.get_put del: MACKey.simps)

theorem sharded_map_is_map_witness:
  "ShardedMetadataMap_Lookup (fst (ShardedMetadataMap_MarkDelete (MACKey (Mac 2 0 0 0 0 10)) 60 ex_meta_map))
     (MACKey (Mac 2 0 0 0 0 10)) = Some ((ex_meta ''a'')\<lparr>DeleteAt := 60\<rparr>)"
  using sharded_map_is_map[OF sharded_wf_ex, of "MACKey (Mac 2 0 0 0 0 10)" "ex_meta ''b''" "MACKey (Mac 2 0 0 0 0 10)" 60
      "\<lambda>_ _ n. n" "0 :: nat"]
  by (simp add: lookup_ex del: MACKey.simps)

text \<open>
  Interned tenant ids are stable, unique and fit the kernel's value. Intern any sequence of project
  ids shorter than 2^31 into a fresh interner. The id handed out for a non-empty project at any point of
  the sequence is still its id at the end, is not the unset id, maps back to that project and to no
  other, and survives the packing with the Amphora flag: masking the packed value gives the id, and the
  flag bit tells whether the port is an Amphora.
\<close>

theorem interned_ids_stable:
  assumes "length (ps @ p # qs) < 2 ^ 31" and "p \<noteq> []"
  defines "i \<equiv> fst (Intern p (intern_all ps NewTenantInterner))"
    and "t \<equiv> intern_all (ps @ p # qs) NewTenantInterner"
  shows "Interner_Lookup t p = Some i \<and> i \<noteq> TenantIDUnset \<and> Interner_Reverse t i = Some p \<and>
    (\<forall>q. Interner_Lookup t q = Some i \<longrightarrow> q = p) \<and>
    TenantValue i amphora AND TenantIDMask = i \<and>
    (TenantValue i amphora AND TenantAmphoraFlag \<noteq> 0 \<longleftrightarrow> amphora)"
proof -
  have empty: "length (forward NewTenantInterner) = 0" by (simp add: NewTenantInterner_def)
  have ok: "interner_ok t"
    unfolding t_def by (rule interner_ok_all) (use assms(1) empty in auto)
  have fwd: "mget (forward t) p = Some i"
    using intern_all_keeps[OF Intern_binds[OF assms(2)]] by (simp add: t_def i_def)
  have "unat i \<le> length (ps @ p # qs)"
    using interner_ok_bound[OF ok fwd] length_intern_all[of "ps @ p # qs" NewTenantInterner] empty
    unfolding t_def by linarith
  then have "i AND TenantIDMask = i"
    using assms(1) by (intro mask_small) linarith
  then show ?thesis
    using fwd ok assms(2) TenantValue_mask[of i amphora] TenantValue_flag[of i amphora]
    by (auto simp: interner_ok_def Interner_Lookup_def Interner_Reverse_def)
qed

theorem interned_ids_stable_witness:
  "Interner_Reverse (intern_all ([''a''] @ ''b'' # [''c'', ''a'']) NewTenantInterner) 2 = Some ''b''"
  using interned_ids_stable[of "[''a'']" "''b''" "[''c'', ''a'']" False]
  by (simp add: Intern_def NewTenantInterner_def Let_def TenantIDUnset_def mput_Cons mget_Cons)

text \<open>
  Changing the attribution of one MAC is invisible to every series when its rows are settled first.
  Let the metadata map change at one known MAC only. Settling the rows of that MAC through
  \<^verbatim>\<open>SettleResolver\<close> under the old entry, in either mode, and then switching to the new map leaves
  the tenant, server and total series of every label at their values, in bytes and packets, whatever
  the new entry says or if it is gone.
\<close>

theorem settle_before_metadata_change:
  assumes "gs_wf g" and "pick \<in> {pick_bytes, pick_packets}"
    and "ShardedMetadataMap_Lookup m mac = Some old"
    and "\<And>x. x \<noteq> mac \<Longrightarrow> ShardedMetadataMap_Lookup m' x = ShardedMetadataMap_Lookup m x"
    and sr_def: "sr = SettleResolver routers (\<lambda>k. if VMMAC k = mac then Some old else None)"
  shows "tenant_tier pick (display m' routers) (fst (Settle mode sr g)) sk = tenant_tier pick (display m routers) g sk \<and>
    server_tier pick (display m' routers) (fst (Settle mode sr g)) ck = server_tier pick (display m routers) g ck \<and>
    total_tier pick (display m' routers) (fst (Settle mode sr g)) tk = total_tier pick (display m routers) g tk"
proof -
  have agree: "display m routers k = a" if "mhas (counts g) k" "sr k = Some a" for k a
  proof -
    have "VMMAC k = mac"
      using that(2) by (simp add: sr_def SettleResolver_def split: if_splits)
    then show ?thesis
      using that(2) SettleResolver_display[of "\<lambda>k. if VMMAC k = mac then Some old else None" k old m routers] assms(3)
      by (simp add: sr_def)
  qed
  have keep: "display m' routers k = display m routers k" if "mhas (counts g) k" "sr k = None" for k
    using that(2) assms(4)[of "VMMAC k"] by (intro display_cong) (simp add: sr_def split: if_splits)
  show ?thesis by (rule settle_tiers[OF assms(1,2) agree keep])
qed

theorem settle_before_metadata_change_witness:
  "tenant_tier pick_bytes (display ShardedMetadataMap_New None)
     (fst (Settle SettleEvict (SettleResolver None
        (\<lambda>k. if VMMAC k = MACKey (Mac 2 0 0 0 0 10) then Some (ex_meta ''a'') else None)) ex_state))
     \<lparr>TsTenant = ''a'', TsExtNet = ''none'', TsZone = 1, TsDir = 0\<rparr> =
   tenant_tier pick_bytes (display ex_meta_map None) ex_state
     \<lparr>TsTenant = ''a'', TsExtNet = ''none'', TsZone = 1, TsDir = 0\<rparr>"
  by (rule settle_before_metadata_change[THEN conjunct1])
     (simp_all add: gs_wf_ex_state lookup_ex ex_meta_map_other del: MACKey.simps)

end
