(* ===== verification/Wal.thy ===== *)
theory Wal
  imports Metadata
begin

text \<open>
  The write-ahead log (\<^verbatim>\<open>internal/wal/schema.go\<close>, \<^verbatim>\<open>wal.go\<close>): the wire structs, the converters
  between state records and wire, \<^verbatim>\<open>Save\<close> with its rotation, \<^verbatim>\<open>Load\<close> with its fallback and
  refusals, and \<^verbatim>\<open>Quarantine\<close>.

  A file holds a marshalled envelope, bytes that do not parse, or cannot be read; JSON text itself is
  not modelled, an envelope stands for its encoding. Absent \<^verbatim>\<open>omitempty\<close> fields decode to the zero
  value, which is what the envelope then holds. The directory is a map from paths to files, and the
  operating-system calls of \<^verbatim>\<open>Save\<close> take a function that says which of them fail.
\<close>

section \<open>Wire structs\<close>

record flowKeyWire =
  wSrcMac :: mac
  wDstMac :: mac
  wEthProto :: u16
  wDirection :: u8
  wDstZone :: u8
  wL4Proto :: u8

record flowMetricsWire =
  wBytes :: u64
  wPackets :: u64
  wLastSeenNs :: u64
  wCreatedNs :: u64

record ownerWire =
  owTenant :: string
  owExtNet :: string
  owServer :: string

record entryWire =
  ewKey :: flowKeyWire
  ewTotal :: flowMetricsWire
  ewLastRaw :: flowMetricsWire
  ewOwner :: "ownerWire option"

record tenantSettledWire =
  twTenantID :: string
  twExternalNetwork :: string
  twZone :: u8
  twDirection :: u8
  twBytes :: u64
  twPackets :: u64

record serverSettledWire =
  swServerID :: string
  swTenantID :: string
  swExternalNetwork :: string
  swZone :: u8
  swDirection :: u8
  swBytes :: u64
  swPackets :: u64

record totalSettledWire =
  otExternalNetwork :: string
  otZone :: u8
  otDirection :: u8
  otBytes :: u64
  otPackets :: u64

record snapshotWire =
  snSchemaVersion :: nat
  snAgentBuild :: string
  snWrittenAtNs :: u64
  snGlobalState :: "entryWire list"
  snTenantSettled :: "tenantSettledWire list"
  snServerSettled :: "serverSettledWire list"
  snTotalSettled :: "totalSettledWire list"
  snCountersResetAtS :: int
  snLegacySettled :: "tenantSettledWire list"

definition SchemaVersion :: nat where "SchemaVersion = 9"

datatype stage = StageMarshal | StageWrite | StageFsync | StageRenameBak | StageRenameCurrent | StageDirSync

datatype load_source = LoadFromPrimary | LoadFromBackup | LoadEmpty

record load_result =
  lrRecords :: "flow_record list"
  lrTenantSettled :: "tenant_settled_record list"
  lrServerSettled :: "server_settled_record list"
  lrTotalSettled :: "total_settled_record list"
  lrCountersResetAt :: int
  lrSource :: load_source

section \<open>Converters\<close>

definition toMetricsWire :: "flow_metrics \<Rightarrow> flowMetricsWire" where
  "toMetricsWire m = \<lparr>wBytes = Bytes m, wPackets = Packets m, wLastSeenNs = LastSeenNs m, wCreatedNs = CreatedNs m\<rparr>"

definition fromMetricsWire :: "flowMetricsWire \<Rightarrow> flow_metrics" where
  "fromMetricsWire w = \<lparr>Bytes = wBytes w, Packets = wPackets w, LastSeenNs = wLastSeenNs w, CreatedNs = wCreatedNs w\<rparr>"

definition toWire :: "flow_record \<Rightarrow> entryWire" where
  "toWire r =
    \<lparr>ewKey = \<lparr>wSrcMac = SrcMac (RKey r), wDstMac = DstMac (RKey r), wEthProto = EthProto (RKey r),
              wDirection = Direction (RKey r), wDstZone = DstZone (RKey r), wL4Proto = L4Proto (RKey r)\<rparr>,
     ewTotal = toMetricsWire (Total (RCounter r)),
     ewLastRaw = toMetricsWire (LastEbpfRaw (RCounter r)),
     ewOwner = (if OTenant (ROwner r) \<noteq> []
                then Some \<lparr>owTenant = OTenant (ROwner r), owExtNet = OExtNet (ROwner r), owServer = OServer (ROwner r)\<rparr>
                else None)\<rparr>"

definition fromEntry :: "entryWire \<Rightarrow> flow_record" where
  "fromEntry e =
    \<lparr>RKey = \<lparr>SrcMac = wSrcMac (ewKey e), DstMac = wDstMac (ewKey e), EthProto = wEthProto (ewKey e),
             Direction = wDirection (ewKey e), DstZone = wDstZone (ewKey e), L4Proto = wL4Proto (ewKey e), Pad = 0\<rparr>,
     RCounter = \<lparr>Total = fromMetricsWire (ewTotal e), LastEbpfRaw = fromMetricsWire (ewLastRaw e)\<rparr>,
     ROwner = (case ewOwner e of None \<Rightarrow> zero_owner
               | Some ow \<Rightarrow> \<lparr>OTenant = owTenant ow, OExtNet = owExtNet ow, OServer = owServer ow\<rparr>)\<rparr>"

definition fromSnapshot :: "snapshotWire \<Rightarrow> flow_record list" where
  "fromSnapshot snap = map fromEntry (snGlobalState snap)"

text \<open>An absent external network (a file older than the field) means the sentinel.\<close>

definition ext_or_none :: "string \<Rightarrow> string" where
  "ext_or_none e = (if e = [] then NoExternalNetwork else e)"

definition fromTenantSettled :: "snapshotWire \<Rightarrow> tenant_settled_record list" where
  "fromTenantSettled snap =
    (let srcs = (if snTenantSettled snap = [] then snLegacySettled snap else snTenantSettled snap)
     in map (\<lambda>s. \<lparr>SKey = \<lparr>TsTenant = twTenantID s, TsExtNet = ext_or_none (twExternalNetwork s),
                          TsZone = twZone s, TsDir = twDirection s\<rparr>,
                  SBytes = twBytes s, SPackets = twPackets s\<rparr>) srcs)"

definition fromServerSettled :: "snapshotWire \<Rightarrow> server_settled_record list" where
  "fromServerSettled snap =
    map (\<lambda>s. \<lparr>SKey = \<lparr>SsServerID = swServerID s, SsTenant = swTenantID s, SsExtNet = ext_or_none (swExternalNetwork s),
                      SsZone = swZone s, SsDir = swDirection s\<rparr>,
              SBytes = swBytes s, SPackets = swPackets s\<rparr>) (snServerSettled snap)"

definition fromTotalSettled :: "snapshotWire \<Rightarrow> total_settled_record list" where
  "fromTotalSettled snap =
    map (\<lambda>s. \<lparr>SKey = \<lparr>ToExtNet = ext_or_none (otExternalNetwork s), ToZone = otZone s, ToDir = otDirection s\<rparr>,
              SBytes = otBytes s, SPackets = otPackets s\<rparr>) (snTotalSettled snap)"

text \<open>The envelope \<^verbatim>\<open>Save\<close> builds.\<close>

definition toSnapshot :: "string \<Rightarrow> u64 \<Rightarrow> flow_record list \<Rightarrow> tenant_settled_record list \<Rightarrow>
    server_settled_record list \<Rightarrow> total_settled_record list \<Rightarrow> int \<Rightarrow> snapshotWire" where
  "toSnapshot agentBuild now records settled server tot countersResetAt =
    \<lparr>snSchemaVersion = SchemaVersion, snAgentBuild = agentBuild, snWrittenAtNs = now,
     snGlobalState = map toWire records,
     snTenantSettled = map (\<lambda>s. \<lparr>twTenantID = TsTenant (SKey s), twExternalNetwork = TsExtNet (SKey s),
       twZone = TsZone (SKey s), twDirection = TsDir (SKey s), twBytes = SBytes s, twPackets = SPackets s\<rparr>) settled,
     snServerSettled = map (\<lambda>s. \<lparr>swServerID = SsServerID (SKey s), swTenantID = SsTenant (SKey s),
       swExternalNetwork = SsExtNet (SKey s), swZone = SsZone (SKey s), swDirection = SsDir (SKey s),
       swBytes = SBytes s, swPackets = SPackets s\<rparr>) server,
     snTotalSettled = map (\<lambda>s. \<lparr>otExternalNetwork = ToExtNet (SKey s), otZone = ToZone (SKey s),
       otDirection = ToDir (SKey s), otBytes = SBytes s, otPackets = SPackets s\<rparr>) tot,
     snCountersResetAtS = countersResetAt, snLegacySettled = []\<rparr>"

section \<open>Files\<close>

datatype wal_file = Envelope snapshotWire | Garbage | Unreadable

type_synonym dir = "(string, wal_file) gomap"

definition BackupSuffix :: string where "BackupSuffix = ''.bak''"
definition TempSuffix :: string where "TempSuffix = ''.tmp''"
definition QuarantineSuffix :: string where "QuarantineSuffix = ''.quarantine''"

text \<open>\<^verbatim>\<open>os.Rename\<close> replaces the target; a missing source is an error of its own.\<close>

datatype rename_error = RNotExist | ROther

definition os_rename :: "bool \<Rightarrow> string \<Rightarrow> string \<Rightarrow> dir \<Rightarrow> rename_error option \<times> dir" where
  "os_rename fails src dst d =
    (case mget d src of
       None \<Rightarrow> (Some RNotExist, d)
     | Some f \<Rightarrow> if fails then (Some ROther, d) else (None, mput dst f (mdel src d)))"

text \<open>
  \<^verbatim>\<open>writeAndFsync\<close>: opening truncates; a failed write or fsync leaves whatever was written, which need
  not parse. The result is the failing stage.
\<close>

definition writeAndFsync :: "(stage \<Rightarrow> bool) \<Rightarrow> string \<Rightarrow> snapshotWire \<Rightarrow> dir \<Rightarrow> stage option \<times> dir" where
  "writeAndFsync fails path snap d =
    (if fails StageWrite then (Some StageWrite, mput path Garbage d)
     else if fails StageFsync then (Some StageFsync, mput path Garbage d)
     else (None, mput path (Envelope snap) d))"

definition Save :: "(stage \<Rightarrow> bool) \<Rightarrow> string \<Rightarrow> snapshotWire \<Rightarrow> dir \<Rightarrow> stage option \<times> dir" where
  "Save fails path snap d =
    (if fails StageMarshal then (Some StageMarshal, d)
     else (case writeAndFsync fails (path @ TempSuffix) snap d of
       (Some st, d1) \<Rightarrow> (Some st, d1)
     | (None, d1) \<Rightarrow>
         (case os_rename (fails StageRenameBak) path (path @ BackupSuffix) d1 of
            (Some ROther, d2) \<Rightarrow> (Some StageRenameBak, d2)
          | (_, d2) \<Rightarrow>
              (case os_rename (fails StageRenameCurrent) (path @ TempSuffix) path d2 of
                 (Some _, d3) \<Rightarrow> (Some StageRenameCurrent, d3)
               | (None, d3) \<Rightarrow> if fails StageDirSync then (Some StageDirSync, d3) else (None, d3)))))"

datatype wal_error = ENotExist | EIo | EParse | ESchemaNewer | ESchemaUnsupported

definition readAndParse :: "string \<Rightarrow> dir \<Rightarrow> wal_error + snapshotWire" where
  "readAndParse path d =
    (case mget d path of
       None \<Rightarrow> Inl ENotExist
     | Some Unreadable \<Rightarrow> Inl EIo
     | Some Garbage \<Rightarrow> Inl EParse
     | Some (Envelope snap) \<Rightarrow>
         if snSchemaVersion snap > SchemaVersion then Inl ESchemaNewer
         else if snSchemaVersion snap < 1 then Inl ESchemaUnsupported
         else Inr snap)"

definition result_of :: "snapshotWire \<Rightarrow> load_source \<Rightarrow> load_result" where
  "result_of snap s =
    \<lparr>lrRecords = fromSnapshot snap, lrTenantSettled = fromTenantSettled snap, lrServerSettled = fromServerSettled snap,
     lrTotalSettled = fromTotalSettled snap, lrCountersResetAt = snCountersResetAtS snap, lrSource = s\<rparr>"

definition empty_result :: load_result where
  "empty_result = \<lparr>lrRecords = [], lrTenantSettled = [], lrServerSettled = [], lrTotalSettled = [],
     lrCountersResetAt = 0, lrSource = LoadEmpty\<rparr>"

text \<open>
  An error of \<^verbatim>\<open>Load\<close> wraps the errors of the files it tried; \<^verbatim>\<open>errors.Is(err, ErrSchemaNewer)\<close>
  looks into all of them.
\<close>

definition Load :: "string \<Rightarrow> dir \<Rightarrow> wal_error list + load_result" where
  "Load path d =
    (case readAndParse path d of
       Inr primary \<Rightarrow> Inr (result_of primary LoadFromPrimary)
     | Inl perr \<Rightarrow>
         if perr = ESchemaNewer then Inl [ESchemaNewer]
         else (case readAndParse (path @ BackupSuffix) d of
                 Inr backup \<Rightarrow> Inr (result_of backup LoadFromBackup)
               | Inl berr \<Rightarrow>
                   if perr = ENotExist \<and> berr = ENotExist then Inr empty_result
                   else Inl [perr, berr]))"

definition is_schema_newer :: "wal_error list \<Rightarrow> bool" where
  "is_schema_newer errs \<longleftrightarrow> ESchemaNewer \<in> set errs"

definition Quarantine :: "bool \<Rightarrow> string \<Rightarrow> dir \<Rightarrow> bool \<times> bool \<times> dir" where
  "Quarantine fails path d =
    (case os_rename fails path (path @ QuarantineSuffix) d of
       (Some RNotExist, d') \<Rightarrow> (False, False, d')
     | (Some ROther, d') \<Rightarrow> (False, True, d')
     | (None, d') \<Rightarrow> (True, False, d'))"

section \<open>Round trip of the records\<close>

definition record_ok :: "flow_record \<Rightarrow> bool" where
  "record_ok r \<longleftrightarrow> Pad (RKey r) = 0 \<and> (OTenant (ROwner r) = [] \<longrightarrow> ROwner r = zero_owner)"

lemma metrics_roundtrip [simp]: "fromMetricsWire (toMetricsWire m) = m"
  by (simp add: fromMetricsWire_def toMetricsWire_def)

lemma entry_roundtrip: "record_ok r \<Longrightarrow> fromEntry (toWire r) = r"
  by (auto simp: record_ok_def fromEntry_def toWire_def zero_owner_def)

lemma map_idI: "(\<And>x. x \<in> set xs \<Longrightarrow> f x = x) \<Longrightarrow> map f xs = xs"
  by (induction xs) auto

lemma snapshot_records_roundtrip:
  assumes "\<forall>r \<in> set records. record_ok r"
    and "\<forall>s \<in> set ts. TsExtNet (SKey s) \<noteq> []" and "\<forall>s \<in> set ss. SsExtNet (SKey s) \<noteq> []"
    and "\<forall>s \<in> set os. ToExtNet (SKey s) \<noteq> []" and snap_def: "snap = toSnapshot build now records ts ss os reset"
  shows "fromSnapshot snap = records" "fromTenantSettled snap = ts" "fromServerSettled snap = ss"
    "fromTotalSettled snap = os"
  using assms(1-4)
  by (auto simp: snap_def toSnapshot_def fromSnapshot_def fromTenantSettled_def fromServerSettled_def
      fromTotalSettled_def ext_or_none_def Let_def entry_roundtrip intro!: map_idI)

lemma suffixes_distinct [simp]:
  "TempSuffix \<noteq> []" "BackupSuffix \<noteq> []" "TempSuffix \<noteq> BackupSuffix" "BackupSuffix \<noteq> TempSuffix"
  by (simp_all add: TempSuffix_def BackupSuffix_def)

lemma Load_after_Save:
  assumes "Save fails path (toSnapshot build now records ts ss tot reset) d = (None, d')"
    and "\<forall>r \<in> set records. record_ok r" and "\<forall>s \<in> set ts. TsExtNet (SKey s) \<noteq> []"
    and "\<forall>s \<in> set ss. SsExtNet (SKey s) \<noteq> []" and "\<forall>s \<in> set tot. ToExtNet (SKey s) \<noteq> []"
  shows "Load path d' = Inr \<lparr>lrRecords = records, lrTenantSettled = ts, lrServerSettled = ss,
    lrTotalSettled = tot, lrCountersResetAt = reset, lrSource = LoadFromPrimary\<rparr>"
proof -
  let ?snap = "toSnapshot build now records ts ss tot reset"
  have "mget d' path = Some (Envelope ?snap)"
    using assms(1)
    by (auto simp: Save_def writeAndFsync_def os_rename_def split: option.splits if_splits)
  then have "readAndParse path d' = Inr ?snap"
    by (simp add: readAndParse_def toSnapshot_def SchemaVersion_def)
  then show ?thesis
    using snapshot_records_roundtrip[OF assms(2-5) refl, of build now reset]
    by (simp add: Load_def result_of_def toSnapshot_def)
qed

section \<open>Crash points of Save\<close>

text \<open>
  The directory after each step of a rotation that no call fails. The renames are atomic and become
  durable in order, so a crash, with or without loss of unsynced entries, leaves one of these states.
\<close>

definition save_states :: "string \<Rightarrow> snapshotWire \<Rightarrow> dir \<Rightarrow> dir list" where
  "save_states path snap d =
    (let d1 = mput (path @ TempSuffix) (Envelope snap) d;
         d2 = snd (os_rename False path (path @ BackupSuffix) d1);
         d3 = snd (os_rename False (path @ TempSuffix) path d2)
     in [d, mput (path @ TempSuffix) Garbage d, d1, d2, d3])"

lemma Save_dir: "snd (Save fails path snap d) \<in> set (save_states path snap d)"
  by (auto simp: Save_def writeAndFsync_def save_states_def os_rename_def Let_def split: option.splits)

text \<open>What \<^verbatim>\<open>Load\<close> looks at.\<close>

lemma readAndParse_cong: "mget d path = mget d' path \<Longrightarrow> readAndParse path d = readAndParse path d'"
  by (simp add: readAndParse_def)

lemma Load_cong:
  assumes "mget d path = mget d' path" and "mget d (path @ BackupSuffix) = mget d' (path @ BackupSuffix)"
  shows "Load path d = Load path d'"
  unfolding Load_def readAndParse_cong[OF assms(1)] readAndParse_cong[OF assms(2)] ..

definition same_content :: "load_result \<Rightarrow> load_result \<Rightarrow> bool" where
  "same_content a b \<longleftrightarrow> a\<lparr>lrSource := LoadEmpty\<rparr> = b\<lparr>lrSource := LoadEmpty\<rparr>"

lemma same_content_source [simp]: "same_content (result_of snap s) (result_of snap s')"
  by (simp add: same_content_def result_of_def)

definition primary_ok :: "string \<Rightarrow> dir \<Rightarrow> bool" where
  "primary_ok path d \<longleftrightarrow> (case readAndParse path d of Inr _ \<Rightarrow> True | Inl e \<Rightarrow> e = ENotExist)"

lemma ENotExist_iff: "readAndParse path d = Inl ENotExist \<longleftrightarrow> mget d path = None"
  by (simp add: readAndParse_def split: option.splits wal_file.splits)

lemma Load_moved_aside:
  assumes "primary_ok path d" and "Load path d = Inr old"
    and "mget d' path = None"
    and "mget d' (path @ BackupSuffix) = (case mget d path of Some f \<Rightarrow> Some f | None \<Rightarrow> mget d (path @ BackupSuffix))"
  shows "\<exists>r. Load path d' = Inr r \<and> same_content r old"
proof (cases "mget d path")
  case None
  then have "Load path d' = Load path d" using assms(3,4) by (intro Load_cong) simp_all
  then show ?thesis using assms(2) by (simp add: same_content_def)
next
  case (Some f)
  then obtain snap where p: "readAndParse path d = Inr snap"
    using assms(1) ENotExist_iff[of path d] by (auto simp: primary_ok_def split: sum.splits)
  then have "readAndParse (path @ BackupSuffix) d' = Inr snap"
    using assms(4) Some by (simp add: readAndParse_def)
  moreover have "readAndParse path d' = Inl ENotExist" using assms(3) by (simp add: ENotExist_iff)
  ultimately show ?thesis
    using assms(2) p by (auto simp: Load_def)
qed

lemma save_states_load:
  assumes "primary_ok path d" and "Load path d = Inr old" and "snSchemaVersion snap = SchemaVersion"
    and "d' \<in> set (save_states path snap d)"
  shows "\<exists>r. Load path d' = Inr r \<and> (same_content r old \<or> r = result_of snap LoadFromPrimary)"
proof -
  let ?d1 = "mput (path @ TempSuffix) (Envelope snap) d"
  let ?d2 = "snd (os_rename False path (path @ BackupSuffix) ?d1)"
  let ?d3 = "snd (os_rename False (path @ TempSuffix) path ?d2)"
  have same: "Load path (mput (path @ TempSuffix) f d) = Inr old" for f
    using assms(2) Load_cong[of "mput (path @ TempSuffix) f d" path d] by simp
  have d2: "mget ?d2 path = None" "mget ?d2 (path @ TempSuffix) = Some (Envelope snap)"
    "mget ?d2 (path @ BackupSuffix) = (case mget d path of Some f \<Rightarrow> Some f | None \<Rightarrow> mget d (path @ BackupSuffix))"
    by (auto simp: os_rename_def split: option.splits)
  have "Load path ?d3 = Inr (result_of snap LoadFromPrimary)"
    using d2(2) assms(3) by (simp add: os_rename_def Load_def readAndParse_def SchemaVersion_def)
  moreover have "\<exists>r. Load path ?d2 = Inr r \<and> same_content r old"
    using Load_moved_aside[OF assms(1,2) d2(1,3)] .
  ultimately show ?thesis
    using assms(2,4) same by (auto simp: save_states_def Let_def same_content_def)
qed

section \<open>Properties\<close>

text \<open>
  C10. A snapshot survives the file. After a \<^verbatim>\<open>Save\<close> that reported no error, \<^verbatim>\<open>Load\<close> returns from
  the primary file exactly the records, the tenant, server and total buckets and the reset epoch that were
  saved. The records have zero padding and an owner only with a tenant, and bucket labels are not empty, as
  everything the state and the flush produce.
\<close>

theorem save_load_roundtrip:
  assumes "Save fails path (toSnapshot build now records ts ss tot reset) d = (None, d')"
    and "\<forall>r \<in> set records. record_ok r" and "\<forall>s \<in> set ts. TsExtNet (SKey s) \<noteq> []"
    and "\<forall>s \<in> set ss. SsExtNet (SKey s) \<noteq> []" and "\<forall>s \<in> set tot. ToExtNet (SKey s) \<noteq> []"
  shows "Load path d' = Inr \<lparr>lrRecords = records, lrTenantSettled = ts, lrServerSettled = ss,
    lrTotalSettled = tot, lrCountersResetAt = reset, lrSource = LoadFromPrimary\<rparr>"
  by (rule Load_after_Save[OF assms])

definition ex_record :: flow_record where
  "ex_record = \<lparr>RKey = ex_key 1, RCounter = \<lparr>Total = ex_metrics 100 7, LastEbpfRaw = ex_metrics 60 7\<rparr>,
     ROwner = \<lparr>OTenant = ''a'', OExtNet = ''none'', OServer = ''vm''\<rparr>\<rparr>"

theorem save_load_roundtrip_witness:
  "map_sum id lrRecords (Load ''w'' (snd (Save (\<lambda>_. False) ''w'' (toSnapshot [] 1 [ex_record] [] [] [] 5) []))) = Inr [ex_record]"
proof -
  obtain d' where s: "Save (\<lambda>_. False) ''w'' (toSnapshot [] 1 [ex_record] [] [] [] 5) [] = (None, d')"
    by (auto simp: Save_def writeAndFsync_def os_rename_def mget_Cons mput_Cons split: option.splits)
  then show ?thesis
    using save_load_roundtrip[OF s] by (simp add: record_ok_def ex_record_def ex_key_def)
qed

text \<open>
  C9. No crash point of a flush loses the log. Start from a directory where the primary file parses or is
  absent (what the boot's quarantine ensures) and \<^verbatim>\<open>Load\<close> succeeds. Whatever point of \<^verbatim>\<open>Save\<close> a crash
  hits, and whichever of its calls fails, \<^verbatim>\<open>Load\<close> succeeds afterwards and returns either exactly what
  it returned before the flush or exactly the new snapshot, and the new one if \<^verbatim>\<open>Save\<close> reported no error.
\<close>

theorem save_crash_safe:
  assumes "primary_ok path d" and "Load path d = Inr old" and "snSchemaVersion snap = SchemaVersion"
    and "d' \<in> set (save_states path snap d) \<or> d' = snd (Save fails path snap d)"
  shows "(\<exists>r. Load path d' = Inr r \<and> (same_content r old \<or> r = result_of snap LoadFromPrimary)) \<and>
    (Save fails path snap d = (None, d') \<longrightarrow> Load path d' = Inr (result_of snap LoadFromPrimary))"
proof -
  have "Load path d' = Inr (result_of snap LoadFromPrimary)" if "Save fails path snap d = (None, d')"
  proof -
    have "mget d' path = Some (Envelope snap)"
      using that by (auto simp: Save_def writeAndFsync_def os_rename_def split: option.splits if_splits)
    then show ?thesis using assms(3) by (simp add: Load_def readAndParse_def SchemaVersion_def)
  qed
  then show ?thesis
    using save_states_load[OF assms(1-3), of d'] assms(4) Save_dir[of fails path snap d] by blast
qed

theorem save_crash_safe_witness:
  "\<exists>r. Load ''w'' (save_states ''w'' (toSnapshot [] 2 [] [] [] [] 5)
      [(''w'', Envelope (toSnapshot [] 1 [ex_record] [] [] [] 5))] ! 3) = Inr r \<and>
    (same_content r (result_of (toSnapshot [] 1 [ex_record] [] [] [] 5) LoadFromPrimary) \<or>
     r = result_of (toSnapshot [] 2 [] [] [] [] 5) LoadFromPrimary)"
  by (rule save_crash_safe[where fails = "\<lambda>_. False" and
        d = "[(''w'', Envelope (toSnapshot [] 1 [ex_record] [] [] [] 5))]", THEN conjunct1])
     (simp_all add: primary_ok_def readAndParse_def Load_def mget_Cons toSnapshot_def SchemaVersion_def save_states_def Let_def)



end
