(* ===== verification/Wal_Flush.thy ===== *)
theory Wal_Flush
  imports Wal
begin

text \<open>
  The agent's WAL slice (\<^verbatim>\<open>internal/agent/walflush.go\<close>): the flush with owners filled in, the boot-time
  restore with its fallbacks, the fold of rows whose owner changed while the agent was down, and the fold
  of lingering ghosts before the final flush. The clock readings and the failures of system calls are
  arguments; logs and metrics are left out.
\<close>

record agent =
  agState :: global_state
  agMeta :: sharded_map
  agRouters :: "router_macs option"
  agWalEnabled :: bool
  agWalPath :: string
  agBuildID :: string
  agDir :: dir
  agCountersResetAt :: int

definition SeedState :: "flow_record list \<Rightarrow> agent \<Rightarrow> agent" where
  "SeedState records a = a\<lparr>agState := Restore records (agState a)\<rparr>"

definition SeedTenantSettled :: "tenant_settled_record list \<Rightarrow> agent \<Rightarrow> agent" where
  "SeedTenantSettled records a = a\<lparr>agState := RestoreTenantSettled records (agState a)\<rparr>"

definition SeedServerSettled :: "server_settled_record list \<Rightarrow> agent \<Rightarrow> agent" where
  "SeedServerSettled records a = a\<lparr>agState := RestoreServerSettled records (agState a)\<rparr>"

definition SeedTotalSettled :: "total_settled_record list \<Rightarrow> agent \<Rightarrow> agent" where
  "SeedTotalSettled records a = a\<lparr>agState := RestoreTotalSettled records (agState a)\<rparr>"

definition setCountersReset :: "int \<Rightarrow> agent \<Rightarrow> agent" where
  "setCountersReset unixSeconds a = a\<lparr>agCountersResetAt := unixSeconds\<rparr>"

definition lingering_ghosts :: "sharded_map \<Rightarrow> (u64, tenant_meta) gomap" where
  "lingering_ghosts meta =
    ShardedMetadataMap_Range (\<lambda>gs mac m. (if DeleteAt m \<noteq> 0 then mput mac m gs else gs, True)) meta []"

definition settleLingeringGhosts :: "agent \<Rightarrow> agent \<times> nat" where
  "settleLingeringGhosts a =
    (let ghosts = lingering_ghosts (agMeta a)
     in if ghosts = [] then (a, 0)
        else (case Settle SettleRebase (SettleResolver (agRouters a) (\<lambda>k. mget ghosts (VMMAC k))) (agState a) of
                (g, n) \<Rightarrow> (a\<lparr>agState := g\<rparr>, n)))"

definition ownerResolver :: "agent \<Rightarrow> settle_resolver" where
  "ownerResolver a = SettleResolver (agRouters a) (\<lambda>k. ShardedMetadataMap_Lookup (agMeta a) (VMMAC k))"

definition owner_triple :: "attribution3 \<Rightarrow> owner" where
  "owner_triple t = (case t of (tenant, extNet, server) \<Rightarrow> \<lparr>OTenant = tenant, OExtNet = extNet, OServer = server\<rparr>)"

definition owner_changed :: "settle_resolver \<Rightarrow> flow_record \<Rightarrow> bool" where
  "owner_changed resolve r \<longleftrightarrow> OTenant (ROwner r) \<noteq> [] \<and>
     (case resolve (RKey r) of None \<Rightarrow> True | Some t \<Rightarrow> owner_triple t \<noteq> ROwner r)"

definition changed_owners :: "settle_resolver \<Rightarrow> flow_record list \<Rightarrow> (flow_key, owner) gomap" where
  "changed_owners resolve records =
    fold (\<lambda>r ch. if owner_changed resolve r then mput (RKey r) (ROwner r) ch else ch) records []"

definition settleChangedOwners :: "flow_record list \<Rightarrow> agent \<Rightarrow> agent \<times> nat" where
  "settleChangedOwners records a =
    (let changed = changed_owners (ownerResolver a) records
     in if changed = [] then (a, 0)
        else (case Settle SettleRebase
                (\<lambda>k. map_option (\<lambda>ow. (OTenant ow, OExtNet ow, OServer ow)) (mget changed k)) (agState a) of
                (g, n) \<Rightarrow> (a\<lparr>agState := g\<rparr>, n)))"

definition with_owner :: "settle_resolver \<Rightarrow> flow_record \<Rightarrow> flow_record" where
  "with_owner resolve r =
    r\<lparr>ROwner := (case resolve (RKey r) of None \<Rightarrow> zero_owner | Some t \<Rightarrow> owner_triple t)\<rparr>"

definition flushWAL :: "(stage \<Rightarrow> bool) \<Rightarrow> u64 \<Rightarrow> agent \<Rightarrow> stage option \<times> agent" where
  "flushWAL fails now a =
    (case SnapshotForWAL [] [] [] [] (agState a) of
       (recs, ts, ss, tot) \<Rightarrow>
         (case Save fails (agWalPath a)
                (toSnapshot (agBuildID a) now (map (with_owner (ownerResolver a)) recs) ts ss tot (agCountersResetAt a))
                (agDir a) of
            (err, d) \<Rightarrow> (err, a\<lparr>agDir := d\<rparr>)))"

definition stampCountersReset :: "(stage \<Rightarrow> bool) \<Rightarrow> u64 \<Rightarrow> int \<Rightarrow> agent \<Rightarrow> agent" where
  "stampCountersReset fails now unix a = snd (flushWAL fails now (setCountersReset unix a))"

definition quarantineWAL :: "bool \<Rightarrow> agent \<Rightarrow> agent" where
  "quarantineWAL fails a = a\<lparr>agDir := snd (snd (Quarantine fails (agWalPath a) (agDir a)))\<rparr>"

text \<open>The result is the error that refuses the boot, or the agent that goes on.\<close>

definition restoreFromWAL :: "(stage \<Rightarrow> bool) \<Rightarrow> bool \<Rightarrow> u64 \<Rightarrow> int \<Rightarrow> agent \<Rightarrow> wal_error list + agent" where
  "restoreFromWAL fails qfails now unix a =
    (if \<not> agWalEnabled a then Inr (setCountersReset unix a)
     else (case Load (agWalPath a) (agDir a) of
       Inl errs \<Rightarrow>
         if is_schema_newer errs then Inl errs
         else Inr (stampCountersReset fails now unix (quarantineWAL qfails a))
     | Inr res \<Rightarrow>
         (let a1 = (if lrSource res = LoadFromBackup then quarantineWAL qfails a else a);
              a2 = (if lrRecords res \<noteq> [] then SeedState (lrRecords res) a1 else a1);
              a3 = (if lrTenantSettled res \<noteq> [] then SeedTenantSettled (lrTenantSettled res) a2 else a2);
              a4 = (if lrServerSettled res \<noteq> [] then SeedServerSettled (lrServerSettled res) a3 else a3);
              a5 = (if lrTotalSettled res \<noteq> [] then SeedTotalSettled (lrTotalSettled res) a4 else a4);
              a6 = fst (settleChangedOwners (lrRecords res) a5)
          in if lrSource res \<noteq> LoadEmpty \<and> lrCountersResetAt res \<noteq> 0
             then Inr (setCountersReset (lrCountersResetAt res) a6)
             else Inr (stampCountersReset fails now unix a6))))"

text \<open>The shutdown branch of the flush loop.\<close>

definition final_flush :: "(stage \<Rightarrow> bool) \<Rightarrow> u64 \<Rightarrow> agent \<Rightarrow> stage option \<times> agent" where
  "final_flush fails now a = flushWAL fails now (fst (settleLingeringGhosts a))"

fun buildIDFrom :: "(string \<times> string) list \<Rightarrow> string" where
  "buildIDFrom [] = []"
| "buildIDFrom ((key, val) # settings) =
    (if key = ''vcs.revision'' then (if length val > 12 then take 12 val else val) else buildIDFrom settings)"

section \<open>Lemmas\<close>

lemma changed_owners_lookup:
  assumes "distinct (map RKey records)"
  shows "mget (changed_owners resolve records) k = Some ow \<longleftrightarrow>
    (\<exists>r \<in> set records. RKey r = k \<and> ROwner r = ow \<and> owner_changed resolve r)"
proof -
  have "mget (fold (\<lambda>r ch. if owner_changed resolve r then mput (RKey r) (ROwner r) ch else ch) rs ch) k = Some ow \<longleftrightarrow>
      (\<exists>r \<in> set rs. RKey r = k \<and> ROwner r = ow \<and> owner_changed resolve r) \<or>
      (mget ch k = Some ow \<and> \<not> (\<exists>r \<in> set rs. RKey r = k \<and> owner_changed resolve r))"
    if "distinct (map RKey rs)" for rs ch
    using that
  proof (induction rs arbitrary: ch)
    case (Cons r rs)
    have "RKey r = k \<Longrightarrow> \<forall>r' \<in> set rs. RKey r' \<noteq> k" using Cons.prems by (force simp: image_iff)
    with Cons show ?case by auto
  qed simp
  from this[OF assms, of "[]"] show ?thesis by (simp add: changed_owners_def)
qed

lemma tiers_cong:
  assumes "gs_wf g" and "gs_wf g'" and "\<And>k. mget (counts g') k = mget (counts g) k"
    and "\<And>k. mget (tenantSettled g') k = mget (tenantSettled g) k"
    and "\<And>k. mget (serverSettled g') k = mget (serverSettled g) k"
    and "\<And>k. mget (totalSettled g') k = mget (totalSettled g) k"
  shows "tenant_tier pick res g' sk = tenant_tier pick res g sk"
    and "server_tier pick res g' ck = server_tier pick res g ck"
    and "total_tier pick res g' tk = total_tier pick res g tk"
proof -
  have c: "msum f (counts g') = msum f (counts g)" for f :: "flow_key \<Rightarrow> counter \<Rightarrow> u64"
    using assms(1-3) by (intro msum_order) auto
  have t: "msum f (tenantSettled g') = msum f (tenantSettled g)" for f :: "tenant_settled_key \<Rightarrow> settledTotal \<Rightarrow> u64"
    using assms(1,2,4) by (intro msum_order) auto
  show "tenant_tier pick res g' sk = tenant_tier pick res g sk"
    "server_tier pick res g' ck = server_tier pick res g ck"
    "total_tier pick res g' tk = total_tier pick res g tk"
    using assms(4-6) by (simp_all add: tenant_tier_def server_tier_def total_tier_def live_sum_def bucket_at_def c t)
qed

text \<open>The records of a flush and what a restore makes of them.\<close>

definition flush_records :: "agent \<Rightarrow> flow_record list" where
  "flush_records a = map (\<lambda>(k, c). with_owner (ownerResolver a) \<lparr>RKey = k, RCounter = c, ROwner = zero_owner\<rparr>) (counts (agState a))"

lemma flushWAL_Save:
  "flushWAL fails now a =
    (case Save fails (agWalPath a) (toSnapshot (agBuildID a) now (flush_records a) (copy_out (tenantSettled (agState a)))
        (copy_out (serverSettled (agState a))) (copy_out (totalSettled (agState a))) (agCountersResetAt a)) (agDir a) of
       (err, d) \<Rightarrow> (err, a\<lparr>agDir := d\<rparr>))"
  by (simp add: flushWAL_def SnapshotForWAL_def flush_records_def o_def split_def)

lemma flush_records_keys: "map RKey (flush_records a) = map fst (counts (agState a))"
  by (simp add: flush_records_def with_owner_def o_def split_def)

lemma flush_records_rows: "map (\<lambda>r. (RKey r, RCounter r)) (flush_records a) = counts (agState a)"
  by (simp add: flush_records_def with_owner_def o_def split_def)

lemma ownerResolver_display:
  "ownerResolver a k = (if ShardedMetadataMap_Lookup (agMeta a) (VMMAC k) = None then None
     else Some (display (agMeta a) (agRouters a) k))"
  by (auto simp: ownerResolver_def SettleResolver_display simp flip: not_None_eq)

definition labels_ok :: "global_state \<Rightarrow> bool" where
  "labels_ok g \<longleftrightarrow> (\<forall>(k, t) \<in> set (tenantSettled g). TsExtNet k \<noteq> []) \<and>
     (\<forall>(k, t) \<in> set (serverSettled g). SsExtNet k \<noteq> []) \<and> (\<forall>(k, t) \<in> set (totalSettled g). ToExtNet k \<noteq> [])"

definition rows_ok :: "agent \<Rightarrow> bool" where
  "rows_ok a \<longleftrightarrow> (\<forall>(k, c) \<in> set (counts (agState a)). Pad k = 0 \<and>
     (\<forall>m. ShardedMetadataMap_Lookup (agMeta a) (VMMAC k) = Some m \<longrightarrow> ProjectID m \<noteq> []))"

lemma display_tenant: "ShardedMetadataMap_Lookup m (VMMAC k) = Some meta \<Longrightarrow> fst (display m routers k) = ProjectID meta"
  by (simp add: display_def Resolver_Resolve_def)

lemma flush_records_ok:
  assumes "rows_ok a" and "r \<in> set (flush_records a)"
  shows "record_ok r" and "OTenant (ROwner r) \<noteq> [] \<longleftrightarrow> ownerResolver a (RKey r) \<noteq> None"
    and "ownerResolver a (RKey r) = Some t \<Longrightarrow> ROwner r = owner_triple t"
proof -
  obtain k c where kc: "(k, c) \<in> set (counts (agState a))"
    and r: "r = with_owner (ownerResolver a) \<lparr>RKey = k, RCounter = c, ROwner = zero_owner\<rparr>"
    using assms(2) by (auto simp: flush_records_def)
  have row: "Pad k = 0" "\<And>m. ShardedMetadataMap_Lookup (agMeta a) (VMMAC k) = Some m \<Longrightarrow> ProjectID m \<noteq> []"
    using assms(1) kc by (auto simp: rows_ok_def)
  have t: "OTenant (owner_triple t) = fst t" for t by (simp add: owner_triple_def split: prod.splits)
  have ne: "fst t \<noteq> []" if "ownerResolver a k = Some t" for t
    using that row(2) display_tenant[of "agMeta a" k _ "agRouters a"]
    by (auto simp: ownerResolver_display split: if_splits)
  show "record_ok r" "OTenant (ROwner r) \<noteq> [] \<longleftrightarrow> ownerResolver a (RKey r) \<noteq> None"
    "ownerResolver a (RKey r) = Some t \<Longrightarrow> ROwner r = owner_triple t"
    using row ne t by (auto simp: r with_owner_def record_ok_def zero_owner_def split: option.splits)
qed

lemma settleChangedOwners_state:
  "agState (fst (settleChangedOwners records a)) =
     fst (Settle SettleRebase (\<lambda>k. map_option (\<lambda>ow. (OTenant ow, OExtNet ow, OServer ow))
       (mget (changed_owners (ownerResolver a) records) k)) (agState a))"
  by (simp add: settleChangedOwners_def Let_def Settle_None split: prod.splits)

lemma restored_state:
  assumes "Load (agWalPath b) (agDir b) = Inr res" and "agWalEnabled b"
    and "restoreFromWAL fails qfails now unix b = Inr b'"
  shows "agState b' = agState (fst (settleChangedOwners (lrRecords res) (b\<lparr>agState :=
      RestoreTotalSettled (lrTotalSettled res) (RestoreServerSettled (lrServerSettled res)
        (RestoreTenantSettled (lrTenantSettled res) (Restore (lrRecords res) (agState b))))\<rparr>))) \<and>
    agMeta b' = agMeta b \<and> agRouters b' = agRouters b"
proof -
  have noop: "Restore [] g = g" "RestoreTenantSettled [] g = g" "RestoreServerSettled [] g = g" "RestoreTotalSettled [] g = g" for g
    by (simp_all add: Restore_def RestoreTenantSettled_def RestoreServerSettled_def RestoreTotalSettled_def load_settled_def)
  let ?g = "RestoreTotalSettled (lrTotalSettled res) (RestoreServerSettled (lrServerSettled res)
        (RestoreTenantSettled (lrTenantSettled res) (Restore (lrRecords res) (agState b))))"
  let ?q = "if lrSource res = LoadFromBackup then quarantineWAL qfails b else b"
  have st: "agState (fst (settleChangedOwners rs (a\<lparr>agState := g\<rparr>))) = agState (fst (settleChangedOwners rs (b\<lparr>agState := g\<rparr>)))"
    if "agMeta a = agMeta b" "agRouters a = agRouters b" for rs a g
    using that by (simp add: settleChangedOwners_state ownerResolver_def)
  have keep: "agMeta (fst (settleChangedOwners rs a)) = agMeta a" "agRouters (fst (settleChangedOwners rs a)) = agRouters a" for rs a
    by (simp_all add: settleChangedOwners_def Let_def split: prod.splits)
  have stamp: "agState (stampCountersReset f n u a) = agState a" "agMeta (stampCountersReset f n u a) = agMeta a"
    "agRouters (stampCountersReset f n u a) = agRouters a" for f n u a
    by (simp_all add: stampCountersReset_def flushWAL_Save setCountersReset_def split: prod.splits)
  have seeds: "(let a2 = (if lrRecords res \<noteq> [] then SeedState (lrRecords res) ?q else ?q);
              a3 = (if lrTenantSettled res \<noteq> [] then SeedTenantSettled (lrTenantSettled res) a2 else a2);
              a4 = (if lrServerSettled res \<noteq> [] then SeedServerSettled (lrServerSettled res) a3 else a3)
          in (if lrTotalSettled res \<noteq> [] then SeedTotalSettled (lrTotalSettled res) a4 else a4)) = ?q\<lparr>agState := ?g\<rparr>"
    by (simp add: SeedState_def SeedTenantSettled_def SeedServerSettled_def SeedTotalSettled_def quarantineWAL_def noop Let_def)
  have q: "agMeta ?q = agMeta b" "agRouters ?q = agRouters b" by (simp_all add: quarantineWAL_def)
  let ?a6 = "fst (settleChangedOwners (lrRecords res) (?q\<lparr>agState := ?g\<rparr>))"
  have "b' = setCountersReset (lrCountersResetAt res) ?a6 \<or> b' = stampCountersReset fails now unix ?a6"
    using assms seeds by (auto simp: restoreFromWAL_def Let_def split: if_splits)
  then have "agState b' = agState ?a6 \<and> agMeta b' = agMeta ?a6 \<and> agRouters b' = agRouters ?a6"
    by (auto simp: setCountersReset_def stamp)
  then show ?thesis using st[OF q] keep q by simp
qed

lemma restore_succeeds:
  "Load (agWalPath b) (agDir b) = Inr res \<Longrightarrow> agWalEnabled b \<Longrightarrow> \<exists>b'. restoreFromWAL fails qfails now unix b = Inr b'"
  unfolding restoreFromWAL_def Let_def by (cases "lrSource res \<noteq> LoadEmpty \<and> lrCountersResetAt res \<noteq> 0") auto

lemma restored_lookups:
  assumes "gs_wf g" and "map (\<lambda>r. (RKey r, RCounter r)) records = counts g"
    and g': "g' = RestoreTotalSettled (copy_out (totalSettled g)) (RestoreServerSettled (copy_out (serverSettled g))
      (RestoreTenantSettled (copy_out (tenantSettled g)) (Restore records New)))"
  shows "gs_wf g'" "mget (counts g') k = mget (counts g) k" "mget (tenantSettled g') sk = mget (tenantSettled g) sk"
    "mget (serverSettled g') ck = mget (serverSettled g) ck" "mget (totalSettled g') tk = mget (totalSettled g) tk"
  using assms(1,2) unfolding g'
  by (auto simp: RestoreTotalSettled_def RestoreServerSettled_def RestoreTenantSettled_def Restore_def
      load_copy_out New_def mget_mputs_self gs_wf_def)

lemma changed_owners_agree:
  assumes "gs_wf (agState a)" and "rows_ok a" and "mhas (counts (agState a)) k"
    and "\<And>k. mhas (counts (agState a)) k \<Longrightarrow> ShardedMetadataMap_Lookup (agMeta a) (VMMAC k) = None \<Longrightarrow>
      ShardedMetadataMap_Lookup (agMeta b) (VMMAC k) = None"
  shows "mget (changed_owners (ownerResolver b) (flush_records a)) k = Some ow \<Longrightarrow>
      display (agMeta a) (agRouters a) k = (OTenant ow, OExtNet ow, OServer ow)"
    and "mget (changed_owners (ownerResolver b) (flush_records a)) k = None \<Longrightarrow>
      display (agMeta b) (agRouters b) k = display (agMeta a) (agRouters a) k"
proof -
  have dist: "distinct (map RKey (flush_records a))"
    using assms(1) by (simp add: flush_records_keys gs_wf_rows)
  obtain r where r: "r \<in> set (flush_records a)" "RKey r = k"
    using assms(3) flush_records_keys[of a] by (metis (no_types, lifting) image_iff list.set_map mhas_iff)
  note R = flush_records_ok[OF assms(2) r(1)]
  have triple: "(OTenant (owner_triple t), OExtNet (owner_triple t), OServer (owner_triple t)) = t" for t
    by (simp add: owner_triple_def split: prod.splits)
  have inj: "owner_triple t = owner_triple t' \<Longrightarrow> t = t'" for t t'
    using triple by metis
  have old: "ownerResolver a k = Some (display (agMeta a) (agRouters a) k)" if "OTenant (ROwner r) \<noteq> []"
    using that R(2) r(2) by (auto simp: ownerResolver_display split: if_splits)
  { assume "mget (changed_owners (ownerResolver b) (flush_records a)) k = Some ow"
    then obtain r' where r': "r' \<in> set (flush_records a)" "RKey r' = k" "ROwner r' = ow" "owner_changed (ownerResolver b) r'"
      using changed_owners_lookup[OF dist] by blast
    then have "r' = r" using dist r by (metis distinct_map inj_onD)
    with r' have "OTenant (ROwner r) \<noteq> []" by (simp add: owner_changed_def)
    with old R(3) r have "ROwner r = owner_triple (display (agMeta a) (agRouters a) k)" by simp
    then show "display (agMeta a) (agRouters a) k = (OTenant ow, OExtNet ow, OServer ow)"
      using r'(3) \<open>r' = r\<close> triple by metis }
  { assume "mget (changed_owners (ownerResolver b) (flush_records a)) k = None"
    then have nc: "\<not> owner_changed (ownerResolver b) r"
      using changed_owners_lookup[OF dist] r by (metis option.distinct(1))
    show "display (agMeta b) (agRouters b) k = display (agMeta a) (agRouters a) k"
    proof (cases "OTenant (ROwner r) = []")
      case True
      then have "ShardedMetadataMap_Lookup (agMeta a) (VMMAC k) = None"
        using R(2) r(2) unfolding ownerResolver_display by (metis option.distinct(1))
      then show ?thesis using assms(4)[OF assms(3)] by (simp add: display_def Resolver_Resolve_def)
    next
      case False
      then obtain t where t: "ownerResolver b k = Some t" "owner_triple t = ROwner r"
        using nc r(2) by (auto simp: owner_changed_def split: option.splits)
      then have "t = display (agMeta a) (agRouters a) k"
        using old[OF False] R(3) r(2) inj by auto
      then show ?thesis using t(1) by (auto simp: ownerResolver_display split: if_splits)
    qed }
qed

section \<open>Properties\<close>

text \<open>
  C12. A restart keeps every series. An agent flushes its state without an error and stops; a new agent with
  an empty state, the same WAL file and any newer metadata and router map restores it, and that restore
  succeeds. If no row that was
  unknown at the flush has become known, then every tenant, server and total series, in bytes and packets,
  has under the new attribution exactly the value it had at the flush under the old one: rows whose port
  was deleted or reassigned meanwhile are settled under their recorded owner before anything is exposed.
\<close>

theorem restart_keeps_series:
  assumes flush: "flushWAL fails now a = (None, a')" and wf: "gs_wf (agState a)"
    and rows: "rows_ok a" and labels: "labels_ok (agState a)"
    and boot: "agState b = New" "agWalEnabled b" "agWalPath b = agWalPath a" "agDir b = agDir a'"
    and unk: "\<And>k. mhas (counts (agState a)) k \<Longrightarrow> ShardedMetadataMap_Lookup (agMeta a) (VMMAC k) = None \<Longrightarrow>
      ShardedMetadataMap_Lookup (agMeta b) (VMMAC k) = None"
    and pick: "pick \<in> {pick_bytes, pick_packets}"
  shows "\<exists>b'. restoreFromWAL fails' qfails now' unix b = Inr b' \<and>
    tenant_tier pick (display (agMeta b') (agRouters b')) (agState b') sk =
      tenant_tier pick (display (agMeta a) (agRouters a)) (agState a) sk \<and>
    server_tier pick (display (agMeta b') (agRouters b')) (agState b') ck =
      server_tier pick (display (agMeta a) (agRouters a)) (agState a) ck \<and>
    total_tier pick (display (agMeta b') (agRouters b')) (agState b') tk =
      total_tier pick (display (agMeta a) (agRouters a)) (agState a) tk"
proof -
  let ?g = "agState a"
  obtain d where d: "Save fails (agWalPath a) (toSnapshot (agBuildID a) now (flush_records a) (copy_out (tenantSettled ?g))
      (copy_out (serverSettled ?g)) (copy_out (totalSettled ?g)) (agCountersResetAt a)) (agDir a) = (None, d)" "agDir a' = d"
    using flush by (auto simp: flushWAL_Save split: prod.splits)
  have load: "Load (agWalPath b) (agDir b) = Inr \<lparr>lrRecords = flush_records a, lrTenantSettled = copy_out (tenantSettled ?g),
      lrServerSettled = copy_out (serverSettled ?g), lrTotalSettled = copy_out (totalSettled ?g),
      lrCountersResetAt = agCountersResetAt a, lrSource = LoadFromPrimary\<rparr>"
    unfolding boot d(2) by (rule Load_after_Save[OF d(1)])
       (use rows labels flush_records_ok(1) in \<open>auto simp: labels_ok_def copy_out_def\<close>)
  then obtain b' where restore: "restoreFromWAL fails' qfails now' unix b = Inr b'"
    using restore_succeeds boot(2) by blast
  note R = restored_state[OF load boot(2) restore, simplified load_result.simps boot(1)]
  define g1 where "g1 = RestoreTotalSettled (copy_out (totalSettled ?g)) (RestoreServerSettled (copy_out (serverSettled ?g))
      (RestoreTenantSettled (copy_out (tenantSettled ?g)) (Restore (flush_records a) New)))"
  note L = restored_lookups[OF wf flush_records_rows g1_def]
  define sr where "sr = (\<lambda>k. map_option (\<lambda>ow. (OTenant ow, OExtNet ow, OServer ow))
       (mget (changed_owners (ownerResolver b) (flush_records a)) k))"
  have st: "agState b' = fst (Settle SettleRebase sr g1)" "agMeta b' = agMeta b" "agRouters b' = agRouters b"
    using R by (simp_all add: settleChangedOwners_state g1_def sr_def ownerResolver_def)
  have has: "mhas (counts g1) k \<longleftrightarrow> mhas (counts ?g) k" for k using L(2) by (simp add: mhas_def)
  have agree: "display (agMeta a) (agRouters a) k = t" if "mhas (counts g1) k" "sr k = Some t" for k t
    using that changed_owners_agree(1)[OF wf rows, of k b] unk by (auto simp: has sr_def)
  have keep: "display (agMeta b) (agRouters b) k = display (agMeta a) (agRouters a) k" if "mhas (counts g1) k" "sr k = None" for k
    using that changed_owners_agree(2)[OF wf rows, of k b] unk by (auto simp: has sr_def)
  show ?thesis
    using restore settle_tiers[OF L(1) pick agree keep, where mode = SettleRebase and sk = sk and ck = ck and tk = tk] tiers_cong[OF wf L]
    by (intro exI[of _ b']) (simp add: st)
qed

definition ex_agent :: agent where
  "ex_agent = \<lparr>agState = ex_state, agMeta = ex_meta_map, agRouters = None, agWalEnabled = True, agWalPath = ''w'',
     agBuildID = ''b'', agDir = [], agCountersResetAt = 5\<rparr>"

definition ex_rebooted :: agent where
  "ex_rebooted = ex_agent\<lparr>agState := New, agMeta := ShardedMetadataMap_New,
     agDir := agDir (snd (flushWAL (\<lambda>_. False) 9 ex_agent))\<rparr>"

theorem restart_keeps_series_witness:
  "\<exists>b'. restoreFromWAL (\<lambda>_. False) False 10 20 ex_rebooted = Inr b' \<and>
     tenant_tier pick_bytes (display (agMeta b') (agRouters b')) (agState b')
       \<lparr>TsTenant = ''a'', TsExtNet = ''none'', TsZone = 1, TsDir = 0\<rparr> =
     tenant_tier pick_bytes (display ex_meta_map None) ex_state \<lparr>TsTenant = ''a'', TsExtNet = ''none'', TsZone = 1, TsDir = 0\<rparr>"
proof -
  obtain a' where f: "flushWAL (\<lambda>_. False) 9 ex_agent = (None, a')"
    by (auto simp: flushWAL_Save Save_def writeAndFsync_def os_rename_def ex_agent_def mget_Cons mput_Cons split: option.splits)
  have ok: "rows_ok ex_agent" "labels_ok ex_state"
    by (auto simp: rows_ok_def labels_ok_def ex_agent_def ex_defs ex_meta_def VMMAC_def lookup_ex simp del: MACKey.simps)
  have gone: "ShardedMetadataMap_Lookup ShardedMetadataMap_New x = None" for x
    by simp
  obtain b' where "restoreFromWAL (\<lambda>_. False) False 10 20 ex_rebooted = Inr b'"
     "tenant_tier pick_bytes (display (agMeta b') (agRouters b')) (agState b')
       \<lparr>TsTenant = ''a'', TsExtNet = ''none'', TsZone = 1, TsDir = 0\<rparr> =
     tenant_tier pick_bytes (display (agMeta ex_agent) (agRouters ex_agent)) (agState ex_agent)
       \<lparr>TsTenant = ''a'', TsExtNet = ''none'', TsZone = 1, TsDir = 0\<rparr>"
    using restart_keeps_series[OF f, of ex_rebooted pick_bytes "\<lambda>_. False" False 10 20
       "\<lparr>TsTenant = ''a'', TsExtNet = ''none'', TsZone = 1, TsDir = 0\<rparr>"] ok gs_wf_ex_state
    by (auto simp: ex_rebooted_def ex_agent_def f[unfolded ex_agent_def] gone)
  then show ?thesis by (auto simp: ex_agent_def)
qed

end
