(* ===== verification/Kernel_Map.thy ===== *)
theory Kernel_Map
  imports Metadata
begin

text \<open>
  The kernel's BPF maps as the agent sees them through the eBPF library. The library is not part of the
  sources, so a map is given by four functions that are arguments of every definition using them: read a
  key, update, delete, iterate. The locale states what the agent relies on: a call that reports success
  has done its work, a call that reports an error has left the map as it was, and an iteration that ends
  without an error has seen every key.

  The thin adapters of \<^verbatim>\<open>internal/agent/bootstrap_linux.go\<close> are modelled on top.
\<close>

datatype kerr = ErrKeyNotExist | ErrKernel

locale kernel_map =
  fixes kget :: "'m \<Rightarrow> 'k \<Rightarrow> 'v option"
    and kupd :: "'k \<Rightarrow> 'v \<Rightarrow> 'm \<Rightarrow> kerr option \<times> 'm"
    and kdel :: "'k \<Rightarrow> 'm \<Rightarrow> kerr option \<times> 'm"
    and kiter :: "'m \<Rightarrow> 'k list \<times> kerr option"
  assumes upd_ok: "kupd k v m = (None, m') \<Longrightarrow> kget m' k' = (if k' = k then Some v else kget m k')"
    and upd_err: "kupd k v m = (Some e, m') \<Longrightarrow> kget m' k' = kget m k'"
    and del_ok: "kdel k m = (None, m') \<Longrightarrow> kget m' k' = (if k' = k then None else kget m k')"
    and del_missing: "kdel k m = (Some ErrKeyNotExist, m') \<Longrightarrow> kget m k = None \<and> kget m' k' = kget m k'"
    and del_err: "kdel k m = (Some ErrKernel, m') \<Longrightarrow> kget m' k' = kget m k'"
    and iter_ok: "kiter m = (ks, None) \<Longrightarrow> k \<in> set ks \<longleftrightarrow> kget m k \<noteq> None"

section \<open>The adapters\<close>

text \<open>
  \<^verbatim>\<open>macTenantEvictor.Delete\<close> and \<^verbatim>\<open>telemetryFlowEvictor.Delete\<close>: a key that is already gone
  counts as deleted. The boolean tells whether the adapter returned nil.
\<close>

definition evictor_Delete :: "('k \<Rightarrow> 'm \<Rightarrow> kerr option \<times> 'm) \<Rightarrow> 'k \<Rightarrow> 'm \<Rightarrow> bool \<times> 'm" where
  "evictor_Delete kdel k m =
    (case kdel k m of (err, m') \<Rightarrow> (err = None \<or> err = Some ErrKeyNotExist, m'))"

definition macTenantWriter_Update :: "(u64 \<Rightarrow> u32 \<Rightarrow> 'm \<Rightarrow> kerr option \<times> 'm) \<Rightarrow> u64 \<Rightarrow> u32 \<Rightarrow> 'm \<Rightarrow> kerr option \<times> 'm" where
  "macTenantWriter_Update kupd mac tenantID m = kupd mac tenantID m"

fun delete_flows :: "('k \<Rightarrow> 'm \<Rightarrow> kerr option \<times> 'm) \<Rightarrow> 'k list \<Rightarrow> 'm \<times> nat \<times> bool \<Rightarrow> 'm \<times> nat \<times> bool" where
  "delete_flows kdel [] st = st"
| "delete_flows kdel (k # ks) (m, deleted, failed) =
    (case evictor_Delete kdel k m of
       (ok, m') \<Rightarrow> delete_flows kdel ks (if ok then (m', Suc deleted, failed) else (m', deleted, True)))"

text \<open>The result: the map, the number of deleted flows and whether an error is returned.\<close>

definition DeleteFlowsForMACs ::
  "(flow_key \<Rightarrow> 'm \<Rightarrow> kerr option \<times> 'm) \<Rightarrow> ('m \<Rightarrow> flow_key list \<times> kerr option) \<Rightarrow> u64 list \<Rightarrow> 'm \<Rightarrow> 'm \<times> nat \<times> bool" where
  "DeleteFlowsForMACs kdel kiter macs m =
    (case kiter m of
       (_, Some e) \<Rightarrow> (m, 0, True)
     | (ks, None) \<Rightarrow> delete_flows kdel (filter (\<lambda>k. VMMAC k \<in> set macs) ks) (m, 0, False))"

context kernel_map
begin

lemma Delete_facts:
  assumes "evictor_Delete kdel k m = (ok, m')"
  shows "ok \<Longrightarrow> kget m' k = None" and "k' \<noteq> k \<Longrightarrow> kget m' k' = kget m k'"
    and "\<not> ok \<Longrightarrow> kget m' k' = kget m k'"
proof -
  obtain err where e: "kdel k m = (err, m')" "ok = (err = None \<or> err = Some ErrKeyNotExist)"
    using assms by (auto simp: evictor_Delete_def split: prod.splits)
  show "ok \<Longrightarrow> kget m' k = None"
    using e del_ok[of k m m' k] del_missing[of k m m' k] by auto
  show "k' \<noteq> k \<Longrightarrow> kget m' k' = kget m k'"
    using e del_ok[of k m m' k'] del_missing[of k m m' k'] del_err[of k m m' k']
    by (cases err; cases "the err") auto
  show "\<not> ok \<Longrightarrow> kget m' k' = kget m k'"
    using e del_err[of k m m' k'] by (cases err; cases "the err") auto
qed

lemma delete_flows_spec:
  assumes "delete_flows kdel ks (m, d, f) = (m', d', f')"
  shows "(kget m' k = kget m k \<or> k \<in> set ks \<and> kget m' k = None) \<and> (f \<longrightarrow> f') \<and>
    (\<not> f' \<longrightarrow> k \<in> set ks \<longrightarrow> kget m' k = None)"
  using assms
proof (induction ks arbitrary: m d f)
  case (Cons x ks)
  obtain ok m1 where s: "evictor_Delete kdel x m = (ok, m1)" by (cases "evictor_Delete kdel x m")
  note D = Delete_facts[OF s]
  have rest: "delete_flows kdel ks (if ok then (m1, Suc d, f) else (m1, d, True)) = (m', d', f')"
    using Cons.prems s by simp
  show ?case
  proof (cases ok)
    case True
    then show ?thesis using Cons.IH[of m1 "Suc d" f] rest D by (cases "k = x") auto
  next
    case False
    then show ?thesis using Cons.IH[of m1 d True] rest D by (cases "k = x") auto
  qed
qed auto

lemma delete_flows_facts:
  assumes "delete_flows kdel ks (m, d, f) = (m', d', f')"
  shows "kget m' k = kget m k \<or> k \<in> set ks \<and> kget m' k = None"
    and "\<not> f' \<Longrightarrow> k \<in> set ks \<Longrightarrow> kget m' k = None"
  using delete_flows_spec[OF assms] by blast+

end

locale flow_kernel_map = kernel_map kget kupd kdel kiter
  for kget :: "'m \<Rightarrow> flow_key \<Rightarrow> 'v option"
    and kupd :: "flow_key \<Rightarrow> 'v \<Rightarrow> 'm \<Rightarrow> kerr option \<times> 'm"
    and kdel :: "flow_key \<Rightarrow> 'm \<Rightarrow> kerr option \<times> 'm"
    and kiter :: "'m \<Rightarrow> flow_key list \<times> kerr option"
begin

text \<open>
  A run without an error leaves no flow of the swept MACs, and no run touches the other flows.
\<close>

lemma DeleteFlowsForMACs_facts:
  assumes "DeleteFlowsForMACs kdel kiter macs m = (m', n, failed)"
  shows "VMMAC k \<notin> set macs \<Longrightarrow> kget m' k = kget m k"
    and "\<not> failed \<Longrightarrow> VMMAC k \<in> set macs \<Longrightarrow> kget m' k = None"
proof -
  obtain ks e where it: "kiter m = (ks, e)" by (cases "kiter m")
  show "VMMAC k \<notin> set macs \<Longrightarrow> kget m' k = kget m k"
    using assms it delete_flows_facts(1)[of "filter (\<lambda>k. VMMAC k \<in> set macs) ks" m 0 False m' n failed k]
    by (cases e) (auto simp: DeleteFlowsForMACs_def)
  assume ok: "\<not> failed" and vm: "VMMAC k \<in> set macs"
  then have e: "e = None" using assms it by (cases e) (auto simp: DeleteFlowsForMACs_def)
  then have d: "delete_flows kdel (filter (\<lambda>k. VMMAC k \<in> set macs) ks) (m, 0, False) = (m', n, failed)"
    using assms it by (simp add: DeleteFlowsForMACs_def)
  show "kget m' k = None"
  proof (cases "k \<in> set ks")
    case True
    then show ?thesis using delete_flows_facts(2)[OF d ok] vm by simp
  next
    case False
    then have "kget m k = None" using iter_ok it e by blast
    then show ?thesis using delete_flows_facts(1)[OF d, of k] by auto
  qed
qed

end

section \<open>A bounded map\<close>

text \<open>
  A concrete map with a capacity, as the hash maps of \<^verbatim>\<open>bpf/telemetry.c\<close> declare one: an update
  that would add an entry to a full map fails, and so do the calls for the keys in a given set.
\<close>

definition bm_upd :: "nat \<Rightarrow> 'k set \<Rightarrow> 'k \<Rightarrow> 'v \<Rightarrow> ('k, 'v) gomap \<Rightarrow> kerr option \<times> ('k, 'v) gomap" where
  "bm_upd cap bad k v m =
    (if k \<in> bad \<or> \<not> mhas m k \<and> cap \<le> length m then (Some ErrKernel, m) else (None, mput k v m))"

definition bm_del :: "'k set \<Rightarrow> 'k \<Rightarrow> ('k, 'v) gomap \<Rightarrow> kerr option \<times> ('k, 'v) gomap" where
  "bm_del bad k m =
    (if k \<in> bad then (Some ErrKernel, m)
     else if mhas m k then (None, mdel k m) else (Some ErrKeyNotExist, m))"

definition bm_iter :: "('k, 'v) gomap \<Rightarrow> 'k list \<times> kerr option" where
  "bm_iter m = (map fst m, None)"

lemma bounded_kernel_map: "kernel_map mget (bm_upd cap bad) (bm_del bad) bm_iter"
  by unfold_locales
     (auto simp: bm_upd_def bm_del_def bm_iter_def mhas_def mhas_iff[symmetric] split: if_splits)

lemma bounded_flow_kernel_map: "flow_kernel_map mget (bm_upd cap bad) (bm_del bad) bm_iter"
  by (simp add: flow_kernel_map_def bounded_kernel_map)

interpretation mac_kmap: kernel_map mget "bm_upd (unat MapMacTenantMaxEntries) bad" "bm_del bad" bm_iter for bad :: "u64 set"
  by (rule bounded_kernel_map)

interpretation flow_kmap: flow_kernel_map mget "bm_upd (unat MapTelemetryMaxEntries) bad" "bm_del bad" bm_iter
  for bad :: "flow_key set"
  by (rule bounded_flow_kernel_map)

end
