(* ===== verification/Gc_Ghost.thy ===== *)
theory Gc_Ghost
  imports Kernel_Map
begin

text \<open>
  The lingering-ghost sweep (\<^verbatim>\<open>internal/gc/ghost.go\<close>). A deleted port's metadata lingers until its
  \<^verbatim>\<open>DeleteAt\<close>; the sweep then removes it, kernel first. Each phase of \<^verbatim>\<open>sweep\<close> is a function of its
  own, composed in the order of the code, so that steps of other goroutines can be put between phases.
  The kernel maps are given by their functions as in the kernel-map theory; a Go set of MACs is a list.
\<close>

section \<open>Phases\<close>

record ('m, 'f) sweep_world =
  swMeta :: sharded_map
  swRouters :: "router_macs option"
  swMacMap :: 'm
  swFlowMap :: 'f
  swState :: global_state

definition classify_entry :: "gotime \<Rightarrow> u64 \<Rightarrow> tenant_meta \<Rightarrow> u64 list \<times> nat \<Rightarrow> u64 list \<times> nat" where
  "classify_entry now mac meta st =
    (if DeleteAt meta = 0 then st
     else if DeleteAt meta > now then (fst st, Suc (snd st))
     else (fst st @ [mac], snd st))"

definition classify :: "gotime \<Rightarrow> sharded_map \<Rightarrow> u64 list \<times> nat" where
  "classify now meta =
    ShardedMetadataMap_Range (\<lambda>st mac m. (classify_entry now mac m st, True)) meta ([], 0)"

fun deleteKernelMACs :: "('k \<Rightarrow> 'm \<Rightarrow> kerr option \<times> 'm) \<Rightarrow> 'k list \<Rightarrow> 'm \<times> 'k list \<Rightarrow> 'm \<times> 'k list" where
  "deleteKernelMACs kdel [] st = st"
| "deleteKernelMACs kdel (mac # expired) (km, swept) =
    (case evictor_Delete kdel mac km of
       (ok, km') \<Rightarrow> deleteKernelMACs kdel expired (km', if ok then swept @ [mac] else swept))"

definition evictResidualFlows ::
  "(flow_key \<Rightarrow> 'f \<Rightarrow> kerr option \<times> 'f) \<Rightarrow> ('f \<Rightarrow> flow_key list \<times> kerr option) \<Rightarrow> u64 list \<Rightarrow> 'f \<Rightarrow> 'f \<times> nat" where
  "evictResidualFlows fdel fiter swept fm =
    (if swept = [] then (fm, 0)
     else (case DeleteFlowsForMACs fdel fiter swept fm of (fm', n, failed) \<Rightarrow> (fm', n)))"

definition swept_metas :: "sharded_map \<Rightarrow> u64 list \<Rightarrow> (u64, tenant_meta) gomap" where
  "swept_metas meta swept =
    fold (\<lambda>mac ms. case ShardedMetadataMap_Lookup meta mac of Some m \<Rightarrow> mput mac m ms | None \<Rightarrow> ms) swept []"

definition settleSwept :: "sharded_map \<Rightarrow> router_macs option \<Rightarrow> u64 list \<Rightarrow> global_state \<Rightarrow> global_state \<times> nat" where
  "settleSwept meta routers swept g =
    (if swept = [] then (g, 0)
     else Settle SettleEvict (SettleResolver routers (\<lambda>k. mget (swept_metas meta swept) (VMMAC k))) g)"

definition deleteUserspace :: "u64 list \<Rightarrow> sharded_map \<Rightarrow> sharded_map" where
  "deleteUserspace swept meta = fold ShardedMetadataMap_Delete swept meta"

text \<open>The result is the world after the sweep and the four numbers \<^verbatim>\<open>report\<close> gets.\<close>

definition sweep ::
  "(u64 \<Rightarrow> 'm \<Rightarrow> kerr option \<times> 'm) \<Rightarrow> (flow_key \<Rightarrow> 'f \<Rightarrow> kerr option \<times> 'f) \<Rightarrow>
   ('f \<Rightarrow> flow_key list \<times> kerr option) \<Rightarrow> gotime \<Rightarrow> ('m, 'f) sweep_world \<Rightarrow>
   ('m, 'f) sweep_world \<times> (nat \<times> nat \<times> nat \<times> nat)" where
  "sweep kdel fdel fiter now w =
    (let (expired, active) = classify now (swMeta w);
         (km, swept) = deleteKernelMACs kdel expired (swMacMap w, []);
         (fm, residual) = evictResidualFlows fdel fiter swept (swFlowMap w);
         (g, settled) = settleSwept (swMeta w) (swRouters w) swept (swState w)
     in (w\<lparr>swMeta := deleteUserspace swept (swMeta w), swMacMap := km, swFlowMap := fm, swState := g\<rparr>,
         (length swept, residual, settled, active)))"

section \<open>What the phases do\<close>

definition expired_meta :: "gotime \<Rightarrow> tenant_meta \<Rightarrow> bool" where
  "expired_meta now m \<longleftrightarrow> DeleteAt m \<noteq> 0 \<and> DeleteAt m \<le> now"

lemma classify_fold:
  "fst (fold (\<lambda>(mac, meta). classify_entry now mac meta) rows st) =
     fst st @ map fst (filter (\<lambda>(mac, meta). expired_meta now meta) rows)"
  by (induction rows arbitrary: st) (auto simp: classify_entry_def expired_meta_def)

lemma classify_expired:
  assumes "sharded_wf meta"
  shows "mac \<in> set (fst (classify now meta)) \<longleftrightarrow>
    (\<exists>m. ShardedMetadataMap_Lookup meta mac = Some m \<and> expired_meta now m)"
proof -
  have row: "(mac, m) \<in> set (flat meta) \<longleftrightarrow> ShardedMetadataMap_Lookup meta mac = Some m" for m
    using mget_in_set[OF mwf_flat[OF assms]] mget_flat[OF assms] by simp
  have "mac \<in> set (fst (classify now meta)) \<longleftrightarrow> (\<exists>m. (mac, m) \<in> set (flat meta) \<and> expired_meta now m)"
    by (force simp: classify_def Range_fold classify_fold)
  then show ?thesis by (simp add: row)
qed

lemma swept_metas_lookup:
  "mget (swept_metas meta swept) mac = (if mac \<in> set swept then ShardedMetadataMap_Lookup meta mac else None)"
proof -
  have "mget (fold (\<lambda>mac ms. case ShardedMetadataMap_Lookup meta mac of Some m \<Rightarrow> mput mac m ms | None \<Rightarrow> ms) swept ms) mac =
      (if mac \<in> set swept \<and> ShardedMetadataMap_Lookup meta mac \<noteq> None then ShardedMetadataMap_Lookup meta mac else mget ms mac)" for ms
    by (induction swept arbitrary: ms) (auto split: option.splits)
  then show ?thesis by (auto simp: swept_metas_def)
qed

lemma deleteUserspace_lookup:
  "sharded_wf meta \<Longrightarrow> ShardedMetadataMap_Lookup (deleteUserspace swept meta) mac =
     (if mac \<in> set swept then None else ShardedMetadataMap_Lookup meta mac)"
  "sharded_wf meta \<Longrightarrow> sharded_wf (deleteUserspace swept meta)"
  unfolding deleteUserspace_def by (rule shm.get_fold_del shm.wf_fold_del; assumption)+

context kernel_map
begin

lemma deleteKernelMACs_spec:
  assumes "deleteKernelMACs kdel expired (km, swept) = (km', swept')" and "\<forall>k \<in> set swept. kget km k = None"
  shows "set swept \<subseteq> set swept' \<and> set swept' \<subseteq> set swept \<union> set expired \<and>
    (\<forall>k. kget km' k = (if k \<in> set swept' then None else kget km k))"
  using assms
proof (induction expired arbitrary: km swept)
  case (Cons mac expired)
  obtain ok km1 where s: "evictor_Delete kdel mac km = (ok, km1)" by (cases "evictor_Delete kdel mac km")
  note D = Delete_facts[OF s]
  let ?sw = "if ok then swept @ [mac] else swept"
  have rest: "deleteKernelMACs kdel expired (km1, ?sw) = (km', swept')" using Cons.prems(1) s by simp
  have gone: "\<forall>k \<in> set ?sw. kget km1 k = None"
  proof
    fix k assume "k \<in> set ?sw"
    then show "kget km1 k = None" using D Cons.prems(2) by (cases "k = mac"; cases ok) auto
  qed
  note IH = Cons.IH[OF rest gone]
  have "kget km' k = (if k \<in> set swept' then None else kget km k)" for k
  proof (cases "k \<in> set swept'")
    case True
    then show ?thesis using IH by simp
  next
    case False
    then have "k = mac \<Longrightarrow> \<not> ok" using IH by auto
    then have "kget km1 k = kget km k" using D(2)[of k] D(3)[of k] by blast
    then show ?thesis using IH False by simp
  qed
  then show ?case using IH by (auto split: if_splits)
qed auto

end

definition kernel_subset :: "('m \<Rightarrow> u64 \<Rightarrow> 'v option) \<Rightarrow> ('m, 'f) sweep_world \<Rightarrow> bool" where
  "kernel_subset kget w \<longleftrightarrow> (\<forall>mac. kget (swMacMap w) mac \<noteq> None \<longrightarrow> ShardedMetadataMap_Lookup (swMeta w) mac \<noteq> None)"

lemma settleSwept_resolver:
  assumes "\<And>k. mhas (counts g) k \<Longrightarrow> VMMAC k \<in> set swept \<Longrightarrow> ShardedMetadataMap_Lookup meta (VMMAC k) \<noteq> None"
    and "gs_wf g" and "pick \<in> {pick_bytes, pick_packets}"
    and "\<And>mac. mac \<notin> set swept \<Longrightarrow> ShardedMetadataMap_Lookup meta' mac = ShardedMetadataMap_Lookup meta mac"
  shows "tenant_tier pick (display meta' routers) (fst (settleSwept meta routers swept g)) sk =
      tenant_tier pick (display meta routers) g sk \<and>
    server_tier pick (display meta' routers) (fst (settleSwept meta routers swept g)) ck =
      server_tier pick (display meta routers) g ck \<and>
    total_tier pick (display meta' routers) (fst (settleSwept meta routers swept g)) tk =
      total_tier pick (display meta routers) g tk"
proof -
  define sr where "sr = (if swept = [] then (\<lambda>_. None)
    else SettleResolver routers (\<lambda>k. mget (swept_metas meta swept) (VMMAC k)))"
  have g': "fst (settleSwept meta routers swept g) = fst (Settle SettleEvict sr g)"
    by (simp add: settleSwept_def Settle_None sr_def)
  have agree: "display meta routers k = a" if "mhas (counts g) k" and sra: "sr k = Some a" for k a
  proof -
    obtain m where m: "mget (swept_metas meta swept) (VMMAC k) = Some m"
      using sra by (auto simp: sr_def SettleResolver_def split: if_splits option.splits)
    then have "ShardedMetadataMap_Lookup meta (VMMAC k) = Some m"
      by (simp add: swept_metas_lookup split: if_splits)
    then show ?thesis
      using sra SettleResolver_display[of "\<lambda>k. mget (swept_metas meta swept) (VMMAC k)" k m meta routers] m
      by (auto simp: sr_def split: if_splits)
  qed
  have keep: "display meta' routers k = display meta routers k" if "mhas (counts g) k" "sr k = None" for k
  proof (rule display_cong)
    have "VMMAC k \<notin> set swept"
      using that(2) assms(1)[OF that(1)] by (auto simp: sr_def swept_metas_lookup split: if_splits)
    then show "ShardedMetadataMap_Lookup meta' (VMMAC k) = ShardedMetadataMap_Lookup meta (VMMAC k)"
      by (rule assms(4))
  qed
  show ?thesis unfolding g' by (rule settle_tiers[OF assms(2,3) agree keep])
qed

section \<open>Properties\<close>

definition sweep_ok :: "('m, 'f) sweep_world \<Rightarrow> bool" where
  "sweep_ok w \<longleftrightarrow> sharded_wf (swMeta w) \<and> gs_wf (swState w)"


definition ex_ghost :: tenant_meta where
  "ex_ghost = (ex_meta ''a'')\<lparr>DeleteAt := 60\<rparr>"

definition ex_sweep_world :: "((u64, u32) gomap, (flow_key, flow_metrics) gomap) sweep_world" where
  "ex_sweep_world = \<lparr>swMeta = ShardedMetadataMap_Insert (MACKey (Mac 2 0 0 0 0 10)) ex_ghost ShardedMetadataMap_New,
     swRouters = None, swMacMap = [(MACKey (Mac 2 0 0 0 0 10), 1)], swFlowMap = [], swState = ex_state\<rparr>"

lemma ex_sweep_world_ok: "sweep_ok ex_sweep_world" "kernel_subset mget ex_sweep_world"
  by (simp_all add: sweep_ok_def kernel_subset_def ex_sweep_world_def shm.wf_put shm.get_put gs_wf_ex_state
      mget_Cons del: MACKey.simps)


text \<open>
  The phases are not one atomic step. If the reconciler brings a ghost back between \<^verbatim>\<open>classify\<close> and
  the deletes, a live entry in both maps, the sweep still removes it from both.
\<close>

lemma sweep_removes_resurrected:
  assumes "sharded_wf meta" and "mac \<in> set (fst (classify now meta))"
    and "deleteKernelMACs (bm_del {}) (fst (classify now meta)) (mput mac tid km, []) = (km', swept)"
  shows "ShardedMetadataMap_Lookup (deleteUserspace swept (ShardedMetadataMap_Insert mac live meta)) mac = None \<and>
    mget km' mac = None"
proof -
  have all: "deleteKernelMACs (bm_del {}) ms (m, sw) = (m', sw') \<Longrightarrow> sw' = sw @ ms" for ms m sw m' and sw' :: "u64 list"
  proof (induction ms arbitrary: m sw)
    case (Cons x ms)
    obtain m1 where "evictor_Delete (bm_del {}) x m = (True, m1)"
      by (cases "mhas m x") (auto simp: evictor_Delete_def bm_del_def)
    then show ?case using Cons.IH[of m1 "sw @ [x]"] Cons.prems by simp
  qed simp
  have "mac \<in> set swept" using all[OF assms(3)] assms(2) by simp
  moreover have "mget km' mac = None"
    using kernel_map.deleteKernelMACs_spec[OF bounded_kernel_map assms(3)] \<open>mac \<in> set swept\<close> by simp
  ultimately show ?thesis
    using assms(1) by (simp add: deleteUserspace_lookup shm.wf_put)
qed

end
