(* ===== verification/Collector.thy ===== *)
theory Collector
  imports Metadata
begin

text \<open>
  The Prometheus collector (\<^verbatim>\<open>internal/metrics\<close>): one pass copies the store under its lock,
  aggregates live rows and settled buckets per label tuple into five maps, and emits one sample per
  tuple and measure. A sample is its metric name, kind, value and label values in the order of the
  descriptor; the value is the \<^verbatim>\<open>float64\<close> of the 64-bit counter, rounded to nearest even as
  the Go conversion does. The pass's own duration histogram is not modelled.
\<close>

section \<open>Data\<close>

record totalAggKey =
  taExt :: string
  taZone :: u8
  taDir :: u8

record aggKey =
  akTenant :: string
  akExt :: string
  akZone :: u8
  akDir :: u8

record serverAggKey =
  saServer :: string
  saTenant :: string
  saExt :: string
  saZone :: u8
  saDir :: u8

record portAggKey =
  paServer :: string
  paPort :: string
  paTenant :: string
  paExt :: string
  paZone :: u8
  paDir :: u8

record protoAggKey =
  qaServer :: string
  qaPort :: string
  qaTenant :: string
  qaProto :: u8
  qaDir :: u8

record aggValue =
  avBytes :: u64
  avPackets :: u64

record collector =
  emitBuf :: "entry list"
  tenantSettledBuf :: "tenant_settled_record list"
  serverSettledBuf :: "server_settled_record list"
  totalSettledBuf :: "total_settled_record list"
  totalAggBuf :: "(totalAggKey, aggValue) gomap"
  aggBuf :: "(aggKey, aggValue) gomap"
  serverAggBuf :: "(serverAggKey, aggValue) gomap"
  portAggBuf :: "(portAggKey, aggValue) gomap"
  protoAggBuf :: "(protoAggKey, aggValue) gomap"

datatype value_kind = CounterValue | GaugeValue

record sample =
  smName :: string
  smKind :: value_kind
  smValue :: int
  smLabels :: "string list"

definition MetricBytesTotal :: string where "MetricBytesTotal = ''lachesis_bytes_total''"
definition MetricPacketsTotal :: string where "MetricPacketsTotal = ''lachesis_packets_total''"
definition MetricTenantBytesTotal :: string where "MetricTenantBytesTotal = ''lachesis_tenant_bytes_total''"
definition MetricTenantPacketsTotal :: string where "MetricTenantPacketsTotal = ''lachesis_tenant_packets_total''"
definition MetricServerBytesTotal :: string where "MetricServerBytesTotal = ''lachesis_server_bytes_total''"
definition MetricServerPacketsTotal :: string where "MetricServerPacketsTotal = ''lachesis_server_packets_total''"
definition MetricPortBytesTotal :: string where "MetricPortBytesTotal = ''lachesis_port_bytes_total''"
definition MetricPortPacketsTotal :: string where "MetricPortPacketsTotal = ''lachesis_port_packets_total''"
definition MetricPortProtoBytesTotal :: string where "MetricPortProtoBytesTotal = ''lachesis_port_proto_bytes_total''"
definition MetricPortProtoPacketsTotal :: string where "MetricPortProtoPacketsTotal = ''lachesis_port_proto_packets_total''"

lemmas metric_names = MetricBytesTotal_def MetricPacketsTotal_def MetricTenantBytesTotal_def MetricTenantPacketsTotal_def
  MetricServerBytesTotal_def MetricServerPacketsTotal_def MetricPortBytesTotal_def MetricPortPacketsTotal_def
  MetricPortProtoBytesTotal_def MetricPortProtoPacketsTotal_def

section \<open>The float64 of a counter\<close>

text \<open>
  \<^verbatim>\<open>float64(n)\<close>: a 53-bit significand, rounded to nearest with ties to even. The exponent is the
  number of low bits that do not fit.
\<close>

fun float_exp :: "nat \<Rightarrow> nat" where
  "float_exp n = (if n < 2 ^ 53 then 0 else Suc (float_exp (n div 2)))"

definition round_even :: "nat \<Rightarrow> nat \<Rightarrow> nat" where
  "round_even e n =
    (let q = n div 2 ^ e; r = n mod 2 ^ e
     in (if 2 * r < 2 ^ e \<or> (2 * r = 2 ^ e \<and> even q) then q else Suc q) * 2 ^ e)"

definition float64 :: "nat \<Rightarrow> nat" where
  "float64 n = round_even (float_exp n) n"

definition float64_int :: "int \<Rightarrow> int" where
  "float64_int i = (if i < 0 then - int (float64 (nat (- i))) else int (float64 (nat i)))"

section \<open>Operations\<close>

definition agg_add :: "'k \<Rightarrow> u64 \<Rightarrow> u64 \<Rightarrow> ('k, aggValue) gomap \<Rightarrow> ('k, aggValue) gomap" where
  "agg_add k b p m =
    (let v = (case mget m k of None \<Rightarrow> \<lparr>avBytes = 0, avPackets = 0\<rparr> | Some v \<Rightarrow> v)
     in mput k \<lparr>avBytes = avBytes v + b, avPackets = avPackets v + p\<rparr> m)"

definition foldTenantSettled :: "collector \<Rightarrow> collector" where
  "foldTenantSettled c = c\<lparr>aggBuf := fold (\<lambda>s.
      agg_add \<lparr>akTenant = TsTenant (SKey s), akExt = TsExtNet (SKey s), akZone = TsZone (SKey s), akDir = TsDir (SKey s)\<rparr>
        (SBytes s) (SPackets s)) (tenantSettledBuf c) (aggBuf c)\<rparr>"

definition live_row :: "(flow_key \<Rightarrow> attribution) \<Rightarrow> entry \<Rightarrow> collector \<Rightarrow> collector" where
  "live_row resolve e c =
    (let a = resolve (EKey e); b = Bytes (ETotal e); p = Packets (ETotal e);
         z = DstZone (EKey e); d = Direction (EKey e);
         c1 = c\<lparr>aggBuf := agg_add \<lparr>akTenant = AtTenant a, akExt = AtExternalNetwork a, akZone = z, akDir = d\<rparr> b p (aggBuf c)\<rparr>
     in if AtServerID a \<noteq> []
        then c1\<lparr>serverAggBuf := agg_add \<lparr>saServer = AtServerID a, saTenant = AtTenant a, saExt = AtExternalNetwork a,
                  saZone = z, saDir = d\<rparr> b p (serverAggBuf c1),
                portAggBuf := agg_add \<lparr>paServer = AtServerID a, paPort = AtPortID a, paTenant = AtTenant a,
                  paExt = AtExternalNetwork a, paZone = z, paDir = d\<rparr> b p (portAggBuf c1),
                protoAggBuf := agg_add \<lparr>qaServer = AtServerID a, qaPort = AtPortID a, qaTenant = AtTenant a,
                  qaProto = L4Proto (EKey e), qaDir = d\<rparr> b p (protoAggBuf c1)\<rparr>
        else c1)"

definition aggregateLiveRows :: "(flow_key \<Rightarrow> attribution) \<Rightarrow> collector \<Rightarrow> collector" where
  "aggregateLiveRows resolve c = fold (live_row resolve) (emitBuf c) c"

definition foldServerSettled :: "collector \<Rightarrow> collector" where
  "foldServerSettled c = c\<lparr>serverAggBuf := fold (\<lambda>s.
      agg_add \<lparr>saServer = SsServerID (SKey s), saTenant = SsTenant (SKey s), saExt = SsExtNet (SKey s),
        saZone = SsZone (SKey s), saDir = SsDir (SKey s)\<rparr> (SBytes s) (SPackets s)) (serverSettledBuf c) (serverAggBuf c)\<rparr>"

definition deriveTotals :: "collector \<Rightarrow> collector" where
  "deriveTotals c = c\<lparr>totalAggBuf := fold (\<lambda>(k, v).
      agg_add \<lparr>taExt = akExt k, taZone = akZone k, taDir = akDir k\<rparr> (avBytes v) (avPackets v)) (aggBuf c) (totalAggBuf c)\<rparr>"

definition foldTotalSettled :: "collector \<Rightarrow> collector" where
  "foldTotalSettled c = c\<lparr>totalAggBuf := fold (\<lambda>s.
      agg_add \<lparr>taExt = ToExtNet (SKey s), taZone = ToZone (SKey s), taDir = ToDir (SKey s)\<rparr>
        (SBytes s) (SPackets s)) (totalSettledBuf c) (totalAggBuf c)\<rparr>"

definition aggregate :: "(flow_key \<Rightarrow> attribution) \<Rightarrow> collector \<Rightarrow> collector" where
  "aggregate resolve c =
    foldTotalSettled (deriveTotals (foldServerSettled (aggregateLiveRows resolve (foldTenantSettled
      (c\<lparr>totalAggBuf := [], aggBuf := [], serverAggBuf := [], portAggBuf := [], protoAggBuf := []\<rparr>)))))"

definition counter_pair :: "string \<Rightarrow> string \<Rightarrow> aggValue \<Rightarrow> string list \<Rightarrow> sample list" where
  "counter_pair bytesName packetsName v labels =
    [\<lparr>smName = bytesName, smKind = CounterValue, smValue = int (float64 (unat (avBytes v))), smLabels = labels\<rparr>,
     \<lparr>smName = packetsName, smKind = CounterValue, smValue = int (float64 (unat (avPackets v))), smLabels = labels\<rparr>]"

definition emitBilling :: "collector \<Rightarrow> sample list" where
  "emitBilling c =
    concat (map (\<lambda>(k, v). counter_pair MetricBytesTotal MetricPacketsTotal v
      [ZoneCode_String (taZone k), taExt k, Direction_String (taDir k)]) (totalAggBuf c)) @
    concat (map (\<lambda>(k, v). counter_pair MetricTenantBytesTotal MetricTenantPacketsTotal v
      [akTenant k, ZoneCode_String (akZone k), akExt k, Direction_String (akDir k)]) (aggBuf c)) @
    concat (map (\<lambda>(k, v). counter_pair MetricServerBytesTotal MetricServerPacketsTotal v
      [saServer k, saTenant k, ZoneCode_String (saZone k), saExt k, Direction_String (saDir k)]) (serverAggBuf c)) @
    concat (map (\<lambda>(k, v). counter_pair MetricPortBytesTotal MetricPortPacketsTotal v
      [paServer k, paPort k, paTenant k, ZoneCode_String (paZone k), paExt k, Direction_String (paDir k)]) (portAggBuf c)) @
    concat (map (\<lambda>(k, v). counter_pair MetricPortProtoBytesTotal MetricPortProtoPacketsTotal v
      [qaServer k, qaPort k, qaTenant k, L4Proto_String (qaProto k), Direction_String (qaDir k)]) (protoAggBuf c))"

definition emitHealth :: "u64 \<Rightarrow> int \<Rightarrow> collector \<Rightarrow> sample list" where
  "emitHealth errorCount lastSuccess c =
    [\<lparr>smName = ''lachesis_state_flows'', smKind = GaugeValue, smValue = int (float64 (length (emitBuf c))), smLabels = []\<rparr>,
     \<lparr>smName = ''lachesis_state_tenant_settled_tuples'', smKind = GaugeValue, smValue = int (float64 (length (tenantSettledBuf c))), smLabels = []\<rparr>,
     \<lparr>smName = ''lachesis_state_server_settled_tuples'', smKind = GaugeValue, smValue = int (float64 (length (serverSettledBuf c))), smLabels = []\<rparr>,
     \<lparr>smName = ''lachesis_state_total_settled_tuples'', smKind = GaugeValue, smValue = int (float64 (length (totalSettledBuf c))), smLabels = []\<rparr>,
     \<lparr>smName = ''lachesis_scraper_errors_total'', smKind = CounterValue, smValue = int (float64 (unat errorCount)), smLabels = []\<rparr>,
     \<lparr>smName = ''lachesis_scraper_last_success_unix_seconds'', smKind = GaugeValue, smValue = float64_int lastSuccess, smLabels = []\<rparr>]"

definition Collect :: "(flow_key \<Rightarrow> attribution) \<Rightarrow> u64 \<Rightarrow> int \<Rightarrow> global_state \<Rightarrow> collector \<Rightarrow> sample list \<times> collector" where
  "Collect resolve errorCount lastSuccess g c =
    (case SnapshotWithSettled [] [] [] [] g of
       (flows, ts, ss, tot) \<Rightarrow>
         (let c' = aggregate resolve (c\<lparr>emitBuf := flows, tenantSettledBuf := ts, serverSettledBuf := ss, totalSettledBuf := tot\<rparr>)
          in (emitBilling c' @ emitHealth errorCount lastSuccess c', c')))"

definition UnknownTenant_Resolve :: "flow_key \<Rightarrow> attribution" where
  "UnknownTenant_Resolve key =
    \<lparr>AtTenant = UnknownTenantID, AtServerID = [], AtPortID = [], AtExternalNetwork = NoExternalNetwork\<rparr>"

text \<open>
  The descriptors that \<^verbatim>\<open>New\<close> builds, each a metric name with its label names, in the order \<^verbatim>\<open>Describe\<close> sends
  them; the histogram of the pass's own duration follows them there. A constant metric is refused with a panic
  unless it has one value per label name of its descriptor.
\<close>

definition descs :: "(string \<times> string list) list" where
  "descs =
    [(MetricBytesTotal, [''zone'', ''external_network'', ''direction'']),
     (MetricPacketsTotal, [''zone'', ''external_network'', ''direction'']),
     (MetricTenantBytesTotal, [''tenant_id'', ''zone'', ''external_network'', ''direction'']),
     (MetricTenantPacketsTotal, [''tenant_id'', ''zone'', ''external_network'', ''direction'']),
     (MetricServerBytesTotal, [''server_id'', ''tenant_id'', ''zone'', ''external_network'', ''direction'']),
     (MetricServerPacketsTotal, [''server_id'', ''tenant_id'', ''zone'', ''external_network'', ''direction'']),
     (MetricPortBytesTotal, [''server_id'', ''port_id'', ''tenant_id'', ''zone'', ''external_network'', ''direction'']),
     (MetricPortPacketsTotal, [''server_id'', ''port_id'', ''tenant_id'', ''zone'', ''external_network'', ''direction'']),
     (MetricPortProtoBytesTotal, [''server_id'', ''port_id'', ''tenant_id'', ''proto'', ''direction'']),
     (MetricPortProtoPacketsTotal, [''server_id'', ''port_id'', ''tenant_id'', ''proto'', ''direction'']),
     (''lachesis_state_flows'', []), (''lachesis_state_tenant_settled_tuples'', []), (''lachesis_state_server_settled_tuples'', []),
     (''lachesis_state_total_settled_tuples'', []), (''lachesis_scraper_errors_total'', []),
     (''lachesis_scraper_last_success_unix_seconds'', [])]"

definition Collector_New :: collector where
  "Collector_New = \<lparr>emitBuf = [], tenantSettledBuf = [], serverSettledBuf = [], totalSettledBuf = [],
     totalAggBuf = [], aggBuf = [], serverAggBuf = [], portAggBuf = [], protoAggBuf = []\<rparr>"

definition fits_desc :: "sample \<Rightarrow> bool" where
  "fits_desc s = (case map_of descs (smName s) of None \<Rightarrow> False | Some ls \<Rightarrow> length (smLabels s) = length ls)"

section \<open>Aggregation\<close>

definition agg_val :: "measure_pick \<Rightarrow> aggValue \<Rightarrow> u64" where
  "agg_val pick v = pick (avBytes v) (avPackets v)"

definition agg_at :: "measure_pick \<Rightarrow> ('k, aggValue) gomap \<Rightarrow> 'k \<Rightarrow> u64" where
  "agg_at pick m k = (case mget m k of None \<Rightarrow> 0 | Some v \<Rightarrow> agg_val pick v)"

definition agg_all :: "('x \<Rightarrow> 'k option) \<Rightarrow> ('x \<Rightarrow> u64) \<Rightarrow> ('x \<Rightarrow> u64) \<Rightarrow> 'x list \<Rightarrow> ('k, aggValue) gomap \<Rightarrow> ('k, aggValue) gomap" where
  "agg_all key b p = fold (\<lambda>x m. case key x of None \<Rightarrow> m | Some k \<Rightarrow> agg_add k (b x) (p x) m)"

lemma agg_all_simps [simp]:
  "agg_all key b p [] m = m"
  "agg_all key b p (x # xs) m = agg_all key b p xs (case key x of None \<Rightarrow> m | Some k \<Rightarrow> agg_add k (b x) (p x) m)"
  by (simp_all add: agg_all_def)

lemma mwf_agg_add [simp]: "mwf m \<Longrightarrow> mwf (agg_add k b p m)"
  by (simp add: agg_add_def Let_def)

lemma mwf_agg_all [simp]: "mwf m \<Longrightarrow> mwf (agg_all key b p xs m)"
  by (induction xs arbitrary: m) (auto split: option.splits)

lemma mhas_agg_all: "mhas (agg_all key b p xs m) k \<longleftrightarrow> mhas m k \<or> Some k \<in> key ` set xs"
  by (induction xs arbitrary: m) (auto simp: agg_add_def Let_def split: option.splits)

context tier_measure
begin

lemma agg_at_add: "agg_at pick (agg_add k b p m) k' = agg_at pick m k' + (if k' = k then pick b p else 0)"
  by (auto simp: agg_at_def agg_val_def agg_add_def Let_def pick_add split: option.splits)

lemma msum_agg_add:
  "msum (\<lambda>k v. if Q k then agg_val pick v else 0) (agg_add k b p m) =
     msum (\<lambda>k v. if Q k then agg_val pick v else 0) m + (if Q k then pick b p else 0)"
  by (auto simp: agg_add_def agg_val_def Let_def pick_add msum_mput split: option.splits)

lemma agg_at_all:
  "agg_at pick (agg_all key b p xs m) k = agg_at pick m k + (\<Sum>x\<leftarrow>xs. if key x = Some k then pick (b x) (p x) else 0)"
  by (induction xs arbitrary: m) (auto simp: agg_at_add ac_simps split: option.splits)

lemma msum_agg_all:
  "msum (\<lambda>k v. if Q k then agg_val pick v else 0) (agg_all key b p xs m) =
     msum (\<lambda>k v. if Q k then agg_val pick v else 0) m +
     (\<Sum>x\<leftarrow>xs. case key x of None \<Rightarrow> 0 | Some k \<Rightarrow> if Q k then pick (b x) (p x) else 0)"
  by (induction xs arbitrary: m) (auto simp: msum_agg_add ac_simps split: option.splits)

end

text \<open>The keys each loop credits.\<close>

definition live_key :: "(flow_key \<Rightarrow> attribution) \<Rightarrow> entry \<Rightarrow> aggKey" where
  "live_key resolve e = (let a = resolve (EKey e) in
    \<lparr>akTenant = AtTenant a, akExt = AtExternalNetwork a, akZone = DstZone (EKey e), akDir = Direction (EKey e)\<rparr>)"

definition live_server_key :: "(flow_key \<Rightarrow> attribution) \<Rightarrow> entry \<Rightarrow> serverAggKey option" where
  "live_server_key resolve e = (let a = resolve (EKey e) in
    if AtServerID a = [] then None else Some \<lparr>saServer = AtServerID a, saTenant = AtTenant a, saExt = AtExternalNetwork a,
      saZone = DstZone (EKey e), saDir = Direction (EKey e)\<rparr>)"

definition live_port_key :: "(flow_key \<Rightarrow> attribution) \<Rightarrow> entry \<Rightarrow> portAggKey option" where
  "live_port_key resolve e = (let a = resolve (EKey e) in
    if AtServerID a = [] then None else Some \<lparr>paServer = AtServerID a, paPort = AtPortID a, paTenant = AtTenant a,
      paExt = AtExternalNetwork a, paZone = DstZone (EKey e), paDir = Direction (EKey e)\<rparr>)"

definition live_proto_key :: "(flow_key \<Rightarrow> attribution) \<Rightarrow> entry \<Rightarrow> protoAggKey option" where
  "live_proto_key resolve e = (let a = resolve (EKey e) in
    if AtServerID a = [] then None else Some \<lparr>qaServer = AtServerID a, qaPort = AtPortID a, qaTenant = AtTenant a,
      qaProto = L4Proto (EKey e), qaDir = Direction (EKey e)\<rparr>)"

abbreviation ebytes :: "entry \<Rightarrow> u64" where "ebytes e \<equiv> Bytes (ETotal e)"
abbreviation epackets :: "entry \<Rightarrow> u64" where "epackets e \<equiv> Packets (ETotal e)"

definition of_ts :: "tenant_settled_key \<Rightarrow> aggKey" where
  "of_ts k = \<lparr>akTenant = TsTenant k, akExt = TsExtNet k, akZone = TsZone k, akDir = TsDir k\<rparr>"

definition of_ss :: "server_settled_key \<Rightarrow> serverAggKey" where
  "of_ss k = \<lparr>saServer = SsServerID k, saTenant = SsTenant k, saExt = SsExtNet k, saZone = SsZone k, saDir = SsDir k\<rparr>"

definition of_to :: "total_settled_key \<Rightarrow> totalAggKey" where
  "of_to k = \<lparr>taExt = ToExtNet k, taZone = ToZone k, taDir = ToDir k\<rparr>"

definition total_of :: "aggKey \<Rightarrow> totalAggKey" where
  "total_of k = \<lparr>taExt = akExt k, taZone = akZone k, taDir = akDir k\<rparr>"

lemma live_rows:
  "aggBuf (fold (live_row resolve) es c) = agg_all (\<lambda>e. Some (live_key resolve e)) ebytes epackets es (aggBuf c)"
  "serverAggBuf (fold (live_row resolve) es c) = agg_all (live_server_key resolve) ebytes epackets es (serverAggBuf c)"
  "portAggBuf (fold (live_row resolve) es c) = agg_all (live_port_key resolve) ebytes epackets es (portAggBuf c)"
  "protoAggBuf (fold (live_row resolve) es c) = agg_all (live_proto_key resolve) ebytes epackets es (protoAggBuf c)"
  "totalAggBuf (fold (live_row resolve) es c) = totalAggBuf c"
  "emitBuf (fold (live_row resolve) es c) = emitBuf c"
  "tenantSettledBuf (fold (live_row resolve) es c) = tenantSettledBuf c"
  "serverSettledBuf (fold (live_row resolve) es c) = serverSettledBuf c"
  "totalSettledBuf (fold (live_row resolve) es c) = totalSettledBuf c"
  by (induction es arbitrary: c)
     (auto simp: live_row_def live_key_def live_server_key_def live_port_key_def live_proto_key_def Let_def)

lemma settled_folds:
  "fold (\<lambda>s. agg_add (f (SKey s)) (SBytes s) (SPackets s)) rs m = agg_all (\<lambda>s. Some (f (SKey s))) SBytes SPackets rs m"
  by (simp add: agg_all_def)

lemma aggregate_bufs:
  fixes resolve c
  defines "tenants \<equiv> agg_all (\<lambda>e. Some (live_key resolve e)) ebytes epackets (emitBuf c)
      (agg_all (\<lambda>s. Some (of_ts (SKey s))) SBytes SPackets (tenantSettledBuf c) [])"
  shows "aggBuf (aggregate resolve c) = tenants"
    "serverAggBuf (aggregate resolve c) = agg_all (\<lambda>s. Some (of_ss (SKey s))) SBytes SPackets (serverSettledBuf c)
       (agg_all (live_server_key resolve) ebytes epackets (emitBuf c) [])"
    "portAggBuf (aggregate resolve c) = agg_all (live_port_key resolve) ebytes epackets (emitBuf c) []"
    "protoAggBuf (aggregate resolve c) = agg_all (live_proto_key resolve) ebytes epackets (emitBuf c) []"
    "totalAggBuf (aggregate resolve c) = agg_all (\<lambda>s. Some (of_to (SKey s))) SBytes SPackets (totalSettledBuf c)
       (agg_all (\<lambda>(k, v). Some (total_of k)) (\<lambda>(k, v). avBytes v) (\<lambda>(k, v). avPackets v) tenants [])"
    "emitBuf (aggregate resolve c) = emitBuf c"
    "tenantSettledBuf (aggregate resolve c) = tenantSettledBuf c"
    "serverSettledBuf (aggregate resolve c) = serverSettledBuf c"
    "totalSettledBuf (aggregate resolve c) = totalSettledBuf c"
  unfolding tenants_def
  by (simp_all add: aggregate_def foldTotalSettled_def deriveTotals_def foldServerSettled_def aggregateLiveRows_def
      foldTenantSettled_def live_rows agg_all_def of_ts_def of_ss_def of_to_def total_of_def case_prod_unfold)

lemma of_key_inj [simp]:
  "of_ts k = of_ts k' \<longleftrightarrow> k = k'" "of_ss s = of_ss s' \<longleftrightarrow> s = s'" "of_to t = of_to t' \<longleftrightarrow> t = t'"
  by (auto simp: of_ts_def of_ss_def of_to_def)

lemma of_key_surj: "\<exists>k. x = of_ts k" "\<exists>s. y = of_ss s" "\<exists>t. z = of_to t"
proof -
  show "\<exists>k. x = of_ts k"
    by (rule exI[of _ "\<lparr>TsTenant = akTenant x, TsExtNet = akExt x, TsZone = akZone x, TsDir = akDir x\<rparr>"]) (simp add: of_ts_def)
  show "\<exists>s. y = of_ss s"
    by (rule exI[of _ "\<lparr>SsServerID = saServer y, SsTenant = saTenant y, SsExtNet = saExt y, SsZone = saZone y, SsDir = saDir y\<rparr>"])
       (simp add: of_ss_def)
  show "\<exists>t. z = of_to t"
    by (rule exI[of _ "\<lparr>ToExtNet = taExt z, ToZone = taZone z, ToDir = taDir z\<rparr>"]) (simp add: of_to_def)
qed

section \<open>The tiers of a pass\<close>

text \<open>The attribution triple a resolver shows.\<close>

definition shown :: "(flow_key \<Rightarrow> attribution) \<Rightarrow> flow_key \<Rightarrow> attribution3" where
  "shown resolve k = (case resolve k of a \<Rightarrow> (AtTenant a, AtExternalNetwork a, AtServerID a))"

lemma shown_display: "shown (Resolver_Resolve m routers) = display m routers"
  by (simp add: fun_eq_iff shown_def display_def)

lemma live_key_label: "live_key resolve e = of_ts (tenant_label (shown resolve (EKey e)) (EKey e))"
  by (simp add: live_key_def of_ts_def tenant_label_def shown_def Let_def)

lemma live_server_key_label: "live_server_key resolve e = map_option of_ss (server_label (shown resolve (EKey e)) (EKey e))"
  by (simp add: live_server_key_def of_ss_def server_label_def shown_def Let_def)

lemma live_server_key_eq: "live_server_key resolve e = Some (of_ss k) \<longleftrightarrow> server_label (shown resolve (EKey e)) (EKey e) = Some k"
  by (auto simp: live_server_key_label)

lemma total_of_ts [simp]: "total_of (of_ts k) = of_to (total_label k)"
  by (simp add: total_of_def of_ts_def of_to_def total_label_def)

definition pass :: "(flow_key \<Rightarrow> attribution) \<Rightarrow> global_state \<Rightarrow> collector \<Rightarrow> collector" where
  "pass resolve g c = snd (Collect resolve 0 0 g c)"

lemma pass_bufs:
  "emitBuf (pass resolve g c) = map (\<lambda>(k, c). \<lparr>EKey = k, ETotal = Total c\<rparr>) (counts g)"
  "tenantSettledBuf (pass resolve g c) = copy_out (tenantSettled g)"
  "serverSettledBuf (pass resolve g c) = copy_out (serverSettled g)"
  "totalSettledBuf (pass resolve g c) = copy_out (totalSettled g)"
  by (simp_all add: pass_def Collect_def SnapshotWithSettled_def Let_def aggregate_bufs)

lemma Collect_pass: "Collect resolve ec ls g c = (emitBilling (pass resolve g c) @ emitHealth ec ls (pass resolve g c), pass resolve g c)"
  by (simp add: pass_def Collect_def SnapshotWithSettled_def Let_def)

lemma sum_copy_out: "(\<Sum>s\<leftarrow>copy_out m. f (SKey s) (SBytes s) (SPackets s)) = msum (\<lambda>k t. f k (sbytes t) (spackets t)) m"
  by (induction m) (auto simp: copy_out_def)

lemma sum_live: "(\<Sum>e\<leftarrow>map (\<lambda>(k, c). \<lparr>EKey = k, ETotal = Total c\<rparr>) m. f (EKey e) (ebytes e) (epackets e)) =
    msum (\<lambda>k c. f k (Bytes (Total c)) (Packets (Total c))) m"
  by (induction m) auto

lemma msum_single:
  "mwf m \<Longrightarrow> msum (\<lambda>k v. if k = k0 then f v else 0) m = (case mget m k0 of None \<Rightarrow> 0 | Some v \<Rightarrow> f v)"
  by (induction m) (auto simp: mget_Cons)

context tier_measure
begin

lemma settled_bucket:
  assumes "mwf m"
  shows "(\<Sum>s\<leftarrow>copy_out m. if SKey s = k then pick (SBytes s) (SPackets s) else 0) = bucket_at pick m k"
  unfolding bucket_at_def bucket_val_def msum_single[OF assms, symmetric]
  by (rule sum_copy_out[of "\<lambda>k' b p. if k' = k then pick b p else 0"])

lemma pass_tenant:
  assumes "gs_wf g"
  shows "agg_at pick (aggBuf (pass resolve g c)) (of_ts k) = tenant_tier pick (shown resolve) g k"
proof -
  have live: "(\<Sum>e\<leftarrow>emitBuf (pass resolve g c). if Some (live_key resolve e) = Some (of_ts k) then pick (ebytes e) (epackets e) else 0) =
      live_sum pick (\<lambda>f. tenant_label (shown resolve f) f = k) (counts g)"
    unfolding pass_bufs live_key_label live_sum_def live_val_def option.inject of_key_inj
    by (rule sum_live[of "\<lambda>f b p. if tenant_label (shown resolve f) f = k then pick b p else 0"])
  have settled: "(\<Sum>s\<leftarrow>tenantSettledBuf (pass resolve g c). if Some (of_ts (SKey s)) = Some (of_ts k) then pick (SBytes s) (SPackets s) else 0) =
      bucket_at pick (tenantSettled g) k"
    unfolding pass_bufs option.inject of_key_inj
    by (rule settled_bucket[OF gs_wfD(2)[OF assms]])
  have "aggBuf (pass resolve g c) = agg_all (\<lambda>e. Some (live_key resolve e)) ebytes epackets (emitBuf (pass resolve g c))
      (agg_all (\<lambda>s. Some (of_ts (SKey s))) SBytes SPackets (tenantSettledBuf (pass resolve g c)) [])"
    by (simp add: pass_def Collect_def SnapshotWithSettled_def Let_def aggregate_bufs)
  then show ?thesis
    unfolding tenant_tier_def by (simp only: agg_at_all live settled) (simp add: agg_at_def add.commute)
qed

lemma pass_server:
  assumes "gs_wf g"
  shows "agg_at pick (serverAggBuf (pass resolve g c)) (of_ss k) = server_tier pick (shown resolve) g k"
proof -
  have live: "(\<Sum>e\<leftarrow>emitBuf (pass resolve g c). if live_server_key resolve e = Some (of_ss k) then pick (ebytes e) (epackets e) else 0) =
      live_sum pick (\<lambda>f. server_label (shown resolve f) f = Some k) (counts g)"
    unfolding pass_bufs live_server_key_eq live_sum_def live_val_def
    by (rule sum_live[of "\<lambda>f b p. if server_label (shown resolve f) f = Some k then pick b p else 0"])
  have settled: "(\<Sum>s\<leftarrow>serverSettledBuf (pass resolve g c). if Some (of_ss (SKey s)) = Some (of_ss k) then pick (SBytes s) (SPackets s) else 0) =
      bucket_at pick (serverSettled g) k"
    unfolding pass_bufs option.inject of_key_inj
    by (rule settled_bucket[OF gs_wfD(3)[OF assms]])
  have "serverAggBuf (pass resolve g c) = agg_all (\<lambda>s. Some (of_ss (SKey s))) SBytes SPackets (serverSettledBuf (pass resolve g c))
      (agg_all (live_server_key resolve) ebytes epackets (emitBuf (pass resolve g c)) [])"
    by (simp add: pass_def Collect_def SnapshotWithSettled_def Let_def aggregate_bufs)
  then show ?thesis
    unfolding server_tier_def by (simp only: agg_at_all live settled) (simp add: agg_at_def)
qed

text \<open>The total tier is derived from the finished tenant tier, then credited with its own absorber.\<close>

lemma pass_total:
  assumes "gs_wf g"
  shows "agg_at pick (totalAggBuf (pass resolve g c)) (of_to k) = total_tier pick (shown resolve) g k"
proof -
  let ?p = "pass resolve g c"
  let ?Q = "\<lambda>a. total_of a = of_to k"
  have bufs: "aggBuf ?p = agg_all (\<lambda>e. Some (live_key resolve e)) ebytes epackets (emitBuf ?p)
      (agg_all (\<lambda>s. Some (of_ts (SKey s))) SBytes SPackets (tenantSettledBuf ?p) [])"
    "totalAggBuf ?p = agg_all (\<lambda>s. Some (of_to (SKey s))) SBytes SPackets (totalSettledBuf ?p)
       (agg_all (\<lambda>(k, v). Some (total_of k)) (\<lambda>(k, v). avBytes v) (\<lambda>(k, v). avPackets v) (aggBuf ?p) [])"
    by (simp_all add: pass_def Collect_def SnapshotWithSettled_def Let_def aggregate_bufs)
  have live: "(\<Sum>e\<leftarrow>emitBuf ?p. case Some (live_key resolve e) of None \<Rightarrow> 0 | Some a \<Rightarrow> if ?Q a then pick (ebytes e) (epackets e) else 0) =
      live_sum pick (\<lambda>f. total_label (tenant_label (shown resolve f) f) = k) (counts g)"
    unfolding pass_bufs live_key_label live_sum_def live_val_def option.case total_of_ts of_key_inj
    by (rule sum_live[of "\<lambda>f b p. if total_label (tenant_label (shown resolve f) f) = k then pick b p else 0"])
  have settled: "(\<Sum>s\<leftarrow>tenantSettledBuf ?p. case Some (of_ts (SKey s)) of None \<Rightarrow> 0 | Some a \<Rightarrow> if ?Q a then pick (SBytes s) (SPackets s) else 0) =
      msum (\<lambda>sk t. if total_label sk = k then bucket_val pick t else 0) (tenantSettled g)"
    unfolding pass_bufs option.case total_of_ts of_key_inj bucket_val_def
    by (rule sum_copy_out[of "\<lambda>k' b p. if total_label k' = k then pick b p else 0"])
  have own: "(\<Sum>s\<leftarrow>totalSettledBuf ?p. if Some (of_to (SKey s)) = Some (of_to k) then pick (SBytes s) (SPackets s) else 0) =
      bucket_at pick (totalSettled g) k"
    unfolding pass_bufs option.inject of_key_inj
    by (rule settled_bucket[OF gs_wfD(4)[OF assms]])
  have derived: "(\<Sum>x\<leftarrow>aggBuf ?p. if (case x of (a, v) \<Rightarrow> Some (total_of a)) = Some (of_to k)
        then pick (case x of (a, v) \<Rightarrow> avBytes v) (case x of (a, v) \<Rightarrow> avPackets v) else 0) =
      msum (\<lambda>a v. if ?Q a then agg_val pick v else 0) (aggBuf ?p)"
    by (simp add: msum_def agg_val_def case_prod_unfold cong: if_cong)
  have "msum (\<lambda>a v. if ?Q a then agg_val pick v else 0) (aggBuf ?p) =
      live_sum pick (\<lambda>f. total_label (tenant_label (shown resolve f) f) = k) (counts g) +
      msum (\<lambda>sk t. if total_label sk = k then bucket_val pick t else 0) (tenantSettled g)"
    unfolding bufs(1) by (simp only: msum_agg_all live settled) (simp add: add.commute)
  then show ?thesis
    unfolding total_tier_def bufs(2) by (simp only: agg_at_all own derived) (simp add: agg_at_def)
qed

end

section \<open>The emitted value\<close>

declare float_exp.simps [simp del]

lemma float_exp_bound: "n < 2 ^ (53 + float_exp n)"
proof (induction n rule: float_exp.induct)
  case (1 n)
  show ?case
  proof (cases "n < 2 ^ 53")
    case False
    then have "n div 2 < 2 ^ (53 + float_exp (n div 2))" using 1 by simp
    then have "n < 2 * 2 ^ (53 + float_exp (n div 2))" by linarith
    then show ?thesis using False by (subst float_exp.simps) (simp del: power_Suc add: power_Suc[symmetric])
  qed (simp add: float_exp.simps)
qed

lemma float_exp_lower: "float_exp n > 0 \<Longrightarrow> 2 ^ (52 + float_exp n) \<le> n"
proof (induction n rule: float_exp.induct)
  case (1 n)
  then have big: "\<not> n < 2 ^ 53" by (auto simp: float_exp.simps[of n])
  have e: "float_exp n = Suc (float_exp (n div 2))" using big by (simp add: float_exp.simps[of n])
  show ?case
  proof (cases "float_exp (n div 2) = 0")
    case True then show ?thesis using big e by simp
  next
    case False
    then have "2 ^ (52 + float_exp (n div 2)) \<le> n div 2" using 1 big by simp
    then have "2 ^ Suc (52 + float_exp (n div 2)) \<le> n" unfolding power_Suc by linarith
    then show ?thesis unfolding e by (simp only: add_Suc_right)
  qed
qed

lemma float_exp_mono: "m \<le> n \<Longrightarrow> float_exp m \<le> float_exp n"
proof (induction m arbitrary: n rule: float_exp.induct)
  case (1 m)
  show ?case
  proof (cases "m < 2 ^ 53")
    case False
    then have "float_exp (m div 2) \<le> float_exp (n div 2)" using 1 by (simp add: div_le_mono)
    then show ?thesis using False 1(2) by (simp add: float_exp.simps[of m] float_exp.simps[of n])
  qed (simp add: float_exp.simps)
qed

lemma round_even_near: "\<bar>int (round_even e n) - int n\<bar> * 2 \<le> 2 ^ e"
proof -
  let ?q = "n div 2 ^ e" and ?r = "n mod 2 ^ e"
  have "int n = int (?q * 2 ^ e + ?r)" by (simp only: div_mult_mod_eq)
  also have "\<dots> = int ?q * 2 ^ e + int ?r" by (simp only: of_nat_add of_nat_mult of_nat_power of_nat_numeral)
  finally have n: "int n = int ?q * 2 ^ e + int ?r" .
  have "int ?r < int (2 ^ e)" by (simp only: of_nat_less_iff) simp
  then have r': "int ?r < 2 ^ e" by simp
  show ?thesis
  proof (cases "2 * ?r < 2 ^ e \<or> (2 * ?r = 2 ^ e \<and> even ?q)")
    case True
    then have "2 * ?r \<le> 2 ^ e" by auto
    then have "int (2 * ?r) \<le> int (2 ^ e)" by (simp only: of_nat_le_iff)
    then have "2 * int ?r \<le> 2 ^ e" by simp
    moreover have "int (round_even e n) = int ?q * 2 ^ e" using True by (simp add: round_even_def Let_def)
    ultimately show ?thesis using n by simp
  next
    case False
    then have "2 ^ e \<le> 2 * ?r" by auto
    then have "int (2 ^ e) \<le> int (2 * ?r)" by (simp only: of_nat_le_iff)
    then have "2 ^ e \<le> 2 * int ?r" by simp
    moreover have "int (round_even e n) = int ?q * 2 ^ e + 2 ^ e" using False by (auto simp add: round_even_def Let_def algebra_simps)
    ultimately show ?thesis using n r' by simp
  qed
qed

lemma round_even_mono: "m \<le> n \<Longrightarrow> round_even e m \<le> round_even e n"
proof -
  assume le: "m \<le> n"
  let ?qm = "m div 2 ^ e" and ?qn = "n div 2 ^ e"
  have q: "?qm \<le> ?qn" using le by (rule div_le_mono)
  show ?thesis
  proof (cases "?qm = ?qn")
    case True
    then have "m mod 2 ^ e \<le> n mod 2 ^ e" using le by (metis add_le_cancel_left mult_div_mod_eq)
    then show ?thesis using True by (auto simp: round_even_def Let_def)
  next
    case False
    then have "Suc ?qm \<le> ?qn" using q by simp
    then have "Suc ?qm * 2 ^ e \<le> ?qn * 2 ^ e" by (rule mult_le_mono1)
    moreover have "round_even e m \<le> Suc ?qm * 2 ^ e" "?qn * 2 ^ e \<le> round_even e n" by (auto simp: round_even_def Let_def)
    ultimately show ?thesis by linarith
  qed
qed

lemma round_even_fix: "2 ^ e dvd n \<Longrightarrow> round_even e n = n"
  by (auto simp: round_even_def Let_def)

lemma float64_exact: "n \<le> 2 ^ 53 \<Longrightarrow> float64 n = n"
  by (cases "n = 2 ^ 53") (auto simp: float64_def float_exp.simps round_even_def)

lemma float64_mono: "m \<le> n \<Longrightarrow> float64 m \<le> float64 n"
proof -
  assume le: "m \<le> n"
  let ?e = "float_exp m" and ?f = "float_exp n"
  show ?thesis
  proof (cases "?e = ?f")
    case True then show ?thesis using round_even_mono[OF le] by (simp add: float64_def)
  next
    case False
    then have lt: "?e < ?f" using float_exp_mono[OF le] by simp
    have "float64 m \<le> round_even ?e (2 ^ (53 + ?e))" unfolding float64_def
      by (rule round_even_mono) (use float_exp_bound[of m] in simp)
    also have "\<dots> = 2 ^ (53 + ?e)" by (rule round_even_fix) (simp add: power_add)
    also have "\<dots> \<le> 2 ^ (52 + ?f)" using lt by (intro power_increasing) auto
    also have "\<dots> = round_even ?f (2 ^ (52 + ?f))" by (rule round_even_fix[symmetric]) (simp add: power_add)
    also have "\<dots> \<le> float64 n" unfolding float64_def by (rule round_even_mono) (use float_exp_lower[of n] lt in simp)
    finally show ?thesis .
  qed
qed

lemma float64_error: "\<bar>int (float64 n) - int n\<bar> * 2 ^ 53 \<le> int n"
proof (cases "float_exp n = 0")
  case True
  then show ?thesis by (simp add: float64_def round_even_def)
next
  case False
  then have "2 ^ (52 + float_exp n) \<le> n" using float_exp_lower by simp
  then have "int (2 ^ (52 + float_exp n)) \<le> int n" by (simp only: of_nat_le_iff)
  then have "(2::int) ^ (52 + float_exp n) \<le> int n" by simp
  then have "2 ^ 52 * 2 ^ float_exp n \<le> int n" by (simp add: power_add)
  moreover have "\<bar>int (float64 n) - int n\<bar> * 2 \<le> 2 ^ float_exp n" unfolding float64_def by (rule round_even_near)
  ultimately show ?thesis by simp
qed

section \<open>The emitted samples\<close>

definition tier_samples :: "string \<Rightarrow> string \<Rightarrow> ('k \<Rightarrow> string list) \<Rightarrow> ('k, aggValue) gomap \<Rightarrow> sample list" where
  "tier_samples bn pn lab m = concat (map (\<lambda>(k, v). counter_pair bn pn v (lab k)) m)"

definition counter_sample :: "string \<Rightarrow> u64 \<Rightarrow> string list \<Rightarrow> sample" where
  "counter_sample name v labels = \<lparr>smName = name, smKind = CounterValue, smValue = int (float64 (unat v)), smLabels = labels\<rparr>"

definition named :: "string \<Rightarrow> sample list \<Rightarrow> sample set" where
  "named n ss = {s \<in> set ss. smName s = n}"

abbreviation series_id :: "sample \<Rightarrow> string \<times> string list" where
  "series_id s \<equiv> (smName s, smLabels s)"

definition total_labels :: "total_settled_key \<Rightarrow> string list" where
  "total_labels k = [ZoneCode_String (ToZone k), ToExtNet k, Direction_String (ToDir k)]"

definition tenant_labels :: "tenant_settled_key \<Rightarrow> string list" where
  "tenant_labels k = [TsTenant k, ZoneCode_String (TsZone k), TsExtNet k, Direction_String (TsDir k)]"

definition server_labels :: "server_settled_key \<Rightarrow> string list" where
  "server_labels k = [SsServerID k, SsTenant k, ZoneCode_String (SsZone k), SsExtNet k, Direction_String (SsDir k)]"

lemma emitBilling_tiers:
  "emitBilling c =
    tier_samples MetricBytesTotal MetricPacketsTotal (\<lambda>k. [ZoneCode_String (taZone k), taExt k, Direction_String (taDir k)]) (totalAggBuf c) @
    tier_samples MetricTenantBytesTotal MetricTenantPacketsTotal
      (\<lambda>k. [akTenant k, ZoneCode_String (akZone k), akExt k, Direction_String (akDir k)]) (aggBuf c) @
    tier_samples MetricServerBytesTotal MetricServerPacketsTotal
      (\<lambda>k. [saServer k, saTenant k, ZoneCode_String (saZone k), saExt k, Direction_String (saDir k)]) (serverAggBuf c) @
    tier_samples MetricPortBytesTotal MetricPortPacketsTotal
      (\<lambda>k. [paServer k, paPort k, paTenant k, ZoneCode_String (paZone k), paExt k, Direction_String (paDir k)]) (portAggBuf c) @
    tier_samples MetricPortProtoBytesTotal MetricPortProtoPacketsTotal
      (\<lambda>k. [qaServer k, qaPort k, qaTenant k, L4Proto_String (qaProto k), Direction_String (qaDir k)]) (protoAggBuf c)"
  by (simp add: emitBilling_def tier_samples_def)

lemma named_append [simp]: "named n (xs @ ys) = named n xs \<union> named n ys"
  by (auto simp: named_def)

lemma tier_names: "s \<in> set (tier_samples bn pn lab m) \<Longrightarrow> smName s = bn \<or> smName s = pn"
  by (auto simp: tier_samples_def counter_pair_def)

lemma named_tier_other: "n \<noteq> bn \<Longrightarrow> n \<noteq> pn \<Longrightarrow> named n (tier_samples bn pn lab m) = {}"
  by (auto simp: named_def dest: tier_names)

lemma named_tier:
  assumes "mwf m" and "bn \<noteq> pn"
  shows "named bn (tier_samples bn pn lab m) = (\<lambda>k. counter_sample bn (agg_at pick_bytes m k) (lab k)) ` {k. mhas m k}"
    and "named pn (tier_samples bn pn lab m) = (\<lambda>k. counter_sample pn (agg_at pick_packets m k) (lab k)) ` {k. mhas m k}"
proof -
  have at: "agg_at pick_bytes m k = avBytes v" "agg_at pick_packets m k = avPackets v" if "(k, v) \<in> set m" for k v
    using that mget_in_set[OF assms(1)] by (simp_all add: agg_at_def agg_val_def pick_bytes_def pick_packets_def)
  have keys: "{k. mhas m k} = fst ` set m" by (auto simp: mhas_iff)
  show "named bn (tier_samples bn pn lab m) = (\<lambda>k. counter_sample bn (agg_at pick_bytes m k) (lab k)) ` {k. mhas m k}"
    unfolding keys image_image using assms(2) at
    by (force simp: named_def tier_samples_def counter_pair_def counter_sample_def)
  show "named pn (tier_samples bn pn lab m) = (\<lambda>k. counter_sample pn (agg_at pick_packets m k) (lab k)) ` {k. mhas m k}"
    unfolding keys image_image using assms(2) at
    by (force simp: named_def tier_samples_def counter_pair_def counter_sample_def)
qed

lemma tier_label_set: "smLabels ` set (tier_samples bn pn lab m) = lab ` fst ` set m"
  by (force simp: tier_samples_def counter_pair_def)

lemma distinct_tier:
  assumes "mwf m" and "bn \<noteq> pn" and "\<And>k k'. lab k = lab k' \<Longrightarrow> k = k'"
  shows "distinct (map series_id (tier_samples bn pn lab m))"
  using assms(1)
proof (induction m)
  case (Cons kv m)
  obtain k v where kv: "kv = (k, v)" by (cases kv)
  have "lab k \<notin> smLabels ` set (tier_samples bn pn lab m)"
    using Cons.prems kv assms(3) unfolding tier_label_set by (auto simp: mget_def map_of_eq_None_iff)
  then show ?case using Cons kv assms(2) by (auto simp: tier_samples_def counter_pair_def)
qed (simp add: tier_samples_def)

lemma pass_mwf [simp]:
  "mwf (totalAggBuf (pass resolve g c))" "mwf (aggBuf (pass resolve g c))" "mwf (serverAggBuf (pass resolve g c))"
  "mwf (portAggBuf (pass resolve g c))" "mwf (protoAggBuf (pass resolve g c))"
  by (simp_all add: pass_def Collect_def SnapshotWithSettled_def Let_def aggregate_bufs)

text \<open>The label tuples that have a series.\<close>

definition tenant_keys :: "(flow_key \<Rightarrow> attribution3) \<Rightarrow> global_state \<Rightarrow> tenant_settled_key set" where
  "tenant_keys res g = {k. mhas (tenantSettled g) k} \<union> (\<lambda>f. tenant_label (res f) f) ` {f. mhas (counts g) f}"

definition server_keys :: "(flow_key \<Rightarrow> attribution3) \<Rightarrow> global_state \<Rightarrow> server_settled_key set" where
  "server_keys res g = {k. mhas (serverSettled g) k} \<union> {k. \<exists>f. mhas (counts g) f \<and> server_label (res f) f = Some k}"

definition total_keys :: "(flow_key \<Rightarrow> attribution3) \<Rightarrow> global_state \<Rightarrow> total_settled_key set" where
  "total_keys res g = {k. mhas (totalSettled g) k} \<union> total_label ` tenant_keys res g"

lemma copy_out_keys: "f ` SKey ` set (copy_out m) = f ` {k. mhas m k}"
  by (auto simp: copy_out_def mhas_iff image_iff) force+

lemma agg_all_keys: "{k. mhas (agg_all key b p xs m) k} = {k. mhas m k} \<union> {k. Some k \<in> key ` set xs}"
  by (auto simp: mhas_agg_all)

lemma some_keys: "{k. Some k \<in> (\<lambda>x. Some (f x)) ` X} = f ` X"
  by auto

lemma some_map_keys: "{y. Some y \<in> (\<lambda>f. map_option h (G f)) ` X} = h ` {k. \<exists>f. f \<in> X \<and> G f = Some k}"
proof -
  have "Some y = map_option h (G f) \<longleftrightarrow> (\<exists>z. G f = Some z \<and> y = h z)" for y f by (cases "G f") auto
  then show ?thesis by (simp add: image_iff set_eq_iff) blast
qed

lemma emit_keys: "f ` EKey ` set (map (\<lambda>(k, c). \<lparr>EKey = k, ETotal = Total c\<rparr>) m) = f ` {k. mhas m k}"
  by (force simp: mhas_iff)

lemma pass_keys:
  "{a. mhas (aggBuf (pass resolve g c)) a} = of_ts ` tenant_keys (shown resolve) g"
  "{a. mhas (serverAggBuf (pass resolve g c)) a} = of_ss ` server_keys (shown resolve) g"
  "{a. mhas (totalAggBuf (pass resolve g c)) a} = of_to ` total_keys (shown resolve) g"
proof -
  let ?p = "pass resolve g c"
  have bufs: "aggBuf ?p = agg_all (\<lambda>e. Some (live_key resolve e)) ebytes epackets (emitBuf ?p)
      (agg_all (\<lambda>s. Some (of_ts (SKey s))) SBytes SPackets (tenantSettledBuf ?p) [])"
    "serverAggBuf ?p = agg_all (\<lambda>s. Some (of_ss (SKey s))) SBytes SPackets (serverSettledBuf ?p)
      (agg_all (live_server_key resolve) ebytes epackets (emitBuf ?p) [])"
    "totalAggBuf ?p = agg_all (\<lambda>s. Some (of_to (SKey s))) SBytes SPackets (totalSettledBuf ?p)
       (agg_all (\<lambda>x. Some (total_of (fst x))) (\<lambda>(k, v). avBytes v) (\<lambda>(k, v). avPackets v) (aggBuf ?p) [])"
    by (simp_all add: pass_def Collect_def SnapshotWithSettled_def Let_def aggregate_bufs case_prod_unfold)
  have t: "(\<lambda>s. of_ts (SKey s)) ` set (tenantSettledBuf ?p) = of_ts ` {k. mhas (tenantSettled g) k}"
    "(\<lambda>s. of_ss (SKey s)) ` set (serverSettledBuf ?p) = of_ss ` {k. mhas (serverSettled g) k}"
    "(\<lambda>s. of_to (SKey s)) ` set (totalSettledBuf ?p) = of_to ` {k. mhas (totalSettled g) k}"
    unfolding pass_bufs using copy_out_keys by (simp_all only: image_image[symmetric])
  have l: "live_key resolve ` set (emitBuf ?p) = (\<lambda>f. of_ts (tenant_label (shown resolve f) f)) ` {f. mhas (counts g) f}"
    unfolding pass_bufs live_key_label emit_keys[symmetric] image_image ..
  have sl: "live_server_key resolve ` set (emitBuf ?p) = (\<lambda>f. map_option of_ss (server_label (shown resolve f) f)) ` {f. mhas (counts g) f}"
    unfolding pass_bufs live_server_key_label emit_keys[symmetric] image_image ..
  have sv: "{k. Some k \<in> live_server_key resolve ` set (emitBuf ?p)} = of_ss ` {k. \<exists>f. mhas (counts g) f \<and> server_label (shown resolve f) f = Some k}"
    unfolding sl some_map_keys by simp
  show k: "{a. mhas (aggBuf ?p) a} = of_ts ` tenant_keys (shown resolve) g"
    unfolding bufs(1) agg_all_keys some_keys t l tenant_keys_def image_Un image_image by auto
  show "{a. mhas (serverAggBuf ?p) a} = of_ss ` server_keys (shown resolve) g"
    unfolding bufs(2) agg_all_keys some_keys t sv server_keys_def image_Un by auto
  have "(\<lambda>x. total_of (fst x)) ` set (aggBuf ?p) = total_of ` {a. mhas (aggBuf ?p) a}"
    by (force simp: mhas_iff)
  then show "{a. mhas (totalAggBuf ?p) a} = of_to ` total_keys (shown resolve) g"
    unfolding bufs(3) agg_all_keys some_keys t total_keys_def image_Un by (auto simp: k image_image)
qed

lemma of_key_fields [simp]:
  "taExt (of_to t) = ToExtNet t" "taZone (of_to t) = ToZone t" "taDir (of_to t) = ToDir t"
  "akTenant (of_ts k) = TsTenant k" "akExt (of_ts k) = TsExtNet k" "akZone (of_ts k) = TsZone k" "akDir (of_ts k) = TsDir k"
  "saServer (of_ss s) = SsServerID s" "saTenant (of_ss s) = SsTenant s" "saExt (of_ss s) = SsExtNet s"
  "saZone (of_ss s) = SsZone s" "saDir (of_ss s) = SsDir s"
  by (simp_all add: of_to_def of_ts_def of_ss_def)

abbreviation tier_series :: "string \<Rightarrow> ('k \<Rightarrow> u64) \<Rightarrow> ('k \<Rightarrow> string list) \<Rightarrow> 'k set \<Rightarrow> sample set" where
  "tier_series name tier labels keys \<equiv> (\<lambda>k. counter_sample name (tier k) (labels k)) ` keys"

lemma samples_named:
  fixes resolve g c ec ls
  assumes "gs_wf g"
  defines "ss \<equiv> fst (Collect resolve ec ls g c)" and "res \<equiv> shown resolve"
  shows "named MetricBytesTotal ss = tier_series MetricBytesTotal (total_tier pick_bytes res g) total_labels (total_keys res g)"
    and "named MetricPacketsTotal ss = tier_series MetricPacketsTotal (total_tier pick_packets res g) total_labels (total_keys res g)"
    and "named MetricTenantBytesTotal ss = tier_series MetricTenantBytesTotal (tenant_tier pick_bytes res g) tenant_labels (tenant_keys res g)"
    and "named MetricTenantPacketsTotal ss = tier_series MetricTenantPacketsTotal (tenant_tier pick_packets res g) tenant_labels (tenant_keys res g)"
    and "named MetricServerBytesTotal ss = tier_series MetricServerBytesTotal (server_tier pick_bytes res g) server_labels (server_keys res g)"
    and "named MetricServerPacketsTotal ss = tier_series MetricServerPacketsTotal (server_tier pick_packets res g) server_labels (server_keys res g)"
proof -
  have health: "named n (emitHealth ec ls p) = {}"
    if "n \<in> {MetricBytesTotal, MetricPacketsTotal, MetricTenantBytesTotal, MetricTenantPacketsTotal, MetricServerBytesTotal, MetricServerPacketsTotal}" for n p
    using that by (auto simp: named_def emitHealth_def metric_names)
  note tiers = bytes_m.pass_tenant[OF assms(1)] packets_m.pass_tenant[OF assms(1)] bytes_m.pass_server[OF assms(1)]
    packets_m.pass_server[OF assms(1)] bytes_m.pass_total[OF assms(1)] packets_m.pass_total[OF assms(1)]
  note rules = ss_def res_def Collect_pass fst_conv emitBilling_tiers named_append
  note names = named_tier named_tier_other pass_keys image_image tiers health[unfolded metric_names] total_labels_def tenant_labels_def server_labels_def
  show "named MetricBytesTotal ss = tier_series MetricBytesTotal (total_tier pick_bytes res g) total_labels (total_keys res g)"
    unfolding rules metric_names by (simp add: names)
  show "named MetricPacketsTotal ss = tier_series MetricPacketsTotal (total_tier pick_packets res g) total_labels (total_keys res g)"
    unfolding rules metric_names by (simp add: names)
  show "named MetricTenantBytesTotal ss = tier_series MetricTenantBytesTotal (tenant_tier pick_bytes res g) tenant_labels (tenant_keys res g)"
    unfolding rules metric_names by (simp add: names)
  show "named MetricTenantPacketsTotal ss = tier_series MetricTenantPacketsTotal (tenant_tier pick_packets res g) tenant_labels (tenant_keys res g)"
    unfolding rules metric_names by (simp add: names)
  show "named MetricServerBytesTotal ss = tier_series MetricServerBytesTotal (server_tier pick_bytes res g) server_labels (server_keys res g)"
    unfolding rules metric_names by (simp add: names)
  show "named MetricServerPacketsTotal ss = tier_series MetricServerPacketsTotal (server_tier pick_packets res g) server_labels (server_keys res g)"
    unfolding rules metric_names by (simp add: names)
qed

lemma distinct_append_names:
  "distinct (map series_id xs) \<Longrightarrow> distinct (map series_id ys) \<Longrightarrow> smName ` set xs \<inter> smName ` set ys = {} \<Longrightarrow>
   distinct (map series_id (xs @ ys))"
  by (force simp: distinct_append)

lemma distinct_samples: "distinct (map series_id (fst (Collect resolve ec ls g c)))"
proof -
  have h: "distinct (map series_id (emitHealth ec ls p))" for p by (simp add: emitHealth_def)
  have sub: "smName ` set (tier_samples bn pn lab m) \<subseteq> {bn, pn}" for bn pn and lab :: "'k \<Rightarrow> string list" and m
    using tier_names by force
  note d = distinct_tier[OF pass_mwf(1), of MetricBytesTotal MetricPacketsTotal]
    distinct_tier[OF pass_mwf(2), of MetricTenantBytesTotal MetricTenantPacketsTotal]
    distinct_tier[OF pass_mwf(3), of MetricServerBytesTotal MetricServerPacketsTotal]
    distinct_tier[OF pass_mwf(4), of MetricPortBytesTotal MetricPortPacketsTotal]
    distinct_tier[OF pass_mwf(5), of MetricPortProtoBytesTotal MetricPortProtoPacketsTotal]
  show ?thesis
    unfolding Collect_pass fst_conv emitBilling_tiers append_assoc
    by (intro distinct_append_names d h)
       (auto simp: metric_names ZoneCode_String_eq_iff Direction_String_eq_iff L4Proto_String_eq_iff emitHealth_def
          dest!: tier_names)
qed

lemma tier_samples_all:
  "list_all P (tier_samples bn pn lab m) = list_all (\<lambda>(k, v). list_all P (counter_pair bn pn v (lab k))) m"
  by (auto simp: tier_samples_def list_all_iff)

lemma Collect_all:
  assumes "\<And>v (k :: totalAggKey). list_all P (counter_pair MetricBytesTotal MetricPacketsTotal v [ZoneCode_String (taZone k), taExt k, Direction_String (taDir k)])"
    and "\<And>v (k :: aggKey). list_all P (counter_pair MetricTenantBytesTotal MetricTenantPacketsTotal v [akTenant k, ZoneCode_String (akZone k), akExt k, Direction_String (akDir k)])"
    and "\<And>v (k :: serverAggKey). list_all P (counter_pair MetricServerBytesTotal MetricServerPacketsTotal v
           [saServer k, saTenant k, ZoneCode_String (saZone k), saExt k, Direction_String (saDir k)])"
    and "\<And>v (k :: portAggKey). list_all P (counter_pair MetricPortBytesTotal MetricPortPacketsTotal v
           [paServer k, paPort k, paTenant k, ZoneCode_String (paZone k), paExt k, Direction_String (paDir k)])"
    and "\<And>v (k :: protoAggKey). list_all P (counter_pair MetricPortProtoBytesTotal MetricPortProtoPacketsTotal v
           [qaServer k, qaPort k, qaTenant k, L4Proto_String (qaProto k), Direction_String (qaDir k)])"
    and "\<And>p. list_all P (emitHealth ec ls p)"
  shows "list_all P (fst (Collect resolve ec ls g c))"
  unfolding Collect_pass fst_conv emitBilling_tiers list_all_append tier_samples_all
  using assms(1-5) by (intro conjI assms(6)) (simp_all add: list_all_iff split_beta)

lemma samples_fit: "list_all fits_desc (fst (Collect resolve ec ls g c))"
  by (rule Collect_all) (simp_all add: counter_pair_def emitHealth_def fits_desc_def descs_def metric_names)

lemma samples_kind: "list_all (\<lambda>s. (take 6 (rev (smName s)) = rev ''_total'') = (smKind s = CounterValue)) (fst (Collect resolve ec ls g c))"
  by (rule Collect_all) (simp_all add: counter_pair_def emitHealth_def metric_names)

context tier_measure
begin

lemma proto_sum:
  "msum (\<lambda>k v. if qaServer k = sv \<and> qaPort k = pt \<and> qaTenant k = tn \<and> qaDir k = d then agg_val pick v else 0)
     (protoAggBuf (pass resolve g c)) =
   msum (\<lambda>k v. if paServer k = sv \<and> paPort k = pt \<and> paTenant k = tn \<and> paDir k = d then agg_val pick v else 0)
     (portAggBuf (pass resolve g c))"
proof -
  have bufs: "protoAggBuf (pass resolve g c) = agg_all (live_proto_key resolve) ebytes epackets (emitBuf (pass resolve g c)) []"
    "portAggBuf (pass resolve g c) = agg_all (live_port_key resolve) ebytes epackets (emitBuf (pass resolve g c)) []"
    by (simp_all add: pass_def Collect_def SnapshotWithSettled_def Let_def aggregate_bufs)
  show ?thesis unfolding bufs msum_agg_all
    by (intro arg_cong2[of _ _ _ _ "(+)"] arg_cong[of _ _ sum_list] map_cong)
       (simp_all add: live_proto_key_def live_port_key_def Let_def)
qed

end

section \<open>Properties\<close>

text \<open>
  C13. A scrape exposes exactly the tiers of the store. Whatever the collector's reused buffers hold
  from earlier passes, the samples of the total, tenant and server families, in bytes and packets, are
  one counter per label tuple that has a live row or a settled bucket, labelled with that tuple, and the
  value is the tier's value: live rows plus settled for tenant and server, and for the total tier the
  sum over all tenants plus the total absorber.
\<close>

theorem collector_exposes_tiers:
  assumes "gs_wf g" and "ss = fst (Collect (Resolver_Resolve m routers) ec ls g c)" and "res = display m routers"
  shows "named MetricBytesTotal ss = tier_series MetricBytesTotal (total_tier pick_bytes res g) total_labels (total_keys res g) \<and>
    named MetricPacketsTotal ss = tier_series MetricPacketsTotal (total_tier pick_packets res g) total_labels (total_keys res g) \<and>
    named MetricTenantBytesTotal ss = tier_series MetricTenantBytesTotal (tenant_tier pick_bytes res g) tenant_labels (tenant_keys res g) \<and>
    named MetricTenantPacketsTotal ss = tier_series MetricTenantPacketsTotal (tenant_tier pick_packets res g) tenant_labels (tenant_keys res g) \<and>
    named MetricServerBytesTotal ss = tier_series MetricServerBytesTotal (server_tier pick_bytes res g) server_labels (server_keys res g) \<and>
    named MetricServerPacketsTotal ss = tier_series MetricServerPacketsTotal (server_tier pick_packets res g) server_labels (server_keys res g)"
  unfolding assms(2,3) using samples_named[OF assms(1), of "Resolver_Resolve m routers" ec ls c] by (simp add: shown_display)

definition ex_collector :: collector where
  "ex_collector = \<lparr>emitBuf = [], tenantSettledBuf = [], serverSettledBuf = [], totalSettledBuf = [],
     totalAggBuf = [(\<lparr>taExt = ''stale'', taZone = 1, taDir = 0\<rparr>, \<lparr>avBytes = 9, avPackets = 9\<rparr>)],
     aggBuf = [], serverAggBuf = [], portAggBuf = [], protoAggBuf = []\<rparr>"

theorem collector_exposes_tiers_witness:
  "named MetricBytesTotal (fst (Collect (Resolver_Resolve ex_meta_map None) 0 0 ex_state ex_collector)) =
     tier_series MetricBytesTotal (total_tier pick_bytes (display ex_meta_map None) ex_state) total_labels
       (total_keys (display ex_meta_map None) ex_state)"
  using collector_exposes_tiers[OF gs_wf_ex_state refl refl, of ex_meta_map None 0 0 ex_collector] by simp

text \<open>
  C14. Every scrape is a valid exposition. Whatever the store and the buffers hold, each sample of a pass,
  billing and health together, carries the name of a descriptor the collector announces and one value per
  label of it, so that no sample is refused with a panic; the samples whose name ends in \<^verbatim>\<open>_total\<close> are
  exactly the counters; and no metric name occurs twice with the same label values, so that no scrape is rejected.
\<close>

theorem collector_valid_exposition:
  "list_all fits_desc (fst (Collect resolve errorCount lastSuccess g c)) \<and>
   list_all (\<lambda>s. (take 6 (rev (smName s)) = rev ''_total'') = (smKind s = CounterValue)) (fst (Collect resolve errorCount lastSuccess g c)) \<and>
   distinct (map series_id (fst (Collect resolve errorCount lastSuccess g c)))"
  by (intro conjI samples_fit samples_kind distinct_samples)

text \<open>
  The protocol family is a breakdown of the port family. After a pass, for every server, port,
  tenant and direction, the protocol series summed over protocol classes equal the port series summed
  over zones and external networks, in bytes and in packets.
\<close>

theorem proto_breaks_down_port:
  assumes "c' = snd (Collect resolve errorCount lastSuccess g c)" and "pick \<in> {pick_bytes, pick_packets}"
  shows "msum (\<lambda>k v. if qaServer k = server \<and> qaPort k = port \<and> qaTenant k = tenant \<and> qaDir k = dir then agg_val pick v else 0)
      (protoAggBuf c') =
    msum (\<lambda>k v. if paServer k = server \<and> paPort k = port \<and> paTenant k = tenant \<and> paDir k = dir then agg_val pick v else 0)
      (portAggBuf c')"
  using assms bytes_m.proto_sum packets_m.proto_sum by (auto simp: Collect_pass)

theorem proto_breaks_down_port_witness:
  "msum (\<lambda>k v. if qaServer k = ''vm'' \<and> qaPort k = ''port'' \<and> qaTenant k = ''a'' \<and> qaDir k = 0 then agg_val pick_bytes v else 0)
      (protoAggBuf (snd (Collect (Resolver_Resolve ex_meta_map None) 0 0 ex_state ex_collector))) =
    msum (\<lambda>k v. if paServer k = ''vm'' \<and> paPort k = ''port'' \<and> paTenant k = ''a'' \<and> paDir k = 0 then agg_val pick_bytes v else 0)
      (portAggBuf (snd (Collect (Resolver_Resolve ex_meta_map None) 0 0 ex_state ex_collector)))"
  using proto_breaks_down_port[OF refl, of pick_bytes] by simp

text \<open>
  The conversion of a counter to the exposed float keeps billing sound: it never decreases when the
  counter does not, it is exact up to 2^53, and beyond that it is off by at most one part in 2^53.
\<close>

lemmas exposed_value_sound = float64_mono float64_exact float64_error

end
