(* ===== verification/Unresolved.thy ===== *)
theory Unresolved
  imports Metadata
begin

text \<open>
  The unresolved buffer and the classifier in front of it (\<^verbatim>\<open>internal/unresolved/buffer.go\<close>,
  \<^verbatim>\<open>classifier.go\<close>). The scrape goroutine is the only caller, so every operation is a function of
  one world: the buffer, the global state it folds into, and the sequence of deletes it asked of the
  kernel's \<^verbatim>\<open>telemetry_map\<close>. A failed kernel delete is only logged, so the result of the call does
  not influence the code and the sequence of calls is all there is to model. The clock and the live
  tunables (cap, TTL) are arguments.

  \<^verbatim>\<open>container/list\<close> elements are identified with the key they hold: \<^verbatim>\<open>order\<close> is the list of
  keys, front first.
\<close>

section \<open>Data\<close>

record buf_entry =
  bTotal :: flow_metrics
  bLastRaw :: flow_metrics
  firstSeen :: gotime

record buffer =
  entries :: "(flow_key, buf_entry) gomap"
  order :: "flow_key list"

record buf_world =
  buf :: buffer
  gstate :: global_state
  kdeletes :: "flow_key list"

definition NewBuffer :: buffer where
  "NewBuffer = \<lparr>entries = [], order = []\<rparr>"

section \<open>Operations\<close>

definition unknown_key :: "flow_key \<Rightarrow> flow_key" where
  "unknown_key key = \<lparr>SrcMac = Mac 0 0 0 0 0 0, DstMac = Mac 0 0 0 0 0 0, EthProto = EthProto key,
     Direction = Direction key, DstZone = DstZone key, L4Proto = L4Proto key, Pad = 0\<rparr>"

definition foldToUnknown :: "flow_key \<Rightarrow> flow_metrics \<Rightarrow> buf_world \<Rightarrow> buf_world" where
  "foldToUnknown key tot w = w\<lparr>gstate := Add (unknown_key key) tot (gstate w)\<rparr>"

definition buffer_drop :: "flow_key \<Rightarrow> bool \<Rightarrow> buf_world \<Rightarrow> buf_world" where
  "buffer_drop key delKernel w =
    w\<lparr>buf := \<lparr>entries = mdel key (entries (buf w)), order = remove1 key (order (buf w))\<rparr>,
      kdeletes := kdeletes w @ (if delKernel then [key] else [])\<rparr>"

text \<open>
  The eviction loop. \<^term>\<open>None\<close> is the nil dereference the code would run into if the order list
  named a key without an entry; the invariant below rules it out.
\<close>

function evictOverCap :: "int \<Rightarrow> buf_world \<Rightarrow> buf_world option" where
  "evictOverCap cap w =
    (if int (length (entries (buf w))) > cap then
       (if order (buf w) = [] then Some w
        else (let key = last (order (buf w)) in
              case mget (entries (buf w)) key of
                None \<Rightarrow> None
              | Some e \<Rightarrow> evictOverCap cap (buffer_drop key True (foldToUnknown key (bTotal e) w))))
     else Some w)"
  by pat_completeness auto
termination
  by (relation "measure (\<lambda>(cap, w). length (order (buf w)))")
     (auto simp: buffer_drop_def foldToUnknown_def length_remove1)

declare evictOverCap.simps [simp del]

definition Capture :: "gotime \<Rightarrow> int \<Rightarrow> flow_key \<Rightarrow> flow_metrics \<Rightarrow> buf_world \<Rightarrow> buf_world option" where
  "Capture now cap key raw w =
    (case mget (entries (buf w)) key of
       None \<Rightarrow>
         evictOverCap cap (w\<lparr>buf := \<lparr>entries = mput key \<lparr>bTotal = raw, bLastRaw = raw, firstSeen = now\<rparr> (entries (buf w)),
                                     order = key # order (buf w)\<rparr>\<rparr>)
     | Some e \<Rightarrow>
         (let (tb, lb) = AddDelta (Bytes (bTotal e)) (Bytes (bLastRaw e)) (Bytes raw);
              (tp, lp) = AddDelta (Packets (bTotal e)) (Packets (bLastRaw e)) (Packets raw);
              tot = bump_seen (LastSeenNs raw) ((bTotal e)\<lparr>Bytes := tb, Packets := tp\<rparr>);
              lr = (bLastRaw e)\<lparr>Bytes := lb, Packets := lp, LastSeenNs := LastSeenNs raw\<rparr>
          in Some (w\<lparr>buf := \<lparr>entries = mput key (e\<lparr>bTotal := tot, bLastRaw := lr\<rparr>) (entries (buf w)),
                             order = key # remove1 key (order (buf w))\<rparr>\<rparr>)))"

fun sweep_row :: "gotime \<Rightarrow> duration \<Rightarrow> bool \<Rightarrow> flow_key \<times> buf_entry \<Rightarrow> buf_world \<times> nat \<Rightarrow> buf_world \<times> nat" where
  "sweep_row now ttl force (key, e) (w, expired) =
    (if \<not> force \<and> now - firstSeen e < ttl then (w, expired)
     else (buffer_drop key (\<not> force) (foldToUnknown key (bTotal e) w), Suc expired))"

definition Buffer_Sweep :: "gotime \<Rightarrow> duration \<Rightarrow> bool \<Rightarrow> buf_world \<Rightarrow> buf_world \<times> nat" where
  "Buffer_Sweep now ttl force w = fold (sweep_row now ttl force) (entries (buf w)) (w, 0)"

definition Buffer_Resolve :: "flow_key \<Rightarrow> buf_world \<Rightarrow> buf_world \<times> bool" where
  "Buffer_Resolve key w =
    (case mget (entries (buf w)) key of
       None \<Rightarrow> (w, False)
     | Some e \<Rightarrow> (buffer_drop key False (w\<lparr>gstate := Resolve key (bTotal e) (bLastRaw e) (gstate w)\<rparr>), True))"

definition Buffer_Len :: "buf_world \<Rightarrow> nat" where
  "Buffer_Len w = length (entries (buf w))"

text \<open>\<^verbatim>\<open>Classifier.Absorb\<close>: a known VM MAC goes to the global state, an unknown one to the buffer.\<close>

definition Absorb :: "sharded_map \<Rightarrow> gotime \<Rightarrow> int \<Rightarrow> flow_key \<Rightarrow> flow_metrics \<Rightarrow> buf_world \<Rightarrow> buf_world option" where
  "Absorb meta now cap key raw w =
    (case ShardedMetadataMap_Lookup meta (VMMAC key) of
       Some _ \<Rightarrow> (let w1 = fst (Buffer_Resolve key w) in Some (w1\<lparr>gstate := ApplyDelta key raw (gstate w1)\<rparr>))
     | None \<Rightarrow> Capture now cap key raw w)"

definition Classifier_Sweep :: "gotime \<Rightarrow> duration \<Rightarrow> bool \<Rightarrow> buf_world \<Rightarrow> buf_world" where
  "Classifier_Sweep now ttl force w = fst (Buffer_Sweep now ttl force w)"

section \<open>Invariant\<close>

definition buffer_ok :: "buffer \<Rightarrow> bool" where
  "buffer_ok b \<longleftrightarrow> mwf (entries b) \<and> distinct (order b) \<and> (\<forall>k. k \<in> set (order b) \<longleftrightarrow> mhas (entries b) k)"

definition world_ok :: "buf_world \<Rightarrow> bool" where
  "world_ok w \<longleftrightarrow> buffer_ok (buf w) \<and> gs_wf (gstate w)"

definition buffered :: "measure_pick \<Rightarrow> buf_world \<Rightarrow> u64" where
  "buffered pick w = msum (\<lambda>_ e. pick (Bytes (bTotal e)) (Packets (bTotal e))) (entries (buf w))"

lemma world_ok_fold_drop:
  "world_ok w \<Longrightarrow> world_ok (buffer_drop key d (foldToUnknown key t w))"
  by (auto simp: world_ok_def buffer_ok_def buffer_drop_def foldToUnknown_def)

lemma length_entries_order:
  assumes "buffer_ok b"
  shows "length (entries b) = length (order b)"
proof -
  have "set (order b) = set (map fst (entries b))"
    using assms by (auto simp: buffer_ok_def mhas_iff)
  moreover have "distinct (map fst (entries b))" "distinct (order b)"
    using assms by (simp_all add: buffer_ok_def mwf_def)
  ultimately show ?thesis
    by (metis distinct_card length_map)
qed

lemma evict_sees_entry:
  assumes "buffer_ok b" and "order b \<noteq> []"
  shows "\<exists>e. mget (entries b) (last (order b)) = Some e"
  using assms last_in_set[of "order b"] by (auto simp: buffer_ok_def mhas_def)

definition add_delta_of :: "u64 \<Rightarrow> u64 \<Rightarrow> u64" where
  "add_delta_of l cur = (if cur \<ge> l then cur - l else cur)"

lemma sweep_row_other:
  "k' \<noteq> k \<Longrightarrow> mget (entries (buf (fst (sweep_row now ttl force (k, e) wn)))) k' = mget (entries (buf (fst wn))) k'"
  by (cases wn) (simp add: buffer_drop_def foldToUnknown_def)

lemma world_ok_rows:
  assumes "world_ok w"
  shows "distinct (map fst (entries (buf w)))" "(k, e) \<in> set (entries (buf w)) \<Longrightarrow> mget (entries (buf w)) k = Some e"
  using assms by (auto simp: world_ok_def buffer_ok_def mwf_def mget_def)

text \<open>
  The loop always returns a world, keeps the invariant, gets below a non-negative cap, and what the
  state and the buffer hold together stays the same.
\<close>

context tier_measure
begin

lemma drop_conserves:
  assumes "world_ok w" and "mget (entries (buf w)) key = Some e"
  shows "held pick (gstate (buffer_drop key d (foldToUnknown key (bTotal e) w))) +
      buffered pick (buffer_drop key d (foldToUnknown key (bTotal e) w)) =
    held pick (gstate w) + buffered pick w"
  using assms
  by (simp add: buffer_drop_def foldToUnknown_def held_Add buffered_def msum_mdel world_ok_def buffer_ok_def)

lemma evictOverCap_ok:
  assumes "world_ok w"
  shows "\<exists>w'. evictOverCap cap w = Some w' \<and> world_ok w' \<and>
    (0 \<le> cap \<longrightarrow> int (length (entries (buf w'))) \<le> cap) \<and>
    held pick (gstate w') + buffered pick w' = held pick (gstate w) + buffered pick w"
  using assms
proof (induction cap w rule: evictOverCap.induct)
  case (1 cap w)
  show ?case
  proof (cases "int (length (entries (buf w))) > cap \<and> order (buf w) \<noteq> []")
    case True
    then obtain e where e: "mget (entries (buf w)) (last (order (buf w))) = Some e"
      using evict_sees_entry 1(2) by (auto simp: world_ok_def)
    let ?w1 = "buffer_drop (last (order (buf w))) True (foldToUnknown (last (order (buf w))) (bTotal e) w)"
    obtain w' where "evictOverCap cap ?w1 = Some w'" "world_ok w'"
      "0 \<le> cap \<longrightarrow> int (length (entries (buf w'))) \<le> cap"
      "held pick (gstate w') + buffered pick w' = held pick (gstate ?w1) + buffered pick ?w1"
      using 1(1)[OF _ _ refl e] True world_ok_fold_drop[OF 1(2)] by auto
    moreover have "evictOverCap cap w = evictOverCap cap ?w1"
      using True e by (subst evictOverCap.simps) (simp add: Let_def)
    ultimately show ?thesis
      using drop_conserves[OF 1(2) e, of True] by simp
  next
    case False
    have "evictOverCap cap w = Some w"
      using False by (subst evictOverCap.simps) auto
    moreover have "int (length (entries (buf w))) \<le> cap" if "0 \<le> cap"
      using False that 1(2) length_entries_order[of "buf w"] by (auto simp: world_ok_def)
    ultimately show ?thesis using 1(2) by simp
  qed
qed

lemma drop_range:
  assumes "world_ok (fst wn)" and "mget (entries (buf (fst wn))) key = Some e"
  shows "world_ok (fst (sweep_row now ttl force (key, e) wn)) \<and>
    held pick (gstate (fst (sweep_row now ttl force (key, e) wn))) +
      buffered pick (fst (sweep_row now ttl force (key, e) wn)) =
    held pick (gstate (fst wn)) + buffered pick (fst wn)"
  using assms drop_conserves[of "fst wn" key e "\<not> force"] world_ok_fold_drop[of "fst wn" key "\<not> force" "bTotal e"]
  by (cases wn) simp

lemma Sweep_conserves:
  assumes "world_ok w"
  shows "world_ok (fst (Buffer_Sweep now ttl force w)) \<and>
    held pick (gstate (fst (Buffer_Sweep now ttl force w))) + buffered pick (fst (Buffer_Sweep now ttl force w)) =
    held pick (gstate (fst (w, 0 :: nat))) + buffered pick (fst (w, 0 :: nat))"
  unfolding Buffer_Sweep_def
  by (rule range_loop_keeps[where I = "\<lambda>wn. world_ok (fst wn)" and look = "\<lambda>wn. mget (entries (buf (fst wn)))"
        and M = "\<lambda>wn. held pick (gstate (fst wn)) + buffered pick (fst wn)"])
     (use assms in \<open>auto simp: drop_range sweep_row_other world_ok_rows simp del: sweep_row.simps\<close>)

lemma Capture_known_key:
  assumes "world_ok w" and "mget (entries (buf w)) key = Some e"
  shows "\<exists>w'. Capture now cap key raw w = Some w' \<and> world_ok w' \<and>
    length (entries (buf w')) = length (entries (buf w)) \<and>
    held pick (gstate w') + buffered pick w' = held pick (gstate w) + buffered pick w +
      pick (add_delta_of (Bytes (bLastRaw e)) (Bytes raw)) (add_delta_of (Packets (bLastRaw e)) (Packets raw))"
  using assms
  by (auto simp: Capture_def AddDelta_def add_delta_of_def Let_def buffered_def msum_mput pick_add
      world_ok_def buffer_ok_def length_mput mhas_def)

lemma Capture_new_key:
  assumes "world_ok w" and "mget (entries (buf w)) key = None"
  shows "\<exists>w'. Capture now cap key raw w = Some w' \<and> world_ok w' \<and>
    (0 \<le> cap \<longrightarrow> int (length (entries (buf w'))) \<le> cap) \<and>
    held pick (gstate w') + buffered pick w' = held pick (gstate w) + buffered pick w + pick (Bytes raw) (Packets raw)"
proof -
  let ?w1 = "w\<lparr>buf := \<lparr>entries = mput key \<lparr>bTotal = raw, bLastRaw = raw, firstSeen = now\<rparr> (entries (buf w)),
                       order = key # order (buf w)\<rparr>\<rparr>"
  have ok: "world_ok ?w1"
    using assms by (auto simp: world_ok_def buffer_ok_def mhas_def)
  have "held pick (gstate ?w1) + buffered pick ?w1 = held pick (gstate w) + buffered pick w + pick (Bytes raw) (Packets raw)"
    using assms(2) by (simp add: buffered_def msum_mput)
  then show ?thesis
    using evictOverCap_ok[OF ok, of cap] assms(2) by (simp add: Capture_def add.assoc)
qed

lemma Buffer_Resolve_conserves:
  assumes "world_ok w"
  shows "world_ok (fst (Buffer_Resolve key w))"
    and "held pick (gstate (fst (Buffer_Resolve key w))) + buffered pick (fst (Buffer_Resolve key w)) =
      held pick (gstate w) + buffered pick w"
  using assms
  by (auto simp: Buffer_Resolve_def buffer_drop_def buffered_def held_Resolve msum_mdel
      world_ok_def buffer_ok_def split: option.splits)

end

section \<open>Late binding\<close>

lemma Capture_first:
  assumes "mget (entries (buf w)) key = None" and "int (length (entries (buf w))) < cap"
  shows "Capture now cap key raw w =
    Some (w\<lparr>buf := \<lparr>entries = mput key \<lparr>bTotal = raw, bLastRaw = raw, firstSeen = now\<rparr> (entries (buf w)),
                   order = key # order (buf w)\<rparr>\<rparr>)"
  using assms by (simp add: Capture_def) (subst evictOverCap.simps, simp add: length_mput mhas_def)

text \<open>The readings of one kernel entry while its MAC is unknown, captured one after the other.\<close>

fun capture_all :: "gotime \<Rightarrow> int \<Rightarrow> flow_key \<Rightarrow> flow_metrics list \<Rightarrow> buf_world \<Rightarrow> buf_world option" where
  "capture_all now cap key [] w = Some w"
| "capture_all now cap key (r # rs) w =
    (case Capture now cap key r w of None \<Rightarrow> None | Some w' \<Rightarrow> capture_all now cap key rs w')"

lemma capture_all_same_entry:
  assumes "mget (entries (buf w)) key = Some e" and "Bytes (bTotal e) = Bytes (bLastRaw e)"
    and "Packets (bTotal e) = Packets (bLastRaw e)" and "CreatedNs (bLastRaw e) = created"
    and "sorted (Bytes (bLastRaw e) # map fst rs)" and "sorted (Packets (bLastRaw e) # map (\<lambda>r. fst (snd r)) rs)"
  shows "\<exists>w' e'. capture_all now cap key (map (reading created) rs) w = Some w' \<and> gstate w' = gstate w \<and>
    mget (entries (buf w')) key = Some e' \<and> CreatedNs (bLastRaw e') = created \<and>
    Bytes (bTotal e') = last (Bytes (bLastRaw e) # map fst rs) \<and> Bytes (bLastRaw e') = Bytes (bTotal e') \<and>
    Packets (bTotal e') = last (Packets (bLastRaw e) # map (\<lambda>r. fst (snd r)) rs) \<and>
    Packets (bLastRaw e') = Packets (bTotal e')"
  using assms
proof (induction rs arbitrary: w e)
  case (Cons r rs)
  let ?raw = "reading created r"
  let ?e1 = "e\<lparr>bTotal := bump_seen (LastSeenNs ?raw) ((bTotal e)\<lparr>Bytes := fst r, Packets := fst (snd r)\<rparr>),
               bLastRaw := (bLastRaw e)\<lparr>Bytes := fst r, Packets := fst (snd r), LastSeenNs := LastSeenNs ?raw\<rparr>\<rparr>"
  let ?w1 = "w\<lparr>buf := \<lparr>entries = mput key ?e1 (entries (buf w)), order = key # remove1 key (order (buf w))\<rparr>\<rparr>"
  have c: "Capture now cap key ?raw w = Some ?w1"
    using Cons.prems by (simp add: Capture_def AddDelta_def Let_def)
  show ?case
    using Cons.IH[of ?w1 ?e1] Cons.prems c by simp
qed simp

lemma sweep_fold_rows:
  assumes "distinct (map fst rows)"
  shows "kdeletes (fst (fold (sweep_row now ttl force) rows (w, n))) =
      kdeletes w @ (if force then [] else map fst (filter (\<lambda>(k, e). now - firstSeen e \<ge> ttl) rows))"
    and "mget (entries (buf (fst (fold (sweep_row now ttl force) rows (w, n))))) k =
      (case map_of rows k of
         Some e \<Rightarrow> if \<not> force \<and> now - firstSeen e < ttl then mget (entries (buf w)) k else None
       | None \<Rightarrow> mget (entries (buf w)) k)"
  using assms
proof (induction rows arbitrary: w n)
  case (Cons ke rows)
  obtain k0 e where ke: "ke = (k0, e)" by (cases ke)
  { case 1
    then show ?case using Cons.IH(1) by (auto simp: ke buffer_drop_def foldToUnknown_def) }
  { case 2
    then have "map_of rows k0 = None" by (simp add: ke map_of_eq_None_iff)
    with 2 show ?case using Cons.IH(2) ke
      by (auto simp: buffer_drop_def foldToUnknown_def split: option.splits) }
qed simp_all

section \<open>Properties\<close>

definition ex_world :: buf_world where
  "ex_world = \<lparr>buf = NewBuffer, gstate = New, kdeletes = []\<rparr>"

lemma world_ok_ex: "world_ok ex_world"
  by (simp add: ex_world_def world_ok_def buffer_ok_def NewBuffer_def)



text \<open>
  C6. Late binding counts every byte once. A flow whose MAC is unknown is captured from its first reading
  on, all of them readings of one kernel entry (counters do not decrease); when the MAC becomes known, the
  next reading of that entry hands the buffered total to the real key and integrates only the rest. The
  row's cumulative is then exactly that reading, its baseline too, and the buffer no longer has the flow.
\<close>

theorem late_binding_exact:
  assumes "mget (entries (buf w)) key = None" and "mget (counts (gstate w)) key = None"
    and "int (length (entries (buf w))) < cap" and "created \<noteq> 0"
    and "sorted (map fst (r # rs @ [final]))" and "sorted (map (\<lambda>r. fst (snd r)) (r # rs @ [final]))"
    and "ShardedMetadataMap_Lookup meta (VMMAC key) = Some tm"
  shows "\<exists>w1 w2 c. capture_all now cap key (map (reading created) (r # rs)) w = Some w1 \<and>
    Absorb meta now cap key (reading created final) w1 = Some w2 \<and>
    mget (counts (gstate w2)) key = Some c \<and> Bytes (Total c) = fst final \<and>
    Packets (Total c) = fst (snd final) \<and> LastEbpfRaw c = reading created final \<and>
    mget (entries (buf w2)) key = None"
proof -
  let ?e0 = "\<lparr>bTotal = reading created r, bLastRaw = reading created r, firstSeen = now\<rparr>"
  let ?w0 = "w\<lparr>buf := \<lparr>entries = mput key ?e0 (entries (buf w)), order = key # order (buf w)\<rparr>\<rparr>"
  have e0: "mget (entries (buf ?w0)) key = Some ?e0" by simp
  have s: "sorted (fst r # map fst rs)" "sorted (fst (snd r) # map (\<lambda>r. fst (snd r)) rs)"
    "last (fst r # map fst rs) \<le> fst final" "last (fst (snd r) # map (\<lambda>r. fst (snd r)) rs) \<le> fst (snd final)"
    using assms(5,6) by (auto simp: sorted_append last_map)
  obtain w1 e where w1: "capture_all now cap key (map (reading created) rs) ?w0 = Some w1"
    "gstate w1 = gstate w" "mget (entries (buf w1)) key = Some e" "CreatedNs (bLastRaw e) = created"
    "Bytes (bTotal e) = last (fst r # map fst rs)" "Bytes (bLastRaw e) = Bytes (bTotal e)"
    "Packets (bTotal e) = last (fst (snd r) # map (\<lambda>r. fst (snd r)) rs)" "Packets (bLastRaw e) = Packets (bTotal e)"
    using capture_all_same_entry[OF e0, of created rs now cap] s by auto
  let ?c = "\<lparr>Total = bTotal e, LastEbpfRaw = bLastRaw e\<rparr>"
  let ?w2 = "(fst (Buffer_Resolve key w1))\<lparr>gstate := ApplyDelta key (reading created final) (gstate (fst (Buffer_Resolve key w1)))\<rparr>"
  have "capture_all now cap key (map (reading created) (r # rs)) w = Some w1"
    using w1(1) Capture_first[OF assms(1,3)] by simp
  moreover have "Absorb meta now cap key (reading created final) w1 = Some ?w2"
    by (simp add: Absorb_def assms(7) Let_def)
  moreover have "mget (counts (gstate ?w2)) key = Some (counter_step (reading created final) ?c)"
    using w1(2,3) assms(2) by (simp add: Buffer_Resolve_def buffer_drop_def mget_counts_ApplyDelta mget_counts_Resolve)
  moreover have "mget (entries (buf ?w2)) key = None"
    using w1(3) by (simp add: Buffer_Resolve_def buffer_drop_def)
  moreover have "Bytes (Total (counter_step (reading created final) ?c)) = fst final"
    "Packets (Total (counter_step (reading created final) ?c)) = fst (snd final)"
    using w1(4-8) s(3,4) assms(4) by (simp_all add: counter_step_delta reading_delta_def)
  ultimately show ?thesis by (metis LastEbpfRaw_counter_step)
qed

theorem late_binding_exact_witness:
  "\<exists>w1 w2 c. capture_all 0 9 (ex_key 1) (map (reading 7) [(10, 1, 1), (30, 2, 2)]) ex_world = Some w1 \<and>
    Absorb ex_meta_map 0 9 (ex_key 1) (reading 7 (45, 3, 3)) w1 = Some w2 \<and>
    mget (counts (gstate w2)) (ex_key 1) = Some c \<and> Bytes (Total c) = 45"
proof -
  have vm: "ShardedMetadataMap_Lookup ex_meta_map (VMMAC (ex_key 1)) = Some (ex_meta ''a'')"
    using lookup_ex by (simp add: VMMAC_def ex_key_def DirectionIngress_def del: MACKey.simps)
  show ?thesis
    using late_binding_exact[of ex_world "ex_key 1" 9 7 "(10, 1, 1)" "[(30, 2, 2)]" "(45, 3, 3)" ex_meta_map "ex_meta ''a''" 0] vm
    by (auto simp: ex_world_def NewBuffer_def New_def)
qed

text \<open>
  A sweep resets exactly the kernel entries of the flows it expires. A TTL sweep asks the kernel to
  delete the entries of the flows whose age has reached the TTL, in the order it visits them, and keeps
  the other flows buffered; the shutdown sweep empties the buffer and asks for no delete.
\<close>

theorem sweep_deletes_expired:
  assumes "world_ok w"
  shows "kdeletes (fst (Buffer_Sweep now ttl force w)) = kdeletes w @
      (if force then [] else map fst (filter (\<lambda>(k, e). now - firstSeen e \<ge> ttl) (entries (buf w)))) \<and>
    mget (entries (buf (fst (Buffer_Sweep now ttl force w)))) k =
      (case mget (entries (buf w)) k of
         Some e \<Rightarrow> if \<not> force \<and> now - firstSeen e < ttl then Some e else None
       | None \<Rightarrow> None)"
  using sweep_fold_rows[OF world_ok_rows(1)[OF assms], of now ttl force w 0]
  by (simp add: Buffer_Sweep_def mget_def split: option.splits)

theorem sweep_deletes_expired_witness:
  "kdeletes (fst (Buffer_Sweep 100 60 False (ex_world\<lparr>buf :=
     \<lparr>entries = [(ex_key 1, \<lparr>bTotal = ex_metrics 1 1, bLastRaw = ex_metrics 1 1, firstSeen = 0\<rparr>),
                  (ex_key 2, \<lparr>bTotal = ex_metrics 1 1, bLastRaw = ex_metrics 1 1, firstSeen = 90\<rparr>)],
      order = [ex_key 2, ex_key 1]\<rparr>\<rparr>))) = [ex_key 1]"
  by (subst sweep_deletes_expired[THEN conjunct1])
     (auto simp: world_ok_def buffer_ok_def ex_world_def mget_Cons mhas_def ex_key_def)

text \<open>
  The buffer compares magnitudes where the state compares creation stamps. A flow read as 100 bytes of one
  entry and 50 bytes of its successor while its MAC was unknown, and as 70 bytes of the successor once it
  is known, is credited 220 bytes: the baseline handed over still carries the first entry's stamp, so the
  reading of 70 is taken whole although 50 of it were buffered. The kernel counted 170.
\<close>

lemma buffered_recreation_counts_twice:
  "(case capture_all 0 9 (ex_key 1) [ex_metrics 100 7, ex_metrics 50 8] ex_world of
      Some w1 \<Rightarrow> (case Absorb ex_meta_map 0 9 (ex_key 1) (ex_metrics 70 8) w1 of
        Some w2 \<Rightarrow> map_option (\<lambda>c. Bytes (Total c)) (mget (counts (gstate w2)) (ex_key 1))
      | None \<Rightarrow> None)
    | None \<Rightarrow> None) = Some 220"
proof -
  have vm: "ShardedMetadataMap_Lookup ex_meta_map (VMMAC (ex_key 1)) = Some (ex_meta ''a'')"
    using lookup_ex by (simp add: VMMAC_def ex_key_def DirectionIngress_def del: MACKey.simps)
  have c1: "Capture 0 9 (ex_key 1) (ex_metrics 100 7) ex_world =
      Some (ex_world\<lparr>buf := \<lparr>entries = [(ex_key 1, \<lparr>bTotal = ex_metrics 100 7, bLastRaw = ex_metrics 100 7, firstSeen = 0\<rparr>)],
        order = [ex_key 1]\<rparr>\<rparr>)"
    by (subst Capture_first) (simp_all add: ex_world_def NewBuffer_def)
  have step: "capture_all 0 9 (ex_key 1) [ex_metrics 100 7, ex_metrics 50 8] ex_world =
      Capture 0 9 (ex_key 1) (ex_metrics 50 8) (ex_world\<lparr>buf :=
        \<lparr>entries = [(ex_key 1, \<lparr>bTotal = ex_metrics 100 7, bLastRaw = ex_metrics 100 7, firstSeen = 0\<rparr>)],
         order = [ex_key 1]\<rparr>\<rparr>)"
    by (simp add: c1 split: option.splits)
  show ?thesis
    unfolding step using vm
    by (simp add: Capture_def mget_Cons AddDelta_def Absorb_def Let_def Buffer_Resolve_def buffer_drop_def
        mget_counts_ApplyDelta mget_counts_Resolve counter_step_delta reading_delta_def)
       (simp add: ex_metrics_def ex_world_def New_def)
qed

end
