(* ===== verification/Gc_Pressure.thy ===== *)
theory Gc_Pressure
  imports Bpf_Abi
begin

text \<open>
  Pressure relief of the kernel's flow map (\<^verbatim>\<open>internal/gc/pressure.go\<close>): the bounded heap that
  selects the oldest flows in one pass, with the two operations of \<^verbatim>\<open>container/heap\<close> it calls,
  and the watermark logic of \<^verbatim>\<open>Relieve\<close>.

  The product of a float watermark and the map size, truncated to an integer, is an argument
  (\<^verbatim>\<open>mark\<close>): the float arithmetic is not modelled. The kernel delete is an argument too, a
  function that tells for each key whether the delete succeeds; the result lists the deletes asked for.
\<close>

section \<open>The heap\<close>

record flowAge =
  fkey :: flow_key
  seen :: u64

text \<open>\<^verbatim>\<open>ageHeap.Less(i, j)\<close> orders the newest entry to the root.\<close>

definition ageLess :: "flowAge list \<Rightarrow> nat \<Rightarrow> nat \<Rightarrow> bool" where
  "ageLess h i j = (seen (h ! i) > seen (h ! j))"

definition ageSwap :: "flowAge list \<Rightarrow> nat \<Rightarrow> nat \<Rightarrow> flowAge list" where
  "ageSwap h i j = h[i := h ! j, j := h ! i]"

fun heap_up :: "flowAge list \<Rightarrow> nat \<Rightarrow> flowAge list" where
  "heap_up h j =
    (if j = 0 then h
     else (let i = (j - 1) div 2 in if ageLess h j i then heap_up (ageSwap h i j) i else h))"

declare heap_up.simps [simp del]

function heap_down :: "flowAge list \<Rightarrow> nat \<Rightarrow> flowAge list" where
  "heap_down h i =
    (let j1 = 2 * i + 1 in
     if j1 \<ge> length h then h
     else (let j = (if j1 + 1 < length h \<and> ageLess h (j1 + 1) j1 then j1 + 1 else j1) in
           if ageLess h j i then heap_down (ageSwap h i j) j else h))"
  by pat_completeness auto
termination
  by (relation "measure (\<lambda>(h, i). length h - i)") (auto simp: ageSwap_def Let_def split: if_splits)

declare heap_down.simps [simp del]

definition heap_Push :: "flowAge \<Rightarrow> flowAge list \<Rightarrow> flowAge list" where
  "heap_Push x h = heap_up (h @ [x]) (length h)"

text \<open>
  \<^verbatim>\<open>heap.Fix(h, 0)\<close>: sift down, and up when that did not move the element. From the root there is
  no way up.
\<close>

definition heap_Fix_root :: "flowAge list \<Rightarrow> flowAge list" where
  "heap_Fix_root h = heap_up (heap_down h 0) 0"

fun select_step :: "nat \<Rightarrow> flow_key \<times> flow_metrics \<Rightarrow> flowAge list \<Rightarrow> flowAge list" where
  "select_step k (key, v) h =
    (if length h < k then heap_Push \<lparr>fkey = key, seen = LastSeenNs v\<rparr> h
     else if LastSeenNs v < seen (h ! 0) then heap_Fix_root (h[0 := \<lparr>fkey = key, seen = LastSeenNs v\<rparr>])
     else h)"

definition selectOldest :: "(flow_key, flow_metrics) gomap \<Rightarrow> int \<Rightarrow> flow_key list" where
  "selectOldest drained k =
    (if k \<le> 0 then [] else map fkey (fold (select_step (nat k)) drained []))"

section \<open>Relief\<close>

record 'f pressure_params =
  PressureHighWatermark :: 'f
  PressureLowWatermark :: 'f
  PressureMaxPerPass :: int

definition Relieve ::
  "('f \<Rightarrow> int \<Rightarrow> int) \<Rightarrow> (flow_key \<Rightarrow> bool) \<Rightarrow> int \<Rightarrow> 'f pressure_params \<Rightarrow>
   (flow_key, flow_metrics) gomap \<Rightarrow> bool \<Rightarrow> bool \<times> flow_key list \<times> nat" where
  "Relieve mark del_ok maxEntries pp drained relieving =
    (if maxEntries \<le> 0 then (relieving, [], 0)
     else (let n = int (length drained);
               high = mark (PressureHighWatermark pp) maxEntries;
               low = mark (PressureLowWatermark pp) maxEntries
           in if n \<le> low then (False, [], 0)
              else if \<not> relieving \<and> n \<le> high then (relieving, [], 0)
              else (let want = (if n - low > PressureMaxPerPass pp then PressureMaxPerPass pp else n - low);
                        victims = selectOldest drained want
                    in (True, victims, length (filter del_ok victims)))))"

section \<open>Heap lemmas\<close>

definition heap_ok :: "flowAge list \<Rightarrow> bool" where
  "heap_ok h \<longleftrightarrow> (\<forall>i. 0 < i \<longrightarrow> i < length h \<longrightarrow> seen (h ! i) \<le> seen (h ! ((i - 1) div 2)))"

definition heap_but_up :: "flowAge list \<Rightarrow> nat \<Rightarrow> bool" where
  "heap_but_up h j \<longleftrightarrow>
    (\<forall>i. 0 < i \<longrightarrow> i < length h \<longrightarrow> i \<noteq> j \<longrightarrow> seen (h ! i) \<le> seen (h ! ((i - 1) div 2))) \<and>
    (\<forall>c. 0 < c \<longrightarrow> c < length h \<longrightarrow> (c - 1) div 2 = j \<longrightarrow> 0 < j \<longrightarrow> seen (h ! c) \<le> seen (h ! ((j - 1) div 2)))"

definition heap_but_down :: "flowAge list \<Rightarrow> nat \<Rightarrow> bool" where
  "heap_but_down h i \<longleftrightarrow>
    (\<forall>c. 0 < c \<longrightarrow> c < length h \<longrightarrow> (c - 1) div 2 \<noteq> i \<longrightarrow> seen (h ! c) \<le> seen (h ! ((c - 1) div 2))) \<and>
    (\<forall>c. 0 < c \<longrightarrow> c < length h \<longrightarrow> (c - 1) div 2 = i \<longrightarrow> 0 < i \<longrightarrow> seen (h ! c) \<le> seen (h ! ((i - 1) div 2)))"

lemma length_ageSwap [simp]: "length (ageSwap h i j) = length h"
  by (simp add: ageSwap_def)

lemma nth_ageSwap:
  "i < length h \<Longrightarrow> j < length h \<Longrightarrow> m < length h \<Longrightarrow>
   ageSwap h i j ! m = (if m = j then h ! i else if m = i then h ! j else h ! m)"
  by (simp add: ageSwap_def nth_list_update)

lemma mset_ageSwap: "i < length h \<Longrightarrow> j < length h \<Longrightarrow> mset (ageSwap h i j) = mset h"
  unfolding ageSwap_def by (rule mset_swap)

lemma parent_less: "0 < (i :: nat) \<Longrightarrow> (i - 1) div 2 < i"
  by linarith

lemma heap_but_up_swap:
  assumes "heap_but_up h j" and "0 < j" and "j < length h" and "seen (h ! ((j - 1) div 2)) < seen (h ! j)"
  shows "heap_but_up (ageSwap h ((j - 1) div 2) j) ((j - 1) div 2)"
proof -
  let ?p = "(j - 1) div 2"
  let ?h = "ageSwap h ?p j"
  have p: "?p < j" "?p < length h" using assms(2,3) by linarith+
  have A: "seen (h ! i) \<le> seen (h ! ((i - 1) div 2))" if "0 < i" "i < length h" "i \<noteq> j" for i
    using assms(1) that by (simp add: heap_but_up_def)
  have B: "seen (h ! c) \<le> seen (h ! ?p)" if "0 < c" "c < length h" "(c - 1) div 2 = j" for c
    using assms(1,2) that by (auto simp: heap_but_up_def)
  have up: "seen (h ! c) \<le> seen (h ! ?p)" if "0 < c" "c < length h" "(c - 1) div 2 = ?p" "c \<noteq> j" for c
    using A[of c] that by simp
  have "seen (?h ! i) \<le> seen (?h ! ((i - 1) div 2))" if i: "0 < i" "i < length h" "i \<noteq> ?p" for i
  proof -
    have q: "(i - 1) div 2 < length h" using parent_less[OF i(1)] i(2) by linarith
    consider "i = j" | "i \<noteq> j" "(i - 1) div 2 = j" | "i \<noteq> j" "(i - 1) div 2 = ?p" | "i \<noteq> j" "(i - 1) div 2 \<noteq> j" "(i - 1) div 2 \<noteq> ?p"
      by blast
    then show ?thesis
      using A[OF i(1,2)] B[OF i(1,2)] up[OF i(1,2)] assms(3,4) p i q
      by cases (auto simp: nth_ageSwap)
  qed
  moreover have "seen (?h ! c) \<le> seen (?h ! ((?p - 1) div 2))"
    if c: "0 < c" "c < length h" "(c - 1) div 2 = ?p" "0 < ?p" for c
  proof -
    have g: "(?p - 1) div 2 < ?p" using c(4) by (rule parent_less)
    have "seen (h ! ?p) \<le> seen (h ! ((?p - 1) div 2))" using A[of ?p] c(4) p by simp
    moreover have "c \<noteq> ?p" using c(1,3) parent_less[OF c(1)] by linarith
    ultimately show ?thesis
      using up[OF c(1,2,3)] g p c assms(3) by (cases "c = j") (auto simp: nth_ageSwap)
  qed
  ultimately show ?thesis by (simp add: heap_but_up_def)
qed

lemma heap_up_ok: "heap_but_up h j \<Longrightarrow> j < length h \<Longrightarrow> heap_ok (heap_up h j) \<and> mset (heap_up h j) = mset h"
proof (induction h j rule: heap_up.induct)
  case (1 h j)
  show ?case
  proof (cases "0 < j \<and> ageLess h j ((j - 1) div 2)")
    case True
    then have "heap_but_up (ageSwap h ((j - 1) div 2) j) ((j - 1) div 2)"
      using 1(2,3) heap_but_up_swap by (simp add: ageLess_def)
    moreover have p: "(j - 1) div 2 < length h" using 1(3) True by linarith
    ultimately show ?thesis
      using 1(1)[OF _ refl] True 1(3) mset_ageSwap[OF p 1(3)]
      by (subst (1 2) heap_up.simps) (simp add: Let_def)
  next
    case False
    then have "heap_up h j = h" by (subst heap_up.simps) (auto simp: Let_def)
    moreover have "heap_ok h"
      unfolding heap_ok_def
    proof (intro allI impI)
      fix i
      assume i: "0 < i" "i < length h"
      show "seen (h ! i) \<le> seen (h ! ((i - 1) div 2))"
        using 1(2) False i by (cases "i = j") (auto simp: heap_but_up_def ageLess_def)
    qed
    ultimately show ?thesis by simp
  qed
qed

lemma heap_but_down_swap:
  assumes "heap_but_down h i" and "i < length h" and j: "(j - 1) div 2 = i" "0 < j" "j < length h"
    and "seen (h ! i) < seen (h ! j)"
    and best: "\<And>c. 0 < c \<Longrightarrow> c < length h \<Longrightarrow> (c - 1) div 2 = i \<Longrightarrow> seen (h ! c) \<le> seen (h ! j)"
  shows "heap_but_down (ageSwap h i j) j"
proof -
  let ?h = "ageSwap h i j"
  have ij: "i < j" using j parent_less by blast
  have A: "seen (h ! c) \<le> seen (h ! ((c - 1) div 2))" if "0 < c" "c < length h" "(c - 1) div 2 \<noteq> i" for c
    using assms(1) that by (simp add: heap_but_down_def)
  have "seen (?h ! c) \<le> seen (?h ! ((c - 1) div 2))" if c: "0 < c" "c < length h" "(c - 1) div 2 \<noteq> j" for c
  proof -
    have q: "(c - 1) div 2 < length h" "(c - 1) div 2 < c" using parent_less[OF c(1)] c(2) by linarith+
    show ?thesis
    proof (cases "c = i")
      case True
      then have "seen (h ! j) \<le> seen (h ! ((i - 1) div 2))"
        using assms(1) j c(1) by (auto simp: heap_but_down_def)
      then show ?thesis using True assms(2) j(3) ij q by (auto simp: nth_ageSwap)
    next
      case False
      then show ?thesis
        using A[OF c(1,2)] best[OF c(1,2)] assms(2,6) j ij c q
        by (cases "(c - 1) div 2 = i"; cases "c = j") (auto simp: nth_ageSwap)
    qed
  qed
  moreover have "seen (?h ! c) \<le> seen (?h ! ((j - 1) div 2))" if c: "0 < c" "c < length h" "(c - 1) div 2 = j" for c
  proof -
    have "c \<noteq> j" "c \<noteq> i" using parent_less[OF c(1)] c(3) ij by linarith+
    then show ?thesis using A[of c] c ij j assms(2) by (auto simp: nth_ageSwap)
  qed
  ultimately show ?thesis by (simp add: heap_but_down_def)
qed

lemma children: "0 < c \<Longrightarrow> (c - 1) div 2 = i \<Longrightarrow> c = 2 * i + 1 \<or> c = 2 * i + (2 :: nat)"
  by linarith

lemma heap_down_ok: "heap_but_down h i \<Longrightarrow> i < length h \<Longrightarrow> heap_ok (heap_down h i) \<and> mset (heap_down h i) = mset h"
proof (induction h i rule: heap_down.induct)
  case (1 h i)
  let ?j = "if 2 * i + 1 + 1 < length h \<and> ageLess h (2 * i + 1 + 1) (2 * i + 1) then 2 * i + 1 + 1 else 2 * i + 1"
  have rest: "heap_ok h" if "\<And>c. 0 < c \<Longrightarrow> c < length h \<Longrightarrow> (c - 1) div 2 = i \<Longrightarrow> seen (h ! c) \<le> seen (h ! i)"
    unfolding heap_ok_def
  proof (intro allI impI)
    fix c assume c: "0 < c" "c < length h"
    show "seen (h ! c) \<le> seen (h ! ((c - 1) div 2))"
      using 1(2) that[OF c] c by (cases "(c - 1) div 2 = i") (auto simp: heap_but_down_def)
  qed
  show ?case
  proof (cases "2 * i + 1 < length h")
    case False
    then have "heap_down h i = h" by (subst heap_down.simps) (simp add: Let_def)
    moreover have "heap_ok h" by (rule rest) (use False children in force)
    ultimately show ?thesis by simp
  next
    case True
    have j: "(?j - 1) div 2 = i" "0 < ?j" "?j < length h" using True by auto
    have best: "seen (h ! c) \<le> seen (h ! ?j)" if "0 < c" "c < length h" "(c - 1) div 2 = i" for c
      using children[OF that(1,3)] that(2) by (auto simp: ageLess_def)
    show ?thesis
    proof (cases "ageLess h ?j i")
      case less: True
      have d: "heap_down h i = heap_down (ageSwap h i ?j) ?j"
        using True less by (subst heap_down.simps) (auto simp: Let_def split: if_splits)
      have "heap_but_down (ageSwap h i ?j) ?j"
        by (rule heap_but_down_swap[OF 1(2,3) j]) (use less best in \<open>auto simp: ageLess_def\<close>)
      then have "heap_ok (heap_down (ageSwap h i ?j) ?j) \<and> mset (heap_down (ageSwap h i ?j) ?j) = mset (ageSwap h i ?j)"
        using 1(1)[OF refl _ refl] True less j(3) by (simp del: if_split)
      then show ?thesis using d mset_ageSwap[OF 1(3) j(3)] by simp
    next
      case False
      have "heap_down h i = h"
        using True False by (subst heap_down.simps) (auto simp: Let_def split: if_splits)
      moreover have "heap_ok h"
      proof (rule rest)
        fix c assume c: "0 < c" "c < length h" "(c - 1) div 2 = i"
        show "seen (h ! c) \<le> seen (h ! i)"
          using best[OF c] False by (auto simp: ageLess_def simp del: if_split)
      qed
      ultimately show ?thesis by simp
    qed
  qed
qed

lemma heap_root_max: "heap_ok h \<Longrightarrow> i < length h \<Longrightarrow> seen (h ! i) \<le> seen (h ! 0)"
proof (induction i rule: less_induct)
  case (less i)
  show ?case
  proof (cases "i = 0")
    case False
    then have "seen (h ! i) \<le> seen (h ! ((i - 1) div 2))" using less.prems by (simp add: heap_ok_def)
    also have "\<dots> \<le> seen (h ! 0)" using less.IH[of "(i - 1) div 2"] False less.prems by linarith
    finally show ?thesis .
  qed simp
qed

lemma heap_Push_ok: "heap_ok h \<Longrightarrow> heap_ok (heap_Push x h) \<and> mset (heap_Push x h) = add_mset x (mset h)"
proof -
  assume ok: "heap_ok h"
  have "heap_but_up (h @ [x]) (length h)"
    unfolding heap_but_up_def
  proof (intro conjI allI impI)
    fix i assume i: "0 < i" "i < length (h @ [x])" "i \<noteq> length h"
    then show "seen ((h @ [x]) ! i) \<le> seen ((h @ [x]) ! ((i - 1) div 2))"
      using ok parent_less[OF i(1)] by (auto simp: heap_ok_def nth_append)
  next
    fix c assume "0 < c" "c < length (h @ [x])" "(c - 1) div 2 = length h" "0 < length h"
    then show "seen ((h @ [x]) ! c) \<le> seen ((h @ [x]) ! ((length h - 1) div 2))"
      using parent_less[of c] by auto
  qed
  then show ?thesis unfolding heap_Push_def using heap_up_ok[of "h @ [x]" "length h"] by simp
qed

lemma heap_Fix_root_ok:
  assumes "heap_ok h" and "h \<noteq> []"
  shows "heap_ok (heap_Fix_root (h[0 := x])) \<and> mset (heap_Fix_root (h[0 := x])) = mset (h[0 := x])"
proof -
  have "heap_but_down (h[0 := x]) 0"
    unfolding heap_but_down_def
  proof (intro conjI allI impI)
    fix c assume c: "0 < c" "c < length (h[0 := x])" "(c - 1) div 2 \<noteq> 0"
    then show "seen (h[0 := x] ! c) \<le> seen (h[0 := x] ! ((c - 1) div 2))"
      using assms(1) by (simp add: heap_ok_def)
  qed simp
  moreover have "heap_up g 0 = g" for g by (subst heap_up.simps) simp
  ultimately show ?thesis
    unfolding heap_Fix_root_def using heap_down_ok[of "h[0 := x]" 0] assms(2) by simp
qed

section \<open>Selection\<close>

definition age_of :: "flow_key \<times> flow_metrics \<Rightarrow> flowAge" where
  "age_of kv = \<lparr>fkey = fst kv, seen = LastSeenNs (snd kv)\<rparr>"

text \<open>
  After any prefix of the map the heap holds the oldest flows of it: the prefix is the heap and some
  discarded flows, none of them older than one in the heap, and nothing is discarded while there is room.
\<close>

definition selected :: "nat \<Rightarrow> flowAge list \<Rightarrow> flowAge list \<Rightarrow> bool" where
  "selected k h ps \<longleftrightarrow> heap_ok h \<and> (\<exists>d. mset ps = mset h + mset d \<and>
     (\<forall>x \<in> set h. \<forall>y \<in> set d. seen x \<le> seen y) \<and> length h \<le> k \<and> (d = [] \<or> length h = k))"

lemma selected_step:
  assumes "0 < k" and "selected k h ps"
  shows "selected k (select_step k kv h) (age_of kv # ps)"
proof -
  obtain key v where kv: "kv = (key, v)" by (cases kv)
  let ?x = "age_of kv"
  obtain d where d: "heap_ok h" "mset ps = mset h + mset d" "\<forall>x \<in> set h. \<forall>y \<in> set d. seen x \<le> seen y"
    "length h \<le> k" "d = [] \<or> length h = k"
    using assms(2) by (auto simp: selected_def)
  consider (push) "length h < k" | (full_newer) "length h = k" "\<not> LastSeenNs v < seen (h ! 0)"
    | (full_older) "length h = k" "LastSeenNs v < seen (h ! 0)"
    using d(4) by linarith
  then show ?thesis
  proof cases
    case push
    then have s: "select_step k kv h = heap_Push ?x h" by (simp add: kv age_of_def)
    have "mset (heap_Push ?x h) = add_mset ?x (mset h)" "heap_ok (heap_Push ?x h)"
      using heap_Push_ok[OF d(1)] by auto
    moreover from this have "length (heap_Push ?x h) = Suc (length h)"
      by (metis size_add_mset size_mset)
    ultimately show ?thesis
      using push d(2,5) s by (auto simp: selected_def intro!: exI[of _ "[]"])
  next
    case full_newer
    then have s: "select_step k kv h = h" by (simp add: kv)
    have "seen x \<le> seen ?x" if "x \<in> set h" for x
    proof -
      obtain i where "i < length h" "x = h ! i" using \<open>x \<in> set h\<close> by (auto simp: in_set_conv_nth)
      then show ?thesis using heap_root_max[OF d(1)] full_newer by (fastforce simp: age_of_def kv)
    qed
    then show ?thesis using s d full_newer(1) by (auto simp: selected_def intro!: exI[of _ "?x # d"])
  next
    case full_older
    have ne: "h \<noteq> []" using full_older assms(1) by auto
    let ?h = "heap_Fix_root (h[0 := ?x])"
    have s: "select_step k kv h = ?h" using full_older by (simp add: kv age_of_def)
    have h: "heap_ok ?h" "mset ?h = mset (h[0 := ?x])" using heap_Fix_root_ok[OF d(1) ne] by auto
    have upd: "mset h = add_mset (h ! 0) (mset (tl h))" "mset (h[0 := ?x]) = add_mset ?x (mset (tl h))"
      using ne by (cases h; simp)+
    have "length ?h = length h" using h(2) by (metis length_list_update size_mset)
    moreover have "mset (?x # ps) = mset ?h + mset (h ! 0 # d)" using d(2) h(2) upd by simp
    moreover have "seen x \<le> seen y" if "x \<in> set ?h" "y \<in> set (h ! 0 # d)" for x y
    proof -
      have x: "x = ?x \<or> x \<in> set h" using that(1) h(2) upd ne
        by (metis list.set_sel(2) set_mset_add_mset_insert set_mset_mset insertE)
      have root: "seen z \<le> seen (h ! 0)" if "z \<in> set h" for z
        using that heap_root_max[OF d(1)] by (auto simp: in_set_conv_nth)
      have old: "seen ?x < seen (h ! 0)" using full_older by (simp add: age_of_def kv)
      have "h ! 0 \<in> set h" using ne by simp
      then show ?thesis using x that(2) root old d(3) by fastforce
    qed
    ultimately show ?thesis
      using s h(1) full_older(1) unfolding selected_def by (metis (no_types, lifting) le_refl)
  qed
qed

lemma selected_fold:
  "0 < k \<Longrightarrow> selected k h ps \<Longrightarrow> selected k (fold (select_step k) rows h) (rev (map age_of rows) @ ps)"
proof (induction rows arbitrary: h ps)
  case (Cons kv rows)
  then show ?case using selected_step[of k h ps kv] Cons.IH[of "select_step k kv h" "age_of kv # ps"] by simp
qed simp

lemma selected_Nil: "selected k [] []"
  by (simp add: selected_def heap_ok_def)

lemma select_result:
  assumes "0 < k"
  shows "\<exists>h d. selectOldest drained k = map fkey h \<and> mset (map age_of drained) = mset h + mset d \<and>
    (\<forall>x \<in> set h. \<forall>y \<in> set d. seen x \<le> seen y) \<and> length h = min (nat k) (length drained)"
proof -
  let ?h = "fold (select_step (nat k)) drained []"
  have "selected (nat k) ?h (rev (map age_of drained))"
    using selected_fold[OF _ selected_Nil, of "nat k" drained] assms by simp
  then obtain d where d: "mset (map age_of drained) = mset ?h + mset d"
    "\<forall>x \<in> set ?h. \<forall>y \<in> set d. seen x \<le> seen y" "length ?h \<le> nat k" "d = [] \<or> length ?h = nat k"
    by (auto simp: selected_def)
  have "length drained = length ?h + length d"
    using d(1) by (metis length_map size_mset size_union)
  then have "length ?h = min (nat k) (length drained)" using d(3,4) by auto
  then show ?thesis using d assms by (auto simp: selectOldest_def)
qed

lemma age_of_keys_fun: "fkey \<circ> age_of = fst"
  by (rule ext) (simp add: age_of_def)

lemma selectOldest_oldest:
  assumes "mwf drained" and "0 < k"
  shows "distinct (selectOldest drained k)"
    and "set (selectOldest drained k) \<subseteq> fst ` set drained"
    and "length (selectOldest drained k) = min (nat k) (length drained)"
    and "(a, va) \<in> set drained \<Longrightarrow> a \<in> set (selectOldest drained k) \<Longrightarrow>
      (b, vb) \<in> set drained \<Longrightarrow> b \<notin> set (selectOldest drained k) \<Longrightarrow> LastSeenNs va \<le> LastSeenNs vb"
proof -
  obtain h d where h: "selectOldest drained k = map fkey h" "mset (map age_of drained) = mset h + mset d"
    "\<forall>x \<in> set h. \<forall>y \<in> set d. seen x \<le> seen y" "length h = min (nat k) (length drained)"
    using select_result[OF assms(2)] by blast
  have keys: "mset (map fst drained) = mset (map fkey h) + mset (map fkey d)"
    using arg_cong[OF h(2), of "image_mset fkey"] by (simp add: image_mset.compositionality age_of_keys_fun)
  have "distinct (map fkey h @ map fkey d)"
    using assms(1) keys by (metis mset_append mset_eq_imp_distinct_iff mwf_def)
  then show "distinct (selectOldest drained k)" using h(1) by simp
  show "set (selectOldest drained k) \<subseteq> fst ` set drained"
    using arg_cong[OF keys, of set_mset] h(1) by auto
  show "length (selectOldest drained k) = min (nat k) (length drained)" using h(1,4) by simp
  have sets: "age_of ` set drained = set h \<union> set d"
    using arg_cong[OF h(2), of set_mset] by simp
  have key_age: "x = y" if "x \<in> age_of ` set drained" "y \<in> age_of ` set drained" "fkey x = fkey y" for x y
    using that assms(1) by (auto simp: age_of_def mget_in_set)
  assume a: "(a, va) \<in> set drained" "a \<in> set (selectOldest drained k)"
    and b: "(b, vb) \<in> set drained" "b \<notin> set (selectOldest drained k)"
  have in_drained: "age_of (a, va) \<in> age_of ` set drained" "age_of (b, vb) \<in> age_of ` set drained"
    using a(1) b(1) by blast+
  obtain x where x: "x \<in> set h" "fkey x = a" using a(2) h(1) by auto
  have "x = age_of (a, va)" using key_age[of x "age_of (a, va)"] x sets in_drained by (auto simp: age_of_def)
  moreover have "age_of (b, vb) \<in> set d"
    using in_drained(2) sets b(2) h(1) by (force simp: age_of_def)
  ultimately show "LastSeenNs va \<le> LastSeenNs vb"
    using h(3) x(1) by (fastforce simp: age_of_def)
qed

lemma select_oldest_correct_facts:
  assumes "mwf drained"
  shows "distinct (selectOldest drained k)" "set (selectOldest drained k) \<subseteq> fst ` set drained"
    "length (selectOldest drained k) = min (nat k) (length drained)"
  using selectOldest_oldest(1-3)[OF assms] by (cases "0 < k"; simp add: selectOldest_def)+

section \<open>A relief cycle\<close>

text \<open>One pass whose deletes all succeed, on a map that gets no new flows meanwhile.\<close>

definition relief_pass ::
  "('f \<Rightarrow> int \<Rightarrow> int) \<Rightarrow> int \<Rightarrow> 'f pressure_params \<Rightarrow>
   (flow_key, flow_metrics) gomap \<times> bool \<Rightarrow> (flow_key, flow_metrics) gomap \<times> bool" where
  "relief_pass mark maxEntries pp dr =
    (case Relieve mark (\<lambda>_. True) maxEntries pp (fst dr) (snd dr) of
       (r, victims, evicted) \<Rightarrow> (mdels victims (fst dr), r))"

lemma length_selectOldest_mdels:
  assumes "mwf drained" and "0 < k"
  shows "length (mdels (selectOldest drained k) drained) = length drained - min (nat k) (length drained)"
  using selectOldest_oldest[OF assms] assms(1)
  by (subst length_mdels) (auto simp: mhas_iff)

lemma relief_pass_length:
  assumes "mwf drained" and "0 < maxEntries" and "1 \<le> PressureMaxPerPass pp"
    and "low = mark (PressureLowWatermark pp) maxEntries" and "0 \<le> low" and "low < int (length drained)"
  shows "relief_pass mark maxEntries pp (drained, True) =
      (mdels (selectOldest drained (min (PressureMaxPerPass pp) (int (length drained) - low))) drained, True) \<and>
    int (length (fst (relief_pass mark maxEntries pp (drained, True)))) =
      max low (int (length drained) - PressureMaxPerPass pp)"
proof -
  let ?k = "min (PressureMaxPerPass pp) (int (length drained) - low)"
  have k: "(if int (length drained) - low > PressureMaxPerPass pp then PressureMaxPerPass pp
      else int (length drained) - low) = ?k" by simp
  have r: "relief_pass mark maxEntries pp (drained, True) = (mdels (selectOldest drained ?k) drained, True)"
    using assms by (simp add: relief_pass_def Relieve_def Let_def k)
  moreover have "0 < ?k" using assms by simp
  ultimately show ?thesis
    using length_selectOldest_mdels[OF assms(1), of ?k] assms by auto
qed

lemma max_chain: "0 \<le> (q :: int) \<Longrightarrow> 1 \<le> p \<Longrightarrow> max low (max low (n - p) - q) = max low (n - (p + q))"
  by (auto simp: max_def)

lemma relief_cycle_length:
  assumes "mwf drained" and "0 < maxEntries" and "1 \<le> PressureMaxPerPass pp"
    and "low = mark (PressureLowWatermark pp) maxEntries" and "0 \<le> low" and "low \<le> int (length drained)"
  shows "int (length (fst ((relief_pass mark maxEntries pp ^^ m) (drained, True)))) =
    max low (int (length drained) - int m * PressureMaxPerPass pp)"
  using assms(1,6)
proof (induction m arbitrary: drained)
  case (Suc m)
  show ?case
  proof (cases "low < int (length drained)")
    case True
    let ?d = "mdels (selectOldest drained (min (PressureMaxPerPass pp) (int (length drained) - low))) drained"
    note p = relief_pass_length[where mark = mark, OF Suc.prems(1) assms(2-5) True]
    have "mwf ?d" using Suc.prems(1) by simp
    moreover note d = p[THEN conjunct1] p[THEN conjunct2, unfolded p[THEN conjunct1] fst_conv]
    moreover have "low \<le> int (length ?d)" using d(2) by simp
    ultimately have "int (length (fst ((relief_pass mark maxEntries pp ^^ m) (?d, True)))) =
        max low (int (length ?d) - int m * PressureMaxPerPass pp)" by (intro Suc.IH)
    then show ?thesis using d max_chain[of "int m * PressureMaxPerPass pp" "PressureMaxPerPass pp" low] assms(3)
      by (simp add: funpow_swap1 distrib_right)
  next
    case False
    then have n: "int (length drained) = low" using Suc.prems by simp
    have stay: "relief_pass mark maxEntries pp (drained, r) = (drained, False)" for r
      using n assms(2,4) by (simp add: relief_pass_def Relieve_def Let_def mdels_def)
    have it: "fst ((relief_pass mark maxEntries pp ^^ j) (drained, r)) = drained" for j r
      by (induction j arbitrary: r) (simp_all only: stay funpow_Suc_right funpow.simps(1) o_apply id_apply fst_conv)
    have "0 \<le> int (Suc m) * PressureMaxPerPass pp" using assms(3) by (intro mult_nonneg_nonneg) auto
    then show ?thesis using n by (simp only: it)
  qed
qed simp

section \<open>Properties\<close>

text \<open>
  C7. Relief picks the oldest flows. On any drained map, whatever order its range loop takes, the
  size-k heap of \<^verbatim>\<open>selectOldest\<close> returns distinct keys of the map, as many as asked for or as there
  are, and no flow it leaves behind was seen earlier than one it takes.
\<close>

theorem select_oldest_correct:
  assumes "mwf drained"
  shows "distinct (selectOldest drained k) \<and> set (selectOldest drained k) \<subseteq> fst ` set drained \<and>
    length (selectOldest drained k) = min (nat k) (length drained) \<and>
    (\<forall>a va b vb. mget drained a = Some va \<longrightarrow> a \<in> set (selectOldest drained k) \<longrightarrow>
       mget drained b = Some vb \<longrightarrow> b \<notin> set (selectOldest drained k) \<longrightarrow> LastSeenNs va \<le> LastSeenNs vb)"
proof (cases "0 < k")
  case True
  then show ?thesis
    using selectOldest_oldest(1-3)[OF assms] selectOldest_oldest(4)[OF assms True]
    by (auto simp: mget_in_set[OF assms, symmetric])
qed (simp add: selectOldest_def)

definition ex_drained :: "(flow_key, flow_metrics) gomap" where
  "ex_drained = map (\<lambda>(z, ns). (\<lparr>SrcMac = Mac 2 0 0 0 0 1, DstMac = Mac 2 0 0 0 0 2, EthProto = 0x0800,
     Direction = 0, DstZone = z, L4Proto = 1, Pad = 0\<rparr>, \<lparr>Bytes = 1, Packets = 1, LastSeenNs = ns, CreatedNs = 1\<rparr>))
     [(0, 30), (1, 10), (2, 40), (3, 20)]"

lemma length_ex_drained: "length ex_drained = 4"
  by (simp add: ex_drained_def)

lemma mwf_ex_drained: "mwf ex_drained"
  by (simp add: ex_drained_def mget_Cons)

theorem select_oldest_correct_witness:
  "length (selectOldest ex_drained 2) = 2 \<and> distinct (selectOldest ex_drained 2)"
  using select_oldest_correct[OF mwf_ex_drained, of 2] by (simp add: length_ex_drained)

text \<open>
  Relief works between its watermarks. With a map of n entries, \<^verbatim>\<open>Relieve\<close> deletes nothing at or
  below the low mark, where it also ends the cycle, nor between the marks outside a cycle; otherwise it
  is in a cycle and asks for the deletion of exactly min(n - low, max per pass) distinct flows of the map,
  so that a pass never takes the population below the low mark; the count it reports is the number of
  deletes that succeeded. Without a capacity it does nothing.
\<close>

theorem relieve_watermarks:
  assumes "mwf drained" and "low = mark (PressureLowWatermark pp) maxEntries"
    and "high = mark (PressureHighWatermark pp) maxEntries"
    and "Relieve mark del_ok maxEntries pp drained relieving = (r, victims, evicted)"
  shows "(if maxEntries \<le> 0 then r = relieving \<and> victims = []
     else if int (length drained) \<le> low then \<not> r \<and> victims = []
     else if \<not> relieving \<and> int (length drained) \<le> high then \<not> r \<and> victims = []
     else r \<and> distinct victims \<and> set victims \<subseteq> fst ` set drained \<and>
       (0 \<le> low \<longrightarrow> int (length victims) = max 0 (min (PressureMaxPerPass pp) (int (length drained) - low)))) \<and>
    evicted = length (filter del_ok victims)"
proof -
  define k where "k = (if int (length drained) - low > PressureMaxPerPass pp then PressureMaxPerPass pp
      else int (length drained) - low)"
  note so = select_oldest_correct_facts[OF assms(1), of k]
  have len: "int (length (selectOldest drained k)) = max 0 (min (PressureMaxPerPass pp) (int (length drained) - low))"
    if "0 \<le> low"
    using so(3) that by (auto simp: min_def max_def k_def)
  have R: "(r, victims, evicted) =
      (if maxEntries \<le> 0 then (relieving, [], 0)
       else if int (length drained) \<le> low then (False, [], 0)
       else if \<not> relieving \<and> int (length drained) \<le> high then (relieving, [], 0)
       else (True, selectOldest drained k, length (filter del_ok (selectOldest drained k))))"
    unfolding assms(4)[symmetric] k_def by (simp only: Relieve_def Let_def assms(2,3))
  show ?thesis
    using R so(1,2) len by (cases "maxEntries \<le> 0"; cases "int (length drained) \<le> low";
      cases "\<not> relieving \<and> int (length drained) \<le> high") auto
qed

theorem relieve_watermarks_witness:
  "Relieve (\<lambda>w m. w * m) (\<lambda>_. True) 1 \<lparr>PressureHighWatermark = 3, PressureLowWatermark = 2, PressureMaxPerPass = 9\<rparr>
     ex_drained False = (True, selectOldest ex_drained 2, 2) \<and> length (selectOldest ex_drained 2) = 2"
proof -
  let ?pp = "\<lparr>PressureHighWatermark = 3, PressureLowWatermark = 2, PressureMaxPerPass = 9\<rparr> :: int pressure_params"
  have r: "Relieve (\<lambda>w m. w * m) (\<lambda>_. True) 1 ?pp ex_drained False =
      (True, selectOldest ex_drained 2, length (filter (\<lambda>_. True) (selectOldest ex_drained 2)))"
    by (simp add: Relieve_def Let_def length_ex_drained)
  have "0 \<le> (2 :: int) \<longrightarrow> int (length (selectOldest ex_drained 2)) = max 0 (min 9 (int (length ex_drained) - 2))"
    using relieve_watermarks[OF mwf_ex_drained refl refl r] by (simp only: length_ex_drained) simp
  then show ?thesis using r by (simp add: length_ex_drained)
qed

text \<open>
  A relief cycle ends. While no flow is added and the kernel accepts the deletes, m passes of a cycle
  bring the map from n entries to max(low, n - m * max per pass): after enough passes it stands exactly at
  the low mark, however large it was, and the cycle is over.
\<close>

theorem relief_cycle_ends:
  assumes "mwf drained" and "0 < maxEntries" and "1 \<le> PressureMaxPerPass pp"
    and "low = mark (PressureLowWatermark pp) maxEntries" and "0 \<le> low" and "low \<le> int (length drained)"
    and "int (length drained) - low \<le> int m * PressureMaxPerPass pp"
  shows "int (length (fst ((relief_pass mark maxEntries pp ^^ m) (drained, True)))) = low \<and>
    \<not> snd ((relief_pass mark maxEntries pp ^^ Suc m) (drained, True))"
proof -
  let ?s = "(relief_pass mark maxEntries pp ^^ m) (drained, True)"
  have len: "int (length (fst ?s)) = low"
    using relief_cycle_length[where mark = mark and m = m, OF assms(1-6)] assms(7) by simp
  moreover have "snd (relief_pass mark maxEntries pp ?s) = False"
    using len assms(2,4) by (simp add: relief_pass_def Relieve_def Let_def split: prod.splits)
  ultimately show ?thesis by simp
qed

theorem relief_cycle_ends_witness:
  "int (length (fst ((relief_pass (\<lambda>w m. w * m) 1
     \<lparr>PressureHighWatermark = 3, PressureLowWatermark = 1, PressureMaxPerPass = 2\<rparr> ^^ 2) (ex_drained, True)))) = 1"
  using relief_cycle_ends[OF mwf_ex_drained, of 1
      "\<lparr>PressureHighWatermark = 3, PressureLowWatermark = 1, PressureMaxPerPass = 2\<rparr>" 1 "\<lambda>w m. w * m" 2]
  by (simp add: length_ex_drained)

end
