(* ===== verification/Scraper.thy ===== *)
theory Scraper
  imports Unresolved Gc_Pressure Kernel_Map
begin

text \<open>
  The drain of the kernel's per-CPU flow map (\<^verbatim>\<open>internal/agent/reader_linux.go\<close>) and the scrape loop
  (\<^verbatim>\<open>internal/scraper/scraper.go\<close>). The batch lookup of the eBPF library is an argument: from a cursor
  it fills the key and value buffers and returns how many keys it read, an error and the next cursor. The
  reader's loop ends only when the library reports one, so it is a partial function; the locale
  \<^verbatim>\<open>batch_map\<close> says what the library documents of an unchanged map.

  A tick is a function of one world: the error count, the time of the last success, the store with the
  unresolved buffer in front of it, and the relief latch. Kernel deletes are recorded in order in
  \<^verbatim>\<open>kdeletes\<close>.
\<close>

section \<open>The map reader\<close>

definition batchSize :: nat where "batchSize = 256"

record 'c batch =
  bRead :: nat
  bKeys :: "flow_key list"
  bVals :: "flow_metrics list"
  bErr :: "kerr option"
  bCursor :: 'c

definition percpu_add :: "flow_metrics \<Rightarrow> flow_metrics \<Rightarrow> flow_metrics" where
  "percpu_add v s =
    \<lparr>Bytes = Bytes s + Bytes v, Packets = Packets s + Packets v,
     LastSeenNs = (if LastSeenNs v > LastSeenNs s then LastSeenNs v else LastSeenNs s),
     CreatedNs = (if CreatedNs v > CreatedNs s then CreatedNs v else CreatedNs s)\<rparr>"

definition percpu_sum :: "flow_metrics list \<Rightarrow> flow_metrics" where
  "percpu_sum vs = fold percpu_add vs zero_metrics"

definition drain_batch :: "nat \<Rightarrow> 'c batch \<Rightarrow> (flow_key, flow_metrics) gomap \<Rightarrow> (flow_key, flow_metrics) gomap" where
  "drain_batch numCPU r dst =
    fold (\<lambda>i. mput (bKeys r ! i) (percpu_sum (map (\<lambda>j. bVals r ! (i * numCPU + j)) [0..<numCPU]))) [0..<bRead r] dst"

partial_function (option) BatchLookup ::
  "('c \<Rightarrow> 'c batch) \<Rightarrow> nat \<Rightarrow> 'c \<Rightarrow> (flow_key, flow_metrics) gomap \<Rightarrow> (kerr option \<times> (flow_key, flow_metrics) gomap) option" where
  "BatchLookup lookup numCPU cursor dst =
    (let r = lookup cursor; dst' = drain_batch numCPU r dst
     in case bErr r of
          Some ErrKeyNotExist \<Rightarrow> Some (None, dst')
        | Some ErrKernel \<Rightarrow> Some (Some ErrKernel, dst')
        | None \<Rightarrow> BatchLookup lookup numCPU (bCursor r) dst')"

section \<open>The scrape loop\<close>

record scraper =
  scErrors :: u64
  scLastOK :: int
  scWorld :: buf_world
  scRelieving :: bool

text \<open>
  What one tick reads: the metadata map, the clock at each capture, at the sweep and at the end, the live
  tunables, whether a sink and an evictor are wired, and the drain.
\<close>

record 'f tick_input =
  tiMeta :: sharded_map
  tiNow :: "flow_key \<Rightarrow> gotime"
  tiSweepNow :: gotime
  tiUnix :: int
  tiCap :: int
  tiTTL :: duration
  tiSink :: bool
  tiEvictor :: "(int \<times> 'f pressure_params) option"
  tiDrain :: "kerr option \<times> (flow_key, flow_metrics) gomap"

fun absorb_all :: "sharded_map \<Rightarrow> (flow_key \<Rightarrow> gotime) \<Rightarrow> int \<Rightarrow> (flow_key \<times> flow_metrics) list \<Rightarrow> buf_world \<Rightarrow> buf_world option" where
  "absorb_all meta now cap [] w = Some w"
| "absorb_all meta now cap ((k, v) # rows) w =
    (case Absorb meta (now k) cap k v w of None \<Rightarrow> None | Some w' \<Rightarrow> absorb_all meta now cap rows w')"

definition integrate :: "'f tick_input \<Rightarrow> (flow_key \<times> flow_metrics) list \<Rightarrow> buf_world \<Rightarrow> buf_world option" where
  "integrate ti rows w =
    (if tiSink ti
     then map_option (Classifier_Sweep (tiSweepNow ti) (tiTTL ti) False) (absorb_all (tiMeta ti) (tiNow ti) (tiCap ti) rows w)
     else Some (w\<lparr>gstate := fold (\<lambda>(k, v). ApplyDelta k v) rows (gstate w)\<rparr>))"

definition Tick :: "('f \<Rightarrow> int \<Rightarrow> int) \<Rightarrow> (flow_key \<Rightarrow> bool) \<Rightarrow> 'f tick_input \<Rightarrow> scraper \<Rightarrow> (kerr option \<times> scraper) option" where
  "Tick mark del_ok ti s =
    (case tiDrain ti of
       (Some e, _) \<Rightarrow> Some (Some e, s\<lparr>scErrors := scErrors s + 1\<rparr>)
     | (None, rows) \<Rightarrow>
         (case integrate ti rows (scWorld s) of
            None \<Rightarrow> None
          | Some w \<Rightarrow>
              (let s1 = s\<lparr>scWorld := w, scLastOK := tiUnix ti\<rparr>
               in case tiEvictor ti of
                    None \<Rightarrow> Some (None, s1)
                  | Some (maxEntries, pp) \<Rightarrow>
                      (case Relieve mark del_ok maxEntries pp rows (scRelieving s) of
                         (relieving, victims, n) \<Rightarrow>
                           Some (None, s1\<lparr>scRelieving := relieving, scWorld := w\<lparr>kdeletes := kdeletes w @ victims\<rparr>\<rparr>)))))"

fun ticks :: "('f \<Rightarrow> int \<Rightarrow> int) \<Rightarrow> (flow_key \<Rightarrow> bool) \<Rightarrow> 'f tick_input list \<Rightarrow> scraper \<Rightarrow> scraper option" where
  "ticks mark del_ok [] s = Some s"
| "ticks mark del_ok (ti # tis) s =
    (case Tick mark del_ok ti s of None \<Rightarrow> None | Some (_, s') \<Rightarrow> ticks mark del_ok tis s')"

text \<open>
  \<^verbatim>\<open>Run\<close>: one tick at the start, one per timer event until the context is cancelled, a final tick, and
  then the forced sweep of the sink.
\<close>

definition Run :: "('f \<Rightarrow> int \<Rightarrow> int) \<Rightarrow> (flow_key \<Rightarrow> bool) \<Rightarrow> 'f tick_input \<Rightarrow> 'f tick_input list \<Rightarrow> 'f tick_input \<Rightarrow> scraper \<Rightarrow> scraper option" where
  "Run mark del_ok start timer final s =
    (case ticks mark del_ok (start # timer @ [final]) s of
       None \<Rightarrow> None
     | Some s' \<Rightarrow> Some (if tiSink final
                       then s'\<lparr>scWorld := Classifier_Sweep (tiSweepNow final) (tiTTL final) True (scWorld s')\<rparr>
                       else s'))"

section \<open>What the reader relies on\<close>

locale batch_map =
  fixes lookup :: "'c \<Rightarrow> 'c batch" and numCPU :: nat and remaining :: "'c \<Rightarrow> (flow_key \<times> flow_metrics list) list"
  assumes counts_read: "bRead (lookup cur) \<le> length (remaining cur)"
    and keys: "i < bRead (lookup cur) \<Longrightarrow> bKeys (lookup cur) ! i = fst (remaining cur ! i)"
    and vals: "i < bRead (lookup cur) \<Longrightarrow> j < numCPU \<Longrightarrow> bVals (lookup cur) ! (i * numCPU + j) = snd (remaining cur ! i) ! j"
    and slots: "(k, vs) \<in> set (remaining cur) \<Longrightarrow> length vs = numCPU"
    and more: "bErr (lookup cur) = None \<Longrightarrow> 0 < bRead (lookup cur) \<and> remaining (bCursor (lookup cur)) = drop (bRead (lookup cur)) (remaining cur)"
    and ends: "bErr (lookup cur) = Some ErrKeyNotExist \<Longrightarrow> bRead (lookup cur) = length (remaining cur)"
    and no_error: "bErr (lookup cur) \<noteq> Some ErrKernel"
begin

lemma slice: "i < bRead (lookup cur) \<Longrightarrow> map (\<lambda>j. bVals (lookup cur) ! (i * numCPU + j)) [0..<numCPU] = snd (remaining cur ! i)"
proof -
  assume i: "i < bRead (lookup cur)"
  then have "remaining cur ! i \<in> set (remaining cur)" using counts_read[of cur] by simp
  then have "length (snd (remaining cur ! i)) = numCPU" using slots[of "fst (remaining cur ! i)"] by simp
  then show ?thesis using vals[OF i] by (auto intro!: nth_equalityI)
qed

lemma drain_batch_rows:
  "drain_batch numCPU (lookup cur) dst = mputs (map (\<lambda>(k, vs). (k, percpu_sum vs)) (take (bRead (lookup cur)) (remaining cur))) dst"
proof -
  have "map (\<lambda>i. (bKeys (lookup cur) ! i, percpu_sum (map (\<lambda>j. bVals (lookup cur) ! (i * numCPU + j)) [0..<numCPU]))) [0..<bRead (lookup cur)] =
      map (\<lambda>(k, vs). (k, percpu_sum vs)) (take (bRead (lookup cur)) (remaining cur))"
    using counts_read[of cur] by (auto intro!: nth_equalityI simp: keys slice split: prod.splits)
  then show ?thesis
    unfolding drain_batch_def mputs_def by (metis (no_types, lifting) fold_map comp_def case_prod_conv fold_cong)
qed

lemma mputs_append: "mputs (xs @ ys) m = mputs ys (mputs xs m)"
  by (simp add: mputs_def)

lemma BatchLookup_all:
  "BatchLookup lookup numCPU cur dst = Some (None, mputs (map (\<lambda>(k, vs). (k, percpu_sum vs)) (remaining cur)) dst)"
proof (induction "length (remaining cur)" arbitrary: cur dst rule: less_induct)
  case less
  let ?r = "lookup cur"
  show ?case
  proof (cases "bErr ?r")
    case None
    note m = more[OF None]
    have "length (remaining (bCursor ?r)) < length (remaining cur)" unfolding m[THEN conjunct2] length_drop using m counts_read[of cur] by linarith
    from less[OF this] show ?thesis
      using None m by (subst BatchLookup.simps)
        (simp add: Let_def drain_batch_rows mputs_append[symmetric] map_append[symmetric] del: map_append)
  next
    case (Some e)
    then have "e = ErrKeyNotExist" using no_error[of cur] by (cases e) auto
    then show ?thesis using Some ends[of cur] by (subst BatchLookup.simps) (simp add: Let_def drain_batch_rows)
  qed
qed

end

text \<open>A map of \<^term>\<open>n\<close> CPU slots per key, read in chunks of \<^verbatim>\<open>batchSize\<close>, obeys the contract.\<close>

definition slot_row :: "nat \<Rightarrow> flow_key \<times> flow_metrics list \<Rightarrow> flow_key \<times> flow_metrics list" where
  "slot_row n row = (fst row, take n (snd row @ replicate n zero_metrics))"

definition chunk :: "nat \<Rightarrow> (flow_key \<times> flow_metrics list) list \<Rightarrow> nat \<Rightarrow> nat batch" where
  "chunk n rows i =
    (let rest = drop i (map (slot_row n) rows); now = take batchSize rest
     in \<lparr>bRead = length now, bKeys = map fst now, bVals = concat (map snd now),
         bErr = (if length rest \<le> batchSize then Some ErrKeyNotExist else None), bCursor = i + batchSize\<rparr>)"

lemma length_slot_row [simp]: "length (snd (slot_row n row)) = n"
  by (simp add: slot_row_def)

lemma nth_concat_slots:
  "\<forall>x\<in>set xs. length (snd x) = n \<Longrightarrow> i < length xs \<Longrightarrow> j < n \<Longrightarrow> concat (map snd xs) ! (i * n + j) = snd (xs ! i) ! j"
proof (induction xs arbitrary: i)
  case (Cons x xs)
  then show ?case
    by (cases i) (auto simp: nth_append)
qed simp

interpretation chunked: batch_map "chunk n rows" n "\<lambda>i. drop i (map (slot_row n) rows)" for n rows
proof
  fix cur i j k vs
  let ?now = "take batchSize (drop cur (map (slot_row n) rows))"
  have n: "\<forall>x\<in>set ?now. length (snd x) = n" 
    by (metis (no_types, lifting) in_set_dropD in_set_takeD length_slot_row list.set_map imageE)
  show "bRead (chunk n rows cur) \<le> length (drop cur (map (slot_row n) rows))"
    by (simp add: chunk_def Let_def)
  show "bKeys (chunk n rows cur) ! i = fst (drop cur (map (slot_row n) rows) ! i)" if "i < bRead (chunk n rows cur)"
    using that by (simp add: chunk_def Let_def)
  show "bVals (chunk n rows cur) ! (i * n + j) = snd (drop cur (map (slot_row n) rows) ! i) ! j"
    if "i < bRead (chunk n rows cur)" "j < n"
    using that nth_concat_slots[OF n, of i j] by (simp add: chunk_def Let_def)
  show "length vs = n" if "(k, vs) \<in> set (drop cur (map (slot_row n) rows))"
    using that by (auto dest!: in_set_dropD) (metis length_slot_row snd_conv)
  show "0 < bRead (chunk n rows cur) \<and> drop (bCursor (chunk n rows cur)) (map (slot_row n) rows) =
      drop (bRead (chunk n rows cur)) (drop cur (map (slot_row n) rows))" if "bErr (chunk n rows cur) = None"
    using that by (auto simp: chunk_def Let_def batchSize_def add.commute split: if_splits)
  show "bRead (chunk n rows cur) = length (drop cur (map (slot_row n) rows))" if "bErr (chunk n rows cur) = Some ErrKeyNotExist"
    using that by (auto simp: chunk_def Let_def split: if_splits)
  show "bErr (chunk n rows cur) \<noteq> Some ErrKernel" by (simp add: chunk_def Let_def)
qed

section \<open>Aggregation over CPUs\<close>

lemma percpu_fold:
  "Bytes (fold percpu_add vs s) = Bytes s + sum_list (map Bytes vs)"
  "Packets (fold percpu_add vs s) = Packets s + sum_list (map Packets vs)"
  "CreatedNs (fold percpu_add vs s) = fold max (map CreatedNs vs) (CreatedNs s)"
  "LastSeenNs (fold percpu_add vs s) = fold max (map LastSeenNs vs) (LastSeenNs s)"
  by (induction vs arbitrary: s) (auto simp: percpu_add_def max_def add.assoc)

lemma percpu_sum_fields:
  "Bytes (percpu_sum vs) = sum_list (map Bytes vs)" "Packets (percpu_sum vs) = sum_list (map Packets vs)"
  "CreatedNs (percpu_sum vs) = Max (insert 0 (CreatedNs ` set vs))" "LastSeenNs (percpu_sum vs) = Max (insert 0 (LastSeenNs ` set vs))"
proof -
  have "fold max xs a = Max (insert a (set xs))" for xs and a :: u64
    by (metis Max.set_eq_fold list.set(2))
  then show "CreatedNs (percpu_sum vs) = Max (insert 0 (CreatedNs ` set vs))" "LastSeenNs (percpu_sum vs) = Max (insert 0 (LastSeenNs ` set vs))"
    by (simp_all add: percpu_sum_def percpu_fold zero_metrics_def)
qed (simp_all add: percpu_sum_def percpu_fold zero_metrics_def)

section \<open>A tick under the cap\<close>

lemma evict_under_cap: "int (length (entries (buf w))) \<le> cap \<Longrightarrow> evictOverCap cap w = Some w"
  by (subst evictOverCap.simps) simp

text \<open>The row a known flow has after its reading: what was buffered for it is taken over first.\<close>

definition known_row :: "buf_world \<Rightarrow> flow_key \<Rightarrow> flow_metrics \<Rightarrow> counter" where
  "known_row w k v =
    (case (case mget (entries (buf w)) k of
             None \<Rightarrow> mget (counts (gstate w)) k
           | Some e \<Rightarrow> Some (case mget (counts (gstate w)) k of
               None \<Rightarrow> \<lparr>Total = bTotal e, LastEbpfRaw = bLastRaw e\<rparr>
             | Some c \<Rightarrow> (fold_total (bTotal e) c)\<lparr>LastEbpfRaw := bLastRaw e\<rparr>)) of
       None \<Rightarrow> \<lparr>Total = v, LastEbpfRaw = v\<rparr>
     | Some c \<Rightarrow> counter_step v c)"

lemma known_row_baseline [simp]: "LastEbpfRaw (known_row w k v) = v"
  by (simp add: known_row_def split: option.splits)

lemma known_row_cong:
  "mget (entries (buf w)) k = mget (entries (buf w')) k \<Longrightarrow> mget (counts (gstate w)) k = mget (counts (gstate w')) k \<Longrightarrow>
   known_row w k v = known_row w' k v"
  unfolding known_row_def by (simp only:)

lemma Absorb_total:
  assumes "world_ok w"
  shows "\<exists>w'. Absorb meta now cap k v w = Some w' \<and> world_ok w'"
proof (cases "ShardedMetadataMap_Lookup meta (VMMAC k)")
  case None
  then show ?thesis
    using bytes_m.Capture_known_key[OF assms, of k _ now cap v] bytes_m.Capture_new_key[OF assms, of k now cap v]
    by (cases "mget (entries (buf w)) k") (auto simp: Absorb_def)
next
  case (Some m)
  then show ?thesis
    using bytes_m.Buffer_Resolve_conserves(1)[OF assms, of k] by (auto simp: Absorb_def Let_def world_ok_def)
qed

lemma Absorb_under_cap:
  assumes "world_ok w" and "int (length (entries (buf w))) < cap"
  shows "\<exists>w'. Absorb meta now cap k v w = Some w' \<and> world_ok w' \<and> length (entries (buf w')) \<le> Suc (length (entries (buf w))) \<and>
    (\<forall>k'. k' \<noteq> k \<longrightarrow> mget (counts (gstate w')) k' = mget (counts (gstate w)) k' \<and> mget (entries (buf w')) k' = mget (entries (buf w)) k') \<and>
    (ShardedMetadataMap_Lookup meta (VMMAC k) \<noteq> None \<longrightarrow> mget (entries (buf w')) k = None \<and>
      mget (counts (gstate w')) k = Some (known_row w k v))"
proof (cases "ShardedMetadataMap_Lookup meta (VMMAC k)")
  case None
  then show ?thesis
    using assms evict_under_cap
    by (cases "mget (entries (buf w)) k")
       (auto simp: Absorb_def Capture_def Let_def AddDelta_def length_mput mhas_def world_ok_def buffer_ok_def)
next
  case (Some m)
  have ok: "world_ok (fst (Buffer_Resolve k w))" using bytes_m.Buffer_Resolve_conserves(1)[OF assms(1)] .
  have "length (entries (buf (fst (Buffer_Resolve k w)))) \<le> length (entries (buf w))"
    using assms(1) by (auto simp: Buffer_Resolve_def buffer_drop_def length_mdel world_ok_def buffer_ok_def split: option.splits)
  then show ?thesis
    using Some ok
    by (auto simp: Absorb_def Let_def Buffer_Resolve_def buffer_drop_def mget_counts_ApplyDelta mget_counts_Resolve world_ok_def
        known_row_def split: option.splits)
qed

lemma absorb_all_total: "world_ok w \<Longrightarrow> \<exists>w'. absorb_all meta now cap rows w = Some w' \<and> world_ok w'"
proof (induction rows arbitrary: w)
  case (Cons row rows)
  obtain k v where row: "row = (k, v)" by (cases row)
  obtain w1 where "Absorb meta (now k) cap k v w = Some w1" "world_ok w1"
    using Absorb_total[OF Cons.prems] by blast
  then show ?case using Cons.IH[of w1] row by simp
qed simp

lemma absorb_all_known:
  assumes "world_ok w" and "mwf rows" and "int (length (entries (buf w)) + length rows) \<le> cap"
  shows "\<exists>w'. absorb_all meta now cap rows w = Some w' \<and> world_ok w' \<and>
    (\<forall>k. \<not> mhas rows k \<longrightarrow> mget (counts (gstate w')) k = mget (counts (gstate w)) k \<and> mget (entries (buf w')) k = mget (entries (buf w)) k) \<and>
    (\<forall>k v. mget rows k = Some v \<and> ShardedMetadataMap_Lookup meta (VMMAC k) \<noteq> None \<longrightarrow>
       mget (entries (buf w')) k = None \<and> mget (counts (gstate w')) k = Some (known_row w k v))"
  using assms
proof (induction rows arbitrary: w)
  case (Cons row rows)
  obtain k v where row: "row = (k, v)" by (cases row)
  obtain w1 where w1: "Absorb meta (now k) cap k v w = Some w1" "world_ok w1"
      "length (entries (buf w1)) \<le> Suc (length (entries (buf w)))"
      "\<And>k'. k' \<noteq> k \<Longrightarrow> mget (counts (gstate w1)) k' = mget (counts (gstate w)) k' \<and> mget (entries (buf w1)) k' = mget (entries (buf w)) k'"
      "ShardedMetadataMap_Lookup meta (VMMAC k) \<noteq> None \<Longrightarrow> mget (entries (buf w1)) k = None \<and> mget (counts (gstate w1)) k = Some (known_row w k v)"
    using Absorb_under_cap[OF Cons.prems(1), of cap meta "now k" k v] Cons.prems(3) by auto
  obtain w' where w': "absorb_all meta now cap rows w1 = Some w'" "world_ok w'"
    "\<And>k'. \<not> mhas rows k' \<Longrightarrow> mget (counts (gstate w')) k' = mget (counts (gstate w1)) k' \<and> mget (entries (buf w')) k' = mget (entries (buf w1)) k'"
    "\<And>k' v'. mget rows k' = Some v' \<Longrightarrow> ShardedMetadataMap_Lookup meta (VMMAC k') \<noteq> None \<Longrightarrow>
       mget (entries (buf w')) k' = None \<and> mget (counts (gstate w')) k' = Some (known_row w1 k' v')"
    using Cons.IH[OF w1(2)] Cons.prems(2,3) w1(3) row by auto
  have fresh: "\<not> mhas rows k" using Cons.prems(2) row by (simp add: mhas_def)
  have "known_row w1 k' v' = known_row w k' v'" if "k' \<noteq> k" for k' v'
    using w1(4)[OF that] by (intro known_row_cong) auto
  then have "\<forall>k' v'. mget (row # rows) k' = Some v' \<and> ShardedMetadataMap_Lookup meta (VMMAC k') \<noteq> None \<longrightarrow>
       mget (entries (buf w')) k' = None \<and> mget (counts (gstate w')) k' = Some (known_row w k' v')"
    using w'(3)[OF fresh] w'(4) w1(5) row by (auto simp: mget_Cons split: if_splits)
  moreover have "\<forall>k'. \<not> mhas (row # rows) k' \<longrightarrow>
      mget (counts (gstate w')) k' = mget (counts (gstate w)) k' \<and> mget (entries (buf w')) k' = mget (entries (buf w)) k'"
    using w'(3) w1(4) row by (auto simp: mhas_def mget_Cons split: if_splits)
  ultimately show ?case using w'(1,2) w1(1) row by auto
qed auto

text \<open>A sweep credits only the synthetic rows of the unknown tenant, whose MACs are zero.\<close>

lemma VMMAC_unknown [simp]: "VMMAC (unknown_key k) = 0"
  by (simp add: VMMAC_def unknown_key_def)

lemma sweep_keeps_row:
  assumes "VMMAC k \<noteq> 0"
  shows "mget (counts (gstate (fst (Buffer_Sweep now ttl force w)))) k = mget (counts (gstate w)) k"
proof -
  have ne: "k \<noteq> unknown_key k'" for k' using assms by auto
  have "mget (counts (gstate (fst (fold (sweep_row now ttl force) rows (w, n))))) k = mget (counts (gstate w)) k" for rows n
    by (induction rows arbitrary: w n) (auto simp: buffer_drop_def foldToUnknown_def mget_counts_Add ne)
  then show ?thesis by (simp add: Buffer_Sweep_def)
qed

lemma Relieve_victims:
  assumes "mwf rows" and "Relieve mark del_ok maxEntries pp rows relieving = (r, victims, n)"
  shows "set victims \<subseteq> fst ` set rows"
  using assms(2) select_oldest_correct_facts(2)[OF assms(1)] by (auto simp: Relieve_def Let_def split: if_splits)

lemma integrate_total:
  assumes "world_ok w"
  shows "\<exists>w'. integrate ti rows w = Some w' \<and> world_ok w'"
proof (cases "tiSink ti")
  case True
  obtain w1 where "absorb_all (tiMeta ti) (tiNow ti) (tiCap ti) rows w = Some w1" "world_ok w1"
    using absorb_all_total[OF assms] by blast
  then show ?thesis using True bytes_m.Sweep_conserves[of w1] by (simp add: integrate_def Classifier_Sweep_def)
next
  case False
  have "gs_wf (fold (\<lambda>(k, v). ApplyDelta k v) rows (gstate w))"
    by (rule fold_invariant_pres[where P = gs_wf]) (use assms in \<open>auto simp: world_ok_def\<close>)
  then show ?thesis using False assms by (simp add: integrate_def world_ok_def)
qed

lemma Tick_total:
  assumes "world_ok (scWorld s)"
  shows "\<exists>e s'. Tick mark del_ok ti s = Some (e, s') \<and> world_ok (scWorld s')"
  using integrate_total[OF assms, of ti "snd (tiDrain ti)"] assms
  by (cases "tiDrain ti"; cases "fst (tiDrain ti)") (auto simp: Tick_def Let_def world_ok_def split: option.splits prod.splits)

lemma ticks_total:
  "world_ok (scWorld s) \<Longrightarrow> \<exists>s'. ticks mark del_ok tis s = Some s' \<and> world_ok (scWorld s')"
proof (induction tis arbitrary: s)
  case (Cons ti tis)
  obtain e s1 where "Tick mark del_ok ti s = Some (e, s1)" "world_ok (scWorld s1)"
    using Tick_total[OF Cons.prems] by blast
  then show ?case using Cons.IH by simp
qed simp

section \<open>Properties\<close>

text \<open>
  The drain is complete and exact. When the batch lookup enumerates the kernel map as documented and
  the map holds every key once, \<^verbatim>\<open>BatchLookup\<close> returns without an error and the buffer then holds exactly
  the keys of the map, each with its bytes and packets summed over the CPU slots and with the largest
  creation stamp of the slots.
\<close>

theorem drain_complete:
  assumes "batch_map lookup numCPU remaining" and "distinct (map fst (remaining cursor))"
  shows "\<exists>dst. BatchLookup lookup numCPU cursor [] = Some (None, dst) \<and> mwf dst \<and>
    (\<forall>k. mget dst k = map_option percpu_sum (map_of (remaining cursor) k)) \<and>
    (\<forall>k vs. (k, vs) \<in> set (remaining cursor) \<longrightarrow> (\<exists>v. mget dst k = Some v \<and> Bytes v = sum_list (map Bytes vs) \<and>
       Packets v = sum_list (map Packets vs) \<and> CreatedNs v = Max (insert 0 (CreatedNs ` set vs))))"
proof -
  let ?rows = "map (\<lambda>(k, vs). (k, percpu_sum vs)) (remaining cursor)"
  have d: "mwf ?rows" using assms(2) by (simp add: mwf_def comp_def case_prod_unfold)
  have look: "mget (mputs ?rows []) k = map_option percpu_sum (map_of (remaining cursor) k)" for k
    using mget_mputs_self[OF d] by (simp add: mget_def map_of_map)
  have "\<exists>v. mget (mputs ?rows []) k = Some v \<and> Bytes v = sum_list (map Bytes vs) \<and>
       Packets v = sum_list (map Packets vs) \<and> CreatedNs v = Max (insert 0 (CreatedNs ` set vs))"
    if "(k, vs) \<in> set (remaining cursor)" for k vs
    using that assms(2) by (simp add: look percpu_sum_fields)
  then show ?thesis
    using batch_map.BatchLookup_all[OF assms(1), of cursor "[]"] look by (auto intro: mwf_mputs)
qed

definition ex_slots :: "(flow_key \<times> flow_metrics list) list" where
  "ex_slots = [(ex_key 1, [ex_metrics 10 7, ex_metrics 20 0]), (ex_key 2, [ex_metrics 1 0, ex_metrics 2 9])]"

theorem drain_complete_witness:
  "\<exists>dst. BatchLookup (chunk 2 ex_slots) 2 0 [] = Some (None, dst) \<and> map_option Bytes (mget dst (ex_key 1)) = Some 30 \<and>
     map_option CreatedNs (mget dst (ex_key 1)) = Some 7"
proof -
  have "ex_key 1 \<noteq> ex_key 2" by (simp add: ex_key_def)
  then show ?thesis
    using drain_complete[OF chunked.batch_map_axioms[of 2 ex_slots], of 0]
    by (auto simp: ex_slots_def slot_row_def percpu_sum_fields ex_metrics_def eval_nat_numeral)
qed


definition ex_tick :: "int tick_input" where
  "ex_tick = \<lparr>tiMeta = ex_meta_map, tiNow = (\<lambda>_. 0), tiSweepNow = 0, tiUnix = 99, tiCap = 9, tiTTL = 60, tiSink = True,
     tiEvictor = None, tiDrain = (None, [(ex_key 1, ex_metrics 45 7)])\<rparr>"

definition ex_scraper :: scraper where
  "ex_scraper = \<lparr>scErrors = 0, scLastOK = 0, scWorld = ex_world, scRelieving = False\<rparr>"

lemma ex_key_known: "ShardedMetadataMap_Lookup ex_meta_map (VMMAC (ex_key 1)) = Some (ex_meta ''a'')"
  using lookup_ex by (simp add: VMMAC_def ex_key_def DirectionIngress_def del: MACKey.simps)


text \<open>
  C16. The scrape loop never gets stuck and a shutdown loses nothing. From a consistent world, whatever
  the drains return, every tick returns, the loop of the start tick, any number of timer ticks and the
  final tick completes, and the forced sweep after the final tick leaves an empty buffer, moves exactly
  what was buffered into the store and asks the kernel for no delete.
\<close>

theorem run_shutdown_lossless:
  assumes "world_ok (scWorld s)" and "tiSink final" and "pick \<in> {pick_bytes, pick_packets}"
  shows "\<exists>s1 s'. ticks mark del_ok (start # timer @ [final]) s = Some s1 \<and> Run mark del_ok start timer final s = Some s' \<and>
    entries (buf (scWorld s')) = [] \<and> kdeletes (scWorld s') = kdeletes (scWorld s1) \<and>
    held pick (gstate (scWorld s')) = held pick (gstate (scWorld s1)) + buffered pick (scWorld s1)"
proof -
  obtain s1 where s1: "ticks mark del_ok (start # timer @ [final]) s = Some s1" "world_ok (scWorld s1)"
    using ticks_total[OF assms(1)] by blast
  let ?w = "Classifier_Sweep (tiSweepNow final) (tiTTL final) True (scWorld s1)"
  have "mget (entries (buf ?w)) k = None" for k
    using sweep_fold_rows(2)[OF world_ok_rows(1)[OF s1(2)], of "tiSweepNow final" "tiTTL final" True "scWorld s1" 0 k]
    by (simp add: Classifier_Sweep_def Buffer_Sweep_def mget_def split: option.splits)
  then have empty: "entries (buf ?w) = []"
    by (rule gomap_emptyI)
  have "kdeletes ?w = kdeletes (scWorld s1)"
    using sweep_fold_rows(1)[OF world_ok_rows(1)[OF s1(2)], of "tiSweepNow final" "tiTTL final" True "scWorld s1" 0]
    by (simp add: Classifier_Sweep_def Buffer_Sweep_def)
  moreover have "held pick (gstate ?w) + buffered pick ?w = held pick (gstate (scWorld s1)) + buffered pick (scWorld s1)"
    using assms(3) bytes_m.Sweep_conserves[OF s1(2)] packets_m.Sweep_conserves[OF s1(2)] by (auto simp: Classifier_Sweep_def)
  ultimately show ?thesis
    using s1(1) assms(2) empty by (simp add: Run_def buffered_def)
qed

theorem run_shutdown_lossless_witness:
  "\<exists>s1 s'. ticks (\<lambda>f n. f) (\<lambda>_. True) [ex_tick, ex_tick] ex_scraper = Some s1 \<and>
     Run (\<lambda>f n. f) (\<lambda>_. True) ex_tick [] ex_tick ex_scraper = Some s' \<and> entries (buf (scWorld s')) = [] \<and>
     held pick_bytes (gstate (scWorld s')) = held pick_bytes (gstate (scWorld s1)) + buffered pick_bytes (scWorld s1)"
  using run_shutdown_lossless[of ex_scraper ex_tick pick_bytes "\<lambda>f n. f" "\<lambda>_. True" ex_tick "[]"] world_ok_ex
  by (auto simp: ex_scraper_def ex_tick_def)

text \<open>
  An eviction in the middle of a tick counts a flow twice. The buffer of capacity one holds a flow with
  40 bytes; the next drain reads a new flow with 5 bytes and the held one, unchanged at 40. Visiting the
  new flow first evicts the held one into the unknown tenant, and its stale reading, already drained, is
  then captured from zero: store and buffer hold 85 bytes although the kernel counted 45.
\<close>

lemma eviction_mid_tick_counts_twice:
  "map_option (\<lambda>w. held pick_bytes (gstate w) + buffered pick_bytes w)
     (absorb_all ShardedMetadataMap_New (\<lambda>_. 0) 1 [(ex_key 2, ex_metrics 5 8), (ex_key 1, ex_metrics 40 7)]
        (ex_world\<lparr>buf := \<lparr>entries = [(ex_key 1, \<lparr>bTotal = ex_metrics 40 7, bLastRaw = ex_metrics 40 7, firstSeen = 0\<rparr>)],
                          order = [ex_key 1]\<rparr>\<rparr>)) = Some 85"
proof -
  have ne: "ex_key 1 \<noteq> ex_key 2" "ex_key 2 \<noteq> ex_key 1" by (simp_all add: ex_key_def)
  have unk: "unknown_key (ex_key 1) \<noteq> unknown_key (ex_key 2)" by (simp add: ex_key_def unknown_key_def)
  show ?thesis
    by (simp add: Absorb_def Capture_def ne evictOverCap.simps ex_world_def mget_Cons mput_Cons mdel_Cons buffer_drop_def
        foldToUnknown_def Add_def New_def held_def live_sum_def live_val_def buffered_def pick_bytes_def ex_metrics_def unk Let_def)
qed

end
