(* ===== verification/Netip.thy ===== *)
theory Netip
  imports Bpf_Abi
begin

text \<open>
  What the sources use of Go's \<^verbatim>\<open>net/netip\<close>, \<^verbatim>\<open>net.ParseMAC\<close> and \<^verbatim>\<open>strings\<close>: parsing
  of addresses, prefixes and hardware addresses, their textual forms, containment, masking,
  and ASCII case folding. The parsers follow the grammar of the standard library: decimal octets
  without leading zeros, hexadecimal groups with one ellipsis and an embedded IPv4 tail, a zone after
  a percent sign, and a prefix length without sign or leading zeros.
\<close>

unbundle bit_operations_syntax

section \<open>Strings\<close>

fun split_on :: "char \<Rightarrow> string \<Rightarrow> string list" where
  "split_on c [] = [[]]"
| "split_on c (x # xs) =
    (if x = c then [] # split_on c xs
     else (case split_on c xs of [] \<Rightarrow> [[x]] | p # ps \<Rightarrow> (x # p) # ps))"

definition HasPrefix :: "string \<Rightarrow> string \<Rightarrow> bool" where
  "HasPrefix s p \<longleftrightarrow> take (length p) s = p"

definition lower :: "char \<Rightarrow> char" where
  "lower c = (let n = of_char c :: nat in if 65 \<le> n \<and> n \<le> 90 then char_of (n + 32) else c)"

text \<open>\<^verbatim>\<open>strings.EqualFold\<close> on ASCII text.\<close>

definition EqualFold :: "string \<Rightarrow> string \<Rightarrow> bool" where
  "EqualFold a b \<longleftrightarrow> map lower a = map lower b"

definition hex_digit :: "char \<Rightarrow> nat option" where
  "hex_digit c = (let n = of_char c :: nat in
     if 48 \<le> n \<and> n \<le> 57 then Some (n - 48)
     else if 97 \<le> n \<and> n \<le> 102 then Some (n - 87)
     else if 65 \<le> n \<and> n \<le> 70 then Some (n - 55) else None)"

definition is_hex :: "char \<Rightarrow> bool" where
  "is_hex c \<longleftrightarrow> hex_digit c \<noteq> None"

definition hex_value :: "string \<Rightarrow> nat" where
  "hex_value s = foldl (\<lambda>a c. 16 * a + (case hex_digit c of None \<Rightarrow> 0 | Some d \<Rightarrow> d)) 0 s"

section \<open>Addresses\<close>

definition parse_octet :: "string \<Rightarrow> u32 option" where
  "parse_octet s =
    (if s \<noteq> [] \<and> list_all is_digit s \<and> (length s = 1 \<or> hd s \<noteq> CHR ''0'') \<and> parse_digits s \<le> 255
     then Some (of_nat (parse_digits s)) else None)"

definition parseIPv4 :: "string \<Rightarrow> u32 option" where
  "parseIPv4 s =
    (case split_on CHR ''.'' s of
       [a, b, c, d] \<Rightarrow>
         (case (parse_octet a, parse_octet b, parse_octet c, parse_octet d) of
            (Some w, Some x, Some y, Some z) \<Rightarrow> Some (push_bit 24 w OR push_bit 16 x OR push_bit 8 y OR z)
          | _ \<Rightarrow> None)
     | _ \<Rightarrow> None)"

text \<open>The groups read so far, the position of the ellipsis, and the rest of the text.\<close>

fun parse6 :: "nat \<Rightarrow> nat list \<Rightarrow> nat option \<Rightarrow> string \<Rightarrow> (nat list \<times> nat option) option" where
  "parse6 0 gs ell s = (if s = [] then Some (gs, ell) else None)"
| "parse6 (Suc n) gs ell s =
    (let h = takeWhile is_hex s; r = dropWhile is_hex s
     in if h = [] \<or> length h > 4 then None
        else if r \<noteq> [] \<and> hd r = CHR ''.'' then
          (if (ell = None \<and> length gs \<noteq> 6) \<or> length gs > 6 then None
           else map_option (\<lambda>v. (gs @ [unat (drop_bit 16 v), unat (v AND mask 16)], ell)) (parseIPv4 s))
        else (let gs' = gs @ [hex_value h]
              in if r = [] then Some (gs', ell)
                 else if hd r \<noteq> CHR '':'' \<or> tl r = [] then None
                 else if hd (tl r) = CHR '':'' then
                   (if ell \<noteq> None then None
                    else if tl (tl r) = [] then Some (gs', Some (length gs'))
                    else parse6 n gs' (Some (length gs')) (tl (tl r)))
                 else parse6 n gs' ell (tl r)))"

definition expand6 :: "nat list \<times> nat option \<Rightarrow> (128 word) option" where
  "expand6 ge =
    (case ge of (gs, ell) \<Rightarrow>
       (let val = (\<lambda>gs. fold (\<lambda>g acc. push_bit 16 acc OR of_nat g) gs (0 :: 128 word))
        in if length gs < 8
           then (case ell of None \<Rightarrow> None | Some e \<Rightarrow> Some (val (take e gs @ replicate (8 - length gs) 0 @ drop e gs)))
           else if ell \<noteq> None then None else Some (val gs)))"

definition parseIPv6 :: "string \<Rightarrow> addr option" where
  "parseIPv6 s =
    (let body = takeWhile (\<lambda>c. c \<noteq> CHR ''%'') s; zone = tl (dropWhile (\<lambda>c. c \<noteq> CHR ''%'') s)
     in if CHR ''%'' \<in> set s \<and> zone = [] then None
        else if body = ''::'' then Some (Addr6 0 zone)
        else (let start = (if HasPrefix body ''::'' then Some 0 else None);
                  rest = (if HasPrefix body ''::'' then drop 2 body else body)
              in case parse6 8 [] start rest of
                   None \<Rightarrow> None
                 | Some ge \<Rightarrow> map_option (\<lambda>v. Addr6 v zone) (expand6 ge)))"

text \<open>\<^verbatim>\<open>netip.ParseAddr\<close> looks for the first dot, colon or percent sign.\<close>

definition ParseAddr :: "string \<Rightarrow> addr option" where
  "ParseAddr s =
    (case dropWhile (\<lambda>c. c \<notin> {CHR ''.'', CHR '':'', CHR ''%''}) s of
       [] \<Rightarrow> None
     | c # _ \<Rightarrow> if c = CHR ''.'' then map_option Addr4 (parseIPv4 s)
                else if c = CHR '':'' then parseIPv6 s else None)"

definition Is4 :: "addr \<Rightarrow> bool" where
  "Is4 a = (case a of Addr4 _ \<Rightarrow> True | Addr6 _ _ \<Rightarrow> False)"

definition String4 :: "u32 \<Rightarrow> string" where
  "String4 a = (case map (\<lambda>b. format_uint (unat b)) (As4 a) of
     [w, x, y, z] \<Rightarrow> w @ ''.'' @ x @ ''.'' @ y @ ''.'' @ z | _ \<Rightarrow> [])"

text \<open>
  \<^verbatim>\<open>Addr.String\<close> of an IPv6 address: lower-case groups without leading zeros, the first longest run
  of two or more zero groups as an ellipsis, an IPv4-mapped address with its dotted tail, and the zone
  after a percent sign.
\<close>

definition hex_char :: "nat \<Rightarrow> char" where
  "hex_char n = (if n < 10 then char_of (48 + n) else char_of (87 + n))"

fun format_hex :: "nat \<Rightarrow> string" where
  "format_hex n = (if n < 16 then [hex_char n] else format_hex (n div 16) @ [hex_char (n mod 16)])"

fun join_with :: "string \<Rightarrow> string list \<Rightarrow> string" where
  "join_with sep [] = []"
| "join_with sep [s] = s"
| "join_with sep (s # ss) = s @ sep @ join_with sep ss"

definition groups6 :: "128 word \<Rightarrow> nat list" where
  "groups6 a = map (\<lambda>i. unat (drop_bit (112 - 16 * i) a AND mask 16)) [0..<8]"

definition zero_run :: "nat list \<Rightarrow> nat \<times> nat" where
  "zero_run gs =
    fold (\<lambda>i (zeroStart, zeroEnd).
            let l = length (takeWhile (\<lambda>g. g = 0) (drop i gs))
            in if l \<ge> 2 \<and> l > zeroEnd - zeroStart then (i, i + l) else (zeroStart, zeroEnd)) [0..<8] (255, 255)"

definition String6 :: "128 word \<Rightarrow> string" where
  "String6 a =
    (let gs = groups6 a; hex = (\<lambda>gs. join_with '':'' (map format_hex gs))
     in case zero_run gs of (s, e) \<Rightarrow>
          if s < 8 then hex (take s gs) @ ''::'' @ hex (drop e gs) else hex gs)"

definition Addr_String :: "addr \<Rightarrow> string" where
  "Addr_String a =
    (case a of
       Addr4 v \<Rightarrow> String4 v
     | Addr6 v zone \<Rightarrow>
         (if drop_bit 32 v = 0xFFFF then ''::ffff:'' @ String4 (ucast v) else String6 v) @
         (if zone = [] then [] else CHR ''%'' # zone))"

section \<open>Prefixes\<close>

definition last_slash :: "string \<Rightarrow> (string \<times> string) option" where
  "last_slash s =
    (if CHR ''/'' \<in> set s
     then Some (rev (tl (dropWhile (\<lambda>c. c \<noteq> CHR ''/'') (rev s))), rev (takeWhile (\<lambda>c. c \<noteq> CHR ''/'') (rev s)))
     else None)"

definition parse_bits :: "string \<Rightarrow> nat option" where
  "parse_bits s =
    (if s \<noteq> [] \<and> list_all is_digit s \<and> (length s = 1 \<or> hd s \<noteq> CHR ''0'') then Some (parse_digits s) else None)"

definition ParsePrefix :: "string \<Rightarrow> prefix option" where
  "ParsePrefix s =
    (case last_slash s of
       None \<Rightarrow> None
     | Some (ip, bits) \<Rightarrow>
         (case (ParseAddr ip, parse_bits bits) of
            (Some a, Some n) \<Rightarrow>
              (case a of
                 Addr4 _ \<Rightarrow> if n \<le> 32 then Some \<lparr>PAddr = a, PBits = n\<rparr> else None
               | Addr6 _ zone \<Rightarrow> if zone = [] \<and> n \<le> 128 then Some \<lparr>PAddr = a, PBits = n\<rparr> else None)
          | _ \<Rightarrow> None))"

definition Contains :: "prefix \<Rightarrow> addr \<Rightarrow> bool" where
  "Contains p ip =
    (case (PAddr p, ip) of
       (Addr4 a, Addr4 b) \<Rightarrow> drop_bit (32 - PBits p) (b XOR a) = 0
     | (Addr6 a _, Addr6 b zone) \<Rightarrow> zone = [] \<and> drop_bit (128 - PBits p) (b XOR a) = 0
     | _ \<Rightarrow> False)"

definition Masked :: "prefix \<Rightarrow> prefix" where
  "Masked p =
    (case PAddr p of
       Addr4 a \<Rightarrow> p\<lparr>PAddr := Addr4 (a AND NOT (mask (32 - PBits p)))\<rparr>
     | Addr6 a zone \<Rightarrow> p\<lparr>PAddr := Addr6 (a AND NOT (mask (128 - PBits p))) zone\<rparr>)"

definition Prefix_String4 :: "u32 \<Rightarrow> nat \<Rightarrow> string" where
  "Prefix_String4 a n = String4 a @ ''/'' @ format_uint n"

section \<open>Hardware addresses\<close>

text \<open>
  \<^verbatim>\<open>net.ParseMAC\<close>: two-digit groups separated by colons or hyphens, or four-digit groups separated by
  dots, of 6, 8 or 20 bytes.
\<close>

definition hex_bytes :: "string \<Rightarrow> u8 list option" where
  "hex_bytes g =
    (if list_all is_hex g
     then (case g of [a, b] \<Rightarrow> Some [of_nat (hex_value [a, b])]
           | [a, b, c, d] \<Rightarrow> Some [of_nat (hex_value [a, b]), of_nat (hex_value [c, d])]
           | _ \<Rightarrow> None)
     else None)"

fun join_groups :: "nat \<Rightarrow> string list \<Rightarrow> u8 list option" where
  "join_groups w [] = Some []"
| "join_groups w (g # gs) =
    (if length g \<noteq> w then None
     else (case (hex_bytes g, join_groups w gs) of (Some bs, Some rest) \<Rightarrow> Some (bs @ rest) | _ \<Rightarrow> None))"

definition ParseMAC :: "string \<Rightarrow> u8 list option" where
  "ParseMAC s =
    (if length s < 14 then None
     else (case (if s ! 2 = CHR '':'' \<or> s ! 2 = CHR ''-'' then join_groups 2 (split_on (s ! 2) s)
                 else if s ! 4 = CHR ''.'' then join_groups 4 (split_on CHR ''.'' s) else None) of
             None \<Rightarrow> None
           | Some bs \<Rightarrow> if length bs \<in> {6, 8, 20} then Some bs else None))"

text \<open>A six-byte hardware address as the key type.\<close>

definition ParseMAC6 :: "string \<Rightarrow> mac option" where
  "ParseMAC6 s = (case ParseMAC s of Some [a, b, c, d, e, f] \<Rightarrow> Some (Mac a b c d e f) | _ \<Rightarrow> None)"

text \<open>\<^verbatim>\<open>HardwareAddr.String\<close>.\<close>

definition hex_byte :: "u8 \<Rightarrow> string" where
  "hex_byte b = [hex_char (unat b div 16), hex_char (unat b mod 16)]"

definition HardwareAddr_String :: "u8 list \<Rightarrow> string" where
  "HardwareAddr_String bs = join_with '':'' (map hex_byte bs)"

section \<open>Round trips\<close>

lemma split_on_append: "c \<notin> set w \<Longrightarrow> split_on c (w @ c # rest) = w # split_on c rest"
  by (induction w) auto

lemma split_on_single: "c \<notin> set w \<Longrightarrow> split_on c w = [w]"
  by (induction w) auto

lemma format_uint_no_sep: "\<not> is_digit c \<Longrightarrow> c \<notin> set (format_uint n)"
  using format_uint_digits by blast

lemma format_uint_leading: "length (format_uint n) = 1 \<or> hd (format_uint n) \<noteq> CHR ''0''"
proof (induction n rule: format_uint.induct)
  case (1 n)
  show ?case
  proof (cases "n < 10")
    case True then show ?thesis by (subst (1 2) format_uint.simps) simp
  next
    case False
    have "hd (format_uint (n div 10)) \<noteq> CHR ''0''"
    proof
      assume h: "hd (format_uint (n div 10)) = CHR ''0''"
      then have "length (format_uint (n div 10)) = 1" using 1 False by blast
      then have "format_uint (n div 10) = [CHR ''0'']" using h by (cases "format_uint (n div 10)") auto
      then have "n div 10 = parse_digits ''0''" using parse_format_uint by metis
      then show False using False by (simp add: parse_digits_def)
    qed
    then show ?thesis using False by (subst (2) format_uint.simps) (simp add: hd_append)
  qed
qed

lemma list_all_format_uint: "list_all is_digit (format_uint n)"
  by (auto simp: list_all_iff dest: format_uint_digits)

lemma parse_octet_format: "parse_octet (format_uint (unat (b :: u8))) = Some (ucast b)"
proof -
  have "unat b < 2 ^ 8" using unsigned_less[of b, where ?'a = nat] by simp
  then have "unat b \<le> 255" by simp
  then show ?thesis using format_uint_leading by (simp add: parse_octet_def list_all_format_uint unsigned_ucast_eq[symmetric])
qed

lemma parse_bits_format: "parse_bits (format_uint n) = Some n"
  using format_uint_leading by (simp add: parse_bits_def list_all_format_uint)

lemma As4_combine: "push_bit 24 (ucast (ucast (drop_bit 24 a) :: u8)) OR push_bit 16 (ucast (ucast (drop_bit 16 a) :: u8)) OR
   push_bit 8 (ucast (ucast (drop_bit 8 a) :: u8)) OR ucast (ucast a :: u8) = (a :: u32)"
proof (rule bit_word_eqI)
  fix n assume "n < LENGTH(32)"
  then have "n < 8 \<or> (8 \<le> n \<and> n < 16) \<or> (16 \<le> n \<and> n < 24) \<or> (24 \<le> n \<and> n < 32)"
    by auto
  then show "bit (push_bit 24 (ucast (ucast (drop_bit 24 a) :: u8)) OR push_bit 16 (ucast (ucast (drop_bit 16 a) :: u8)) OR
   push_bit 8 (ucast (ucast (drop_bit 8 a) :: u8)) OR ucast (ucast a :: u8) :: u32) n = bit a n"
    by (elim disjE) (auto simp: bit_simps)
qed

lemma not_digit_seps [simp]: "\<not> is_digit CHR ''.''" "\<not> is_digit CHR ''/''" "\<not> is_digit CHR '':''" "\<not> is_digit CHR ''%''"
  by (simp_all add: is_digit_def)

lemma parseIPv4_String4: "parseIPv4 (String4 a) = Some a"
  by (simp add: parseIPv4_def String4_def As4_def split_on_append split_on_single format_uint_no_sep parse_octet_format As4_combine)

lemma String4_chars: "c \<in> set (String4 a) \<Longrightarrow> is_digit c \<or> c = CHR ''.''"
  by (auto simp: String4_def As4_def dest: format_uint_digits)

lemma ParseAddr_String4: "ParseAddr (String4 a) = Some (Addr4 a)"
proof -
  let ?p = "\<lambda>c. c \<notin> {CHR ''.'', CHR '':'', CHR ''%''}"
  have nd: "?p c" if "is_digit c" for c using that by (auto simp: is_digit_def)
  obtain rest where s: "String4 a = format_uint (unat (ucast (drop_bit 24 a) :: u8)) @ CHR ''.'' # rest"
    by (simp add: String4_def As4_def)
  have "dropWhile ?p (String4 a) = CHR ''.'' # rest"
    unfolding s using format_uint_digits nd by (subst dropWhile_append2) auto
  then show ?thesis by (simp add: ParseAddr_def parseIPv4_String4)
qed

lemma String4_inj: "String4 a = String4 b \<longleftrightarrow> a = b"
  by (metis option.inject parseIPv4_String4)

lemma last_slash_append: "CHR ''/'' \<notin> set r \<Longrightarrow> last_slash (l @ CHR ''/'' # r) = Some (l, r)"
  by (induction r rule: rev_induct) (auto simp: last_slash_def takeWhile_append)

lemma ParsePrefix_String4:
  assumes "n \<le> 32"
  shows "ParsePrefix (Prefix_String4 a n) = Some \<lparr>PAddr = Addr4 a, PBits = n\<rparr>"
  using assms by (simp add: ParsePrefix_def Prefix_String4_def last_slash_append format_uint_no_sep ParseAddr_String4 parse_bits_format)

lemma Prefix_String4_inj: "m \<le> 32 \<Longrightarrow> n \<le> 32 \<Longrightarrow> Prefix_String4 a m = Prefix_String4 b n \<longleftrightarrow> a = b \<and> m = n"
  using ParsePrefix_String4 by (metis addr.inject(1) option.inject prefix.ext_inject)

section \<open>Hardware addresses as text\<close>

text \<open>The sixteen digits, read back; none is a separator.\<close>

definition hex_ok :: "nat \<Rightarrow> bool" where
  "hex_ok n \<longleftrightarrow> hex_digit (hex_char n) = Some n \<and> hex_char n \<notin> {CHR '':'', CHR ''-'', CHR ''.''}"

lemma hex_all: "list_all hex_ok [0..<16]"
  by code_simp

lemma hex_char_props:
  assumes "n < 16"
  shows "hex_digit (hex_char n) = Some n" "hex_char n \<noteq> CHR '':''" 
  using hex_all assms by (auto simp: list_all_iff hex_ok_def)

lemma hex_byte_split: "unat (b :: u8) div 16 < 16" "unat b mod 16 < 16"
  using unsigned_less[of b, where ?'a = nat] by auto

lemma hex_bytes_byte: "hex_bytes (hex_byte b) = Some [b]"
proof -
  have "(of_nat (16 * (unat b div 16) + unat b mod 16) :: u8) = b" by (simp add: mult_div_mod_eq del: of_nat_add of_nat_mult)
  then show ?thesis
    by (simp add: hex_bytes_def hex_byte_def is_hex_def hex_char_props hex_byte_split hex_value_def del: of_nat_add of_nat_mult)
qed

lemma hex_byte_no_colon: "CHR '':'' \<notin> set (hex_byte b)"
  using hex_char_props(2)[OF hex_byte_split(1), of b] hex_char_props(2)[OF hex_byte_split(2), of b] by (auto simp: hex_byte_def)

lemma split_HardwareAddr: "bs \<noteq> [] \<Longrightarrow> split_on CHR '':'' (HardwareAddr_String bs) = map hex_byte bs"
proof (induction bs)
  case (Cons b bs)
  then show ?case
    by (cases bs) (simp_all add: HardwareAddr_String_def split_on_append split_on_single hex_byte_no_colon)
qed simp

lemma join_groups_bytes: "join_groups 2 (map hex_byte bs) = Some bs"
  by (induction bs) (auto simp: hex_bytes_byte, simp add: hex_byte_def)

lemma length_HardwareAddr: "length (HardwareAddr_String bs) = 3 * length bs - 1"
proof (induction bs)
  case (Cons b bs)
  then show ?case by (cases bs) (simp_all add: HardwareAddr_String_def hex_byte_def)
qed (simp add: HardwareAddr_String_def)

lemma ParseMAC_String:
  assumes "length bs = 6"
  shows "ParseMAC (HardwareAddr_String bs) = Some bs"
proof -
  obtain a b r where bs: "bs = a # b # r" using assms by (cases bs; cases "tl bs") auto
  have "HardwareAddr_String bs ! 2 = CHR '':''" by (simp add: bs HardwareAddr_String_def hex_byte_def)
  moreover have "bs \<noteq> []" using bs by simp
  ultimately show ?thesis using assms by (simp add: ParseMAC_def length_HardwareAddr split_HardwareAddr join_groups_bytes)
qed
section \<open>Containment\<close>

lemma xor_0_iff: "a XOR b = 0 \<longleftrightarrow> a = (b :: 'a::len word)"
  by (auto simp: bit_eq_iff bit_simps)

lemma drop_bit_xor_0: "drop_bit k (a XOR b) = 0 \<longleftrightarrow> drop_bit k a = drop_bit k (b :: 'a::len word)"
  by (simp add: xor_0_iff)

lemma Contains4: "Contains \<lparr>PAddr = Addr4 a, PBits = n\<rparr> (Addr4 b) \<longleftrightarrow> drop_bit (32 - n) a = drop_bit (32 - n) b"
  by (auto simp: Contains_def xor_0_iff)

lemma Contains_self: "PAddr p = Addr4 a \<Longrightarrow> Contains p (Addr4 a)"
  by (simp add: Contains_def)

lemma drop_bit_mono: "drop_bit m a = drop_bit m b \<Longrightarrow> m \<le> n \<Longrightarrow> drop_bit n a = drop_bit n (b :: 'a::len word)"
  by (metis add_diff_inverse_nat drop_bit_drop_bit linorder_not_le add.commute)

text \<open>A prefix that is no longer than another and contains its address contains all of it.\<close>

lemma Contains_supernet:
  assumes "PAddr p = Addr4 a" "PAddr q = Addr4 b" "PBits p \<le> PBits q" "Contains p (Addr4 b)" "Contains q (Addr4 c)"
  shows "Contains p (Addr4 c)"
  using assms drop_bit_mono[of "32 - PBits q" b c "32 - PBits p"]
  by (auto simp: Contains_def xor_0_iff)

lemma drop_bit_masked: "drop_bit k (a AND NOT (mask k)) = drop_bit k (a :: 'a::len word)"
  by (rule bit_word_eqI) (auto simp: bit_simps dest: bit_imp_le_length)

lemma Contains_Masked [simp]: "Contains (Masked p) ip = Contains p ip"
  by (cases p; cases "PAddr p"; cases ip) (auto simp: Contains_def Masked_def xor_0_iff drop_bit_masked simp del: drop_bit_and)

lemma Masked_simps [simp]: "PBits (Masked p) = PBits p" "Masked (Masked p) = Masked p"
  by (auto simp: Masked_def and.assoc split: addr.splits)

text \<open>Two masked prefixes of one length that share an address are equal.\<close>

lemma masked_unique:
  fixes a b :: u32
  assumes "Contains \<lparr>PAddr = Addr4 (a AND NOT (mask (32 - n))), PBits = n\<rparr> (Addr4 c)"
    and "Contains \<lparr>PAddr = Addr4 (b AND NOT (mask (32 - n))), PBits = n\<rparr> (Addr4 c)"
  shows "a AND NOT (mask (32 - n)) = b AND NOT (mask (32 - n))"
proof (rule bit_word_eqI)
  fix i
  have "drop_bit (32 - n) a = drop_bit (32 - n) b"
    using assms unfolding Contains4 drop_bit_masked by (rule trans[OF _ sym])
  then have "bit (drop_bit (32 - n) a) (i - (32 - n)) = bit (drop_bit (32 - n) b) (i - (32 - n))" by (rule arg_cong)
  then have "32 - n \<le> i \<Longrightarrow> bit a i = bit b i" by (simp only: bit_drop_bit_eq comp_apply le_add_diff_inverse)
  then show "bit (a AND NOT (mask (32 - n))) i = bit (b AND NOT (mask (32 - n))) i" by (auto simp: bit_simps)
qed

end
