(* ===== verification/Neutron.thy ===== *)
theory Neutron
  imports Netip
begin

text \<open>
  The Neutron data the agent consumes (\<^verbatim>\<open>internal/neutron/types.go\<close>, \<^verbatim>\<open>schema.go\<close>), the
  classification of ports by device owner (\<^verbatim>\<open>deviceowner.go\<close>) and the static-route resolver
  (\<^verbatim>\<open>resolve.go\<close>). All of it is pure code over one snapshot. The resolver only ever follows IPv4
  next hops, so a next hop is the 32-bit address.
\<close>

section \<open>Resources\<close>

record network =
  NetID :: string
  NetProjectID :: string
  NetName :: string
  Shared :: bool
  IsExternal :: bool

record subnet =
  SubID :: string
  SubNetworkID :: string
  SubProjectID :: string
  CIDR :: string
  GatewayIP :: string
  IPVersion :: int

record fixed_ip =
  FixSubnetID :: string
  IPAddress :: string

record port =
  PortUUID :: string
  PortNetworkID :: string
  PortProjectID :: string
  MACAddress :: string
  DeviceOwner :: string
  DeviceID :: string
  FixedIPs :: "fixed_ip list"

record floating_ip =
  FipID :: string
  FipPortID :: string
  FloatingNetworkID :: string

record project =
  ProjID :: string
  ProjName :: string

record nova_server =
  SrvID :: string
  SrvName :: string
  SrvProjectID :: string

record load_balancer =
  LbID :: string
  LbProjectID :: string
  Provider :: string

record amphora =
  AmpID :: string
  LoadBalancerID :: string
  ComputeID :: string
  LBNetworkIP :: string
  Status :: string

record route =
  Destination :: string
  Nexthop :: string

record router =
  RtrID :: string
  RtrProjectID :: string
  RtrName :: string
  ExternalNetworkID :: string
  Routes :: "route list"

record snapshot =
  Networks :: "network list"
  Subnets :: "subnet list"
  Ports :: "port list"
  Routers :: "router list"
  FloatingIPs :: "floating_ip list"
  Projects :: "project list"
  Servers :: "nova_server list"
  LoadBalancers :: "load_balancer list"
  Amphorae :: "amphora list"

record trie_entry =
  TenantID :: string
  Prefix :: prefix
  Zone :: u8

record ambiguity_hit =
  AhSourceTenant :: string
  AhRouterID :: string
  AhDestination :: prefix
  AhOwners :: "string list"

record cycle_hit =
  ChSourceTenant :: string
  ChSourceRouter :: string
  ChDestination :: prefix
  ChLoopRouter :: string

definition defaultMaxStaticRouteHops :: int where "defaultMaxStaticRouteHops = 16"
definition deviceOwnerNetworkPrefix :: string where "deviceOwnerNetworkPrefix = ''network:''"
definition deviceOwnerComputePrefix :: string where "deviceOwnerComputePrefix = ''compute:''"
definition deviceOwnerTrunkPrefix :: string where "deviceOwnerTrunkPrefix = ''trunk:''"
definition DeviceOwnerRouterInterface :: string where "DeviceOwnerRouterInterface = ''network:router_interface''"

section \<open>Device owners\<close>

definition IsInfraPort :: "string \<Rightarrow> bool" where
  "IsInfraPort deviceOwner =
    (if \<not> HasPrefix deviceOwner deviceOwnerNetworkPrefix then False
     else if deviceOwner = ''network:floatingip'' then False
     else True)"

definition IsVMPort :: "string \<Rightarrow> bool" where
  "IsVMPort deviceOwner =
    (if deviceOwner = [] then False
     else if HasPrefix deviceOwner deviceOwnerNetworkPrefix then False
     else True)"

definition IsComputePort :: "string \<Rightarrow> bool" where
  "IsComputePort deviceOwner = HasPrefix deviceOwner deviceOwnerComputePrefix"

definition IsTrunkSubport :: "string \<Rightarrow> bool" where
  "IsTrunkSubport deviceOwner = HasPrefix deviceOwner deviceOwnerTrunkPrefix"

definition IsKnownVMOwner :: "string \<Rightarrow> bool" where
  "IsKnownVMOwner deviceOwner =
    (if IsComputePort deviceOwner then True
     else if deviceOwner = ''Octavia'' \<or> HasPrefix deviceOwner ''Octavia:'' then True
     else if HasPrefix deviceOwner ''manila:'' then True
     else if HasPrefix deviceOwner ''baremetal:'' then True
     else if IsTrunkSubport deviceOwner then True
     else if deviceOwner = ''cube:mgr'' then True
     else False)"

section \<open>The resolver's index\<close>

record resolve_index =
  riRouters :: "(string, router) gomap"
  riSubnets :: "(string, subnet) gomap"
  riNetworks :: "(string, network) gomap"
  riRouterSubnets :: "(string, string list) gomap"
  riPortsInSubnet :: "(string, (string, port) gomap) gomap"
  riMaxHops :: int

definition mappend :: "'k \<Rightarrow> 'v \<Rightarrow> ('k, 'v list) gomap \<Rightarrow> ('k, 'v list) gomap" where
  "mappend k v m = mput k ((case mget m k of None \<Rightarrow> [] | Some vs \<Rightarrow> vs) @ [v]) m"

definition index_router_subnets :: "port \<Rightarrow> (string, string list) gomap \<Rightarrow> (string, string list) gomap" where
  "index_router_subnets p m =
    (if DeviceOwner p = DeviceOwnerRouterInterface \<and> DeviceID p \<noteq> []
     then fold (\<lambda>fip m. if FixSubnetID fip = [] then m else mappend (DeviceID p) (FixSubnetID fip) m) (FixedIPs p) m
     else m)"

definition index_port_ips :: "port \<Rightarrow> (string, (string, port) gomap) gomap \<Rightarrow> (string, (string, port) gomap) gomap" where
  "index_port_ips p m =
    fold (\<lambda>fip m. if FixSubnetID fip = [] \<or> IPAddress fip = [] then m
       else mput (FixSubnetID fip) (mput (IPAddress fip) p
              (case mget m (FixSubnetID fip) of None \<Rightarrow> [] | Some sub \<Rightarrow> sub)) m) (FixedIPs p) m"

definition newResolveIndex :: "snapshot \<Rightarrow> int \<Rightarrow> resolve_index" where
  "newResolveIndex snap maxHops =
    \<lparr>riRouters = fold (\<lambda>r. mput (RtrID r) r) (Routers snap) [],
     riSubnets = fold (\<lambda>s. mput (SubID s) s) (Subnets snap) [],
     riNetworks = fold (\<lambda>n. mput (NetID n) n) (Networks snap) [],
     riRouterSubnets = fold index_router_subnets (Ports snap) [],
     riPortsInSubnet = fold index_port_ips (Ports snap) [],
     riMaxHops = (if maxHops < 1 then defaultMaxStaticRouteHops else maxHops)\<rparr>"

section \<open>The resolver\<close>

definition zoneFor :: "string \<Rightarrow> string \<Rightarrow> network \<Rightarrow> u8" where
  "zoneFor ownerTenant sourceTenant n =
    (if IsExternal n then ZoneExternal
     else if Shared n then ZoneShared
     else if ownerTenant = sourceTenant then ZoneSameTenant
     else ZoneOtherTenant)"

definition supernetOf :: "string \<Rightarrow> prefix \<Rightarrow> prefix option" where
  "supernetOf cidr dst =
    (case ParsePrefix cidr of
       None \<Rightarrow> None
     | Some p \<Rightarrow> if PBits p > PBits dst \<or> \<not> Contains p (PAddr dst) then None else Some p)"

definition lpm_step :: "prefix \<Rightarrow> route \<Rightarrow> (route \<times> nat) option \<Rightarrow> (route \<times> nat) option" where
  "lpm_step destination r best =
    (case supernetOf (Destination r) destination of
       None \<Rightarrow> best
     | Some rp \<Rightarrow> (case best of None \<Rightarrow> Some (r, PBits rp)
                  | Some (b, bestBits) \<Rightarrow> if PBits rp > bestBits then Some (r, PBits rp) else best))"

definition lpmMatchRoute :: "route list \<Rightarrow> prefix \<Rightarrow> route option" where
  "lpmMatchRoute routes destination = map_option fst (fold (lpm_step destination) routes None)"

definition list_at :: "('k, 'v list) gomap \<Rightarrow> 'k \<Rightarrow> 'v list" where
  "list_at m k = (case mget m k of None \<Rightarrow> [] | Some vs \<Rightarrow> vs)"

fun anchor_scan :: "resolve_index \<Rightarrow> string list \<Rightarrow> u32 \<Rightarrow> subnet option" where
  "anchor_scan ri [] nexthop = None"
| "anchor_scan ri (sid # sids) nexthop =
    (case mget (riSubnets ri) sid of
       None \<Rightarrow> anchor_scan ri sids nexthop
     | Some s \<Rightarrow>
         if IPVersion s \<noteq> 4 then anchor_scan ri sids nexthop
         else (case ParsePrefix (CIDR s) of
                 None \<Rightarrow> anchor_scan ri sids nexthop
               | Some p \<Rightarrow> if Contains p (Addr4 nexthop) then Some s else anchor_scan ri sids nexthop))"

definition anchorSubnet :: "resolve_index \<Rightarrow> string \<Rightarrow> u32 \<Rightarrow> subnet option" where
  "anchorSubnet ri routerID nexthop = anchor_scan ri (list_at (riRouterSubnets ri) routerID) nexthop"

definition portAt :: "resolve_index \<Rightarrow> string \<Rightarrow> string \<Rightarrow> port option" where
  "portAt ri subnetID ip =
    (case mget (riPortsInSubnet ri) subnetID of None \<Rightarrow> None | Some sub \<Rightarrow> mget sub ip)"

text \<open>The scan of the next router's interface subnets: the first matching network and the distinct owners.\<close>

definition next_match :: "resolve_index \<Rightarrow> subnet \<Rightarrow> prefix \<Rightarrow> string \<Rightarrow> network option" where
  "next_match ri enteredThrough destination sid =
    (case mget (riSubnets ri) sid of
       None \<Rightarrow> None
     | Some s \<Rightarrow>
         if IPVersion s \<noteq> 4 \<or> SubNetworkID s = SubNetworkID enteredThrough then None
         else if supernetOf (CIDR s) destination = None then None
         else mget (riNetworks ri) (SubNetworkID s))"

definition owner_step :: "resolve_index \<Rightarrow> subnet \<Rightarrow> prefix \<Rightarrow> string \<Rightarrow> network option \<times> string list \<Rightarrow> network option \<times> string list" where
  "owner_step ri enteredThrough destination sid acc =
    (case next_match ri enteredThrough destination sid of
       None \<Rightarrow> acc
     | Some n \<Rightarrow>
         (case acc of (matched, owners) \<Rightarrow>
            (if matched = None then Some n else matched,
             if NetProjectID n \<in> set owners then owners else owners @ [NetProjectID n])))"

datatype next_result = NotResolved | ResolvedAs u8 "ambiguity_hit option"

definition resolveAtNextRouter :: "resolve_index \<Rightarrow> router \<Rightarrow> subnet \<Rightarrow> prefix \<Rightarrow> string \<Rightarrow> next_result" where
  "resolveAtNextRouter ri nextRouter enteredThrough destination sourceTenant =
    (case fold (owner_step ri enteredThrough destination) (list_at (riRouterSubnets ri) (RtrID nextRouter)) (None, []) of
       (None, _) \<Rightarrow> NotResolved
     | (Some matchedNet, matchedOwners) \<Rightarrow>
         if length matchedOwners > 1
         then ResolvedAs ZoneExternal (Some \<lparr>AhSourceTenant = sourceTenant, AhRouterID = RtrID nextRouter,
                AhDestination = destination, AhOwners = matchedOwners\<rparr>)
         else ResolvedAs (zoneFor (NetProjectID matchedNet) sourceTenant matchedNet) None)"

type_synonym route_result = "u8 \<times> ambiguity_hit option \<times> cycle_hit option"

text \<open>
  One iteration of the hop loop either ends the trace or moves to the next router with a new next hop.
\<close>

datatype hop = Done route_result | Go router u32

definition follow_router :: "resolve_index \<Rightarrow> router \<Rightarrow> prefix \<Rightarrow> subnet \<Rightarrow> port \<Rightarrow> string list \<Rightarrow> hop" where
  "follow_router ri r destination ifaceSubnet p visited =
    (case mget (riRouters ri) (DeviceID p) of
       None \<Rightarrow> Done (ZoneExternal, None, None)
     | Some nextRouter \<Rightarrow>
         if RtrID nextRouter \<in> set visited
         then Done (ZoneExternal, None, Some \<lparr>ChSourceTenant = RtrProjectID r, ChSourceRouter = RtrID r,
                ChDestination = destination, ChLoopRouter = RtrID nextRouter\<rparr>)
         else (case resolveAtNextRouter ri nextRouter ifaceSubnet destination (RtrProjectID r) of
                 ResolvedAs zone hit \<Rightarrow> Done (zone, hit, None)
               | NotResolved \<Rightarrow>
                   (case lpmMatchRoute (Routes nextRouter) destination of
                      None \<Rightarrow> Done (ZoneExternal, None, None)
                    | Some nextRoute \<Rightarrow>
                        (case ParseAddr (Nexthop nextRoute) of
                           Some (Addr4 nh) \<Rightarrow> Go nextRouter nh
                         | _ \<Rightarrow> Done (ZoneExternal, None, None)))))"

definition hop_once :: "resolve_index \<Rightarrow> router \<Rightarrow> prefix \<Rightarrow> router \<Rightarrow> u32 \<Rightarrow> string list \<Rightarrow> hop" where
  "hop_once ri r destination currentRouter currentNexthop visited =
    (case anchorSubnet ri (RtrID currentRouter) currentNexthop of
       None \<Rightarrow> Done (ZoneExternal, None, None)
     | Some ifaceSubnet \<Rightarrow>
         (case portAt ri (SubID ifaceSubnet) (String4 currentNexthop) of
            None \<Rightarrow> Done (ZoneExternal, None, None)
          | Some p \<Rightarrow>
              if DeviceOwner p = DeviceOwnerRouterInterface then follow_router ri r destination ifaceSubnet p visited
              else if IsComputePort (DeviceOwner p) then
                (case mget (riNetworks ri) (SubNetworkID ifaceSubnet) of
                   None \<Rightarrow> Done (ZoneExternal, None, None)
                 | Some ifaceNetwork \<Rightarrow> Done (zoneFor (PortProjectID p) (RtrProjectID r) ifaceNetwork, None, None))
              else Done (ZoneExternal, None, None)))"

fun trace_route :: "nat \<Rightarrow> resolve_index \<Rightarrow> router \<Rightarrow> prefix \<Rightarrow> router \<Rightarrow> u32 \<Rightarrow> string list \<Rightarrow> route_result" where
  "trace_route 0 ri r destination currentRouter currentNexthop visited = (ZoneExternal, None, None)"
| "trace_route (Suc hops) ri r destination currentRouter currentNexthop visited =
    (case hop_once ri r destination currentRouter currentNexthop visited of
       Done res \<Rightarrow> res
     | Go nextRouter nh \<Rightarrow> trace_route hops ri r destination nextRouter nh (RtrID nextRouter # visited))"

definition resolveStaticRouteZone :: "resolve_index \<Rightarrow> router \<Rightarrow> prefix \<Rightarrow> u32 \<Rightarrow> route_result" where
  "resolveStaticRouteZone ri r destination initialNexthop =
    trace_route (nat (riMaxHops ri)) ri r destination r initialNexthop [RtrID r]"

section \<open>The index\<close>

lemma fold_put_sound:
  assumes "mget (fold (\<lambda>x. mput (key x) x) xs []) k = Some x"
  shows "x \<in> set xs \<and> key x = k"
proof -
  have "\<forall>k x. mget (fold (\<lambda>x. mput (key x) x) xs []) k = Some x \<longrightarrow> x \<in> set xs \<and> key x = k"
    by (rule fold_invariant_pres[where P = "\<lambda>m. \<forall>k x. mget m k = Some x \<longrightarrow> x \<in> set xs \<and> key x = k"]) auto
  then show ?thesis using assms by blast
qed

lemma index_sound:
  "mget (riRouters (newResolveIndex snap h)) k = Some r \<Longrightarrow> r \<in> set (Routers snap) \<and> RtrID r = k"
  "mget (riSubnets (newResolveIndex snap h)) k = Some s \<Longrightarrow> s \<in> set (Subnets snap) \<and> SubID s = k"
  "mget (riNetworks (newResolveIndex snap h)) k = Some n \<Longrightarrow> n \<in> set (Networks snap) \<and> NetID n = k"
  using fold_put_sound[of RtrID "Routers snap"] fold_put_sound[of SubID "Subnets snap"] fold_put_sound[of NetID "Networks snap"]
  by (simp_all add: newResolveIndex_def)

text \<open>Every port in the address table holds that address on that subnet.\<close>

definition port_table_ok :: "port set \<Rightarrow> (string, (string, port) gomap) gomap \<Rightarrow> bool" where
  "port_table_ok ps m \<longleftrightarrow> (\<forall>sid sub ip p. mget m sid = Some sub \<and> mget sub ip = Some p \<longrightarrow>
     p \<in> ps \<and> (\<exists>f\<in>set (FixedIPs p). FixSubnetID f = sid \<and> IPAddress f = ip))"

lemma index_port_ips_ok:
  assumes "port_table_ok ps m" and "p \<in> ps"
  shows "port_table_ok ps (index_port_ips p m)"
proof -
  have "port_table_ok ps (fold (\<lambda>fip m. if FixSubnetID fip = [] \<or> IPAddress fip = [] then m
       else mput (FixSubnetID fip) (mput (IPAddress fip) p
              (case mget m (FixSubnetID fip) of None \<Rightarrow> [] | Some sub \<Rightarrow> sub)) m) (FixedIPs p) m)"
  proof (rule fold_invariant_pres[where P = "port_table_ok ps"])
    fix f m' assume f: "f \<in> set (FixedIPs p)" and ok: "port_table_ok ps m'"
    show "port_table_ok ps (if FixSubnetID f = [] \<or> IPAddress f = [] then m'
       else mput (FixSubnetID f) (mput (IPAddress f) p (case mget m' (FixSubnetID f) of None \<Rightarrow> [] | Some sub \<Rightarrow> sub)) m')"
      using ok f assms(2) unfolding port_table_ok_def
      by (cases "mget m' (FixSubnetID f)") (auto simp: mget_Cons split: if_splits intro: bexI[of _ f])
  qed (rule assms(1))
  then show ?thesis by (simp add: index_port_ips_def)
qed

lemma portAt_sound:
  assumes "portAt (newResolveIndex snap h) sid ip = Some p"
  shows "p \<in> set (Ports snap) \<and> (\<exists>f\<in>set (FixedIPs p). FixSubnetID f = sid \<and> IPAddress f = ip)"
proof -
  have "port_table_ok (set (Ports snap)) (fold index_port_ips (Ports snap) [])"
    by (rule fold_invariant_pres[where P = "port_table_ok (set (Ports snap))"])
       (auto simp: index_port_ips_ok port_table_ok_def[of _ "[]"])
  then show ?thesis
    using assms unfolding port_table_ok_def by (auto simp: portAt_def newResolveIndex_def split: option.splits)
qed

text \<open>Every subnet listed for a router is attached to it by an interface port.\<close>

definition attached :: "snapshot \<Rightarrow> string \<Rightarrow> string \<Rightarrow> bool" where
  "attached snap routerID sid \<longleftrightarrow> (\<exists>p\<in>set (Ports snap). DeviceOwner p = DeviceOwnerRouterInterface \<and> DeviceID p = routerID \<and>
     (\<exists>f\<in>set (FixedIPs p). FixSubnetID f = sid))"

lemma list_at_mappend: "list_at (mappend k v m) k' = (if k' = k then list_at m k @ [v] else list_at m k')"
  by (simp add: list_at_def mappend_def)

lemma router_subnets_sound:
  assumes "sid \<in> set (list_at (riRouterSubnets (newResolveIndex snap h)) rid)"
  shows "attached snap rid sid"
proof -
  let ?ok = "\<lambda>m. \<forall>rid sid. sid \<in> set (list_at m rid) \<longrightarrow> attached snap rid sid"
  have step: "?ok (index_router_subnets p m)" if "p \<in> set (Ports snap)" "?ok m" for p m
  proof (cases "DeviceOwner p = DeviceOwnerRouterInterface \<and> DeviceID p \<noteq> []")
    case True
    have "?ok (fold (\<lambda>fip m. if FixSubnetID fip = [] then m else mappend (DeviceID p) (FixSubnetID fip) m) (FixedIPs p) m)"
      by (rule fold_invariant_pres[where P = ?ok])
         (use that True in \<open>auto simp: list_at_mappend attached_def\<close>)
    then show ?thesis using True by (simp add: index_router_subnets_def)
  qed (use that in \<open>auto simp: index_router_subnets_def\<close>)
  have "?ok (fold index_router_subnets (Ports snap) [])"
    by (rule fold_invariant_pres[where P = ?ok]) (use step in \<open>auto simp: list_at_def[of "[]"]\<close>)
  then show ?thesis using assms by (simp add: newResolveIndex_def)
qed

section \<open>The hop limit\<close>

lemma hop_once_Go:
  assumes "hop_once ri r d cur nh visited = Go r' nh'"
  shows "\<exists>k. mget (riRouters ri) k = Some r'" "RtrID r' \<notin> set visited"
  using assms by (auto simp: hop_once_def follow_router_def split: option.splits if_splits next_result.splits addr.splits)

lemma trace_enough_hops:
  assumes U: "finite U" "\<And>k x. mget (riRouters ri) k = Some x \<Longrightarrow> RtrID x \<in> U"
    and "distinct visited" and "set visited \<subseteq> U" and "card U - length visited < m" and "card U - length visited < n"
  shows "trace_route m ri r d cur nh visited = trace_route n ri r d cur nh visited"
  using assms(3-)
proof (induction m arbitrary: n cur nh visited)
  case (Suc m)
  obtain n' where n: "n = Suc n'" using Suc.prems(4) by (cases n) auto
  show ?case
  proof (cases "hop_once ri r d cur nh visited")
    case (Go r' nh')
    have new: "RtrID r' \<in> U" "RtrID r' \<notin> set visited" using hop_once_Go[OF Go] U(2) by auto
    then have "set (RtrID r' # visited) \<subseteq> U" "distinct (RtrID r' # visited)" using Suc.prems by auto
    moreover from this have "length (RtrID r' # visited) \<le> card U" using U(1) by (metis card_mono distinct_card)
    ultimately show ?thesis using Suc.IH[of "RtrID r' # visited" n' r' nh'] Suc.prems Go n by simp
  qed (simp add: n)
qed simp

lemma hop_once_limit [simp]: "hop_once (ri\<lparr>riMaxHops := h\<rparr>) = hop_once ri"
proof -
  have sel: "riSubnets (ri\<lparr>riMaxHops := h\<rparr>) = riSubnets ri" "riNetworks (ri\<lparr>riMaxHops := h\<rparr>) = riNetworks ri"
    "riRouters (ri\<lparr>riMaxHops := h\<rparr>) = riRouters ri" "riRouterSubnets (ri\<lparr>riMaxHops := h\<rparr>) = riRouterSubnets ri"
    "riPortsInSubnet (ri\<lparr>riMaxHops := h\<rparr>) = riPortsInSubnet ri" by simp_all
  have scan: "anchor_scan (ri\<lparr>riMaxHops := h\<rparr>) sids nh = anchor_scan ri sids nh" for sids nh
    by (induction sids) (auto split: option.splits)
  have own: "owner_step (ri\<lparr>riMaxHops := h\<rparr>) = owner_step ri"
    by (intro ext) (simp only: owner_step_def next_match_def sel)
  show ?thesis
    by (intro ext) (simp only: hop_once_def follow_router_def anchorSubnet_def scan portAt_def resolveAtNextRouter_def own sel)
qed

lemma trace_route_limit [simp]: "trace_route n (ri\<lparr>riMaxHops := h\<rparr>) = trace_route n ri"
  by (induction n) (simp_all add: fun_eq_iff split: hop.splits)

section \<open>Ambiguity and zones\<close>

definition owners_from :: "resolve_index \<Rightarrow> subnet \<Rightarrow> prefix \<Rightarrow> string list \<Rightarrow> network option \<times> string list \<Rightarrow> bool" where
  "owners_from ri e d sids acc \<longleftrightarrow> (case acc of (m, owners) \<Rightarrow> distinct owners \<and>
     set owners = {NetProjectID n | n. \<exists>sid\<in>set sids. next_match ri e d sid = Some n} \<and>
     (m = None \<longleftrightarrow> owners = []) \<and> (\<forall>n. m = Some n \<longrightarrow> (\<exists>sid\<in>set sids. next_match ri e d sid = Some n)))"

lemma owner_fold: "owners_from ri e d sids (fold (owner_step ri e d) sids (None, []))"
proof (induction sids rule: rev_induct)
  case (snoc sid sids)
  obtain m owners where acc: "fold (owner_step ri e d) sids (None, []) = (m, owners)" by (cases "fold (owner_step ri e d) sids (None, [])")
  show ?case
  proof (cases "next_match ri e d sid")
    case None
    then show ?thesis using snoc acc by (auto simp: owners_from_def owner_step_def)
  next
    case (Some n)
    then show ?thesis using snoc acc by (fastforce simp: owners_from_def owner_step_def split: if_splits)
  qed
qed (simp add: owners_from_def)

text \<open>
  What a network must be to settle a route: a subnet of it, attached to the router by an interface port,
  covers the whole destination and is not the one the trace entered through.
\<close>

definition covers :: "snapshot \<Rightarrow> string \<Rightarrow> prefix \<Rightarrow> network \<Rightarrow> bool" where
  "covers snap routerID d n \<longleftrightarrow> n \<in> set (Networks snap) \<and>
     (\<exists>s\<in>set (Subnets snap). SubNetworkID s = NetID n \<and> IPVersion s = 4 \<and> attached snap routerID (SubID s) \<and>
        (\<exists>p. ParsePrefix (CIDR s) = Some p \<and> PBits p \<le> PBits d \<and> Contains p (PAddr d)))"

lemma next_match_covers:
  assumes "next_match (newResolveIndex snap h) e d sid = Some n"
    and "sid \<in> set (list_at (riRouterSubnets (newResolveIndex snap h)) rid)"
  shows "covers snap rid d n"
proof -
  obtain s where s: "mget (riSubnets (newResolveIndex snap h)) sid = Some s" "IPVersion s = 4"
    "supernetOf (CIDR s) d \<noteq> None" "mget (riNetworks (newResolveIndex snap h)) (SubNetworkID s) = Some n"
    using assms(1) by (auto simp: next_match_def split: option.splits if_splits)
  have "\<exists>p. ParsePrefix (CIDR s) = Some p \<and> PBits p \<le> PBits d \<and> Contains p (PAddr d)"
    using s(3) by (auto simp: supernetOf_def split: option.splits if_splits)
  then show ?thesis
    using index_sound(2)[OF s(1)] index_sound(3)[OF s(4)] s(2) router_subnets_sound[OF assms(2)]
    unfolding covers_def by auto
qed

definition ambiguity_ok :: "snapshot \<Rightarrow> router \<Rightarrow> prefix \<Rightarrow> ambiguity_hit \<Rightarrow> bool" where
  "ambiguity_ok snap r d a \<longleftrightarrow> AhSourceTenant a = RtrProjectID r \<and> AhDestination a = d \<and> distinct (AhOwners a) \<and>
     length (AhOwners a) > 1 \<and> (\<forall>ow\<in>set (AhOwners a). \<exists>n. covers snap (AhRouterID a) d n \<and> NetProjectID n = ow)"

text \<open>
  What justifies a zone: a covering network of a router on the path, classified for its owner, or the
  network of the interface the trace stops on, classified for the owner of the appliance port there.
\<close>

definition zone_justified :: "snapshot \<Rightarrow> router \<Rightarrow> prefix \<Rightarrow> u8 \<Rightarrow> bool" where
  "zone_justified snap r d z \<longleftrightarrow> z = ZoneExternal \<or>
     (\<exists>rid n. covers snap rid d n \<and> z = zoneFor (NetProjectID n) (RtrProjectID r) n) \<or>
     (\<exists>p s n f. p \<in> set (Ports snap) \<and> IsComputePort (DeviceOwner p) \<and> s \<in> set (Subnets snap) \<and> n \<in> set (Networks snap) \<and>
        SubNetworkID s = NetID n \<and> f \<in> set (FixedIPs p) \<and> FixSubnetID f = SubID s \<and>
        z = zoneFor (PortProjectID p) (RtrProjectID r) n)"

definition result_ok :: "snapshot \<Rightarrow> router \<Rightarrow> prefix \<Rightarrow> route_result \<Rightarrow> bool" where
  "result_ok snap r d res \<longleftrightarrow> (case res of (z, amb, cyc) \<Rightarrow>
     zone_justified snap r d z \<and> (amb = None \<or> cyc = None) \<and> (amb \<noteq> None \<or> cyc \<noteq> None \<longrightarrow> z = ZoneExternal) \<and>
     (\<forall>a. amb = Some a \<longrightarrow> ambiguity_ok snap r d a) \<and>
     (\<forall>c. cyc = Some c \<longrightarrow> ChSourceTenant c = RtrProjectID r \<and> ChSourceRouter c = RtrID r \<and> ChDestination c = d))"

lemma resolveAtNextRouter_ok:
  assumes "resolveAtNextRouter (newResolveIndex snap h) nr e d (RtrProjectID r) = ResolvedAs z hit"
  shows "result_ok snap r d (z, hit, None)"
proof -
  let ?ri = "newResolveIndex snap h"
  let ?sids = "list_at (riRouterSubnets ?ri) (RtrID nr)"
  obtain n owners where f: "fold (owner_step ?ri e d) ?sids (None, []) = (Some n, owners)"
    using assms by (auto simp: resolveAtNextRouter_def split: prod.splits option.splits)
  note of = owner_fold[of ?ri e d ?sids, unfolded f owners_from_def, simplified]
  have cov: "covers snap (RtrID nr) d n'" if "\<exists>sid\<in>set ?sids. next_match ?ri e d sid = Some n'" for n'
    using that next_match_covers by blast
  show ?thesis
  proof (cases "length owners > 1")
    case True
    have "\<exists>n'. covers snap (RtrID nr) d n' \<and> NetProjectID n' = ow" if "ow \<in> set owners" for ow
      using that of cov by auto
    then show ?thesis
      using assms f True of
      by (auto simp: resolveAtNextRouter_def result_ok_def zone_justified_def ambiguity_ok_def)
  next
    case False
    then show ?thesis
      using assms f of cov by (auto simp: resolveAtNextRouter_def result_ok_def zone_justified_def)
  qed
qed

lemma anchor_scan_sound: "anchor_scan ri sids nh = Some s \<Longrightarrow> \<exists>sid. mget (riSubnets ri) sid = Some s"
  by (induction sids) (auto split: option.splits if_splits)

lemma result_external [simp]: "result_ok snap r d (ZoneExternal, None, None)"
  by (simp add: result_ok_def zone_justified_def)

lemma result_cycle [simp]:
  "result_ok snap r d (ZoneExternal, None, Some \<lparr>ChSourceTenant = RtrProjectID r, ChSourceRouter = RtrID r,
     ChDestination = d, ChLoopRouter = x\<rparr>)"
  by (simp add: result_ok_def zone_justified_def)

lemma hop_once_Done:
  assumes "hop_once (newResolveIndex snap h) r d cur nh visited = Done res"
  shows "result_ok snap r d res"
proof (rule ccontr)
  let ?ri = "newResolveIndex snap h"
  assume bad: "\<not> result_ok snap r d res"
  obtain s where s: "anchorSubnet ?ri (RtrID cur) nh = Some s"
    using assms bad by (auto simp: hop_once_def split: option.splits)
  have ss: "s \<in> set (Subnets snap)" using s anchor_scan_sound index_sound(2) unfolding anchorSubnet_def by blast
  obtain p where p: "portAt ?ri (SubID s) (String4 nh) = Some p"
    using assms bad s by (auto simp: hop_once_def split: option.splits)
  note pp = portAt_sound[OF p]
  show False
  proof (cases "DeviceOwner p = DeviceOwnerRouterInterface")
    case True
    then have "follow_router ?ri r d s p visited = Done res" using assms s p by (simp add: hop_once_def)
    then show False
      using bad resolveAtNextRouter_ok[of snap h _ s d r]
      by (auto simp: follow_router_def split: option.splits if_splits next_result.splits addr.splits)
  next
    case False
    then obtain n where n: "IsComputePort (DeviceOwner p)" "mget (riNetworks ?ri) (SubNetworkID s) = Some n"
      "res = (zoneFor (PortProjectID p) (RtrProjectID r) n, None, None)"
      using assms s p bad by (auto simp: hop_once_def split: option.splits if_splits)
    then have "zone_justified snap r d (zoneFor (PortProjectID p) (RtrProjectID r) n)"
      using index_sound(3)[OF n(2)] pp ss unfolding zone_justified_def by metis
    then show False using bad n(3) by (simp add: result_ok_def)
  qed
qed

lemma trace_route_ok: "result_ok snap r d (trace_route n (newResolveIndex snap h) r d cur nh visited)"
  by (induction n arbitrary: cur nh visited) (auto split: hop.splits intro: hop_once_Done)

section \<open>Longest match\<close>

lemma lpm_fold:
  "case fold (lpm_step d) routes None of
     None \<Rightarrow> \<forall>r\<in>set routes. supernetOf (Destination r) d = None
   | Some (b, bits) \<Rightarrow> b \<in> set routes \<and> map_option PBits (supernetOf (Destination b) d) = Some bits \<and>
       (\<forall>r\<in>set routes. \<forall>p. supernetOf (Destination r) d = Some p \<longrightarrow> PBits p \<le> bits)"
proof (induction routes rule: rev_induct)
  case (snoc r routes)
  then show ?case
    by (cases "fold (lpm_step d) routes None"; cases "supernetOf (Destination r) d")
       (auto simp: lpm_step_def[of d r] split: prod.splits if_splits)
qed simp

section \<open>Properties\<close>


text \<open>
  C18. The hop limit never decides a result in a deployment with at most that many routers: the trace
  enters every router at most once, so any two limits that are at least the number of routers in the
  snapshot give the same zone and the same incidents.
\<close>

theorem hop_limit_irrelevant:
  assumes "r \<in> set (Routers snap)" and "int (length (Routers snap)) \<le> m" and "int (length (Routers snap)) \<le> n"
  shows "resolveStaticRouteZone (newResolveIndex snap m) r destination nexthop =
    resolveStaticRouteZone (newResolveIndex snap n) r destination nexthop"
proof -
  let ?ri = "newResolveIndex snap m" and ?U = "RtrID ` set (Routers snap)"
  have pos: "1 \<le> m" "1 \<le> n" using assms by (cases "Routers snap"; simp)+
  have "card ?U \<le> length (Routers snap)" by (metis card_image_le card_length finite_set le_trans)
  moreover have "card ?U > 0" using assms(1) by (auto simp: card_gt_0_iff)
  ultimately have b: "card ?U - length [RtrID r] < nat m" "card ?U - length [RtrID r] < nat n" using assms by auto
  have "trace_route (nat m) ?ri r destination r nexthop [RtrID r] = trace_route (nat n) ?ri r destination r nexthop [RtrID r]"
    by (rule trace_enough_hops[OF _ _ _ _ b]) (use assms(1) index_sound(1)[of snap m] in \<open>simp_all, blast\<close>)
  moreover have "newResolveIndex snap n = ?ri\<lparr>riMaxHops := n\<rparr>" using pos by (simp add: newResolveIndex_def)
  moreover have "riMaxHops ?ri = m" using pos by (simp add: newResolveIndex_def)
  ultimately show ?thesis by (simp add: resolveStaticRouteZone_def)
qed

definition ex_router :: router where
  "ex_router = \<lparr>RtrID = ''r1'', RtrProjectID = ''a'', RtrName = [], ExternalNetworkID = ''ext'',
     Routes = [\<lparr>Destination = ''10.9.0.0/16'', Nexthop = ''10.0.0.9''\<rparr>]\<rparr>"

definition ex_snapshot :: snapshot where
  "ex_snapshot = \<lparr>Networks = [\<lparr>NetID = ''n1'', NetProjectID = ''a'', NetName = ''net'', Shared = False, IsExternal = False\<rparr>,
       \<lparr>NetID = ''ext'', NetProjectID = ''adm'', NetName = ''public'', Shared = False, IsExternal = True\<rparr>],
     Subnets = [\<lparr>SubID = ''s1'', SubNetworkID = ''n1'', SubProjectID = ''a'', CIDR = ''10.0.0.0/24'', GatewayIP = ''10.0.0.1'', IPVersion = 4\<rparr>],
     Ports = [\<lparr>PortUUID = ''p1'', PortNetworkID = ''n1'', PortProjectID = ''a'', MACAddress = ''fa:16:3e:00:00:0a'',
         DeviceOwner = ''network:router_interface'', DeviceID = ''r1'', FixedIPs = [\<lparr>FixSubnetID = ''s1'', IPAddress = ''10.0.0.1''\<rparr>]\<rparr>,
       \<lparr>PortUUID = ''p2'', PortNetworkID = ''n1'', PortProjectID = ''a'', MACAddress = ''fa:16:3e:00:00:0b'',
         DeviceOwner = ''compute:nova'', DeviceID = ''vm1'', FixedIPs = [\<lparr>FixSubnetID = ''s1'', IPAddress = ''10.0.0.9''\<rparr>]\<rparr>],
     Routers = [ex_router], FloatingIPs = [], Projects = [\<lparr>ProjID = ''a'', ProjName = ''alpha''\<rparr>], Servers = [],
     LoadBalancers = [], Amphorae = []\<rparr>"

theorem hop_limit_irrelevant_witness:
  "resolveStaticRouteZone (newResolveIndex ex_snapshot 1) ex_router \<lparr>PAddr = Addr4 0x0A090000, PBits = 16\<rparr> 0x0A000009 =
   resolveStaticRouteZone (newResolveIndex ex_snapshot 16) ex_router \<lparr>PAddr = Addr4 0x0A090000, PBits = 16\<rparr> 0x0A000009"
  by (rule hop_limit_irrelevant) (simp_all add: ex_snapshot_def)

end
