(* ===== verification/Neutron_Trie.thy ===== *)
theory Neutron_Trie
  imports Neutron "HOL-Library.Char_ord" "HOL-Library.List_Lexorder" "HOL-Library.Product_Lexorder"
begin

text \<open>
  The trie builder (\<^verbatim>\<open>internal/neutron/trie.go\<close>) and the userspace mirror of the kernel's zone lookup
  (\<^verbatim>\<open>lookup.go\<close>). The builder runs five steps over one snapshot and sorts the rows. Go compares
  strings bytewise, which is the lexicographic order on character lists; \<^verbatim>\<open>sort.Slice\<close> is not
  stable, but rows with equal sort keys are equal, so the sorted list is determined by its rows.
\<close>

section \<open>Helpers\<close>

definition parsePrefixV4 :: "string \<Rightarrow> prefix option" where
  "parsePrefixV4 s =
    (case ParsePrefix s of
       None \<Rightarrow> None
     | Some p \<Rightarrow> if Is4 (PAddr p) then Some (Masked p) else None)"

definition parseAddrV4AsPrefix :: "string \<Rightarrow> prefix option" where
  "parseAddrV4AsPrefix s =
    (if s = [] then None
     else (case ParseAddr s of
             None \<Rightarrow> None
           | Some a \<Rightarrow> if Is4 a then Some \<lparr>PAddr = a, PBits = 32\<rparr> else None))"

definition metadataPrefix :: prefix where "metadataPrefix = \<lparr>PAddr = Addr4 0xA9FEA9FE, PBits = 32\<rparr>"
definition catchall :: prefix where "catchall = \<lparr>PAddr = Addr4 0, PBits = 0\<rparr>"

definition groupSubnetsByNetwork :: "subnet list \<Rightarrow> (string, subnet list) gomap" where
  "groupSubnetsByNetwork subnets =
    fold (\<lambda>s out. if IPVersion s \<noteq> 4 then out else mappend (SubNetworkID s) s out) subnets []"

definition collectTenants :: "network list \<Rightarrow> port list \<Rightarrow> router list \<Rightarrow> string list" where
  "collectTenants networks ports routers =
    sort (remdups (filter (\<lambda>t. t \<noteq> []) (map NetProjectID networks @ map PortProjectID ports @ map RtrProjectID routers)))"

text \<open>The deduplicating append of the two prefix collectors.\<close>

definition add_new :: "'a \<Rightarrow> 'a list \<Rightarrow> 'a list" where
  "add_new x out = (if x \<in> set out then out else out @ [x])"

definition add_parsed :: "(string \<Rightarrow> prefix option) \<Rightarrow> string \<Rightarrow> prefix list \<Rightarrow> prefix list" where
  "add_parsed parse s out = (case parse s of None \<Rightarrow> out | Some p \<Rightarrow> add_new p out)"

definition buildSharedPrefixes :: "network list \<Rightarrow> (string, subnet list) gomap \<Rightarrow> prefix list" where
  "buildSharedPrefixes networks subnetsByNetwork =
    fold (\<lambda>n out. if \<not> Shared n \<or> IsExternal n then out
       else fold (\<lambda>s. add_parsed parsePrefixV4 (CIDR s)) (list_at subnetsByNetwork (NetID n)) out) networks []"

definition buildInfraPrefixes :: "subnet list \<Rightarrow> port list \<Rightarrow> prefix list" where
  "buildInfraPrefixes subnets ports =
    fold (\<lambda>s out. if IPVersion s \<noteq> 4 \<or> GatewayIP s = [] then out else add_parsed parseAddrV4AsPrefix (GatewayIP s) out) subnets
      (fold (\<lambda>p out. if \<not> IsInfraPort (DeviceOwner p) then out
         else fold (\<lambda>ip. add_parsed parseAddrV4AsPrefix (IPAddress ip)) (FixedIPs p) out) ports [])"

text \<open>\<^verbatim>\<open>Prefix.String\<close> of a valid prefix, and the sort key.\<close>

definition Prefix_String :: "prefix \<Rightarrow> string" where
  "Prefix_String p = Addr_String (PAddr p) @ ''/'' @ format_uint (PBits p)"

definition entry_key :: "trie_entry \<Rightarrow> string \<times> string \<times> u8" where
  "entry_key e = (TenantID e, Prefix_String (Prefix e), Zone e)"

definition sortEntries :: "trie_entry list \<Rightarrow> trie_entry list" where
  "sortEntries es = sort_key entry_key es"

section \<open>The builder\<close>

record trie_builder =
  tbNetworks :: "network list"
  tbRouters :: "router list"
  subnetsByNetwork :: "(string, subnet list) gomap"
  tenants :: "string list"
  sharedPrefixes :: "prefix list"
  infraPrefixes :: "prefix list"
  tbRi :: resolve_index
  tbEntries :: "trie_entry list"
  ambiguities :: "ambiguity_hit list"
  cycles :: "cycle_hit list"

definition newTrieBuilder :: "snapshot \<Rightarrow> int \<Rightarrow> trie_builder" where
  "newTrieBuilder snap maxHops =
    (let byNet = groupSubnetsByNetwork (Subnets snap)
     in \<lparr>tbNetworks = Networks snap, tbRouters = Routers snap, subnetsByNetwork = byNet,
         tenants = collectTenants (Networks snap) (Ports snap) (Routers snap),
         sharedPrefixes = buildSharedPrefixes (Networks snap) byNet,
         infraPrefixes = buildInfraPrefixes (Subnets snap) (Ports snap),
         tbRi = newResolveIndex snap maxHops, tbEntries = [], ambiguities = [], cycles = []\<rparr>)"

definition hasTenants :: "trie_builder \<Rightarrow> bool" where
  "hasTenants b \<longleftrightarrow> length (tenants b) > 0"

definition emit :: "trie_entry list \<Rightarrow> trie_builder \<Rightarrow> trie_builder" where
  "emit es b = b\<lparr>tbEntries := tbEntries b @ es\<rparr>"

definition emitCatchall :: "trie_builder \<Rightarrow> trie_builder" where
  "emitCatchall b =
    (if \<not> hasTenants b then b else emit [\<lparr>TenantID = [], Prefix = catchall, Zone = ZoneExternal\<rparr>] b)"

definition owned_rows :: "trie_builder \<Rightarrow> string \<Rightarrow> network \<Rightarrow> trie_entry list" where
  "owned_rows b tenant n =
    (if NetProjectID n \<noteq> tenant \<or> Shared n \<or> IsExternal n then []
     else concat (map (\<lambda>s. case parsePrefixV4 (CIDR s) of None \<Rightarrow> []
                   | Some p \<Rightarrow> [\<lparr>TenantID = tenant, Prefix = p, Zone = ZoneSameTenant\<rparr>])
            (list_at (subnetsByNetwork b) (NetID n))))"

definition emitOwnedSubnets :: "trie_builder \<Rightarrow> trie_builder" where
  "emitOwnedSubnets b = emit (concat (map (\<lambda>tenant. concat (map (owned_rows b tenant) (tbNetworks b))) (tenants b))) b"

definition emitSharedSubnets :: "trie_builder \<Rightarrow> trie_builder" where
  "emitSharedSubnets b =
    (if \<not> hasTenants b then b
     else emit (map (\<lambda>p. \<lparr>TenantID = [], Prefix = p, Zone = ZoneShared\<rparr>) (sharedPrefixes b)) b)"

definition emitInfraPrefixes :: "trie_builder \<Rightarrow> trie_builder" where
  "emitInfraPrefixes b =
    (if \<not> hasTenants b then b
     else emit (map (\<lambda>p. \<lparr>TenantID = [], Prefix = p, Zone = ZoneInfra\<rparr>) (infraPrefixes b @ [metadataPrefix])) b)"

definition emit_route :: "string \<Rightarrow> router \<Rightarrow> route \<Rightarrow> trie_builder \<Rightarrow> trie_builder" where
  "emit_route tenant r rt b =
    (case parsePrefixV4 (Destination rt) of
       None \<Rightarrow> b
     | Some destination \<Rightarrow>
         (case ParseAddr (Nexthop rt) of
            Some (Addr4 nh) \<Rightarrow>
              (case resolveStaticRouteZone (tbRi b) r destination nh of
                 (zone, ambHit, cycHit) \<Rightarrow>
                   (emit [\<lparr>TenantID = tenant, Prefix = destination, Zone = zone\<rparr>] b)
                     \<lparr>ambiguities := ambiguities b @ (case ambHit of None \<Rightarrow> [] | Some a \<Rightarrow> [a]),
                      cycles := cycles b @ (case cycHit of None \<Rightarrow> [] | Some c \<Rightarrow> [c])\<rparr>)
          | _ \<Rightarrow> b))"

definition emit_router :: "string \<Rightarrow> router \<Rightarrow> trie_builder \<Rightarrow> trie_builder" where
  "emit_router tenant r b = (if RtrProjectID r \<noteq> tenant then b else fold (emit_route tenant r) (Routes r) b)"

definition emitExtraRoutes :: "trie_builder \<Rightarrow> trie_builder" where
  "emitExtraRoutes b = fold (\<lambda>tenant b. fold (emit_router tenant) (tbRouters b) b) (tenants b) b"

definition buildTrie :: "snapshot \<Rightarrow> int \<Rightarrow> trie_entry list \<times> ambiguity_hit list \<times> cycle_hit list" where
  "buildTrie snap maxHops =
    (let b = emitExtraRoutes (emitInfraPrefixes (emitSharedSubnets (emitOwnedSubnets (emitCatchall (newTrieBuilder snap maxHops)))))
     in (sortEntries (tbEntries b), ambiguities b, cycles b))"

definition BuildTrie :: "snapshot \<Rightarrow> trie_entry list \<times> ambiguity_hit list \<times> cycle_hit list" where
  "BuildTrie snap = buildTrie snap defaultMaxStaticRouteHops"

section \<open>The zone lookup\<close>

definition longest_step :: "addr \<Rightarrow> string \<Rightarrow> trie_entry \<Rightarrow> trie_entry option \<Rightarrow> trie_entry option" where
  "longest_step ip tenant e best =
    (if TenantID e \<noteq> tenant then best
     else if \<not> Contains (Prefix e) ip then best
     else (case best of None \<Rightarrow> Some e
           | Some b \<Rightarrow> if PBits (Prefix e) > PBits (Prefix b) then Some e else best))"

definition longestPrefixForTenant :: "trie_entry list \<Rightarrow> addr \<Rightarrow> string \<Rightarrow> trie_entry option" where
  "longestPrefixForTenant entries ip tenant = fold (longest_step ip tenant) entries None"

definition LookupZone :: "trie_entry list \<Rightarrow> addr \<Rightarrow> string \<Rightarrow> (trie_entry \<times> string) option" where
  "LookupZone entries ip tenant =
    (case (if tenant \<noteq> [] then longestPrefixForTenant entries ip tenant else None) of
       Some hit \<Rightarrow> Some (hit, ''tenant'')
     | None \<Rightarrow> (case longestPrefixForTenant entries ip [] of
                  Some hit \<Rightarrow> Some (hit, ''global'')
                | None \<Rightarrow> None))"

definition ProjectName :: "snapshot \<Rightarrow> string \<Rightarrow> string" where
  "ProjectName s pid = (case find (\<lambda>p. ProjID p = pid) (Projects s) of None \<Rightarrow> [] | Some p \<Rightarrow> ProjName p)"

section \<open>The rows\<close>

lemma Prefix_String4: "Prefix_String \<lparr>PAddr = Addr4 a, PBits = n\<rparr> = Prefix_String4 a n"
  by (simp add: Prefix_String_def Addr_String_def Prefix_String4_def)

lemma list_at_group:
  "list_at (groupSubnetsByNetwork subnets) nid = filter (\<lambda>s. IPVersion s = 4 \<and> SubNetworkID s = nid) subnets"
proof -
  have "list_at (fold (\<lambda>s out. if IPVersion s \<noteq> 4 then out else mappend (SubNetworkID s) s out) subnets m) nid =
      list_at m nid @ filter (\<lambda>s. IPVersion s = 4 \<and> SubNetworkID s = nid) subnets" for m
    by (induction subnets arbitrary: m) (auto simp: list_at_mappend)
  then show ?thesis by (simp add: groupSubnetsByNetwork_def list_at_def[of "[]"])
qed

lemma set_collectTenants:
  "set (collectTenants ns ps rs) = (NetProjectID ` set ns \<union> PortProjectID ` set ps \<union> RtrProjectID ` set rs) - {[]}"
  by (auto simp: collectTenants_def)

lemma collectTenants_sorted: "sorted (collectTenants ns ps rs)" "distinct (collectTenants ns ps rs)"
  by (simp_all add: collectTenants_def)

lemma add_new_facts: "set (add_new x out) = insert x (set out)" "distinct out \<Longrightarrow> distinct (add_new x out)"
  by (auto simp: add_new_def)

lemma fold_add_parsed:
  "set (fold (\<lambda>x. add_parsed parse (f x)) xs out) = set out \<union> {p. \<exists>x\<in>set xs. parse (f x) = Some p}"
  "distinct out \<Longrightarrow> distinct (fold (\<lambda>x. add_parsed parse (f x)) xs out)"
  by (induction xs arbitrary: out) (auto simp: add_parsed_def add_new_facts split: option.splits)

lemma shared_prefixes:
  "set (buildSharedPrefixes ns (groupSubnetsByNetwork subnets)) =
     {p. \<exists>n\<in>set ns. \<exists>s\<in>set subnets. Shared n \<and> \<not> IsExternal n \<and> SubNetworkID s = NetID n \<and> IPVersion s = 4 \<and> parsePrefixV4 (CIDR s) = Some p}"
  "distinct (buildSharedPrefixes ns (groupSubnetsByNetwork subnets))"
proof -
  let ?f = "\<lambda>n out. if \<not> Shared n \<or> IsExternal n then out
       else fold (\<lambda>s. add_parsed parsePrefixV4 (CIDR s)) (list_at (groupSubnetsByNetwork subnets) (NetID n)) out"
  have "set (fold ?f ns out) = set out \<union> {p. \<exists>n\<in>set ns. \<exists>s\<in>set subnets. Shared n \<and> \<not> IsExternal n \<and> SubNetworkID s = NetID n \<and>
      IPVersion s = 4 \<and> parsePrefixV4 (CIDR s) = Some p}" for out
    by (induction ns arbitrary: out) (auto simp: fold_add_parsed list_at_group)
  then show "set (buildSharedPrefixes ns (groupSubnetsByNetwork subnets)) =
     {p. \<exists>n\<in>set ns. \<exists>s\<in>set subnets. Shared n \<and> \<not> IsExternal n \<and> SubNetworkID s = NetID n \<and> IPVersion s = 4 \<and> parsePrefixV4 (CIDR s) = Some p}"
    by (simp add: buildSharedPrefixes_def)
  show "distinct (buildSharedPrefixes ns (groupSubnetsByNetwork subnets))"
    unfolding buildSharedPrefixes_def by (rule fold_invariant_pres[where P = distinct]) (auto simp: fold_add_parsed)
qed

definition infra_addr :: "snapshot \<Rightarrow> string \<Rightarrow> bool" where
  "infra_addr snap a \<longleftrightarrow>
     (\<exists>p\<in>set (Ports snap). IsInfraPort (DeviceOwner p) \<and> (\<exists>f\<in>set (FixedIPs p). IPAddress f = a)) \<or>
     (\<exists>s\<in>set (Subnets snap). IPVersion s = 4 \<and> GatewayIP s \<noteq> [] \<and> GatewayIP s = a)"

lemma infra_prefixes:
  "set (buildInfraPrefixes (Subnets snap) (Ports snap)) = {p. \<exists>a. infra_addr snap a \<and> parseAddrV4AsPrefix a = Some p}"
  "distinct (buildInfraPrefixes (Subnets snap) (Ports snap))"
proof -
  let ?g = "\<lambda>p out. if \<not> IsInfraPort (DeviceOwner p) then out
         else fold (\<lambda>ip. add_parsed parseAddrV4AsPrefix (IPAddress ip)) (FixedIPs p) out"
  let ?h = "\<lambda>s out. if IPVersion s \<noteq> 4 \<or> GatewayIP s = [] then out else add_parsed parseAddrV4AsPrefix (GatewayIP s) out"
  have g: "set (fold ?g ps out) = set out \<union> {q. \<exists>p\<in>set ps. IsInfraPort (DeviceOwner p) \<and> (\<exists>f\<in>set (FixedIPs p). parseAddrV4AsPrefix (IPAddress f) = Some q)}" for ps out
    by (induction ps arbitrary: out) (auto simp: fold_add_parsed)
  have h: "set (fold ?h ss out) = set out \<union> {q. \<exists>s\<in>set ss. IPVersion s = 4 \<and> GatewayIP s \<noteq> [] \<and> parseAddrV4AsPrefix (GatewayIP s) = Some q}" for ss out
    by (induction ss arbitrary: out) (auto simp: add_parsed_def add_new_facts split: option.splits)
  show "set (buildInfraPrefixes (Subnets snap) (Ports snap)) = {p. \<exists>a. infra_addr snap a \<and> parseAddrV4AsPrefix a = Some p}"
    unfolding buildInfraPrefixes_def h g infra_addr_def by auto
  have "distinct (fold ?g (Ports snap) [])"
    by (rule fold_invariant_pres[where P = distinct]) (auto simp: fold_add_parsed)
  then show "distinct (buildInfraPrefixes (Subnets snap) (Ports snap))"
    unfolding buildInfraPrefixes_def
    by (intro fold_invariant_pres[where P = distinct]) (auto simp: fold_add_parsed add_parsed_def add_new_facts split: option.splits)
qed

text \<open>What one static route contributes.\<close>

definition route_result_of :: "resolve_index \<Rightarrow> router \<Rightarrow> route \<Rightarrow> (prefix \<times> route_result) option" where
  "route_result_of ri r rt =
    (case parsePrefixV4 (Destination rt) of
       None \<Rightarrow> None
     | Some d \<Rightarrow> (case ParseAddr (Nexthop rt) of
                   Some (Addr4 nh) \<Rightarrow> Some (d, resolveStaticRouteZone ri r d nh)
                 | _ \<Rightarrow> None))"

lemma emit_route_fields:
  "tbEntries (emit_route t r rt b) = tbEntries b @
     (case route_result_of (tbRi b) r rt of None \<Rightarrow> [] | Some (d, z, a, c) \<Rightarrow> [\<lparr>TenantID = t, Prefix = d, Zone = z\<rparr>])"
  "ambiguities (emit_route t r rt b) = ambiguities b @
     (case route_result_of (tbRi b) r rt of Some (d, z, Some a, c) \<Rightarrow> [a] | _ \<Rightarrow> [])"
  "cycles (emit_route t r rt b) = cycles b @
     (case route_result_of (tbRi b) r rt of Some (d, z, a, Some c) \<Rightarrow> [c] | _ \<Rightarrow> [])"
  "tbRi (emit_route t r rt b) = tbRi b" "tbRouters (emit_route t r rt b) = tbRouters b"
  by (auto simp: emit_route_def route_result_of_def emit_def split: option.splits addr.splits prod.splits)

text \<open>All static routes the builder resolves, with their tenant.\<close>

definition route_hits :: "resolve_index \<Rightarrow> string list \<Rightarrow> router list \<Rightarrow> (string \<times> prefix \<times> route_result) set" where
  "route_hits ri ts rs = {(t, d, res). \<exists>r\<in>set rs. t \<in> set ts \<and> RtrProjectID r = t \<and> (\<exists>rt\<in>set (Routes r). route_result_of ri r rt = Some (d, res))}"

fun hit_row :: "string \<times> prefix \<times> route_result \<Rightarrow> trie_entry" where
  "hit_row (t, d, z, a, c) = \<lparr>TenantID = t, Prefix = d, Zone = z\<rparr>"

fun hit_amb :: "string \<times> prefix \<times> route_result \<Rightarrow> ambiguity_hit option" where
  "hit_amb (t, d, z, a, c) = a"

fun hit_cycle :: "string \<times> prefix \<times> route_result \<Rightarrow> cycle_hit option" where
  "hit_cycle (t, d, z, a, c) = c"

definition hits_in :: "trie_builder \<Rightarrow> (string \<times> prefix \<times> route_result) set \<Rightarrow> trie_builder \<Rightarrow> bool" where
  "hits_in b H b' \<longleftrightarrow> tbRi b' = tbRi b \<and> tbRouters b' = tbRouters b \<and>
     set (tbEntries b') = set (tbEntries b) \<union> hit_row ` H \<and>
     set (ambiguities b') = set (ambiguities b) \<union> (\<Union>h\<in>H. set_option (hit_amb h)) \<and>
     set (cycles b') = set (cycles b) \<union> (\<Union>h\<in>H. set_option (hit_cycle h))"

lemma hits_in_refl: "hits_in b {} b"
  by (simp add: hits_in_def)

lemma hits_in_trans: "hits_in b H b1 \<Longrightarrow> hits_in b1 H' b2 \<Longrightarrow> hits_in b (H \<union> H') b2"
  unfolding hits_in_def by (simp add: image_Un Un_assoc)

lemma hits_in_fold:
  assumes "\<And>x b1. x \<in> set xs \<Longrightarrow> tbRi b1 = tbRi b \<Longrightarrow> tbRouters b1 = tbRouters b \<Longrightarrow> hits_in b1 (H x) (f x b1)"
  shows "hits_in b (\<Union>x\<in>set xs. H x) (fold f xs b)"
  using assms
proof (induction xs arbitrary: b)
  case (Cons x xs)
  have h: "hits_in b (H x) (f x b)" using Cons.prems[of x b] by simp
  then have "hits_in (f x b) (\<Union>x\<in>set xs. H x) (fold f xs (f x b))"
    using Cons.prems by (intro Cons.IH) (auto simp: hits_in_def)
  from hits_in_trans[OF h this] show ?case by simp
qed (simp add: hits_in_refl)

lemma emit_route_hits:
  "hits_in b {(t, d, res). route_result_of (tbRi b) r rt = Some (d, res) \<and> t = tenant} (emit_route tenant r rt b)"
proof (cases "route_result_of (tbRi b) r rt")
  case (Some x)
  obtain d z a c where x: "x = (d, z, a, c)" by (cases x)
  have "{(t, d, res). route_result_of (tbRi b) r rt = Some (d, res) \<and> t = tenant} = {(tenant, d, z, a, c)}"
    using Some x by auto
  then show ?thesis
    unfolding hits_in_def emit_route_fields using Some x by (cases a; cases c) auto
qed (auto simp: hits_in_def emit_route_fields)

lemma emit_router_hits:
  "hits_in b {(t, d, res). t = tenant \<and> RtrProjectID r = tenant \<and> (\<exists>rt\<in>set (Routes r). route_result_of (tbRi b) r rt = Some (d, res))}
     (emit_router tenant r b)"
proof (cases "RtrProjectID r = tenant")
  case True
  have "hits_in b (\<Union>rt\<in>set (Routes r). {(t, d, res). route_result_of (tbRi b) r rt = Some (d, res) \<and> t = tenant})
      (fold (emit_route tenant r) (Routes r) b)"
    by (rule hits_in_fold) (metis emit_route_hits)
  moreover have "(\<Union>rt\<in>set (Routes r). {(t, d, res). route_result_of (tbRi b) r rt = Some (d, res) \<and> t = tenant}) =
      {(t, d, res). t = tenant \<and> RtrProjectID r = tenant \<and> (\<exists>rt\<in>set (Routes r). route_result_of (tbRi b) r rt = Some (d, res))}"
    using True by auto
  ultimately show ?thesis using True by (simp add: emit_router_def)
qed (auto simp: emit_router_def hits_in_def)

lemma emitExtraRoutes_hits: "hits_in b (route_hits (tbRi b) (tenants b) (tbRouters b)) (emitExtraRoutes b)"
proof -
  let ?H = "\<lambda>tenant r. {(t, d, res). t = tenant \<and> RtrProjectID r = tenant \<and> (\<exists>rt\<in>set (Routes r). route_result_of (tbRi b) r rt = Some (d, res))}"
  have inner: "hits_in b1 (\<Union>r\<in>set (tbRouters b). ?H t r) (fold (emit_router t) (tbRouters b1) b1)"
    if "tbRi b1 = tbRi b" "tbRouters b1 = tbRouters b" for b1 t
    unfolding that(2) by (rule hits_in_fold) (metis emit_router_hits that(1))
  have "hits_in b (\<Union>t\<in>set (tenants b). \<Union>r\<in>set (tbRouters b). ?H t r) (emitExtraRoutes b)"
    unfolding emitExtraRoutes_def by (rule hits_in_fold) (use inner in blast)
  moreover have "(\<Union>t\<in>set (tenants b). \<Union>r\<in>set (tbRouters b). ?H t r) = route_hits (tbRi b) (tenants b) (tbRouters b)"
    by (auto simp: route_hits_def)
  ultimately show ?thesis by simp
qed

text \<open>The rows a snapshot asks for.\<close>

definition has_tenants :: "snapshot \<Rightarrow> bool" where
  "has_tenants snap \<longleftrightarrow> collectTenants (Networks snap) (Ports snap) (Routers snap) \<noteq> []"

definition subnet_prefix :: "snapshot \<Rightarrow> (network \<Rightarrow> bool) \<Rightarrow> prefix \<Rightarrow> bool" where
  "subnet_prefix snap P p \<longleftrightarrow> (\<exists>n\<in>set (Networks snap). P n \<and>
     (\<exists>s\<in>set (Subnets snap). SubNetworkID s = NetID n \<and> IPVersion s = 4 \<and> parsePrefixV4 (CIDR s) = Some p))"

definition global_row :: "snapshot \<Rightarrow> trie_entry \<Rightarrow> bool" where
  "global_row snap e \<longleftrightarrow> TenantID e = [] \<and> has_tenants snap \<and>
     (Zone e = ZoneExternal \<and> Prefix e = catchall \<or>
      Zone e = ZoneShared \<and> subnet_prefix snap (\<lambda>n. Shared n \<and> \<not> IsExternal n) (Prefix e) \<or>
      Zone e = ZoneInfra \<and> (Prefix e = metadataPrefix \<or> (\<exists>a. infra_addr snap a \<and> parseAddrV4AsPrefix a = Some (Prefix e))))"

definition owned_row :: "snapshot \<Rightarrow> trie_entry \<Rightarrow> bool" where
  "owned_row snap e \<longleftrightarrow> TenantID e \<noteq> [] \<and> Zone e = ZoneSameTenant \<and>
     subnet_prefix snap (\<lambda>n. NetProjectID n = TenantID e \<and> \<not> Shared n \<and> \<not> IsExternal n) (Prefix e)"

definition route_row :: "snapshot \<Rightarrow> int \<Rightarrow> trie_entry \<Rightarrow> bool" where
  "route_row snap h e \<longleftrightarrow> TenantID e \<noteq> [] \<and>
     (\<exists>r\<in>set (Routers snap). RtrProjectID r = TenantID e \<and> (\<exists>rt\<in>set (Routes r). \<exists>nh.
        parsePrefixV4 (Destination rt) = Some (Prefix e) \<and> ParseAddr (Nexthop rt) = Some (Addr4 nh) \<and>
        Zone e = fst (resolveStaticRouteZone (newResolveIndex snap h) r (Prefix e) nh)))"

lemma emit_fields [simp]:
  "tbEntries (emit es b) = tbEntries b @ es" "tbRi (emit es b) = tbRi b" "tbRouters (emit es b) = tbRouters b"
  "tbNetworks (emit es b) = tbNetworks b" "tenants (emit es b) = tenants b" "subnetsByNetwork (emit es b) = subnetsByNetwork b"
  "sharedPrefixes (emit es b) = sharedPrefixes b" "infraPrefixes (emit es b) = infraPrefixes b"
  "ambiguities (emit es b) = ambiguities b" "cycles (emit es b) = cycles b"
  by (simp_all add: emit_def)

lemma owned_rows_set:
  assumes "subnetsByNetwork b = groupSubnetsByNetwork subnets"
  shows "e \<in> set (owned_rows b t n) \<longleftrightarrow> TenantID e = t \<and> Zone e = ZoneSameTenant \<and> NetProjectID n = t \<and> \<not> Shared n \<and> \<not> IsExternal n \<and>
        (\<exists>s\<in>set subnets. SubNetworkID s = NetID n \<and> IPVersion s = 4 \<and> parsePrefixV4 (CIDR s) = Some (Prefix e))"
  using assms by (cases e) (auto simp: owned_rows_def list_at_group split: option.splits if_splits)

definition unsorted_rows :: "snapshot \<Rightarrow> int \<Rightarrow> trie_builder" where
  "unsorted_rows snap h =
    emitExtraRoutes (emitInfraPrefixes (emitSharedSubnets (emitOwnedSubnets (emitCatchall (newTrieBuilder snap h)))))"

lemma rows_before_routes:
  fixes snap h
  defines "b \<equiv> emitInfraPrefixes (emitSharedSubnets (emitOwnedSubnets (emitCatchall (newTrieBuilder snap h))))"
  shows "e \<in> set (tbEntries b) \<longleftrightarrow> global_row snap e \<or> owned_row snap e"
    and "tbRi b = newResolveIndex snap h" "tbRouters b = Routers snap"
    and "tenants b = collectTenants (Networks snap) (Ports snap) (Routers snap)"
    and "ambiguities b = []" "cycles b = []"
proof -
  let ?b0 = "newTrieBuilder snap h"
  let ?ts = "collectTenants (Networks snap) (Ports snap) (Routers snap)"
  have f: "tenants ?b0 = ?ts" "subnetsByNetwork ?b0 = groupSubnetsByNetwork (Subnets snap)" "tbNetworks ?b0 = Networks snap"
    "sharedPrefixes ?b0 = buildSharedPrefixes (Networks snap) (groupSubnetsByNetwork (Subnets snap))"
    "infraPrefixes ?b0 = buildInfraPrefixes (Subnets snap) (Ports snap)" "tbEntries ?b0 = []"
    by (simp_all add: newTrieBuilder_def Let_def)
  let ?b1 = "emitCatchall ?b0" let ?b2 = "emitOwnedSubnets ?b1" let ?b3 = "emitSharedSubnets ?b2"
  have b1: "tenants ?b1 = ?ts" "subnetsByNetwork ?b1 = groupSubnetsByNetwork (Subnets snap)" "tbNetworks ?b1 = Networks snap"
    "sharedPrefixes ?b1 = buildSharedPrefixes (Networks snap) (groupSubnetsByNetwork (Subnets snap))"
    "infraPrefixes ?b1 = buildInfraPrefixes (Subnets snap) (Ports snap)"
    "set (tbEntries ?b1) = {e. has_tenants snap \<and> e = \<lparr>TenantID = [], Prefix = catchall, Zone = ZoneExternal\<rparr>}"
    by (auto simp: emitCatchall_def f hasTenants_def has_tenants_def)
  have own: "(\<exists>t\<in>set ?ts. \<exists>n\<in>set (Networks snap). e \<in> set (owned_rows ?b1 t n)) \<longleftrightarrow> owned_row snap e" for e
    unfolding owned_rows_set[OF b1(2)] owned_row_def subnet_prefix_def set_collectTenants
    by (auto intro: rev_image_eqI)
  have b2: "tenants ?b2 = ?ts" "sharedPrefixes ?b2 = buildSharedPrefixes (Networks snap) (groupSubnetsByNetwork (Subnets snap))"
    "infraPrefixes ?b2 = buildInfraPrefixes (Subnets snap) (Ports snap)"
    "\<And>e. e \<in> set (tbEntries ?b2) \<longleftrightarrow> e \<in> set (tbEntries ?b1) \<or> owned_row snap e"
    using own b1 by (auto simp: emitOwnedSubnets_def)
  have b3: "tenants ?b3 = ?ts" "infraPrefixes ?b3 = buildInfraPrefixes (Subnets snap) (Ports snap)"
    "\<And>e. e \<in> set (tbEntries ?b3) \<longleftrightarrow> e \<in> set (tbEntries ?b2) \<or>
       (has_tenants snap \<and> (\<exists>p. subnet_prefix snap (\<lambda>n. Shared n \<and> \<not> IsExternal n) p \<and> e = \<lparr>TenantID = [], Prefix = p, Zone = ZoneShared\<rparr>))"
    using b2 by (auto simp: emitSharedSubnets_def hasTenants_def has_tenants_def shared_prefixes subnet_prefix_def)
  have "e \<in> set (tbEntries b) \<longleftrightarrow> e \<in> set (tbEntries ?b3) \<or>
       (has_tenants snap \<and> (\<exists>p. (p = metadataPrefix \<or> (\<exists>a. infra_addr snap a \<and> parseAddrV4AsPrefix a = Some p)) \<and>
          e = \<lparr>TenantID = [], Prefix = p, Zone = ZoneInfra\<rparr>))"
    using b3 unfolding b_def by (auto simp: emitInfraPrefixes_def hasTenants_def has_tenants_def infra_prefixes)
  then show "e \<in> set (tbEntries b) \<longleftrightarrow> global_row snap e \<or> owned_row snap e"
    unfolding b3(3) b2(4) b1(6) global_row_def by (cases e) auto
  show "tbRi b = newResolveIndex snap h" "tbRouters b = Routers snap"
    "tenants b = ?ts" "ambiguities b = []" "cycles b = []"
    by (auto simp: b_def emitInfraPrefixes_def emitSharedSubnets_def emitOwnedSubnets_def emitCatchall_def newTrieBuilder_def Let_def)
qed

lemma route_result_Some:
  "route_result_of ri r rt = Some (d, res) \<longleftrightarrow> parsePrefixV4 (Destination rt) = Some d \<and>
     (\<exists>nh. ParseAddr (Nexthop rt) = Some (Addr4 nh) \<and> res = resolveStaticRouteZone ri r d nh)"
  by (auto simp: route_result_of_def split: option.splits addr.splits)

lemma trie_rows: "e \<in> set (fst (buildTrie snap h)) \<longleftrightarrow> global_row snap e \<or> owned_row snap e \<or> route_row snap h e"
proof -
  let ?b = "emitInfraPrefixes (emitSharedSubnets (emitOwnedSubnets (emitCatchall (newTrieBuilder snap h))))"
  note R = rows_before_routes[where snap = snap and h = h]
  have "e \<in> hit_row ` route_hits (newResolveIndex snap h) (collectTenants (Networks snap) (Ports snap) (Routers snap)) (Routers snap) \<longleftrightarrow>
      route_row snap h e"
    (is "?l = ?r")
  proof -
    have row: "e = hit_row (t, d, res) \<longleftrightarrow> TenantID e = t \<and> Prefix e = d \<and> Zone e = fst res" for t d res
      by (cases e; cases res) auto
    have ts: "r \<in> set (Routers snap) \<Longrightarrow> RtrProjectID r = TenantID e \<Longrightarrow>
        TenantID e \<in> set (collectTenants (Networks snap) (Ports snap) (Routers snap)) \<longleftrightarrow> TenantID e \<noteq> []" for r
      unfolding set_collectTenants by (auto intro: rev_image_eqI)
    have "?l \<longleftrightarrow> (\<exists>t d res. (t, d, res) \<in> route_hits (newResolveIndex snap h)
        (collectTenants (Networks snap) (Ports snap) (Routers snap)) (Routers snap) \<and> e = hit_row (t, d, res))"
      by (metis (no_types, lifting) image_iff prod_cases3)
    also have "\<dots> \<longleftrightarrow> (\<exists>res. (TenantID e, Prefix e, res) \<in> route_hits (newResolveIndex snap h)
        (collectTenants (Networks snap) (Ports snap) (Routers snap)) (Routers snap) \<and> Zone e = fst res)"
      unfolding row by blast
    also have "\<dots> \<longleftrightarrow> ?r"
      unfolding route_row_def route_hits_def mem_Collect_eq case_prod_conv route_result_Some
      using ts by blast
    finally show ?thesis .
  qed
  then show ?thesis
    using emitExtraRoutes_hits[of ?b] R(1)[where e = e]
    by (auto simp: buildTrie_def Let_def sortEntries_def hits_in_def R(2-4))
qed

section \<open>Longest match\<close>

lemma longest_fold:
  "case longestPrefixForTenant es ip t of
     None \<Rightarrow> \<forall>e\<in>set es. TenantID e = t \<longrightarrow> \<not> Contains (Prefix e) ip
   | Some b \<Rightarrow> b \<in> set es \<and> TenantID b = t \<and> Contains (Prefix b) ip \<and>
       (\<forall>e\<in>set es. TenantID e = t \<and> Contains (Prefix e) ip \<longrightarrow> PBits (Prefix e) \<le> PBits (Prefix b))"
  unfolding longestPrefixForTenant_def
proof (induction es rule: rev_induct)
  case (snoc e es)
  then show ?case
    by (cases "fold (longest_step ip t) es None") (auto simp: longest_step_def[of ip t e] split: if_splits)
qed simp

lemma longest_Some:
  assumes "longestPrefixForTenant es ip t = Some b"
  shows "b \<in> set es" "TenantID b = t" "Contains (Prefix b) ip"
    "\<And>e. e \<in> set es \<Longrightarrow> TenantID e = t \<Longrightarrow> Contains (Prefix e) ip \<Longrightarrow> PBits (Prefix e) \<le> PBits (Prefix b)"
  using longest_fold[where es = es and ip = ip and t = t] assms by auto

lemma longest_None:
  "longestPrefixForTenant es ip t = None \<longleftrightarrow> (\<forall>e\<in>set es. TenantID e = t \<longrightarrow> \<not> Contains (Prefix e) ip)"
  using longest_fold[where es = es and ip = ip and t = t] by (auto split: option.splits)

lemma catchall_contains [simp]: "Contains catchall (Addr4 a)"
proof -
  have "drop_bit 32 w = 0" for w :: u32 by (rule bit_word_eqI) (auto simp: bit_simps dest: bit_imp_le_length)
  then show ?thesis by (simp add: Contains_def catchall_def)
qed

text \<open>Rows are IPv4, with a length of at most 32 and no host bits.\<close>

definition row_prefix_ok :: "prefix \<Rightarrow> bool" where
  "row_prefix_ok p \<longleftrightarrow> (\<exists>a. PAddr p = Addr4 a) \<and> PBits p \<le> 32 \<and> Masked p = p"

lemma parsePrefixV4_ok: "parsePrefixV4 s = Some p \<Longrightarrow> row_prefix_ok p"
  by (auto simp: parsePrefixV4_def row_prefix_ok_def ParsePrefix_def Is4_def Masked_def and.assoc
      split: option.splits if_splits addr.splits prod.splits)

lemma parseAddrV4AsPrefix_ok: "parseAddrV4AsPrefix s = Some p \<Longrightarrow> row_prefix_ok p"
  by (auto simp: parseAddrV4AsPrefix_def row_prefix_ok_def Is4_def Masked_def split: option.splits if_splits addr.splits)

lemma trie_row_prefix_ok:
  assumes "e \<in> set (fst (buildTrie snap h))"
  shows "row_prefix_ok (Prefix e)"
proof -
  have "row_prefix_ok catchall" "row_prefix_ok metadataPrefix"
    by (auto simp: row_prefix_ok_def catchall_def metadataPrefix_def Masked_def)
  then show ?thesis
    using assms unfolding trie_rows global_row_def owned_row_def route_row_def subnet_prefix_def
    by (auto dest: parsePrefixV4_ok parseAddrV4AsPrefix_ok)
qed

lemma entry_key_inj:
  assumes "row_prefix_ok (Prefix e)" "row_prefix_ok (Prefix e')" "entry_key e = entry_key e'"
  shows "e = e'"
  using assms by (cases e; cases e'; cases "Prefix e"; cases "Prefix e'") (auto simp: entry_key_def Prefix_String4 row_prefix_ok_def Prefix_String4_inj)


lemma ex_cidr: "parsePrefixV4 ''10.0.0.0/24'' = Some \<lparr>PAddr = Addr4 0x0A000000, PBits = 24\<rparr>"
  by (simp add: parsePrefixV4_def ParsePrefix_def last_slash_def ParseAddr_def parseIPv4_def parse_octet_def parse_bits_def parse_digits_def
      is_digit_def Is4_def Masked_def mask_eq_exp_minus_1)

section \<open>Properties\<close>



text \<open>
  C20. The lookup is total on a built trie and answers by longest match, the tenant's own rows before the
  global ones: for a tenant of the snapshot and any IPv4 address it returns a row of the trie that
  contains the address; a row of the tenant (labelled tenant) when one contains the address, and then no
  other row of the tenant that contains it is longer; otherwise a global row that no other is longer than.
\<close>

definition best_row :: "trie_entry list \<Rightarrow> string \<Rightarrow> addr \<Rightarrow> trie_entry \<Rightarrow> bool" where
  "best_row rows t ip e \<longleftrightarrow> e \<in> set rows \<and> TenantID e = t \<and> Contains (Prefix e) ip \<and>
     (\<forall>e'\<in>set rows. TenantID e' = t \<and> Contains (Prefix e') ip \<longrightarrow> PBits (Prefix e') \<le> PBits (Prefix e))"

lemma longest_best: "longestPrefixForTenant es ip t = Some b \<Longrightarrow> best_row es t ip b"
  by (auto simp: best_row_def dest: longest_Some)

lemma catchall_row:
  assumes "t \<in> set (collectTenants (Networks snap) (Ports snap) (Routers snap))"
  shows "\<lparr>TenantID = [], Prefix = catchall, Zone = ZoneExternal\<rparr> \<in> set (fst (buildTrie snap h))"
  using assms unfolding trie_rows by (auto simp: global_row_def has_tenants_def)

theorem lookup_zone_total:
  assumes "t \<in> set (collectTenants (Networks snap) (Ports snap) (Routers snap))"
  shows "\<exists>e scope. LookupZone (fst (buildTrie snap h)) (Addr4 a) t = Some (e, scope) \<and>
     (if \<exists>e'\<in>set (fst (buildTrie snap h)). TenantID e' = t \<and> Contains (Prefix e') (Addr4 a)
      then scope = ''tenant'' \<and> best_row (fst (buildTrie snap h)) t (Addr4 a) e
      else scope = ''global'' \<and> best_row (fst (buildTrie snap h)) [] (Addr4 a) e)"
proof -
  let ?rows = "fst (buildTrie snap h)"
  have t: "t \<noteq> []" using assms by (auto simp: set_collectTenants)
  obtain g where g: "longestPrefixForTenant ?rows (Addr4 a) [] = Some g"
    using catchall_row[OF assms, of h] longest_None[of ?rows "Addr4 a" "[]"] by force
  show ?thesis
  proof (cases "longestPrefixForTenant ?rows (Addr4 a) t")
    case None
    then show ?thesis using g t longest_best[OF g] longest_None[of ?rows "Addr4 a" t] by (auto simp: LookupZone_def)
  next
    case (Some e)
    then show ?thesis using t longest_best[OF Some] longest_Some[OF Some] by (auto simp: LookupZone_def)
  qed
qed

theorem lookup_zone_total_witness:
  "\<exists>e scope. LookupZone (fst (buildTrie ex_snapshot 16)) (Addr4 0x08080808) ''a'' = Some (e, scope) \<and>
     (if \<exists>e'\<in>set (fst (buildTrie ex_snapshot 16)). TenantID e' = ''a'' \<and> Contains (Prefix e') (Addr4 0x08080808)
      then scope = ''tenant'' \<and> best_row (fst (buildTrie ex_snapshot 16)) ''a'' (Addr4 0x08080808) e
      else scope = ''global'' \<and> best_row (fst (buildTrie ex_snapshot 16)) [] (Addr4 0x08080808) e)"
  by (rule lookup_zone_total) (simp add: set_collectTenants ex_snapshot_def)

text \<open>
  A tenant's traffic to its own network is same-tenant: an address inside an IPv4 subnet of a
  network the tenant owns, neither shared nor external, is classified SAME_TENANT by a row of the tenant,
  unless a static route of one of the tenant's routers covers the address with a prefix at least as long
  as every such subnet's. In particular the global infrastructure, shared and catch-all rows never
  override a tenant's own subnet, and rows of other tenants play no part.
\<close>

theorem own_subnet_is_same_tenant:
  assumes "owned_row snap own" and "Contains (Prefix own) (Addr4 a)"
    and "\<And>e. route_row snap h e \<Longrightarrow> TenantID e = TenantID own \<Longrightarrow> Contains (Prefix e) (Addr4 a) \<Longrightarrow> PBits (Prefix e) < PBits (Prefix own)"
  shows "\<exists>e. LookupZone (fst (buildTrie snap h)) (Addr4 a) (TenantID own) = Some (e, ''tenant'') \<and>
     Zone e = ZoneSameTenant \<and> owned_row snap e"
proof -
  let ?rows = "fst (buildTrie snap h)" and ?t = "TenantID own"
  have t: "?t \<noteq> []" using assms(1) by (simp add: owned_row_def)
  have own: "own \<in> set ?rows" using assms(1) by (simp add: trie_rows)
  then obtain e where e: "longestPrefixForTenant ?rows (Addr4 a) ?t = Some e"
    using longest_None[of ?rows "Addr4 a" ?t] assms(2) by force
  note b = longest_Some[OF e]
  have "\<not> global_row snap e" using b(2) t by (auto simp: global_row_def)
  moreover have "\<not> route_row snap h e" using assms(3)[of e] b(2,3) b(4)[OF own refl assms(2)] by auto
  ultimately have "owned_row snap e" using b(1) unfolding trie_rows by blast
  then show ?thesis using e t by (auto simp: LookupZone_def owned_row_def)
qed

lemma ex_dest: "parsePrefixV4 ''10.9.0.0/16'' = Some \<lparr>PAddr = Addr4 0x0A090000, PBits = 16\<rparr>"
  by (simp add: parsePrefixV4_def ParsePrefix_def last_slash_def ParseAddr_def parseIPv4_def parse_octet_def parse_bits_def parse_digits_def
      is_digit_def Is4_def Masked_def mask_eq_exp_minus_1)

theorem own_subnet_is_same_tenant_witness:
  "\<exists>e. LookupZone (fst (BuildTrie ex_snapshot)) (Addr4 0x0A000009) ''a'' = Some (e, ''tenant'') \<and>
     Zone e = ZoneSameTenant \<and> owned_row ex_snapshot e"
proof -
  let ?own = "\<lparr>TenantID = ''a'', Prefix = \<lparr>PAddr = Addr4 0x0A000000, PBits = 24\<rparr>, Zone = ZoneSameTenant\<rparr>"
  have "owned_row ex_snapshot ?own" by (simp add: owned_row_def subnet_prefix_def ex_snapshot_def ex_cidr)
  moreover have "Contains (Prefix ?own) (Addr4 0x0A000009)" by (simp add: Contains4)
  moreover have "PBits (Prefix e) < PBits (Prefix ?own)" if rr: "route_row ex_snapshot defaultMaxStaticRouteHops e" for e
  proof -
    obtain r rt where r: "r \<in> set (Routers ex_snapshot)" "rt \<in> set (Routes r)" "parsePrefixV4 (Destination rt) = Some (Prefix e)"
      using rr unfolding route_row_def by blast
    then have "r = ex_router" by (simp add: ex_snapshot_def)
    then have "Prefix e = \<lparr>PAddr = Addr4 0x0A090000, PBits = 16\<rparr>" using r by (simp add: ex_router_def ex_dest)
    then show ?thesis by simp
  qed
  ultimately show ?thesis
    using own_subnet_is_same_tenant[where snap = ex_snapshot and own = ?own and a = "0x0A000009" and h = defaultMaxStaticRouteHops] by (auto simp: BuildTrie_def)
qed

end
