(* ===== verification/Neutron_Attrib.thy ===== *)
theory Neutron_Attrib
  imports Neutron_Trie
begin

text \<open>
  What the agent derives from a snapshot beside the trie: the external network of each VM port
  (\<^verbatim>\<open>externalnet.go\<close>), the tenant of each load-balancer port (\<^verbatim>\<open>octavia.go\<close>), the anomaly report
  (\<^verbatim>\<open>anomalies.go\<close>), the identity series (\<^verbatim>\<open>info.go\<close>) and the resource lookups (\<^verbatim>\<open>lookup.go\<close>).
  A Go map that is ranged over is an association list read in its own order; every such loop ends in a
  map or in a sort by the map's key, so the order does not reach the result.
\<close>

section \<open>External networks\<close>

definition put_where :: "('a \<Rightarrow> bool) \<Rightarrow> ('a \<Rightarrow> 'k) \<Rightarrow> ('a \<Rightarrow> 'v) \<Rightarrow> 'a list \<Rightarrow> ('k, 'v) gomap" where
  "put_where P key val xs = fold (\<lambda>x m. if P x then mput (key x) (val x) m else m) xs []"

definition netLabels :: "snapshot \<Rightarrow> (string, string) gomap" where
  "netLabels snap = put_where (\<lambda>_. True) NetID (\<lambda>n. if NetName n \<noteq> [] then NetName n else NetID n) (Networks snap)"

text \<open>A missing key reads as the empty string.\<close>

definition str_at :: "('k, string) gomap \<Rightarrow> 'k \<Rightarrow> string" where
  "str_at m k = (case mget m k of None \<Rightarrow> [] | Some s \<Rightarrow> s)"

definition routerExts :: "snapshot \<Rightarrow> (string, string) gomap" where
  "routerExts snap = put_where (\<lambda>r. ExternalNetworkID r \<noteq> []) RtrID (\<lambda>r. str_at (netLabels snap) (ExternalNetworkID r)) (Routers snap)"

definition subnetGateways :: "snapshot \<Rightarrow> (string, string) gomap" where
  "subnetGateways snap = put_where (\<lambda>_. True) SubID GatewayIP (Subnets snap)"

definition ext_fixed_ip :: "snapshot \<Rightarrow> string \<Rightarrow> fixed_ip \<Rightarrow> (string, string list) gomap \<times> (string, string list) gomap \<Rightarrow>
    (string, string list) gomap \<times> (string, string list) gomap" where
  "ext_fixed_ip snap ext fip acc =
    (case acc of (gwExt, anyExt) \<Rightarrow>
       (let gw = str_at (subnetGateways snap) (FixSubnetID fip)
        in (if gw \<noteq> [] \<and> IPAddress fip = gw then mappend (FixSubnetID fip) ext gwExt else gwExt,
            mappend (FixSubnetID fip) ext anyExt)))"

definition ext_port :: "snapshot \<Rightarrow> port \<Rightarrow> (string, string list) gomap \<times> (string, string list) gomap \<Rightarrow>
    (string, string list) gomap \<times> (string, string list) gomap" where
  "ext_port snap p acc =
    (if DeviceOwner p \<noteq> DeviceOwnerRouterInterface then acc
     else (case mget (routerExts snap) (DeviceID p) of
             None \<Rightarrow> acc
           | Some ext \<Rightarrow> fold (ext_fixed_ip snap ext) (FixedIPs p) acc))"

definition subnetExt :: "(string, string list) gomap \<times> (string, string list) gomap \<Rightarrow> string \<Rightarrow> string list" where
  "subnetExt acc subnetID =
    (case acc of (gwExt, anyExt) \<Rightarrow> if length (list_at gwExt subnetID) > 0 then list_at gwExt subnetID else list_at anyExt subnetID)"

definition fipExts :: "snapshot \<Rightarrow> (string, string list) gomap" where
  "fipExts snap =
    fold (\<lambda>f m. if FipPortID f = [] \<or> FloatingNetworkID f = [] then m
            else mappend (FipPortID f) (str_at (netLabels snap) (FloatingNetworkID f)) m) (FloatingIPs snap) []"

definition dedupe :: "string list \<Rightarrow> string list" where
  "dedupe xs = sort (remdups (filter (\<lambda>s. s \<noteq> []) xs))"

record port_candidates =
  candidates :: "string list"
  picked :: string

definition raw_paths :: "snapshot \<Rightarrow> (string, string list) gomap \<times> (string, string list) gomap \<Rightarrow> port \<Rightarrow> string list" where
  "raw_paths snap ext p =
    (let raw = list_at (fipExts snap) (PortUUID p)
     in if length raw = 0 then concat (map (\<lambda>fip. subnetExt ext (FixSubnetID fip)) (FixedIPs p)) else raw)"

definition externalCandidatesByPort :: "snapshot \<Rightarrow> (string, port_candidates) gomap" where
  "externalCandidatesByPort snap =
    (let ext = fold (ext_port snap) (Ports snap) ([], [])
     in fold (\<lambda>p out. if \<not> IsVMPort (DeviceOwner p) then out
                 else (let cs = dedupe (raw_paths snap ext p)
                       in if length cs = 0 then out
                          else mput (PortUUID p) \<lparr>candidates = cs, picked = cs ! 0\<rparr> out)) (Ports snap) [])"

definition ExternalNetworkByPort :: "snapshot \<Rightarrow> (string, string) gomap" where
  "ExternalNetworkByPort snap = fold (\<lambda>(portID, c). mput portID (picked c)) (externalCandidatesByPort snap) []"

record multi_external_hit =
  MhPortID :: string
  MhServerID :: string
  MhProjectID :: string
  MhCandidates :: "string list"
  MhPicked :: string

definition zero_port :: port where
  "zero_port = \<lparr>PortUUID = [], PortNetworkID = [], PortProjectID = [], MACAddress = [], DeviceOwner = [], DeviceID = [], FixedIPs = []\<rparr>"

definition detectMultiExternalPaths :: "snapshot \<Rightarrow> multi_external_hit list" where
  "detectMultiExternalPaths snap =
    (let meta = put_where (\<lambda>_. True) PortUUID id (Ports snap)
     in sort_key MhPortID
          (map (\<lambda>(portID, c).
                  let p = (case mget meta portID of None \<Rightarrow> zero_port | Some p \<Rightarrow> p)
                  in \<lparr>MhPortID = portID, MhServerID = DeviceID p, MhProjectID = PortProjectID p,
                      MhCandidates = candidates c, MhPicked = picked c\<rparr>)
            (filter (\<lambda>(portID, c). \<not> length (candidates c) < 2) (externalCandidatesByPort snap))))"

definition RouterExtMACs :: "snapshot \<Rightarrow> (u64, string) gomap" where
  "RouterExtMACs snap =
    fold (\<lambda>p out. if DeviceOwner p \<noteq> DeviceOwnerRouterInterface then out
            else (case mget (routerExts snap) (DeviceID p) of
                    None \<Rightarrow> out
                  | Some ext \<Rightarrow> (case ParseMAC6 (MACAddress p) of
                                   None \<Rightarrow> out
                                 | Some mac \<Rightarrow> mput (MACKey mac) ext out))) (Ports snap) []"

section \<open>Load balancers\<close>

definition providerAmphora :: string where "providerAmphora = ''amphora''"
definition providerAmphoraAlias :: string where "providerAmphoraAlias = ''octavia''"
definition amphoraStatusDeleted :: string where "amphoraStatusDeleted = ''DELETED''"

definition isAmphoraProvider :: "string \<Rightarrow> bool" where
  "isAmphoraProvider p \<longleftrightarrow> p = [] \<or> EqualFold p providerAmphora \<or> EqualFold p providerAmphoraAlias"

definition amphoraLBOwners :: "snapshot \<Rightarrow> (string, string) gomap" where
  "amphoraLBOwners snap =
    put_where (\<lambda>lb. \<not> (LbID lb = [] \<or> LbProjectID lb = []) \<and> isAmphoraProvider (Provider lb)) LbID LbProjectID (LoadBalancers snap)"

record amphora_binding =
  abOwner :: string
  abMgmtIP :: string

definition amphoraBindings :: "snapshot \<Rightarrow> (string, string) gomap \<Rightarrow> (string, amphora_binding) gomap" where
  "amphoraBindings snap owners =
    (if length owners = 0 then []
     else fold (\<lambda>a out. if ComputeID a = [] \<or> EqualFold (Status a) amphoraStatusDeleted then out
                  else (case mget owners (LoadBalancerID a) of
                          None \<Rightarrow> out
                        | Some ow \<Rightarrow> mput (ComputeID a) \<lparr>abOwner = ow, abMgmtIP = LBNetworkIP a\<rparr> out)) (Amphorae snap) [])"

definition portHasIP :: "port \<Rightarrow> string \<Rightarrow> bool" where
  "portHasIP p ip \<longleftrightarrow> (\<exists>f\<in>set (FixedIPs p). IPAddress f = ip)"

definition isManagementPort :: "amphora_binding \<Rightarrow> port \<Rightarrow> bool" where
  "isManagementPort b p \<longleftrightarrow> abMgmtIP b \<noteq> [] \<and> portHasIP p (abMgmtIP b)"

definition amphoraDataPorts :: "snapshot \<Rightarrow> (string, amphora_binding) gomap \<Rightarrow> (string, string) gomap" where
  "amphoraDataPorts snap amps =
    (if length amps = 0 then []
     else fold (\<lambda>p out. case mget amps (DeviceID p) of
                  None \<Rightarrow> out
                | Some amp \<Rightarrow> if isManagementPort amp p then out else mput (PortUUID p) (abOwner amp) out) (Ports snap) [])"

definition AmphoraOwnerByPort :: "snapshot \<Rightarrow> (string, string) gomap" where
  "AmphoraOwnerByPort snap = amphoraDataPorts snap (amphoraBindings snap (amphoraLBOwners snap))"

record amphora_base_ip =
  BaseProjectID :: string
  BaseAddr :: addr

definition base_ips_of :: "string \<Rightarrow> port \<Rightarrow> amphora_base_ip list" where
  "base_ips_of ow p =
    concat (map (\<lambda>f. case ParseAddr (IPAddress f) of
       None \<Rightarrow> []
     | Some a \<Rightarrow> if \<not> Is4 a then [] else [\<lparr>BaseProjectID = ow, BaseAddr = a\<rparr>]) (FixedIPs p))"

definition AmphoraBaseIPs :: "snapshot \<Rightarrow> amphora_base_ip list" where
  "AmphoraBaseIPs snap =
    (let byPort = AmphoraOwnerByPort snap
     in if length byPort = 0 then []
        else concat (map (\<lambda>p. case mget byPort (PortUUID p) of None \<Rightarrow> [] | Some ow \<Rightarrow> base_ips_of ow p) (Ports snap)))"

section \<open>Indexes\<close>

lemma put_where_find:
  "mget (put_where P key val xs) k = map_option val (find (\<lambda>x. P x \<and> key x = k) (rev xs))"
proof -
  have "mget (fold (\<lambda>x m. if P x then mput (key x) (val x) m else m) xs m) k =
      (case find (\<lambda>x. P x \<and> key x = k) (rev xs) of None \<Rightarrow> mget m k | Some x \<Rightarrow> Some (val x))" for m
    by (induction xs rule: rev_induct) auto
  then show ?thesis by (simp add: put_where_def split: option.splits)
qed

lemma find_unique:
  assumes "distinct (map key xs)"
  shows "find (\<lambda>x. P x \<and> key x = k) (rev xs) = Some x \<longleftrightarrow> x \<in> set xs \<and> P x \<and> key x = k"
proof
  assume "find (\<lambda>x. P x \<and> key x = k) (rev xs) = Some x"
  then show "x \<in> set xs \<and> P x \<and> key x = k" by (metis (mono_tags, lifting) find_Some_iff nth_mem set_rev)
next
  assume x: "x \<in> set xs \<and> P x \<and> key x = k"
  then obtain y where y: "find (\<lambda>x. P x \<and> key x = k) (rev xs) = Some y"
    by (cases "find (\<lambda>x. P x \<and> key x = k) (rev xs)") (auto simp: find_None_iff)
  then have "y \<in> set xs \<and> key y = k" by (metis (mono_tags, lifting) find_Some_iff nth_mem set_rev)
  then have "y = x" using x assms by (metis inj_on_contraD distinct_map)
  with y show "find (\<lambda>x. P x \<and> key x = k) (rev xs) = Some x" by simp
qed

lemma put_where_unique:
  assumes "distinct (map key xs)"
  shows "mget (put_where P key val xs) k = Some v \<longleftrightarrow> (\<exists>x\<in>set xs. P x \<and> key x = k \<and> v = val x)"
  unfolding put_where_find map_option_eq_Some find_unique[OF assms] by auto

lemma put_where_sound: "mget (put_where P key val xs) k = Some v \<Longrightarrow> \<exists>x\<in>set xs. P x \<and> key x = k \<and> v = val x"
  unfolding put_where_find map_option_eq_Some by (metis (mono_tags, lifting) find_Some_iff nth_mem set_rev)

lemma list_at_Nil [simp]: "list_at [] k = []"
  by (simp add: list_at_def)

lemma dedupe_set: "set (dedupe xs) = set xs - {[]}" "sorted (dedupe xs)" "distinct (dedupe xs)"
  by (auto simp: dedupe_def)

lemma dedupe_Min: "dedupe xs \<noteq> [] \<Longrightarrow> dedupe xs ! 0 = Min (set xs - {[]})"
  using dedupe_set[of xs] by (metis Min_insert2 hd_conv_nth list.set_sel(1) list.collapse list.simps(15) sorted_simps(2) finite_set insert_absorb)

section \<open>The external path of a port\<close>

text \<open>
  The paths as the topology has them: the label of a network, the external label of a router, the labels
  a subnet reaches through the router that holds its gateway address, or through any attached router.
\<close>

definition is_label :: "snapshot \<Rightarrow> string \<Rightarrow> string \<Rightarrow> bool" where
  "is_label snap nid l \<longleftrightarrow>
     (if \<exists>n\<in>set (Networks snap). NetID n = nid
      then \<exists>n\<in>set (Networks snap). NetID n = nid \<and> l = (if NetName n \<noteq> [] then NetName n else NetID n)
      else l = [])"

definition router_label :: "snapshot \<Rightarrow> string \<Rightarrow> string \<Rightarrow> bool" where
  "router_label snap rid l \<longleftrightarrow> (\<exists>r\<in>set (Routers snap). RtrID r = rid \<and> ExternalNetworkID r \<noteq> [] \<and> is_label snap (ExternalNetworkID r) l)"

definition any_label :: "snapshot \<Rightarrow> string \<Rightarrow> string \<Rightarrow> bool" where
  "any_label snap sid l \<longleftrightarrow> (\<exists>p\<in>set (Ports snap). DeviceOwner p = DeviceOwnerRouterInterface \<and> router_label snap (DeviceID p) l \<and>
     (\<exists>f\<in>set (FixedIPs p). FixSubnetID f = sid))"

definition gw_label :: "snapshot \<Rightarrow> string \<Rightarrow> string \<Rightarrow> bool" where
  "gw_label snap sid l \<longleftrightarrow> (\<exists>p\<in>set (Ports snap). DeviceOwner p = DeviceOwnerRouterInterface \<and> router_label snap (DeviceID p) l \<and>
     (\<exists>f\<in>set (FixedIPs p). FixSubnetID f = sid \<and>
        (\<exists>s\<in>set (Subnets snap). SubID s = sid \<and> GatewayIP s \<noteq> [] \<and> IPAddress f = GatewayIP s)))"

definition fip_label :: "snapshot \<Rightarrow> string \<Rightarrow> string \<Rightarrow> bool" where
  "fip_label snap pid l \<longleftrightarrow> (\<exists>f\<in>set (FloatingIPs snap). FipPortID f = pid \<and> pid \<noteq> [] \<and> FloatingNetworkID f \<noteq> [] \<and>
     is_label snap (FloatingNetworkID f) l)"

definition ext_path :: "snapshot \<Rightarrow> port \<Rightarrow> string \<Rightarrow> bool" where
  "ext_path snap p l \<longleftrightarrow>
     (if \<exists>l'. fip_label snap (PortUUID p) l' then fip_label snap (PortUUID p) l
      else \<exists>f\<in>set (FixedIPs p). if \<exists>l'. gw_label snap (FixSubnetID f) l' then gw_label snap (FixSubnetID f) l
                                 else any_label snap (FixSubnetID f) l)"

definition unique_ids :: "snapshot \<Rightarrow> bool" where
  "unique_ids snap \<longleftrightarrow> distinct (map NetID (Networks snap)) \<and> distinct (map SubID (Subnets snap)) \<and>
     distinct (map PortUUID (Ports snap)) \<and> distinct (map RtrID (Routers snap))"

lemma netLabels_is_label:
  assumes "unique_ids snap"
  shows "str_at (netLabels snap) nid = l \<longleftrightarrow> is_label snap nid l"
proof -
  have d: "distinct (map NetID (Networks snap))" using assms by (simp add: unique_ids_def)
  note U = put_where_unique[OF d, of "\<lambda>_. True" "\<lambda>n. if NetName n \<noteq> [] then NetName n else NetID n" nid, folded netLabels_def]
  show ?thesis
  proof (cases "mget (netLabels snap) nid")
    case None
    have "\<not> (\<exists>n\<in>set (Networks snap). NetID n = nid)" 
    proof
      assume "\<exists>n\<in>set (Networks snap). NetID n = nid"
      then obtain n where "n \<in> set (Networks snap)" "NetID n = nid" by blast
      then show False using None U[of "if NetName n \<noteq> [] then NetName n else NetID n"] by auto
    qed
    then show ?thesis using None by (auto simp: str_at_def is_label_def)
  next
    case (Some v)
    then obtain n where n: "n \<in> set (Networks snap)" "NetID n = nid" "v = (if NetName n \<noteq> [] then NetName n else NetID n)"
      using U[of v] by auto
    have "n' = n" if "n' \<in> set (Networks snap)" "NetID n' = nid" for n'
      using that n d by (metis distinct_map inj_onD)
    then have "is_label snap nid l \<longleftrightarrow> l = v" using n unfolding is_label_def by metis
    then show ?thesis using Some by (auto simp: str_at_def)
  qed
qed

lemma routerExts_label:
  assumes "unique_ids snap"
  shows "mget (routerExts snap) rid = Some l \<longleftrightarrow> router_label snap rid l"
proof -
  have d: "distinct (map RtrID (Routers snap))" using assms by (simp add: unique_ids_def)
  show ?thesis
    unfolding routerExts_def put_where_unique[OF d] router_label_def
    using netLabels_is_label[OF assms] by metis
qed

lemma gateways_eq:
  assumes "unique_ids snap"
  shows "(str_at (subnetGateways snap) sid \<noteq> [] \<and> ip = str_at (subnetGateways snap) sid) \<longleftrightarrow>
    (\<exists>s\<in>set (Subnets snap). SubID s = sid \<and> GatewayIP s \<noteq> [] \<and> ip = GatewayIP s)"
proof -
  have d: "distinct (map SubID (Subnets snap))" using assms by (simp add: unique_ids_def)
  note U = put_where_unique[OF d, of "\<lambda>_. True" GatewayIP sid, folded subnetGateways_def]
  show ?thesis
  proof (cases "mget (subnetGateways snap) sid")
    case None
    then show ?thesis using U by (auto simp: str_at_def)
  next
    case (Some g)
    then have "g = v \<longleftrightarrow> (\<exists>s\<in>set (Subnets snap). SubID s = sid \<and> v = GatewayIP s)" for v using U[of v] by simp
    then show ?thesis using Some by (simp add: str_at_def) metis
  qed
qed

lemma fold_id_const: "fold (\<lambda>_. id) xs m = m"
  by (induction xs) auto

lemma fold_collect:
  assumes "\<And>x acc. S (f x acc) = S acc \<union> H x"
  shows "S (fold f xs acc) = S acc \<union> (\<Union>x\<in>set xs. H x)"
  by (induction xs arbitrary: acc) (auto simp: assms)

lemma ext_ports_labels:
  assumes "unique_ids snap"
  defines "ext \<equiv> fold (ext_port snap) (Ports snap) ([], [])"
  shows "set (list_at (fst ext) sid) = {l. gw_label snap sid l}" "set (list_at (snd ext) sid) = {l. any_label snap sid l}"
proof -
  let ?gw = "\<lambda>f. str_at (subnetGateways snap) (FixSubnetID f) \<noteq> [] \<and> IPAddress f = str_at (subnetGateways snap) (FixSubnetID f)"
  have one: "set (list_at (fst (ext_fixed_ip snap e f acc)) sid) = set (list_at (fst acc) sid) \<union> {l. l = e \<and> FixSubnetID f = sid \<and> ?gw f}"
    "set (list_at (snd (ext_fixed_ip snap e f acc)) sid) = set (list_at (snd acc) sid) \<union> {l. l = e \<and> FixSubnetID f = sid}" for e f acc
    by (cases acc; auto simp: ext_fixed_ip_def Let_def list_at_mappend)+
  note fips = fold_collect[where S = "\<lambda>acc. set (list_at (fst acc) sid)", OF one(1)]
    fold_collect[where S = "\<lambda>acc. set (list_at (snd acc) sid)", OF one(2)]
  let ?H = "\<lambda>P p. {l. DeviceOwner p = DeviceOwnerRouterInterface \<and> router_label snap (DeviceID p) l \<and> (\<exists>f\<in>set (FixedIPs p). FixSubnetID f = sid \<and> P f)}"
  have step: "set (list_at (fst (ext_port snap p acc)) sid) = set (list_at (fst acc) sid) \<union> ?H ?gw p"
    "set (list_at (snd (ext_port snap p acc)) sid) = set (list_at (snd acc) sid) \<union> ?H (\<lambda>_. True) p" for p acc
  proof -
    have rl: "router_label snap (DeviceID p) l \<longleftrightarrow> mget (routerExts snap) (DeviceID p) = Some l" for l
      using routerExts_label[OF assms(1)] by simp
    show "set (list_at (fst (ext_port snap p acc)) sid) = set (list_at (fst acc) sid) \<union> ?H ?gw p"
      "set (list_at (snd (ext_port snap p acc)) sid) = set (list_at (snd acc) sid) \<union> ?H (\<lambda>_. True) p"
      unfolding rl by (cases "mget (routerExts snap) (DeviceID p)"; force simp: ext_port_def fips)+
  qed
  show "set (list_at (fst ext) sid) = {l. gw_label snap sid l}"
    unfolding ext_def fold_collect[where S = "\<lambda>acc. set (list_at (fst acc) sid)", OF step(1)] gw_label_def gateways_eq[OF assms(1)] by auto
  show "set (list_at (snd ext) sid) = {l. any_label snap sid l}"
    unfolding ext_def fold_collect[where S = "\<lambda>acc. set (list_at (snd acc) sid)", OF step(2)] any_label_def by auto
qed

lemma fipExts_labels:
  assumes "unique_ids snap"
  shows "set (list_at (fipExts snap) pid) = {l. fip_label snap pid l}"
proof -
  have step: "set (list_at (if FipPortID f = [] \<or> FloatingNetworkID f = [] then m
            else mappend (FipPortID f) (str_at (netLabels snap) (FloatingNetworkID f)) m) pid) = set (list_at m pid) \<union>
      {l. FipPortID f = pid \<and> pid \<noteq> [] \<and> FloatingNetworkID f \<noteq> [] \<and> str_at (netLabels snap) (FloatingNetworkID f) = l}" for f m
    by (auto simp: list_at_mappend)
  show ?thesis
    unfolding fipExts_def fold_collect[where S = "\<lambda>m. set (list_at m pid)", OF step] fip_label_def netLabels_is_label[OF assms] by auto
qed

lemma raw_paths_labels:
  assumes "unique_ids snap"
  shows "set (raw_paths snap (fold (ext_port snap) (Ports snap) ([], [])) p) = {l. ext_path snap p l}"
proof -
  let ?ext = "fold (ext_port snap) (Ports snap) ([], [])"
  note E = ext_ports_labels[OF assms]
  have sub: "set (subnetExt ?ext sid) = {l. if \<exists>l'. gw_label snap sid l' then gw_label snap sid l else any_label snap sid l}" for sid
  proof -
    have "list_at (fst ?ext) sid = [] \<longleftrightarrow> \<not> (\<exists>l'. gw_label snap sid l')"
      using E(1)[of sid] by (metis (mono_tags) Collect_empty_eq set_empty)
    then show ?thesis using E[of sid] unfolding subnetExt_def by (cases ?ext) auto
  qed
  have "list_at (fipExts snap) (PortUUID p) = [] \<longleftrightarrow> \<not> (\<exists>l'. fip_label snap (PortUUID p) l')"
    using fipExts_labels[OF assms, of "PortUUID p"] by (metis (mono_tags) Collect_empty_eq set_empty)
  then show ?thesis
    using fipExts_labels[OF assms, of "PortUUID p"] sub by (auto simp: raw_paths_def Let_def ext_path_def)
qed

lemma fold_put_if_sound:
  assumes "mget (fold (\<lambda>x m. case g x of None \<Rightarrow> m | Some v \<Rightarrow> mput (key x) v m) xs []) k = Some v"
  shows "\<exists>x\<in>set xs. key x = k \<and> g x = Some v"
  using assms
proof (induction xs rule: rev_induct)
  case (snoc x xs)
  then show ?case by (cases "g x") (auto split: if_splits)
qed simp

lemma fold_put_if_get:
  assumes "distinct (map key xs)" and "x \<in> set xs"
  shows "mget (fold (\<lambda>x m. case g x of None \<Rightarrow> m | Some v \<Rightarrow> mput (key x) v m) xs []) (key x) = g x"
  using assms
proof (induction xs rule: rev_induct)
  case (snoc y xs)
  let ?m = "fold (\<lambda>x m. case g x of None \<Rightarrow> m | Some v \<Rightarrow> mput (key x) v m) xs []"
  show ?case
  proof (cases "y = x")
    case True
    then have "key x \<notin> key ` set xs" using snoc.prems by auto
    then have "mget ?m (key x) \<noteq> Some v" for v
    proof (rule contrapos_nn)
      assume "mget ?m (key x) = Some v"
      from fold_put_if_sound[OF this] obtain y where "y \<in> set xs" "key y = key x" by blast
      then show "key x \<in> key ` set xs" by (intro image_eqI[of _ _ y]) simp_all
    qed
    then have "mget ?m (key x) = None" by (cases "mget ?m (key x)") auto
    then show ?thesis using True by (cases "g x") auto
  next
    case False
    then have xs: "x \<in> set xs" using snoc.prems by simp
    then have "key x \<noteq> key y" using snoc.prems(1) by (auto dest: image_eqI[of "key y" key x "set xs", OF sym])
    then show ?thesis using snoc xs by (cases "g y") auto
  qed
qed simp

definition port_pick :: "snapshot \<Rightarrow> port \<Rightarrow> port_candidates option" where
  "port_pick snap p =
    (let cs = dedupe (raw_paths snap (fold (ext_port snap) (Ports snap) ([], [])) p)
     in if \<not> IsVMPort (DeviceOwner p) \<or> length cs = 0 then None else Some \<lparr>candidates = cs, picked = cs ! 0\<rparr>)"

lemma candidates_fold:
  "externalCandidatesByPort snap =
    fold (\<lambda>p m. case port_pick snap p of None \<Rightarrow> m | Some v \<Rightarrow> mput (PortUUID p) v m) (Ports snap) []"
proof -
  have "(\<lambda>p out. if \<not> IsVMPort (DeviceOwner p) then out
          else (let cs = dedupe (raw_paths snap (fold (ext_port snap) (Ports snap) ([], [])) p)
                in if length cs = 0 then out else mput (PortUUID p) \<lparr>candidates = cs, picked = cs ! 0\<rparr> out)) =
      (\<lambda>p m. case port_pick snap p of None \<Rightarrow> m | Some v \<Rightarrow> mput (PortUUID p) v m)"
    by (intro ext) (auto simp: port_pick_def Let_def)
  then show ?thesis by (simp add: externalCandidatesByPort_def Let_def)
qed

lemma candidates_wf: "mwf (externalCandidatesByPort snap)"
  unfolding candidates_fold by (rule fold_invariant_pres[where P = mwf]) (auto split: option.splits)

lemma ExternalNetworkByPort_get:
  "mget (ExternalNetworkByPort snap) pid = map_option picked (mget (externalCandidatesByPort snap) pid)"
proof -
  have "mget (fold (\<lambda>(portID, c). mput portID (picked c)) m out) pid =
      (case mget m pid of None \<Rightarrow> mget out pid | Some c \<Rightarrow> Some (picked c))" if "mwf m" for m out
    using that by (induction m arbitrary: out) (auto simp: mget_Cons split: option.splits)
  from this[OF candidates_wf] show ?thesis by (simp add: ExternalNetworkByPort_def split: option.splits)
qed

section \<open>Properties\<close>

text \<open>
  Each VM port is attributed to one external network, a function of the topology alone. With unique
  resource ids, a port is labelled exactly when it is a VM port with some named path: the networks of its
  floating IPs when it has any, else, per fixed address, the external networks of the routers that hold
  the subnet's gateway address, or of any attached router when no such router has an external gateway;
  the label is the smallest of them. So the label does not depend on the order of any list of the
  snapshot, and a resync of an unchanged topology never relabels a live series.
\<close>

theorem external_network_exact:
  assumes "unique_ids snap" and "p \<in> set (Ports snap)"
  shows "mget (ExternalNetworkByPort snap) (PortUUID p) =
    (if IsVMPort (DeviceOwner p) \<and> (\<exists>l. ext_path snap p l \<and> l \<noteq> [])
     then Some (Min {l. ext_path snap p l \<and> l \<noteq> []}) else None)"
proof -
  let ?raw = "raw_paths snap (fold (ext_port snap) (Ports snap) ([], [])) p"
  have d: "distinct (map PortUUID (Ports snap))" using assms(1) by (simp add: unique_ids_def)
  have L: "set ?raw - {[]} = {l. ext_path snap p l \<and> l \<noteq> []}" using raw_paths_labels[OF assms(1)] by auto
  have e: "dedupe ?raw = [] \<longleftrightarrow> \<not> (\<exists>l. ext_path snap p l \<and> l \<noteq> [])"
    using dedupe_set(1)[of ?raw] L by (metis (mono_tags, lifting) Collect_empty_eq set_empty)
  have "mget (externalCandidatesByPort snap) (PortUUID p) = port_pick snap p"
    unfolding candidates_fold by (rule fold_put_if_get[OF d assms(2)])
  then show ?thesis
    using e dedupe_Min[of ?raw] unfolding L by (auto simp: ExternalNetworkByPort_get port_pick_def Let_def)
qed


lemma ext_label_fixture: "is_label ex_snapshot ''ext'' l \<longleftrightarrow> l = ''public''"
  by (auto simp: is_label_def ex_snapshot_def)

theorem external_network_exact_witness:
  "mget (ExternalNetworkByPort ex_snapshot) (PortUUID (Ports ex_snapshot ! 1)) = Some ''public''"
proof -
  let ?p = "Ports ex_snapshot ! 1"
  have p: "?p \<in> set (Ports ex_snapshot)" "unique_ids ex_snapshot" "IsVMPort (DeviceOwner ?p)"
    by (simp_all add: ex_snapshot_def unique_ids_def ex_router_def IsVMPort_def HasPrefix_def deviceOwnerNetworkPrefix_def)
  have rl: "router_label ex_snapshot ''r1'' l \<longleftrightarrow> l = ''public''" for l
    unfolding router_label_def using ext_label_fixture by (simp add: ex_snapshot_def ex_router_def)
  have gl: "gw_label ex_snapshot ''s1'' l \<longleftrightarrow> l = ''public''" for l
    unfolding gw_label_def using rl[of l] by (simp add: ex_snapshot_def DeviceOwnerRouterInterface_def)
  have "ext_path ex_snapshot ?p l \<longleftrightarrow> l = ''public''" for l
  proof -
    have "\<not> fip_label ex_snapshot (PortUUID ?p) l'" for l' by (simp add: fip_label_def ex_snapshot_def)
    moreover have "FixedIPs ?p = [\<lparr>FixSubnetID = ''s1'', IPAddress = ''10.0.0.9''\<rparr>]" by (simp add: ex_snapshot_def)
    moreover have "Ex (gw_label ex_snapshot ''s1'')" using gl by blast
    ultimately show ?thesis unfolding ext_path_def by (auto simp: gl)
  qed
  then have "{l. ext_path ex_snapshot ?p l \<and> l \<noteq> []} = {''public''}" by auto
  moreover from this have "\<exists>l. ext_path ex_snapshot ?p l \<and> l \<noteq> []" by blast
  ultimately show ?thesis using external_network_exact[OF p(2,1)] p(3) by simp
qed

text \<open>The load balancer a port serves: the three hops of the join, as a relation.\<close>

definition serves :: "snapshot \<Rightarrow> port \<Rightarrow> string \<Rightarrow> bool" where
  "serves snap p t \<longleftrightarrow> (\<exists>a\<in>set (Amphorae snap). \<exists>lb\<in>set (LoadBalancers snap).
     ComputeID a = DeviceID p \<and> ComputeID a \<noteq> [] \<and> \<not> EqualFold (Status a) amphoraStatusDeleted \<and>
     LbID lb = LoadBalancerID a \<and> LbID lb \<noteq> [] \<and> isAmphoraProvider (Provider lb) \<and> LbProjectID lb = t \<and> t \<noteq> [] \<and>
     \<not> (LBNetworkIP a \<noteq> [] \<and> portHasIP p (LBNetworkIP a)))"

definition binding_of :: "snapshot \<Rightarrow> amphora \<Rightarrow> amphora_binding option" where
  "binding_of snap a =
    (if ComputeID a = [] \<or> EqualFold (Status a) amphoraStatusDeleted then None
     else map_option (\<lambda>ow. \<lparr>abOwner = ow, abMgmtIP = LBNetworkIP a\<rparr>) (mget (amphoraLBOwners snap) (LoadBalancerID a)))"

definition owner_of :: "snapshot \<Rightarrow> port \<Rightarrow> string option" where
  "owner_of snap p =
    (case mget (amphoraBindings snap (amphoraLBOwners snap)) (DeviceID p) of
       None \<Rightarrow> None | Some amp \<Rightarrow> if isManagementPort amp p then None else Some (abOwner amp))"

lemma bindings_fold:
  "amphoraBindings snap (amphoraLBOwners snap) =
    fold (\<lambda>a m. case binding_of snap a of None \<Rightarrow> m | Some v \<Rightarrow> mput (ComputeID a) v m) (Amphorae snap) []"
proof (cases "amphoraLBOwners snap = []")
  case True
  then have "(\<lambda>a (m :: (string, amphora_binding) gomap). case binding_of snap a of None \<Rightarrow> m | Some v \<Rightarrow> mput (ComputeID a) v m) = (\<lambda>_. id)"
    by (intro ext) (simp add: binding_of_def)
  then show ?thesis using True by (simp add: amphoraBindings_def fold_id_const)
next
  case False
  have "(\<lambda>a out. if ComputeID a = [] \<or> EqualFold (Status a) amphoraStatusDeleted then out
          else (case mget (amphoraLBOwners snap) (LoadBalancerID a) of
                  None \<Rightarrow> out | Some ow \<Rightarrow> mput (ComputeID a) \<lparr>abOwner = ow, abMgmtIP = LBNetworkIP a\<rparr> out)) =
      (\<lambda>a m. case binding_of snap a of None \<Rightarrow> m | Some v \<Rightarrow> mput (ComputeID a) v m)"
    by (intro ext) (auto simp: binding_of_def split: option.splits)
  then show ?thesis using False by (simp add: amphoraBindings_def)
qed

lemma owners_fold:
  "AmphoraOwnerByPort snap = fold (\<lambda>p m. case owner_of snap p of None \<Rightarrow> m | Some v \<Rightarrow> mput (PortUUID p) v m) (Ports snap) []"
proof (cases "amphoraBindings snap (amphoraLBOwners snap) = []")
  case True
  then have "(\<lambda>p (m :: (string, string) gomap). case owner_of snap p of None \<Rightarrow> m | Some v \<Rightarrow> mput (PortUUID p) v m) = (\<lambda>_. id)"
    by (intro ext) (simp add: owner_of_def)
  then show ?thesis using True by (simp add: AmphoraOwnerByPort_def amphoraDataPorts_def fold_id_const)
next
  case False
  have "(\<lambda>p out. case mget (amphoraBindings snap (amphoraLBOwners snap)) (DeviceID p) of
          None \<Rightarrow> out | Some amp \<Rightarrow> if isManagementPort amp p then out else mput (PortUUID p) (abOwner amp) out) =
      (\<lambda>p m. case owner_of snap p of None \<Rightarrow> m | Some v \<Rightarrow> mput (PortUUID p) v m)"
    by (intro ext) (auto simp: owner_of_def split: option.splits)
  then show ?thesis using False by (simp add: AmphoraOwnerByPort_def amphoraDataPorts_def)
qed

definition unique_lb_ids :: "snapshot \<Rightarrow> bool" where
  "unique_lb_ids snap \<longleftrightarrow> distinct (map PortUUID (Ports snap)) \<and> distinct (map LbID (LoadBalancers snap)) \<and>
     distinct (map ComputeID (Amphorae snap))"

lemma owner_of_serves:
  assumes "unique_lb_ids snap"
  shows "owner_of snap p = Some t \<longleftrightarrow> serves snap p t"
proof -
  have d: "distinct (map LbID (LoadBalancers snap))" "distinct (map ComputeID (Amphorae snap))"
    using assms by (simp_all add: unique_lb_ids_def)
  let ?B = "amphoraBindings snap (amphoraLBOwners snap)"
  have lb: "mget (amphoraLBOwners snap) i = Some t \<longleftrightarrow>
      (\<exists>lb\<in>set (LoadBalancers snap). LbID lb = i \<and> LbID lb \<noteq> [] \<and> t \<noteq> [] \<and> isAmphoraProvider (Provider lb) \<and> LbProjectID lb = t)" for i t
    unfolding amphoraLBOwners_def put_where_unique[OF d(1)] by auto
  have B: "mget ?B (DeviceID p) = Some b \<longleftrightarrow> (\<exists>a\<in>set (Amphorae snap). ComputeID a = DeviceID p \<and> binding_of snap a = Some b)" for b
  proof
    assume "mget ?B (DeviceID p) = Some b"
    then show "\<exists>a\<in>set (Amphorae snap). ComputeID a = DeviceID p \<and> binding_of snap a = Some b"
      unfolding bindings_fold by (rule fold_put_if_sound)
  next
    assume "\<exists>a\<in>set (Amphorae snap). ComputeID a = DeviceID p \<and> binding_of snap a = Some b"
    then obtain a where a: "a \<in> set (Amphorae snap)" "ComputeID a = DeviceID p" "binding_of snap a = Some b" by blast
    show "mget ?B (DeviceID p) = Some b"
      unfolding bindings_fold using fold_put_if_get[OF d(2) a(1), where g = "binding_of snap"] a by simp
  qed
  have "owner_of snap p = Some t \<longleftrightarrow> (\<exists>b. mget ?B (DeviceID p) = Some b \<and> \<not> isManagementPort b p \<and> abOwner b = t)"
    by (auto simp: owner_of_def split: option.splits)
  also have "\<dots> \<longleftrightarrow> (\<exists>a\<in>set (Amphorae snap). ComputeID a = DeviceID p \<and> ComputeID a \<noteq> [] \<and> \<not> EqualFold (Status a) amphoraStatusDeleted \<and>
      mget (amphoraLBOwners snap) (LoadBalancerID a) = Some t \<and> \<not> isManagementPort \<lparr>abOwner = t, abMgmtIP = LBNetworkIP a\<rparr> p)"
    unfolding B by (force simp: binding_of_def)
  also have "\<dots> \<longleftrightarrow> serves snap p t"
    unfolding lb serves_def isManagementPort_def amphora_binding.simps by (rule iffI; elim bexE conjE; intro bexI conjI; assumption)
  finally show ?thesis .
qed

text \<open>
  C21. Load-balancer traffic bills the tenant that owns the load balancer. With unique ids, a port is
  re-attributed to a tenant exactly when it belongs to the Nova instance of a live amphora of an
  amphora-provider load balancer owned by that tenant and does not hold the amphora's management
  address; and the base addresses written to the kernel are exactly the IPv4 fixed addresses of those
  ports, each under the same tenant.
\<close>

theorem amphora_attribution_exact:
  assumes "unique_lb_ids snap" and "p \<in> set (Ports snap)"
  shows "(mget (AmphoraOwnerByPort snap) (PortUUID p) = Some t \<longleftrightarrow> serves snap p t) \<and>
    (\<lparr>BaseProjectID = t, BaseAddr = ip\<rparr> \<in> set (AmphoraBaseIPs snap) \<longleftrightarrow>
       (\<exists>q\<in>set (Ports snap). serves snap q t \<and> (\<exists>f\<in>set (FixedIPs q). ParseAddr (IPAddress f) = Some ip \<and> Is4 ip)))"
proof
  have d: "distinct (map PortUUID (Ports snap))" using assms(1) by (simp add: unique_lb_ids_def)
  have own: "mget (AmphoraOwnerByPort snap) (PortUUID q) = Some u \<longleftrightarrow> serves snap q u" if "q \<in> set (Ports snap)" for q u
    unfolding owners_fold fold_put_if_get[OF d that] by (rule owner_of_serves[OF assms(1)])
  show "mget (AmphoraOwnerByPort snap) (PortUUID p) = Some t \<longleftrightarrow> serves snap p t" by (rule own[OF assms(2)])
  have base: "\<lparr>BaseProjectID = t, BaseAddr = ip\<rparr> \<in> set (base_ips_of ow q) \<longleftrightarrow>
      ow = t \<and> (\<exists>f\<in>set (FixedIPs q). ParseAddr (IPAddress f) = Some ip \<and> Is4 ip)" for ow q
  proof -
    have "\<lparr>BaseProjectID = t, BaseAddr = ip\<rparr> \<in> set (case ParseAddr (IPAddress f) of None \<Rightarrow> []
        | Some a \<Rightarrow> if \<not> Is4 a then [] else [\<lparr>BaseProjectID = ow, BaseAddr = a\<rparr>]) \<longleftrightarrow> ow = t \<and> ParseAddr (IPAddress f) = Some ip \<and> Is4 ip" for f
      by (cases "ParseAddr (IPAddress f)") auto
    then show ?thesis unfolding base_ips_of_def set_concat set_map by blast
  qed
  have "\<lparr>BaseProjectID = t, BaseAddr = ip\<rparr> \<in> set (AmphoraBaseIPs snap) \<longleftrightarrow>
      (\<exists>q\<in>set (Ports snap). \<exists>ow. mget (AmphoraOwnerByPort snap) (PortUUID q) = Some ow \<and> \<lparr>BaseProjectID = t, BaseAddr = ip\<rparr> \<in> set (base_ips_of ow q))"
  proof -
    have "x \<in> set (case mget m k of None \<Rightarrow> [] | Some ow \<Rightarrow> f ow) \<longleftrightarrow> (\<exists>ow. mget m k = Some ow \<and> x \<in> set (f ow))" for x k f and m :: "(string, string) gomap"
      by (cases "mget m k") auto
    then show ?thesis by (cases "AmphoraOwnerByPort snap = []") (simp_all add: AmphoraBaseIPs_def Let_def eq_commute[of "Some _"])
  qed
  then show "\<lparr>BaseProjectID = t, BaseAddr = ip\<rparr> \<in> set (AmphoraBaseIPs snap) \<longleftrightarrow>
       (\<exists>q\<in>set (Ports snap). serves snap q t \<and> (\<exists>f\<in>set (FixedIPs q). ParseAddr (IPAddress f) = Some ip \<and> Is4 ip))"
    unfolding base using own by auto
qed

definition ex_lb_snapshot :: snapshot where
  "ex_lb_snapshot = ex_snapshot\<lparr>
     LoadBalancers := [\<lparr>LbID = ''lb1'', LbProjectID = ''b'', Provider = ''Amphora''\<rparr>],
     Amphorae := [\<lparr>AmpID = ''am1'', LoadBalancerID = ''lb1'', ComputeID = ''vm1'', LBNetworkIP = ''10.7.0.3'', Status = ''ALLOCATED''\<rparr>]\<rparr>"

theorem amphora_attribution_exact_witness:
  "mget (AmphoraOwnerByPort ex_lb_snapshot) (PortUUID (Ports ex_lb_snapshot ! 1)) = Some ''b''"
proof -
  have "unique_lb_ids ex_lb_snapshot" "Ports ex_lb_snapshot ! 1 \<in> set (Ports ex_lb_snapshot)"
    by (simp_all add: unique_lb_ids_def ex_lb_snapshot_def ex_snapshot_def)
  moreover have "serves ex_lb_snapshot (Ports ex_lb_snapshot ! 1) ''b''"
    by (simp add: serves_def ex_lb_snapshot_def ex_snapshot_def isAmphoraProvider_def EqualFold_def providerAmphora_def
        amphoraStatusDeleted_def lower_def char_of_def bit_0 portHasIP_def)
  ultimately show ?thesis using amphora_attribution_exact[of ex_lb_snapshot "Ports ex_lb_snapshot ! 1" "''b''"] by blast
qed

end
