(* ===== verification/Kernel_Writer.thy ===== *)
theory Kernel_Writer
  imports Kernel_Map Neutron_Attrib
begin

text \<open>
  The writers of the kernel's metadata maps (\<^verbatim>\<open>internal/kernelwriter\<close>) and the kernel's own zone lookup
  (\<^verbatim>\<open>bpf/telemetry.c\<close>, \<^verbatim>\<open>lookup_zone\<close>), which reads what they write. A writer goes on after a
  failed entry and reports the first failure. The incremental writer ranges over Go maps, whose order is
  not specified: the two orders are arguments, and the theorems hold for any reordering.
\<close>

section \<open>The full writers\<close>

datatype 'k write_error = ErrNil string | ErrEntry 'k

definition note_error :: "'k \<Rightarrow> 'k write_error option \<Rightarrow> 'k write_error option" where
  "note_error k firstErr = (if firstErr = None then Some (ErrEntry k) else firstErr)"

text \<open>The update loop over key and value pairs: map, successful writes, first error.\<close>

fun update_all :: "('k \<Rightarrow> 'v \<Rightarrow> 'm \<Rightarrow> kerr option \<times> 'm) \<Rightarrow> ('k \<times> 'v) list \<Rightarrow> 'm \<times> nat \<times> 'k write_error option \<Rightarrow> 'm \<times> nat \<times> 'k write_error option" where
  "update_all kupd [] st = st"
| "update_all kupd ((k, v) # kvs) (m, written, firstErr) =
    (case kupd k v m of
       (Some _, m') \<Rightarrow> update_all kupd kvs (m', written, note_error k firstErr)
     | (None, m') \<Rightarrow> update_all kupd kvs (m', Suc written, firstErr))"

definition mac_pair :: "(u64 \<times> u32) list \<times> interner \<Rightarrow> u64 \<Rightarrow> tenant_meta \<Rightarrow> ((u64 \<times> u32) list \<times> interner) \<times> bool" where
  "mac_pair acc mac meta =
    (case acc of (pairs, t) \<Rightarrow>
       (if ProjectID meta = [] then (pairs, t)
        else (case Intern (ProjectID meta) t of (i, t') \<Rightarrow> (pairs @ [(mac, TenantValue i (IsAmphora meta))], t')), True))"

text \<open>A nil argument is None; the result carries the map and the interner after the call.\<close>

definition WriteMacTenantMap ::
  "(u64 \<Rightarrow> u32 \<Rightarrow> 'm \<Rightarrow> kerr option \<times> 'm) \<Rightarrow> 'm option \<Rightarrow> sharded_map option \<Rightarrow> interner option \<Rightarrow>
     ('m option \<times> interner option) \<times> nat \<times> u64 write_error option" where
  "WriteMacTenantMap kupd macMap snap it =
    (case macMap of None \<Rightarrow> ((macMap, it), 0, Some (ErrNil ''kernelwriter: macMap is nil''))
     | Some m \<Rightarrow>
    (case snap of None \<Rightarrow> ((macMap, it), 0, Some (ErrNil ''kernelwriter: ShardedMetadataMap is nil''))
     | Some s \<Rightarrow>
    (case it of None \<Rightarrow> ((macMap, it), 0, Some (ErrNil ''kernelwriter: TenantInterner is nil''))
     | Some t \<Rightarrow>
        (case ShardedMetadataMap_Range mac_pair s ([], t) of
           (pairs, t') \<Rightarrow> (case update_all kupd pairs (m, 0, None) of
              (m', written, firstErr) \<Rightarrow> ((Some m', Some t'), written, firstErr))))))"

fun write_trie :: "endian \<Rightarrow> (lpm_key \<Rightarrow> u8 \<Rightarrow> 'm \<Rightarrow> kerr option \<times> 'm) \<Rightarrow> trie_entry list \<Rightarrow>
    'm \<times> interner \<times> nat \<times> lpm_key write_error option \<Rightarrow> ('m \<times> interner \<times> nat \<times> lpm_key write_error option) outcome" where
  "write_trie en kupd [] st = Ret st"
| "write_trie en kupd (e # es) (m, t, written, firstErr) =
    (case Intern (TenantID e) t of (tid, t') \<Rightarrow>
      (case LpmKeyForPrefix en tid (Prefix e) of
         Panic msg \<Rightarrow> Panic msg
       | Ret key \<Rightarrow>
           (case kupd key (Zone e) m of
              (Some _, m') \<Rightarrow> write_trie en kupd es (m', t', written, note_error key firstErr)
            | (None, m') \<Rightarrow> write_trie en kupd es (m', t', Suc written, firstErr))))"

definition WriteSubnetZoneTrie ::
  "endian \<Rightarrow> (lpm_key \<Rightarrow> u8 \<Rightarrow> 'm \<Rightarrow> kerr option \<times> 'm) \<Rightarrow> 'm option \<Rightarrow> trie_entry list \<Rightarrow> interner option \<Rightarrow>
     (('m option \<times> interner option) \<times> nat \<times> lpm_key write_error option) outcome" where
  "WriteSubnetZoneTrie en kupd trieMap es it =
    (case trieMap of None \<Rightarrow> Ret ((trieMap, it), 0, Some (ErrNil ''kernelwriter: trieMap is nil''))
     | Some m \<Rightarrow>
    (case it of None \<Rightarrow> Ret ((trieMap, it), 0, Some (ErrNil ''kernelwriter: TenantInterner is nil''))
     | Some t \<Rightarrow>
        (case write_trie en kupd es (m, t, 0, None) of
           Panic msg \<Rightarrow> Panic msg
         | Ret (m', t', written, firstErr) \<Rightarrow> Ret ((Some m', Some t'), written, firstErr))))"

fun write_base_ips :: "endian \<Rightarrow> (amphora_key \<Rightarrow> u8 \<Rightarrow> 'm \<Rightarrow> kerr option \<times> 'm) \<Rightarrow> amphora_base_ip list \<Rightarrow>
    'm \<times> interner \<times> nat \<times> amphora_key write_error option \<Rightarrow> ('m \<times> interner \<times> nat \<times> amphora_key write_error option) outcome" where
  "write_base_ips en kupd [] st = Ret st"
| "write_base_ips en kupd (e # es) (m, t, written, firstErr) =
    (if BaseProjectID e = [] then write_base_ips en kupd es (m, t, written, firstErr)
     else (case Intern (BaseProjectID e) t of (tid, t') \<Rightarrow>
      (case AmphoraKeyForIP en tid (BaseAddr e) of
         Panic msg \<Rightarrow> Panic msg
       | Ret key \<Rightarrow>
           (case kupd key 1 m of
              (Some _, m') \<Rightarrow> write_base_ips en kupd es (m', t', written, note_error key firstErr)
            | (None, m') \<Rightarrow> write_base_ips en kupd es (m', t', Suc written, firstErr)))))"

definition WriteAmphoraBaseIPs ::
  "endian \<Rightarrow> (amphora_key \<Rightarrow> u8 \<Rightarrow> 'm \<Rightarrow> kerr option \<times> 'm) \<Rightarrow> 'm option \<Rightarrow> amphora_base_ip list \<Rightarrow> interner option \<Rightarrow>
     (('m option \<times> interner option) \<times> nat \<times> amphora_key write_error option) outcome" where
  "WriteAmphoraBaseIPs en kupd amphoraMap es it =
    (case amphoraMap of None \<Rightarrow> Ret ((amphoraMap, it), 0, Some (ErrNil ''kernelwriter: amphoraMap is nil''))
     | Some m \<Rightarrow>
    (case it of None \<Rightarrow> Ret ((amphoraMap, it), 0, Some (ErrNil ''kernelwriter: TenantInterner is nil''))
     | Some t \<Rightarrow>
        (case write_base_ips en kupd es (m, t, 0, None) of
           Panic msg \<Rightarrow> Panic msg
         | Ret (m', t', written, firstErr) \<Rightarrow> Ret ((Some m', Some t'), written, firstErr))))"

section \<open>The incremental writer\<close>

record trie_delta =
  Added :: nat
  Changed :: nat
  Removed :: nat

type_synonym trie_row_key = "u32 \<times> prefix"

fun index_rows :: "trie_entry list \<Rightarrow> (trie_row_key, u8) gomap \<times> interner \<Rightarrow> (trie_row_key, u8) gomap \<times> interner" where
  "index_rows [] acc = acc"
| "index_rows (e # es) (rows, t) =
    (case Intern (TenantID e) t of (tid, t') \<Rightarrow> index_rows es (mput (tid, Prefix e) (Zone e) rows, t'))"

fun upsert_rows :: "endian \<Rightarrow> (lpm_key \<Rightarrow> u8 \<Rightarrow> 'm \<Rightarrow> kerr option \<times> 'm) \<Rightarrow> (trie_row_key, u8) gomap \<Rightarrow> (trie_row_key \<times> u8) list \<Rightarrow>
    'm \<times> trie_delta \<times> lpm_key write_error option \<Rightarrow> ('m \<times> trie_delta \<times> lpm_key write_error option) outcome" where
  "upsert_rows en kupd oldRows [] st = Ret st"
| "upsert_rows en kupd oldRows ((rk, zone) # rs) (m, d, firstErr) =
    (if mget oldRows rk = Some zone then upsert_rows en kupd oldRows rs (m, d, firstErr)
     else (case LpmKeyForPrefix en (fst rk) (snd rk) of
             Panic msg \<Rightarrow> Panic msg
           | Ret key \<Rightarrow>
               (case kupd key zone m of
                  (Some _, m') \<Rightarrow> upsert_rows en kupd oldRows rs (m', d, note_error key firstErr)
                | (None, m') \<Rightarrow> upsert_rows en kupd oldRows rs
                    (m', if mhas oldRows rk then d\<lparr>Changed := Changed d + 1\<rparr> else d\<lparr>Added := Added d + 1\<rparr>, firstErr))))"

fun delete_rows :: "endian \<Rightarrow> (lpm_key \<Rightarrow> 'm \<Rightarrow> kerr option \<times> 'm) \<Rightarrow> (trie_row_key, u8) gomap \<Rightarrow> trie_row_key list \<Rightarrow>
    'm \<times> trie_delta \<times> lpm_key write_error option \<Rightarrow> ('m \<times> trie_delta \<times> lpm_key write_error option) outcome" where
  "delete_rows en kdel newRows [] st = Ret st"
| "delete_rows en kdel newRows (rk # rks) (m, d, firstErr) =
    (if mhas newRows rk then delete_rows en kdel newRows rks (m, d, firstErr)
     else (case LpmKeyForPrefix en (fst rk) (snd rk) of
             Panic msg \<Rightarrow> Panic msg
           | Ret key \<Rightarrow>
               (case kdel key m of
                  (Some _, m') \<Rightarrow> delete_rows en kdel newRows rks (m', d, note_error key firstErr)
                | (None, m') \<Rightarrow> delete_rows en kdel newRows rks (m', d\<lparr>Removed := Removed d + 1\<rparr>, firstErr))))"

definition zero_delta :: trie_delta where "zero_delta = \<lparr>Added = 0, Changed = 0, Removed = 0\<rparr>"

definition ApplyTrieDelta ::
  "endian \<Rightarrow> (lpm_key \<Rightarrow> u8 \<Rightarrow> 'm \<Rightarrow> kerr option \<times> 'm) \<Rightarrow> (lpm_key \<Rightarrow> 'm \<Rightarrow> kerr option \<times> 'm) \<Rightarrow>
   ((trie_row_key \<times> u8) list \<Rightarrow> (trie_row_key \<times> u8) list) \<Rightarrow> 'm option \<Rightarrow> trie_entry list \<Rightarrow> trie_entry list \<Rightarrow> interner option \<Rightarrow>
     (('m option \<times> interner option) \<times> trie_delta \<times> lpm_key write_error option) outcome" where
  "ApplyTrieDelta en kupd kdel ord trieMap oldEntries newEntries it =
    (case trieMap of None \<Rightarrow> Ret ((trieMap, it), zero_delta, Some (ErrNil ''kernelwriter: trieMap is nil''))
     | Some m \<Rightarrow>
    (case it of None \<Rightarrow> Ret ((trieMap, it), zero_delta, Some (ErrNil ''kernelwriter: TenantInterner is nil''))
     | Some t \<Rightarrow>
        (case index_rows newEntries ([], t) of (newRows, t1) \<Rightarrow>
        (case index_rows oldEntries ([], t1) of (oldRows, t2) \<Rightarrow>
        (case upsert_rows en kupd oldRows (ord newRows) (m, zero_delta, None) of
           Panic msg \<Rightarrow> Panic msg
         | Ret (m1, d, Some err) \<Rightarrow> Ret ((Some m1, Some t2), d, Some err)
         | Ret (m1, d, None) \<Rightarrow>
             (case delete_rows en kdel newRows (map fst (ord oldRows)) (m1, d, None) of
                Panic msg \<Rightarrow> Panic msg
              | Ret (m2, d', firstErr) \<Rightarrow> Ret ((Some m2, Some t2), d', firstErr)))))))"

section \<open>The kernel's lookup\<close>

text \<open>
  A trie key as the kernel compares it: the bytes after the length, most significant bit of each byte
  first. A stored key matches when its first bits, as many as its length, equal those of the query.
\<close>

definition byte_bits :: "u8 \<Rightarrow> bool list" where
  "byte_bits b = map (\<lambda>i. bit b (7 - i)) [0..<8]"

definition lpm_bits :: "endian \<Rightarrow> lpm_key \<Rightarrow> bool list" where
  "lpm_bits en k = concat (map byte_bits (native_bytes en (LpmTenantId k) @ native_bytes en (LpmIp k)))"

definition lpm_matches :: "endian \<Rightarrow> lpm_key \<Rightarrow> lpm_key \<Rightarrow> bool" where
  "lpm_matches en k q \<longleftrightarrow> Prefixlen k \<le> Prefixlen q \<and> take (unat (Prefixlen k)) (lpm_bits en k) = take (unat (Prefixlen k)) (lpm_bits en q)"

text \<open>
  The three maps are given by their lookups; \<^verbatim>\<open>ip_be\<close> is the address as loaded from the packet, so its
  bytes in memory are the wire bytes.
\<close>

definition is_amphora_segment2 :: "(amphora_key \<Rightarrow> u8 option) \<Rightarrow> u32 \<Rightarrow> u32 \<Rightarrow> bool" where
  "is_amphora_segment2 amp tid ip_be \<longleftrightarrow> amp \<lparr>AmpTenantId = tid, AmpIp = ip_be\<rparr> \<noteq> None"

definition lookup_zone :: "(u64 \<Rightarrow> u32 option) \<Rightarrow> (amphora_key \<Rightarrow> u8 option) \<Rightarrow> (lpm_key \<Rightarrow> u8 option) \<Rightarrow> mac \<Rightarrow> mac \<Rightarrow> u32 \<Rightarrow> u32 \<Rightarrow> u8" where
  "lookup_zone macs amp lpm vm_mac peer_mac local_ip_be remote_ip_be =
    (case macs (MACKey vm_mac) of
       None \<Rightarrow> ZoneMiss
     | Some vm_val \<Rightarrow>
         (let vm_tid = vm_val AND TenantIDMask
          in case macs (MACKey peer_mac) of
               Some peer_val \<Rightarrow>
                 (let peer_tid = peer_val AND TenantIDMask
                  in if vm_val AND TenantAmphoraFlag \<noteq> 0 \<and> is_amphora_segment2 amp vm_tid local_ip_be then ZoneInfra
                     else if peer_val AND TenantAmphoraFlag \<noteq> 0 \<and> is_amphora_segment2 amp peer_tid remote_ip_be then ZoneInfra
                     else if peer_tid = vm_tid then ZoneSameTenant else ZoneOtherTenant)
             | None \<Rightarrow>
                 (case lpm \<lparr>Prefixlen = 64, LpmTenantId = vm_tid, LpmIp = remote_ip_be\<rparr> of
                    Some zone \<Rightarrow> zone
                  | None \<Rightarrow> (case lpm \<lparr>Prefixlen = 64, LpmTenantId = 0, LpmIp = remote_ip_be\<rparr> of
                               Some zone \<Rightarrow> zone | None \<Rightarrow> ZoneMiss))))"

section \<open>Key bits\<close>

lemma upt_8: "[0..<8] = [0, 1, 2, 3, 4, 5, 6, 7::nat]"
  by (simp add: upt_rec)

lemma length_byte_bits [simp]: "length (byte_bits b) = 8"
  by (simp add: byte_bits_def)

lemma byte_bits_inj: "byte_bits a = byte_bits b \<longleftrightarrow> a = b"
proof
  assume eq: "byte_bits a = byte_bits b"
  show "a = b"
  proof (rule bit_word_eqI)
    fix n assume "n < LENGTH(8)"
    then have "n = 0 \<or> n = 1 \<or> n = 2 \<or> n = 3 \<or> n = 4 \<or> n = 5 \<or> n = 6 \<or> n = 7" by auto
    then show "bit a n = bit b n" using eq by (elim disjE) (simp_all add: byte_bits_def upt_8)
  qed
qed simp

lemma concat_byte_bits_inj: "length xs = length ys \<Longrightarrow> concat (map byte_bits xs) = concat (map byte_bits ys) \<longleftrightarrow> xs = ys"
  by (induction xs ys rule: list_induct2) (auto simp: byte_bits_inj)

lemma As4_bits: "concat (map byte_bits (As4 a)) = map (\<lambda>i. bit a (31 - i)) [0..<32]"
proof -
  have "[0..<32] = [0..<8] @ map ((+) 8) [0..<8] @ map ((+) 16) [0..<8] @ map ((+) 24) [0..<8::nat]"
    by (simp add: upt_rec)
  then show ?thesis by (simp add: As4_def byte_bits_def upt_8 bit_simps)
qed

lemma take_bits_drop_bit:
  fixes a b :: u32
  assumes "n \<le> 32"
  shows "take n (map (\<lambda>i. bit a (31 - i)) [0..<32]) = take n (map (\<lambda>i. bit b (31 - i)) [0..<32]) \<longleftrightarrow>
    drop_bit (32 - n) a = drop_bit (32 - n) b"
proof -
  have "take n (map (\<lambda>i. bit a (31 - i)) [0..<32]) = take n (map (\<lambda>i. bit b (31 - i)) [0..<32]) \<longleftrightarrow>
      (\<forall>i<n. bit a (31 - i) = bit b (31 - i))"
    using assms by (auto simp: take_map take_upt map_eq_conv)
  also have "\<dots> \<longleftrightarrow> (\<forall>j. bit (drop_bit (32 - n) a) j = bit (drop_bit (32 - n) b) j)"
  proof
    assume h: "\<forall>i<n. bit a (31 - i) = bit b (31 - i)"
    show "\<forall>j. bit (drop_bit (32 - n) a) j = bit (drop_bit (32 - n) b) j"
    proof
      fix j
      show "bit (drop_bit (32 - n) a) j = bit (drop_bit (32 - n) b) j"
      proof (cases "j < n")
        case True
        have "bit a (31 - (n - 1 - j)) = bit b (31 - (n - 1 - j))" using True h[rule_format, of "n - 1 - j"] by simp
        moreover have "31 - (n - 1 - j) = 32 - n + j" using True assms by arith
        ultimately show ?thesis by (simp only: bit_drop_bit_eq comp_apply)
      next
        case False
        then have "32 \<le> 32 - n + j" using assms by arith
        then show ?thesis using bit_imp_le_length[of a "32 - n + j"] bit_imp_le_length[of b "32 - n + j"] by (auto simp: bit_simps)
      qed
    qed
  next
    assume h: "\<forall>j. bit (drop_bit (32 - n) a) j = bit (drop_bit (32 - n) b) j"
    show "\<forall>i<n. bit a (31 - i) = bit b (31 - i)"
    proof (intro allI impI)
      fix i assume i: "i < n"
      have "32 - n + (n - 1 - i) = 31 - i" using i assms by arith
      then show "bit a (31 - i) = bit b (31 - i)" using h[rule_format, of "n - 1 - i"] by (simp add: bit_simps)
    qed
  qed
  also have "\<dots> \<longleftrightarrow> drop_bit (32 - n) a = drop_bit (32 - n) b" by (auto intro: bit_word_eqI)
  finally show ?thesis .
qed

lemma native_bytes_inj: "native_bytes en a = native_bytes en b \<longleftrightarrow> a = b"
  by (cases en) (simp_all add: native_bytes_def)

lemma length_native_bytes [simp]: "length (native_bytes en a) = 4"
  by (cases en) (simp_all add: native_bytes_def)

definition lpm_of :: "endian \<Rightarrow> trie_row_key \<Rightarrow> lpm_key" where
  "lpm_of en rk = (case LpmKeyForPrefix en (fst rk) (snd rk) of Ret k \<Rightarrow> k | Panic _ \<Rightarrow> \<lparr>Prefixlen = 0, LpmTenantId = 0, LpmIp = 0\<rparr>)"

lemma row_prefix_okE:
  assumes "row_prefix_ok p"
  obtains a where "PAddr p = Addr4 a" "PBits p \<le> 32" "p = \<lparr>PAddr = Addr4 a, PBits = PBits p\<rparr>"
  using assms unfolding row_prefix_ok_def by (metis prefix.surjective old.unit.exhaust)

lemma LpmKey_row: "row_prefix_ok p \<Longrightarrow> LpmKeyForPrefix en tid p = Ret (lpm_of en (tid, p))"
  by (elim row_prefix_okE) (simp add: lpm_of_def LpmKeyForPrefix_def)

lemma Prefixlen_lpm_of:
  assumes "row_prefix_ok p"
  shows "unat (Prefixlen (lpm_of en (tid, p))) = 32 + PBits p"
proof -
  have "PBits p \<le> 32" using assms by (elim row_prefix_okE)
  then have "unat (32 + of_nat (PBits p) :: u32) = 32 + PBits p"
    by (simp add: unat_word_ariths unat_of_nat)
  then show ?thesis using assms by (elim row_prefix_okE) (simp add: lpm_of_def LpmKeyForPrefix_def LpmKeyTenantBits_def)
qed

text \<open>The packed key matches exactly the tenant's packets whose address the prefix contains.\<close>

lemma lpm_match_iff:
  assumes "row_prefix_ok p"
  shows "lpm_matches en (lpm_of en (tid, p)) \<lparr>Prefixlen = 64, LpmTenantId = tid', LpmIp = native_uint32 en (As4 ip)\<rparr> \<longleftrightarrow>
    tid = tid' \<and> Contains p (Addr4 ip)"
proof -
  obtain a where p: "PAddr p = Addr4 a" "PBits p \<le> 32" "p = \<lparr>PAddr = Addr4 a, PBits = PBits p\<rparr>" by (rule row_prefix_okE[OF assms])
  let ?k = "lpm_of en (tid, p)"
  let ?q = "\<lparr>Prefixlen = 64, LpmTenantId = tid', LpmIp = native_uint32 en (As4 ip)\<rparr>"
  have len: "unat (Prefixlen ?k) = 32 + PBits p" by (rule Prefixlen_lpm_of[OF assms])
  then have le: "Prefixlen ?k \<le> Prefixlen ?q" using p(2) by (simp add: word_le_nat_alt)
  have f: "LpmTenantId ?k = tid" "LpmIp ?k = native_uint32 en (As4 a)" using p(1) by (simp_all add: lpm_of_def LpmKeyForPrefix_def)
  have kb: "lpm_bits en ?k = concat (map byte_bits (native_bytes en tid)) @ concat (map byte_bits (As4 a))"
    by (simp add: lpm_bits_def f native_bytes_native_uint32)
  have qb: "lpm_bits en ?q = concat (map byte_bits (native_bytes en tid')) @ concat (map byte_bits (As4 ip))"
    by (simp add: lpm_bits_def native_bytes_native_uint32)
  have l32: "length (concat (map byte_bits (native_bytes en t))) = 32" for t by (simp add: length_concat comp_def sum_list_triv)
  have "lpm_matches en ?k ?q \<longleftrightarrow> concat (map byte_bits (native_bytes en tid)) = concat (map byte_bits (native_bytes en tid')) \<and>
      take (PBits p) (concat (map byte_bits (As4 a))) = take (PBits p) (concat (map byte_bits (As4 ip)))"
    unfolding lpm_matches_def kb qb len using le by (simp add: l32)
  also have "\<dots> \<longleftrightarrow> tid = tid' \<and> drop_bit (32 - PBits p) a = drop_bit (32 - PBits p) ip"
    unfolding As4_bits take_bits_drop_bit[OF p(2)] by (simp add: concat_byte_bits_inj native_bytes_inj)
  also have "\<dots> \<longleftrightarrow> tid = tid' \<and> Contains p (Addr4 ip)" by (subst p(3)) (simp add: Contains4)
  finally show ?thesis .
qed

lemma lpm_of_inj:
  assumes "row_prefix_ok p" "row_prefix_ok p'"
  shows "lpm_of en (tid, p) = lpm_of en (tid', p') \<longleftrightarrow> tid = tid' \<and> p = p'"
proof
  assume eq: "lpm_of en (tid, p) = lpm_of en (tid', p')"
  obtain a b where p: "PAddr p = Addr4 a" "PAddr p' = Addr4 b" using assms by (metis row_prefix_okE)
  have "PBits p = PBits p'" using Prefixlen_lpm_of[OF assms(1), of en tid] Prefixlen_lpm_of[OF assms(2), of en tid'] eq by simp
  moreover have "tid = tid'" "native_uint32 en (As4 a) = native_uint32 en (As4 b)"
    using eq p by (simp_all add: lpm_of_def LpmKeyForPrefix_def)
  ultimately show "tid = tid' \<and> p = p'" using p by (simp add: native_uint32_inj)
qed simp

section \<open>What the writers leave\<close>

text \<open>Interned ids do not change, so every row can be read with the last interner.\<close>

definition id_of :: "interner \<Rightarrow> string \<Rightarrow> u32" where
  "id_of t p = (if p = [] then TenantIDUnset else (case mget (forward t) p of None \<Rightarrow> TenantIDUnset | Some i \<Rightarrow> i))"

lemma Intern_id_of: "fst (Intern p t) = id_of (intern_all ps (snd (Intern p t))) p"
proof (cases "p = []")
  case True
  then show ?thesis by (simp add: Intern_def id_of_def)
next
  case False
  then have "mget (forward (intern_all ps (snd (Intern p t)))) p = Some (fst (Intern p t))"
    by (intro intern_all_keeps Intern_binds)
  then show ?thesis using False by (simp add: id_of_def)
qed

lemma id_of_keeps:
  assumes "p = [] \<or> mget (forward t) p \<noteq> None"
  shows "id_of (intern_all ps t) p = id_of t p"
  using assms by (auto simp: id_of_def intern_all_keeps)

lemma intern_all_known: "p \<in> set ps \<Longrightarrow> p \<noteq> [] \<Longrightarrow> mget (forward (intern_all ps t)) p \<noteq> None"
proof (induction ps arbitrary: t)
  case (Cons q ps)
  then show ?case using intern_all_keeps[OF Intern_binds[of p t], of ps] by (cases "p = q") auto
qed simp

lemma id_of_inj:
  assumes "interner_ok t" "p = [] \<or> mget (forward t) p \<noteq> None" "q = [] \<or> mget (forward t) q \<noteq> None"
  shows "id_of t p = id_of t q \<longleftrightarrow> p = q"
proof -
  have fr: "mget (forward t) x = Some i \<longleftrightarrow> mget (reverse t) i = Some x"
    and nz: "mget (forward t) x = Some i \<Longrightarrow> x \<noteq> [] \<and> i \<noteq> TenantIDUnset" for x i
    using assms(1) by (auto simp: interner_ok_def)
  have none: "mget (forward t) [] = None" using nz by (cases "mget (forward t) []") auto
  have inj: "x = y" if "mget (forward t) x = Some i" "mget (forward t) y = Some i" for x y i
    using that fr[of x i] fr[of y i] by simp
  show ?thesis
    using assms(2,3) nz none inj by (cases "p = []"; cases "q = []") (fastforce simp: id_of_def)+
qed

definition row_of :: "interner \<Rightarrow> trie_entry \<Rightarrow> trie_row_key" where
  "row_of t e = (id_of t (TenantID e), Prefix e)"

lemma index_rows_eq:
  "index_rows es (rows, t) =
    (let t' = intern_all (map TenantID es) t in (fold (\<lambda>e. mput (row_of t' e) (Zone e)) es rows, t'))"
proof (induction es arbitrary: rows t)
  case (Cons e es)
  obtain i t1 where it: "Intern (TenantID e) t = (i, t1)" by (cases "Intern (TenantID e) t")
  then have "i = id_of (intern_all (map TenantID es) t1) (TenantID e)"
    using Intern_id_of[of "TenantID e" t "map TenantID es"] by simp
  then show ?case using it Cons by (simp add: Let_def row_of_def)
qed (simp add: Let_def)

lemma write_trie_eq:
  assumes "\<And>e. e \<in> set es \<Longrightarrow> row_prefix_ok (Prefix e)"
  shows "write_trie en kupd es (m, t, w, err) =
    (let t' = intern_all (map TenantID es) t
     in case update_all kupd (map (\<lambda>e. (lpm_of en (row_of t' e), Zone e)) es) (m, w, err) of (m', w', err') \<Rightarrow> Ret (m', t', w', err'))"
  using assms
proof (induction es arbitrary: m t w err)
  case (Cons e es)
  obtain i t1 where it: "Intern (TenantID e) t = (i, t1)" by (cases "Intern (TenantID e) t")
  then have i: "i = id_of (intern_all (map TenantID es) t1) (TenantID e)"
    using Intern_id_of[of "TenantID e" t "map TenantID es"] by simp
  have key: "LpmKeyForPrefix en i (Prefix e) = Ret (lpm_of en (row_of (intern_all (map TenantID es) t1) e))"
    unfolding row_of_def i[symmetric] by (rule LpmKey_row) (use Cons.prems in simp)
  show ?case using Cons.IH[OF Cons.prems] it
    by (simp add: key Let_def split: prod.splits option.splits)
qed (simp add: Let_def)

context kernel_map
begin

lemma update_all_ok:
  assumes "update_all kupd kvs (m, w, err) = (m', w', None)"
  shows "err = None \<and> w' = w + length kvs \<and>
    kget m' k = (case map_of (rev kvs) k of Some v \<Rightarrow> Some v | None \<Rightarrow> kget m k)"
  using assms
proof (induction kvs arbitrary: m w err)
  case (Cons kv kvs)
  obtain a v where kv: "kv = (a, v)" by (cases kv)
  have later: "update_all kupd xs (x, n, Some e) \<noteq> (y, n', None)" for xs x n e y n'
    by (induction xs arbitrary: x n e) (auto simp: note_error_def split: prod.splits option.splits)
  show ?case
  proof (cases "kupd a v m")
    case (Pair r m1)
    show ?thesis
    proof (cases r)
      case None
      then have h: "update_all kupd kvs (m1, Suc w, err) = (m', w', None)" using Cons.prems kv Pair by simp
      show ?thesis
        using Cons.IH[OF h] upd_ok[of a v m m1] Pair None kv by (auto simp: map_add_def split: option.splits)
    next
      case (Some e)
      then have "update_all kupd kvs (m1, w, note_error a err) = (m', w', None)" using Cons.prems kv Pair by simp
      moreover have "\<exists>e'. note_error a err = Some e'" by (cases err) (auto simp: note_error_def)
      ultimately show ?thesis using later by metis
    qed
  qed
qed simp

end

definition trie_holds :: "('m \<Rightarrow> lpm_key \<Rightarrow> u8 option) \<Rightarrow> endian \<Rightarrow> interner \<Rightarrow> trie_entry list \<Rightarrow> 'm \<Rightarrow> bool" where
  "trie_holds kget en t es m \<longleftrightarrow> (\<forall>k. kget m k = map_of (rev (map (\<lambda>e. (lpm_of en (row_of t e), Zone e)) es)) k)"

lemma full_write_holds:
  assumes km: "kernel_map kget kupd kdel kiter" and rows: "\<And>e. e \<in> set es \<Longrightarrow> row_prefix_ok (Prefix e)"
    and empty: "\<And>k. kget m k = None"
    and w: "WriteSubnetZoneTrie en kupd (Some m) es (Some t) = Ret ((Some m', Some t'), n, None)"
  shows "trie_holds kget en t' es m' \<and> t' = intern_all (map TenantID es) t \<and> n = length es"
proof -
  let ?kvs = "map (\<lambda>e. (lpm_of en (row_of t' e), Zone e)) es"
  have "write_trie en kupd es (m, t, 0, None) = Ret (m', t', n, None)"
    using w by (auto simp: WriteSubnetZoneTrie_def split: outcome.splits prod.splits)
  moreover have "write_trie en kupd es (m, t, 0, None) = (let t' = intern_all (map TenantID es) t
     in case update_all kupd (map (\<lambda>e. (lpm_of en (row_of t' e), Zone e)) es) (m, 0, None) of (m', w', err') \<Rightarrow> Ret (m', t', w', err'))"
    by (rule write_trie_eq) (rule rows)
  ultimately have wt: "(case update_all kupd (map (\<lambda>e. (lpm_of en (row_of (intern_all (map TenantID es) t) e), Zone e)) es) (m, 0, None) of
      (m', w', err') \<Rightarrow> Ret (m', intern_all (map TenantID es) t, w', err')) = Ret (m', t', n, None)" by (simp add: Let_def)
  then have "t' = intern_all (map TenantID es) t" by (auto split: prod.splits)
  moreover from this have "update_all kupd ?kvs (m, 0, None) = (m', n, None)" using wt by (auto split: prod.splits)
  ultimately show ?thesis
    using kernel_map.update_all_ok[OF km, of ?kvs m 0 None m' n] empty by (auto simp: trie_holds_def split: option.splits)
qed

section \<open>The trie map\<close>

text \<open>
  A longest-prefix-match map: beside the calls of every kernel map, a lookup that returns the value of
  a stored key that matches and that no longer matching key is stored for, and misses only when no
  stored key matches.
\<close>

locale trie_map = kernel_map kget kupd kdel kiter
  for kget :: "'m \<Rightarrow> lpm_key \<Rightarrow> u8 option"
    and kupd :: "lpm_key \<Rightarrow> u8 \<Rightarrow> 'm \<Rightarrow> kerr option \<times> 'm"
    and kdel :: "lpm_key \<Rightarrow> 'm \<Rightarrow> kerr option \<times> 'm"
    and kiter :: "'m \<Rightarrow> lpm_key list \<times> kerr option"

locale lpm_map = trie_map kget kupd kdel kiter
  for kget :: "'m \<Rightarrow> lpm_key \<Rightarrow> u8 option"
    and kupd :: "lpm_key \<Rightarrow> u8 \<Rightarrow> 'm \<Rightarrow> kerr option \<times> 'm"
    and kdel :: "lpm_key \<Rightarrow> 'm \<Rightarrow> kerr option \<times> 'm"
    and kiter :: "'m \<Rightarrow> lpm_key list \<times> kerr option" +
  fixes en :: endian
    and klpm :: "'m \<Rightarrow> lpm_key \<Rightarrow> u8 option"
  assumes lpm_none: "klpm m q = None \<Longrightarrow> kget m k \<noteq> None \<Longrightarrow> \<not> lpm_matches en k q"
    and lpm_some: "klpm m q = Some v \<Longrightarrow> \<exists>k. kget m k = Some v \<and> lpm_matches en k q \<and>
      (\<forall>k'. kget m k' \<noteq> None \<longrightarrow> lpm_matches en k' q \<longrightarrow> Prefixlen k' \<le> Prefixlen k)"

definition rows_agree :: "trie_entry list \<Rightarrow> bool" where
  "rows_agree es \<longleftrightarrow> (\<forall>e\<in>set es. \<forall>e'\<in>set es. TenantID e = TenantID e' \<and> Prefix e = Prefix e' \<longrightarrow> Zone e = Zone e')"

definition knows :: "interner \<Rightarrow> string \<Rightarrow> bool" where
  "knows t p \<longleftrightarrow> p = [] \<or> mget (forward t) p \<noteq> None"

lemma holds_SomeD:
  assumes "trie_holds kget en t es m" "kget m k = Some v"
  shows "\<exists>e\<in>set es. k = lpm_of en (row_of t e) \<and> v = Zone e"
  using assms by (auto simp: trie_holds_def dest!: map_of_SomeD)

lemma holds_stored:
  assumes "trie_holds kget en t es m" "e \<in> set es"
  shows "kget m (lpm_of en (row_of t e)) \<noteq> None"
  using assms by (simp add: trie_holds_def map_of_eq_None_iff image_image)

lemma same_length_same_prefix:
  assumes "row_prefix_ok p" "row_prefix_ok q" "PBits p = PBits q" "Contains p (Addr4 c)" "Contains q (Addr4 c)"
  shows "p = q"
proof -
  obtain a b where p: "PAddr p = Addr4 a" "p = \<lparr>PAddr = Addr4 a, PBits = PBits p\<rparr>"
    and q: "PAddr q = Addr4 b" "q = \<lparr>PAddr = Addr4 b, PBits = PBits q\<rparr>"
    using assms(1,2) by (metis row_prefix_okE)
  have m: "a AND NOT (mask (32 - PBits p)) = a" "b AND NOT (mask (32 - PBits p)) = b"
    using assms(1-3) p q by (metis (no_types, lifting) Masked_def addr.inject(1) addr.simps(5) prefix.select_convs(1) prefix.update_convs(1) row_prefix_ok_def)+
  have "a AND NOT (mask (32 - PBits p)) = b AND NOT (mask (32 - PBits p))"
    by (rule masked_unique[where c = c]) (use assms p(2) q(2) m in \<open>simp_all\<close>)
  then show ?thesis using m p q assms(3) by metis
qed

context lpm_map
begin

lemma lpm_is_longest:
  assumes holds: "trie_holds kget en t es m" and ok: "interner_ok t" and agree: "rows_agree es"
    and rows: "\<And>e. e \<in> set es \<Longrightarrow> row_prefix_ok (Prefix e) \<and> knows t (TenantID e)" and T: "knows t T"
  shows "klpm m \<lparr>Prefixlen = 64, LpmTenantId = id_of t T, LpmIp = native_uint32 en (As4 ip)\<rparr> =
    map_option Zone (longestPrefixForTenant es (Addr4 ip) T)"
proof -
  let ?q = "\<lparr>Prefixlen = 64, LpmTenantId = id_of t T, LpmIp = native_uint32 en (As4 ip)\<rparr>"
  have match: "lpm_matches en (lpm_of en (row_of t e)) ?q \<longleftrightarrow> TenantID e = T \<and> Contains (Prefix e) (Addr4 ip)" if "e \<in> set es" for e
    using lpm_match_iff[of "Prefix e" en "id_of t (TenantID e)" "id_of t T" ip] id_of_inj[OF ok, of "TenantID e" T] rows[OF that] T
    by (auto simp: row_of_def knows_def)
  have len: "unat (Prefixlen (lpm_of en (row_of t e))) = 32 + PBits (Prefix e)" if "e \<in> set es" for e
    using Prefixlen_lpm_of rows[OF that] by (simp add: row_of_def)
  show ?thesis
  proof (cases "klpm m ?q")
    case None
    have "\<not> (TenantID e = T \<and> Contains (Prefix e) (Addr4 ip))" if "e \<in> set es" for e
      using lpm_none[OF None holds_stored[OF holds that]] match[OF that] by simp
    then have "longestPrefixForTenant es (Addr4 ip) T = None" unfolding longest_None by blast
    then show ?thesis using None by simp
  next
    case (Some v)
    obtain k where k: "kget m k = Some v" "lpm_matches en k ?q" "\<And>k'. kget m k' \<noteq> None \<Longrightarrow> lpm_matches en k' ?q \<Longrightarrow> Prefixlen k' \<le> Prefixlen k"
      using lpm_some[OF Some] by blast
    obtain e where e: "e \<in> set es" "k = lpm_of en (row_of t e)" "v = Zone e" using holds_SomeD[OF holds k(1)] by blast
    have te: "TenantID e = T" "Contains (Prefix e) (Addr4 ip)" using k(2) match[OF e(1)] e(2) by auto
    obtain b where b: "longestPrefixForTenant es (Addr4 ip) T = Some b"
      using e(1) te longest_None[of es "Addr4 ip" T] by fastforce
    note B = longest_Some[OF b]
    have "Prefixlen (lpm_of en (row_of t b)) \<le> Prefixlen k"
      using k(3)[OF holds_stored[OF holds B(1)]] match[OF B(1)] B(2,3) by simp
    then have "PBits (Prefix b) \<le> PBits (Prefix e)" using len[OF e(1)] len[OF B(1)] e(2) by (simp add: word_le_nat_alt)
    then have "PBits (Prefix b) = PBits (Prefix e)" using B(4)[OF e(1) te] by simp
    then have "Prefix b = Prefix e" using rows[OF e(1)] rows[OF B(1)] B(3) te(2) by (intro same_length_same_prefix[where c = ip]) auto
    then have "Zone b = Zone e" using agree[unfolded rows_agree_def, rule_format, OF B(1) e(1)] B(2) te(1) by simp
    then show ?thesis using Some b e(3) by simp
  qed
qed

end

section \<open>A concrete trie map\<close>

definition longest_key :: "endian \<Rightarrow> lpm_key \<Rightarrow> lpm_key list \<Rightarrow> lpm_key option" where
  "longest_key en q ks =
    fold (\<lambda>k best. if lpm_matches en k q \<and> (case best of None \<Rightarrow> True | Some b \<Rightarrow> Prefixlen b < Prefixlen k) then Some k else best) ks None"

definition lpm_assoc :: "endian \<Rightarrow> (lpm_key, u8) gomap \<Rightarrow> lpm_key \<Rightarrow> u8 option" where
  "lpm_assoc en m q = (case longest_key en q (map fst m) of None \<Rightarrow> None | Some k \<Rightarrow> mget m k)"

lemma longest_key_spec:
  "case longest_key en q ks of
     None \<Rightarrow> \<forall>k\<in>set ks. \<not> lpm_matches en k q
   | Some b \<Rightarrow> b \<in> set ks \<and> lpm_matches en b q \<and> (\<forall>k\<in>set ks. lpm_matches en k q \<longrightarrow> Prefixlen k \<le> Prefixlen b)"
  unfolding longest_key_def by (induction ks rule: rev_induct) (auto split: option.splits if_splits)

lemma bounded_lpm_map: "lpm_map mget (bm_upd cap bad) (bm_del bad) bm_iter en (lpm_assoc en)"
proof (rule lpm_map.intro)
  show "lpm_map_axioms mget en (lpm_assoc en)"
  proof
    fix m :: "(lpm_key, u8) gomap" and q k v
    have keys: "k \<in> set (map fst m) \<longleftrightarrow> mget m k \<noteq> None" for k using mhas_iff[of m k] by (simp add: mhas_def)
    note spec = longest_key_spec[where en = en and q = q and ks = "map fst m"]
    show "\<not> lpm_matches en k q" if "lpm_assoc en m q = None" "mget m k \<noteq> None"
    proof (cases "longest_key en q (map fst m)")
      case None
      then show ?thesis using spec that(2) keys[of k] by (simp del: set_map)
    next
      case (Some b)
      then show ?thesis using spec that(1) keys[of b] by (simp add: lpm_assoc_def del: set_map)
    qed
    show "\<exists>k. mget m k = Some v \<and> lpm_matches en k q \<and> (\<forall>k'. mget m k' \<noteq> None \<longrightarrow> lpm_matches en k' q \<longrightarrow> Prefixlen k' \<le> Prefixlen k)"
      if hit: "lpm_assoc en m q = Some v"
    proof -
      obtain b where b: "longest_key en q (map fst m) = Some b" "mget m b = Some v" using hit by (auto simp: lpm_assoc_def split: option.splits)
      have "lpm_matches en b q" "\<And>k'. mget m k' \<noteq> None \<Longrightarrow> lpm_matches en k' q \<Longrightarrow> Prefixlen k' \<le> Prefixlen b"
        using spec b(1) keys by (auto simp del: set_map)
      with b(2) show ?thesis by blast
    qed
  qed
qed (simp add: trie_map_def bounded_kernel_map)

interpretation trie_kmap: lpm_map mget "bm_upd (unat MapSubnetZoneTrieMaxEntries) bad" "bm_del bad" bm_iter en "lpm_assoc en"
  for bad :: "lpm_key set" and en
  by (rule bounded_lpm_map)

section \<open>The incremental pass\<close>

definition rows_ok :: "(trie_row_key, u8) gomap \<Rightarrow> bool" where
  "rows_ok rows \<longleftrightarrow> (\<forall>rk\<in>set (map fst rows). row_prefix_ok (snd rk))"

text \<open>The kernel holds exactly these rows.\<close>

definition holds_rows :: "('m \<Rightarrow> lpm_key \<Rightarrow> u8 option) \<Rightarrow> endian \<Rightarrow> (trie_row_key, u8) gomap \<Rightarrow> 'm \<Rightarrow> bool" where
  "holds_rows kget en rows m \<longleftrightarrow> (\<forall>k v. kget m k = Some v \<longleftrightarrow> (\<exists>rk. mget rows rk = Some v \<and> k = lpm_of en rk))"

lemma index_rows_get:
  "mget (fst (index_rows es ([], t))) rk = map_of (rev (map (\<lambda>e. (row_of (intern_all (map TenantID es) t) e, Zone e)) es)) rk"
proof -
  have "mget (fold (\<lambda>e. mput (f e) (Zone e)) es rows) rk = (case map_of (rev (map (\<lambda>e. (f e, Zone e)) es)) rk of Some v \<Rightarrow> Some v | None \<Rightarrow> mget rows rk)"
    for f :: "trie_entry \<Rightarrow> trie_row_key" and rows
    by (induction es arbitrary: rows rule: rev_induct) auto
  then show ?thesis by (simp add: index_rows_eq Let_def split: option.splits)
qed

lemma index_rows_wf: "mwf (fst (index_rows es ([], t)))"
  by (simp add: index_rows_eq Let_def) (rule fold_invariant_pres[where P = mwf]; auto)

lemma index_rows_ok:
  assumes "\<And>e. e \<in> set es \<Longrightarrow> row_prefix_ok (Prefix e)"
  shows "rows_ok (fst (index_rows es ([], t)))"
proof -
  have "row_prefix_ok (snd rk)" if "rk \<in> fst ` set (fst (index_rows es ([], t)))" for rk
  proof -
    have "mhas (fst (index_rows es ([], t))) rk" using that by (simp add: mhas_iff)
    then obtain v where "mget (fst (index_rows es ([], t))) rk = Some v" by (auto simp: mhas_def)
    then obtain e where "e \<in> set es" "rk = row_of (intern_all (map TenantID es) t) e"
      unfolding index_rows_get by (auto dest!: map_of_SomeD)
    then show ?thesis using assms by (simp add: row_of_def)
  qed
  then show ?thesis by (simp add: rows_ok_def)
qed

text \<open>Rows that a pass visits, without those it skips.\<close>

definition upserts :: "(trie_row_key, u8) gomap \<Rightarrow> (trie_row_key \<times> u8) list \<Rightarrow> (trie_row_key \<times> u8) list" where
  "upserts oldRows rs = filter (\<lambda>(rk, zone). mget oldRows rk \<noteq> Some zone) rs"

definition deletes :: "(trie_row_key, u8) gomap \<Rightarrow> trie_row_key list \<Rightarrow> trie_row_key list" where
  "deletes newRows rks = filter (\<lambda>rk. \<not> mhas newRows rk) rks"

lemma note_error_Some: "\<exists>e. note_error k err = Some e"
  by (cases err) (auto simp: note_error_def)

context trie_map
begin

lemma upsert_keeps_keys:
  assumes "upsert_rows en kupd oldRows rs (m, d, err) = Ret (m', d', err')" and "kget m k \<noteq> None"
  shows "kget m' k \<noteq> None"
  using assms
proof (induction rs arbitrary: m d err)
  case (Cons r rs)
  obtain rk zone where r: "r = (rk, zone)" by (cases r)
  show ?case
  proof (cases "mget oldRows rk = Some zone")
    case True
    then show ?thesis using Cons r by simp
  next
    case False
    then obtain key where key: "LpmKeyForPrefix en (fst rk) (snd rk) = Ret key" using Cons.prems r by (auto split: outcome.splits)
    obtain res m1 where u: "kupd key zone m = (res, m1)" by (cases "kupd key zone m")
    have "kget m1 k \<noteq> None"
      using upd_ok[of key zone m m1 k] upd_err[of key zone m _ m1 k] u Cons.prems(2) by (cases res) auto
    then show ?thesis using Cons r False key u by (cases res) auto
  qed
qed simp

lemma upsert_no_recovery: "upsert_rows en kupd oldRows rs (m, d, Some e) \<noteq> Ret (m', d', None)"
proof (induction rs arbitrary: m d e)
  case (Cons r rs)
  obtain rk zone where r: "r = (rk, zone)" by (cases r)
  have "\<exists>e'. note_error k (Some e) = Some e'" for k by (rule note_error_Some)
  then show ?case using Cons r by (auto simp: note_error_def split: outcome.splits prod.splits option.splits)
qed simp

lemma upsert_ok:
  assumes "upsert_rows en kupd oldRows rs (m, d, None) = Ret (m', d', None)"
    and "\<And>rk z. (rk, z) \<in> set rs \<Longrightarrow> row_prefix_ok (snd rk)"
  shows "kget m' k = (case map_of (rev (map (\<lambda>(rk, z). (lpm_of en rk, z)) (upserts oldRows rs))) k of Some v \<Rightarrow> Some v | None \<Rightarrow> kget m k) \<and>
    Added d' = Added d + length (filter (\<lambda>(rk, z). \<not> mhas oldRows rk) (upserts oldRows rs)) \<and>
    Changed d' = Changed d + length (filter (\<lambda>(rk, z). mhas oldRows rk) (upserts oldRows rs)) \<and> Removed d' = Removed d"
  using assms
proof (induction rs arbitrary: m d)
  case (Cons r rs)
  obtain rk zone where r: "r = (rk, zone)" by (cases r)
  have ok: "\<And>rk z. (rk, z) \<in> set rs \<Longrightarrow> row_prefix_ok (snd rk)" using Cons.prems(2) by auto
  show ?case
  proof (cases "mget oldRows rk = Some zone")
    case True
    then show ?thesis using Cons.IH[of m d] Cons.prems(1) ok r by (simp add: upserts_def)
  next
    case False
    have key: "LpmKeyForPrefix en (fst rk) (snd rk) = Ret (lpm_of en rk)"
      using LpmKey_row[of "snd rk" en "fst rk"] Cons.prems(2)[of rk zone] r by simp
    obtain res m1 where u: "kupd (lpm_of en rk) zone m = (res, m1)" by (cases "kupd (lpm_of en rk) zone m")
    have res: "res = None"
      using Cons.prems(1) r False key u upsert_no_recovery note_error_Some[of "lpm_of en rk" None] by (cases res) auto
    let ?d = "if mhas oldRows rk then d\<lparr>Changed := Changed d + 1\<rparr> else d\<lparr>Added := Added d + 1\<rparr>"
    have h: "upsert_rows en kupd oldRows rs (m1, ?d, None) = Ret (m', d', None)" using Cons.prems(1) r False key u res by simp
    show ?thesis
      using Cons.IH[OF h ok] upd_ok[of "lpm_of en rk" zone m m1 k] u res r False
      by (auto simp: upserts_def split: option.splits)
  qed
qed (simp add: upserts_def)

lemma delete_rows_facts:
  assumes "delete_rows en kdel newRows rks (m, d, err) = Ret (m', d', err')"
    and "\<And>rk. rk \<in> set rks \<Longrightarrow> row_prefix_ok (snd rk)"
  shows "(k \<notin> lpm_of en ` set (deletes newRows rks) \<longrightarrow> kget m' k = kget m k) \<and> (kget m' k = kget m k \<or> kget m' k = None) \<and>
    (err' = None \<longrightarrow> err = None \<and> (k \<in> lpm_of en ` set (deletes newRows rks) \<longrightarrow> kget m' k = None) \<and>
       Removed d' = Removed d + length (deletes newRows rks)) \<and> Added d' = Added d \<and> Changed d' = Changed d"
  using assms
proof (induction rks arbitrary: m d err)
  case (Cons rk rks)
  have ok: "\<And>rk. rk \<in> set rks \<Longrightarrow> row_prefix_ok (snd rk)" using Cons.prems(2) by auto
  show ?case
  proof (cases "mhas newRows rk")
    case True
    then show ?thesis using Cons.IH[of m d err] Cons.prems(1) ok by (simp add: deletes_def)
  next
    case False
    let ?key = "lpm_of en rk"
    have key: "LpmKeyForPrefix en (fst rk) (snd rk) = Ret ?key"
      using LpmKey_row[of "snd rk" en "fst rk"] Cons.prems(2)[of rk] by simp
    obtain res m1 where u: "kdel ?key m = (res, m1)" by (cases "kdel ?key m")
    have one: "k \<noteq> ?key \<longrightarrow> kget m1 k = kget m k" "res \<noteq> None \<longrightarrow> kget m1 k = kget m k" "res = None \<longrightarrow> kget m1 ?key = None"
      using del_ok[of ?key m m1] del_missing[of ?key m m1] del_err[of ?key m m1] u by (cases res; cases "the res"; auto)+
    let ?d = "if res = None then d\<lparr>Removed := Removed d + 1\<rparr> else d" and ?err = "if res = None then err else note_error ?key err"
    have h: "delete_rows en kdel newRows rks (m1, ?d, ?err) = Ret (m', d', err')"
      using Cons.prems(1) False key u by (cases res) auto
    have ne: "\<exists>e. note_error ?key err = Some e" by (rule note_error_Some)
    show ?thesis
      using Cons.IH[OF h ok] one ne False by (cases res) (auto simp: deletes_def)
  qed
qed (simp add: deletes_def)

end

lemma map_of_image_key:
  assumes "inj_on f (A \<union> fst ` set xs)"
  shows "map_of (map (\<lambda>(a, b). (f a, b)) xs) k = Some v \<longleftrightarrow> (\<exists>a. map_of xs a = Some v \<and> k = f a)"
  using assms
proof (induction xs)
  case (Cons x xs)
  obtain a b where x: "x = (a, b)" by (cases x)
  have IH: "map_of (map (\<lambda>(a, b). (f a, b)) xs) k = Some v \<longleftrightarrow> (\<exists>a. map_of xs a = Some v \<and> k = f a)"
    by (rule Cons.IH) (use Cons.prems in \<open>auto intro: inj_on_subset\<close>)
  have new: "f a' \<noteq> f a" if "map_of xs a' = Some v" "a' \<noteq> a" for a'
  proof -
    have "a' \<in> fst ` set xs" using map_of_SomeD[OF that(1)] by force
    then show ?thesis using inj_onD[OF Cons.prems, of a' a] that(2) x by auto
  qed
  show ?case
  proof (cases "k = f a")
    case True
    have "map_of (x # xs) a' = Some v \<and> f a = f a' \<longleftrightarrow> a' = a \<and> b = v" for a'
      using new[of a'] x by (cases "a' = a") (auto dest: sym)
    then show ?thesis using True x by simp
  next
    case False
    then have "(\<exists>a'. map_of (x # xs) a' = Some v \<and> k = f a') \<longleftrightarrow> (\<exists>a'. map_of xs a' = Some v \<and> k = f a')"
      using x by auto
    then show ?thesis using IH False x by simp
  qed
qed simp

lemma lpm_of_inj_on: "(\<And>rk. rk \<in> A \<Longrightarrow> row_prefix_ok (snd rk)) \<Longrightarrow> inj_on (lpm_of en) A"
  by (rule inj_onI) (metis lpm_of_inj prod.collapse)

lemma trie_holds_rows:
  assumes "\<And>e. e \<in> set es \<Longrightarrow> row_prefix_ok (Prefix e)"
  shows "trie_holds kget en (intern_all (map TenantID es) t) es m \<longleftrightarrow> holds_rows kget en (fst (index_rows es ([], t))) m"
proof -
  let ?t = "intern_all (map TenantID es) t"
  let ?xs = "rev (map (\<lambda>e. (row_of ?t e, Zone e)) es)"
  have "inj_on (lpm_of en) ({} \<union> fst ` set ?xs)" by (rule lpm_of_inj_on) (use assms in \<open>auto simp: row_of_def\<close>)
  note M = map_of_image_key[OF this]
  have eq: "rev (map (\<lambda>e. (lpm_of en (row_of ?t e), Zone e)) es) = map (\<lambda>(a, b). (lpm_of en a, b)) ?xs" by (simp add: rev_map)
  have ext: "(\<forall>k. kget m k = F k) \<longleftrightarrow> (\<forall>k v. kget m k = Some v \<longleftrightarrow> F k = Some v)" for F by (metis option.exhaust)
  show ?thesis unfolding trie_holds_def holds_rows_def index_rows_get eq ext M ..
qed

lemma index_rows_known:
  assumes "\<And>e. e \<in> set es \<Longrightarrow> knows t (TenantID e)"
  shows "fst (index_rows es ([], intern_all ps t)) = fst (index_rows es ([], t))"
proof -
  have "row_of (intern_all (map TenantID es) (intern_all ps t)) e = row_of (intern_all (map TenantID es) t) e" if "e \<in> set es" for e
    using id_of_keeps[of "TenantID e" t "ps @ map TenantID es"] id_of_keeps[of "TenantID e" t "map TenantID es"] assms[OF that]
    by (simp add: row_of_def knows_def)
  then show ?thesis unfolding index_rows_eq Let_def fst_conv by (intro fold_cong) simp_all
qed

section \<open>Properties\<close>

text \<open>What the next property and the lookup page share.\<close>

lemma kernel_zone_of_rows:
  assumes "lpm_map kget kupd kdel kiter en klpm"
    and "interner_ok t" and "length (fst (buildTrie snap h)) + length (forward t) < 2 ^ 31"
    and "rows_agree (fst (buildTrie snap h))" and "\<And>k. kget m k = None"
    and "WriteSubnetZoneTrie en kupd (Some m) (fst (buildTrie snap h)) (Some t) = Ret ((Some m', Some t'), n, None)"
    and "tenant \<noteq> []" and "mget (forward t') tenant = Some tid"
    and "macs (MACKey vm) = Some (TenantValue tid isAmphora)" and "macs (MACKey peer) = None"
  shows "lookup_zone macs amp (klpm m') vm peer local_ip (native_uint32 en (As4 ip)) =
    (case LookupZone (fst (buildTrie snap h)) (Addr4 ip) tenant of None \<Rightarrow> ZoneMiss | Some (e, _) \<Rightarrow> Zone e)"
proof -
  let ?es = "fst (buildTrie snap h)"
  have km: "kernel_map kget kupd kdel kiter" using assms(1) by (simp add: lpm_map_def trie_map_def)
  have ok: "row_prefix_ok (Prefix e)" if "e \<in> set ?es" for e by (rule trie_row_prefix_ok[OF that])
  have W: "trie_holds kget en t' ?es m'" "t' = intern_all (map TenantID ?es) t"
    using full_write_holds[OF km ok assms(5,6)] by blast+
  have iok: "interner_ok t'" unfolding W(2) by (rule interner_ok_all[OF assms(2)]) (use assms(3) in simp)
  have kn: "knows t' (TenantID e)" if "e \<in> set ?es" for e
    unfolding knows_def W(2) using intern_all_known[of "TenantID e" "map TenantID ?es" t] that by auto
  have L: "klpm m' \<lparr>Prefixlen = 64, LpmTenantId = id_of t' T, LpmIp = native_uint32 en (As4 ip)\<rparr> =
      map_option Zone (longestPrefixForTenant ?es (Addr4 ip) T)" if "knows t' T" for T
    by (rule lpm_map.lpm_is_longest[OF assms(1) W(1) iok assms(4)]) (use ok kn that in auto)
  have "unat tid \<le> length (forward t')" by (rule interner_ok_bound[OF iok assms(8)])
  also have "\<dots> < 2 ^ 31" using length_intern_all[of "map TenantID ?es" t] assms(3) unfolding W(2) by simp
  finally have mask: "TenantValue tid isAmphora AND TenantIDMask = id_of t' tenant"
    using mask_small[of tid] assms(7,8) by (simp add: TenantValue_mask id_of_def)
  have "id_of t' [] = 0" by (simp add: id_of_def TenantIDUnset_def)
  then have G: "klpm m' \<lparr>Prefixlen = 64, LpmTenantId = 0, LpmIp = native_uint32 en (As4 ip)\<rparr> =
      map_option Zone (longestPrefixForTenant ?es (Addr4 ip) [])" using L[of "[]"] by (simp add: knows_def)
  have T: "klpm m' \<lparr>Prefixlen = 64, LpmTenantId = id_of t' tenant, LpmIp = native_uint32 en (As4 ip)\<rparr> =
      map_option Zone (longestPrefixForTenant ?es (Addr4 ip) tenant)" by (rule L) (simp add: knows_def assms(8))
  show ?thesis
    unfolding lookup_zone_def LookupZone_def assms(9,10) option.case Let_def mask T G using assms(7)
    by (cases "longestPrefixForTenant ?es (Addr4 ip) tenant"; cases "longestPrefixForTenant ?es (Addr4 ip) []") simp_all
qed

text \<open>
  C24. The kernel classifies exactly as the userspace lookup says. Take any longest-prefix-match map with
  the documented behaviour, on a host of either byte order, empty before the full write; a full write of
  the rows of a built trie that returns no error; and a VM whose hardware address carries the interned id
  of its tenant. If no two rows of one tenant and prefix carry different zones, a packet to a peer whose
  hardware address is unknown gets from the kernel's lookup the zone of the row the userspace lookup
  returns, tenant rows first and then the global ones, and the miss code exactly when it finds none.
\<close>

theorem kernel_zone_agrees:
  assumes "lpm_map kget kupd kdel kiter en klpm"
    and "interner_ok t" and "length (fst (buildTrie snap h)) + length (forward t) < 2 ^ 31"
    and "rows_agree (fst (buildTrie snap h))" and "\<And>k. kget m k = None"
    and "WriteSubnetZoneTrie en kupd (Some m) (fst (buildTrie snap h)) (Some t) = Ret ((Some m', Some t'), n, None)"
    and "tenant \<noteq> []" and "mget (forward t') tenant = Some tid"
    and "macs (MACKey vm) = Some (TenantValue tid isAmphora)" and "macs (MACKey peer) = None"
  shows "lookup_zone macs amp (klpm m') vm peer local_ip (native_uint32 en (As4 ip)) =
    (case LookupZone (fst (buildTrie snap h)) (Addr4 ip) tenant of None \<Rightarrow> ZoneMiss | Some (e, _) \<Rightarrow> Zone e)"
  by (rule kernel_zone_of_rows[OF assms])

definition ex_lpm_interner :: interner where
  "ex_lpm_interner = snd (Intern ''a'' NewTenantInterner)"

definition ex_trie_snapshot :: snapshot where
  "ex_trie_snapshot = ex_snapshot\<lparr>Subnets := [], Ports := [], Routers := []\<rparr>"

lemma ex_trie_rows: "fst (buildTrie ex_trie_snapshot h) =
    [\<lparr>TenantID = [], Prefix = catchall, Zone = ZoneExternal\<rparr>, \<lparr>TenantID = [], Prefix = metadataPrefix, Zone = ZoneInfra\<rparr>]"
proof -
  have "digit_char 0 < digit_char (Suc 0)" by (simp add: less_char_def of_char_digit)
  then have k: "entry_key \<lparr>TenantID = [], Prefix = catchall, Zone = ZoneExternal\<rparr> \<le> entry_key \<lparr>TenantID = [], Prefix = metadataPrefix, Zone = ZoneInfra\<rparr>"
    by (simp add: entry_key_def catchall_def metadataPrefix_def Prefix_String4 Prefix_String4_def String4_def As4_def format_uint.simps)
  have "tenants (newTrieBuilder ex_trie_snapshot h) = [''a'', ''adm'']"
    "sharedPrefixes (newTrieBuilder ex_trie_snapshot h) = []" "infraPrefixes (newTrieBuilder ex_trie_snapshot h) = []"
    "subnetsByNetwork (newTrieBuilder ex_trie_snapshot h) = []" "tbRouters (newTrieBuilder ex_trie_snapshot h) = []" "tbEntries (newTrieBuilder ex_trie_snapshot h) = []"
    by (simp_all add: newTrieBuilder_def ex_trie_snapshot_def ex_snapshot_def groupSubnetsByNetwork_def collectTenants_def
        buildSharedPrefixes_def buildInfraPrefixes_def Let_def)
  moreover from this have no_owned: "concat (map (owned_rows (emit es (newTrieBuilder ex_trie_snapshot h)) t) ns) = []" for es t ns
    by (auto simp: owned_rows_def)
  ultimately show ?thesis
    using k by (simp add: buildTrie_def Let_def emitExtraRoutes_def emitInfraPrefixes_def emitSharedSubnets_def emitOwnedSubnets_def emitCatchall_def
        hasTenants_def no_owned sortEntries_def fold_id_const)
qed

text \<open>A full write of that trie into an empty bounded map.\<close>

lemma ex_lpm_write:
  shows "interner_ok ex_lpm_interner" and "forward ex_lpm_interner = [(''a'', 1)]"
    and "rows_agree (fst (buildTrie ex_trie_snapshot 16))"
    and "WriteSubnetZoneTrie Little (bm_upd 16 {}) (Some []) (fst (buildTrie ex_trie_snapshot 16)) (Some ex_lpm_interner) =
      Ret ((Some [(lpm_of Little (0, catchall), ZoneExternal), (lpm_of Little (0, metadataPrefix), ZoneInfra)], Some ex_lpm_interner), 2, None)"
proof -
  show "interner_ok ex_lpm_interner" unfolding ex_lpm_interner_def by (rule interner_ok_Intern) (simp, simp add: NewTenantInterner_def)
  show "forward ex_lpm_interner = [(''a'', 1)]"
    by (simp add: ex_lpm_interner_def Intern_def NewTenantInterner_def Let_def)
  have ne: "metadataPrefix \<noteq> catchall" by (simp add: metadataPrefix_def catchall_def)
  then show "rows_agree (fst (buildTrie ex_trie_snapshot 16))" by (auto simp: ex_trie_rows rows_agree_def)
  have "row_prefix_ok catchall" "row_prefix_ok metadataPrefix"
    by (auto simp: row_prefix_ok_def catchall_def metadataPrefix_def Masked_def)
  then have "LpmKeyForPrefix Little 0 catchall = Ret (lpm_of Little (0, catchall))"
    "LpmKeyForPrefix Little 0 metadataPrefix = Ret (lpm_of Little (0, metadataPrefix))"
    "lpm_of Little (0, metadataPrefix) \<noteq> lpm_of Little (0, catchall)"
    using ne by (simp_all add: LpmKey_row lpm_of_inj)
  then show "WriteSubnetZoneTrie Little (bm_upd 16 {}) (Some []) (fst (buildTrie ex_trie_snapshot 16)) (Some ex_lpm_interner) =
      Ret ((Some [(lpm_of Little (0, catchall), ZoneExternal), (lpm_of Little (0, metadataPrefix), ZoneInfra)], Some ex_lpm_interner), 2, None)"
    by (simp add: ex_trie_rows WriteSubnetZoneTrie_def Intern_def TenantIDUnset_def bm_upd_def mput_Cons)
qed

theorem kernel_zone_agrees_witness:
  "lookup_zone (\<lambda>k. if k = MACKey (Mac 0 0 0 0 0 1) then Some (TenantValue 1 False) else None) (\<lambda>_. None)
     (lpm_assoc Little [(lpm_of Little (0, catchall), ZoneExternal), (lpm_of Little (0, metadataPrefix), ZoneInfra)])
     (Mac 0 0 0 0 0 1) (Mac 0 0 0 0 0 2) 0 (native_uint32 Little (As4 0x08080808)) =
   (case LookupZone (fst (buildTrie ex_trie_snapshot 16)) (Addr4 0x08080808) ''a'' of None \<Rightarrow> ZoneMiss | Some (e, _) \<Rightarrow> Zone e)"
  by (rule kernel_zone_agrees[OF bounded_lpm_map ex_lpm_write(1) _ ex_lpm_write(3) _ ex_lpm_write(4)])
    (simp_all add: ex_trie_rows ex_lpm_write(2) mget_Cons del: MACKey.simps)

text \<open>
  With two rows of one tenant and prefix the two sides differ: the write keeps the last row, the
  userspace lookup answers with the first.
\<close>

lemma duplicate_rows_disagree:
  fixes p :: prefix
  defines "es \<equiv> [\<lparr>TenantID = ''a'', Prefix = p, Zone = ZoneExternal\<rparr>, \<lparr>TenantID = ''a'', Prefix = p, Zone = ZoneSameTenant\<rparr>]"
  assumes "row_prefix_ok p" and "Contains p (Addr4 ip)"
  shows "map_option (Zone \<circ> fst) (LookupZone es (Addr4 ip) ''a'') = Some ZoneExternal \<and>
    WriteSubnetZoneTrie en (bm_upd 16 {}) (Some []) es (Some ex_lpm_interner) =
      Ret ((Some [(lpm_of en (1, p), ZoneSameTenant)], Some ex_lpm_interner), 2, None)"
proof -
  have f: "Intern ''a'' ex_lpm_interner = (1, ex_lpm_interner)"
    by (rule Intern_known) (simp_all add: ex_lpm_interner_def Intern_def NewTenantInterner_def Let_def mget_Cons)
  show ?thesis using assms(3)
    by (simp add: es_def LookupZone_def longestPrefixForTenant_def longest_step_def WriteSubnetZoneTrie_def f LpmKey_row[OF assms(2)]
        bm_upd_def mput_Cons mhas_def mget_Cons)
qed

lemma mwf_perm_get:
  assumes "mwf m" "mset m' = mset m"
  shows "mwf m' \<and> mget m' k = mget m k"
proof -
  have "mwf m'" using assms by (metis distinct_map mset_map mset_eq_imp_distinct_iff mwf_def)
  moreover have "set m' = set m" using assms(2) by (metis set_mset_mset)
  ultimately show ?thesis using assms(1) by (metis (no_types, lifting) mget_in_set option.exhaust)
qed

lemma upserts_map:
  assumes "mwf newRows" "mset rs = mset newRows" "rows_ok newRows"
  shows "map_of (rev (map (\<lambda>(rk, z). (lpm_of en rk, z)) (upserts oldRows rs))) k = Some z \<longleftrightarrow>
    (\<exists>rk. mget newRows rk = Some z \<and> mget oldRows rk \<noteq> Some z \<and> k = lpm_of en rk)"
proof -
  have s: "set rs = set newRows" using assms(2) by (metis set_mset_mset)
  have d: "distinct (map fst rs)" using mwf_perm_get[OF assms(1,2)] by (simp add: mwf_def)
  have du: "distinct (map fst (rev (upserts oldRows rs)))" using d by (simp add: upserts_def rev_map[symmetric] distinct_map_filter)
  have inj: "inj_on (lpm_of en) ({} \<union> fst ` set (rev (upserts oldRows rs)))"
    by (rule lpm_of_inj_on) (use assms(3) s in \<open>auto simp: upserts_def rows_ok_def\<close>)
  have "map_of (rev (map (\<lambda>(rk, z). (lpm_of en rk, z)) (upserts oldRows rs))) k = Some z \<longleftrightarrow>
      (\<exists>rk. map_of (rev (upserts oldRows rs)) rk = Some z \<and> k = lpm_of en rk)"
    unfolding rev_map by (rule map_of_image_key[OF inj])
  also have "\<dots> \<longleftrightarrow> (\<exists>rk. (rk, z) \<in> set (upserts oldRows rs) \<and> k = lpm_of en rk)"
    using map_of_eq_Some_iff[OF du] by simp
  also have "\<dots> \<longleftrightarrow> (\<exists>rk. mget newRows rk = Some z \<and> mget oldRows rk \<noteq> Some z \<and> k = lpm_of en rk)"
    by (simp add: upserts_def s mget_in_set[OF assms(1)])
  finally show ?thesis .
qed

lemma card_rows:
  assumes "mwf rows" "mset rs = mset rows"
  shows "length (filter (\<lambda>(rk, z). P rk z) rs) = card {rk. \<exists>z. mget rows rk = Some z \<and> P rk z}"
proof -
  have d: "distinct (map fst (filter (\<lambda>(rk, z). P rk z) rs))"
    using mwf_perm_get[OF assms] by (simp add: mwf_def distinct_map_filter)
  have s: "set rs = set rows" using assms(2) by (metis set_mset_mset)
  have "length (filter (\<lambda>(rk, z). P rk z) rs) = card (set (map fst (filter (\<lambda>(rk, z). P rk z) rs)))"
    using distinct_card[OF d] by simp
  also have "set (map fst (filter (\<lambda>(rk, z). P rk z) rs)) = {rk. \<exists>z. mget rows rk = Some z \<and> P rk z}"
    by (auto simp: s mget_in_set[OF assms(1)] image_iff)
  finally show ?thesis .
qed

lemma option_eqI_lpm: "(\<And>z. a = Some z \<longleftrightarrow> b = Some z) \<Longrightarrow> a = b"
  by (cases a; cases b) auto

context trie_map
begin

text \<open>After the upsert phase each row of the new trie is stored, and the old rows not in it are as before.\<close>

lemma upserted_rows:
  assumes wf: "mwf N" and rok: "rows_ok N" "rows_ok Old" and perm: "mset rs = mset N" and old: "holds_rows kget en Old m"
    and U: "upsert_rows en kupd Old rs (m, zero_delta, None) = Ret (m1, d1, None)"
  shows "row_prefix_ok (snd rk) \<Longrightarrow> kget m1 (lpm_of en rk) = (case mget N rk of Some z \<Rightarrow> Some z | None \<Rightarrow> mget Old rk)"
    and "kget m1 k = Some v \<Longrightarrow> \<exists>rk. row_prefix_ok (snd rk) \<and> k = lpm_of en rk \<and> (mhas N rk \<or> mhas Old rk)"
    and "Added d1 = length (filter (\<lambda>(rk, z). \<not> mhas Old rk) (upserts Old rs))"
    and "Changed d1 = length (filter (\<lambda>(rk, z). mhas Old rk) (upserts Old rs))" and "Removed d1 = 0"
proof -
  have sets: "set rs = set N" using perm by (metis set_mset_mset)
  have ok1: "row_prefix_ok (snd rk)" if "(rk, z) \<in> set rs" for rk z using that rok(1) sets by (force simp: rows_ok_def)
  have u: "kget m1 k = (case map_of (rev (map (\<lambda>(rk, z). (lpm_of en rk, z)) (upserts Old rs))) k of Some v \<Rightarrow> Some v | None \<Rightarrow> kget m k)"
    "Added d1 = length (filter (\<lambda>(rk, z). \<not> mhas Old rk) (upserts Old rs))"
    "Changed d1 = length (filter (\<lambda>(rk, z). mhas Old rk) (upserts Old rs))" "Removed d1 = 0" for k
  proof -
    note up = upsert_ok[OF U, where k = k]
    show "kget m1 k = (case map_of (rev (map (\<lambda>(rk, z). (lpm_of en rk, z)) (upserts Old rs))) k of Some v \<Rightarrow> Some v | None \<Rightarrow> kget m k)"
      "Added d1 = length (filter (\<lambda>(rk, z). \<not> mhas Old rk) (upserts Old rs))"
      "Changed d1 = length (filter (\<lambda>(rk, z). mhas Old rk) (upserts Old rs))" "Removed d1 = 0"
      using up[THEN conjunct1, OF ok1] up[THEN conjunct2, OF ok1] by (auto simp: zero_delta_def)
  qed
  have okm: "mget N rk = Some z \<Longrightarrow> row_prefix_ok (snd rk)" "mget Old rk = Some z \<Longrightarrow> row_prefix_ok (snd rk)" for rk z
    using rok by (auto simp: rows_ok_def dest!: mget_SomeD)
  have inj: "lpm_of en rk = lpm_of en rk' \<longleftrightarrow> rk = rk'" if "row_prefix_ok (snd rk)" "row_prefix_ok (snd rk')" for rk rk'
    using lpm_of_inj[OF that, of en "fst rk" "fst rk'"] by (simp add: prod_eq_iff)
  note UM = upserts_map[OF wf perm rok(1), where en = en and oldRows = Old]
  have m1: "kget m1 (lpm_of en rk) = (case mget N rk of Some z \<Rightarrow> Some z | None \<Rightarrow> mget Old rk)" if ok: "row_prefix_ok (snd rk)" for rk
  proof (cases "map_of (rev (map (\<lambda>(rk, z). (lpm_of en rk, z)) (upserts Old rs))) (lpm_of en rk)")
    case None
    then have "\<not> (mget N rk = Some z \<and> mget Old rk \<noteq> Some z)" for z
      using UM[where k = "lpm_of en rk" and z = z] by (metis option.discI)
    then have "mget N rk = None \<or> mget N rk = mget Old rk" by (cases "mget N rk") auto
    moreover have "kget m (lpm_of en rk) = mget Old rk"
    proof (rule option_eqI_lpm)
      show "kget m (lpm_of en rk) = Some z \<longleftrightarrow> mget Old rk = Some z" for z
        using old[unfolded holds_rows_def] inj[OF ok okm(2)] by metis
    qed
    ultimately show ?thesis using u(1)[of "lpm_of en rk"] None by (auto split: option.splits)
  next
    case (Some z)
    then obtain rk' where "mget N rk' = Some z" "lpm_of en rk = lpm_of en rk'" using UM[where k = "lpm_of en rk" and z = z] by blast
    then have "mget N rk = Some z" using inj[OF ok okm(1)] by metis
    then show ?thesis using u(1)[of "lpm_of en rk"] Some by simp
  qed
  show "row_prefix_ok (snd rk) \<Longrightarrow> kget m1 (lpm_of en rk) = (case mget N rk of Some z \<Rightarrow> Some z | None \<Rightarrow> mget Old rk)" by (rule m1)
  show "\<exists>rk. row_prefix_ok (snd rk) \<and> k = lpm_of en rk \<and> (mhas N rk \<or> mhas Old rk)" if k1: "kget m1 k = Some v"
  proof (cases "map_of (rev (map (\<lambda>(rk, z). (lpm_of en rk, z)) (upserts Old rs))) k")
    case None
    then have "kget m k = Some v" using k1 u(1)[of k] by simp
    then obtain rk where "mget Old rk = Some v" "k = lpm_of en rk" using old unfolding holds_rows_def by blast
    then show ?thesis using okm(2) by (intro exI[of _ rk]) (simp add: mhas_def)
  next
    case (Some z)
    then obtain rk where "mget N rk = Some z" "k = lpm_of en rk" using UM[where k = k and z = z] by blast
    then show ?thesis using okm(1) by (intro exI[of _ rk]) (simp add: mhas_def)
  qed
  show "Added d1 = length (filter (\<lambda>(rk, z). \<not> mhas Old rk) (upserts Old rs))"
    "Changed d1 = length (filter (\<lambda>(rk, z). mhas Old rk) (upserts Old rs))" "Removed d1 = 0" using u by blast+
qed

lemma delta_rows:
  assumes wf: "mwf N" "mwf Old" and rok: "rows_ok N" "rows_ok Old"
    and perm: "mset rs = mset N" "mset os = mset Old" and old: "holds_rows kget en Old m"
    and U: "upsert_rows en kupd Old rs (m, zero_delta, None) = Ret (m1, d1, None)"
    and D: "delete_rows en kdel N (map fst os) (m1, d1, None) = Ret (m', d, None)"
  shows "holds_rows kget en N m'" and "Added d = card {rk. mhas N rk \<and> \<not> mhas Old rk}"
    and "Changed d = card {rk. mhas Old rk \<and> mhas N rk \<and> mget N rk \<noteq> mget Old rk}"
    and "Removed d = card {rk. mhas Old rk \<and> \<not> mhas N rk}"
proof -
  have sets: "set rs = set N" "set os = set Old" using perm by (metis set_mset_mset)+
  have ok2: "row_prefix_ok (snd rk)" if "rk \<in> set (map fst os)" for rk using that rok(2) sets(2) by (auto simp: rows_ok_def)
  note up = upserted_rows[OF wf(1) rok perm(1) old U]
  have dl: "k \<notin> lpm_of en ` set (deletes N (map fst os)) \<Longrightarrow> kget m' k = kget m1 k"
      "k \<in> lpm_of en ` set (deletes N (map fst os)) \<Longrightarrow> kget m' k = None"
      "Removed d = length (deletes N (map fst os))" "Added d = Added d1" "Changed d = Changed d1" for k
    using delete_rows_facts[OF D, where k = k] ok2 up(5) by auto
  have okm: "mget N rk = Some z \<Longrightarrow> row_prefix_ok (snd rk)" "mget Old rk = Some z \<Longrightarrow> row_prefix_ok (snd rk)" for rk z
    using rok by (auto simp: rows_ok_def dest!: mget_SomeD)
  have inj: "lpm_of en rk = lpm_of en rk' \<longleftrightarrow> rk = rk'" if "row_prefix_ok (snd rk)" "row_prefix_ok (snd rk')" for rk rk'
    using lpm_of_inj[OF that, of en "fst rk" "fst rk'"] by (simp add: prod_eq_iff)
  have del: "k \<in> lpm_of en ` set (deletes N (map fst os)) \<longleftrightarrow> (\<exists>rk. mhas Old rk \<and> \<not> mhas N rk \<and> k = lpm_of en rk)" for k
    unfolding deletes_def set_filter set_map sets mhas_iff[symmetric] mem_Collect_eq image_iff[of k] by blast
  show "holds_rows kget en N m'"
    unfolding holds_rows_def
  proof (intro allI iffI)
    fix k v assume h: "kget m' k = Some v"
    then have nd: "k \<notin> lpm_of en ` set (deletes N (map fst os))" using dl(2)[of k] by auto
    then have k1: "kget m1 k = Some v" using dl(1)[OF nd] h by simp
    obtain rk where rk: "row_prefix_ok (snd rk)" "k = lpm_of en rk" "mhas N rk \<or> mhas Old rk" using up(2)[OF k1] by blast
    then have "mhas N rk" using nd del[of k] by blast
    then show "\<exists>rk. mget N rk = Some v \<and> k = lpm_of en rk" using up(1)[OF rk(1)] k1 rk(2)
      by (intro exI[of _ rk]) (cases "mget N rk"; simp add: mhas_def)
  next
    fix k v assume "\<exists>rk. mget N rk = Some v \<and> k = lpm_of en rk"
    then obtain rk where rk: "mget N rk = Some v" "k = lpm_of en rk" by blast
    have "k \<notin> lpm_of en ` set (deletes N (map fst os))"
      unfolding del using rk inj[OF okm(1)[OF rk(1)] okm(2)] by (metis mhas_def option.discI option.exhaust)
    then show "kget m' k = Some v" using dl(1)[of k] up(1)[OF okm(1)[OF rk(1)]] rk by simp
  qed
  have "filter (\<lambda>(rk, z). P rk) (upserts Old rs) = filter (\<lambda>(rk, z). mget Old rk \<noteq> Some z \<and> P rk) rs" for P
    unfolding upserts_def filter_filter by (rule filter_cong) auto
  note F = this
  show "Added d = card {rk. mhas N rk \<and> \<not> mhas Old rk}"
    unfolding dl(4) up(3) F card_rows[OF wf(1) perm(1)] by (rule arg_cong[of _ _ card]) (auto simp: mhas_def)
  show "Changed d = card {rk. mhas Old rk \<and> mhas N rk \<and> mget N rk \<noteq> mget Old rk}"
    unfolding dl(5) up(4) F card_rows[OF wf(1) perm(1)] by (rule arg_cong[of _ _ card]) (auto simp: mhas_def)
  have "length (deletes N (map fst os)) = length (filter (\<lambda>(rk, z). \<not> mhas N rk) os)"
    by (simp add: deletes_def filter_map comp_def case_prod_unfold)
  then show "Removed d = card {rk. mhas Old rk \<and> \<not> mhas N rk}"
    unfolding dl(3) using card_rows[OF wf(2) perm(2), of "\<lambda>rk z. \<not> mhas N rk"]
    by (simp add: mhas_def)
qed

lemma upserted_present:
  assumes "mwf N" "rows_ok N" "rows_ok Old" "mset rs = mset N" "holds_rows kget en Old m"
    "upsert_rows en kupd Old rs (m, zero_delta, None) = Ret (m1, d1, None)" "mhas N rk"
  shows "kget m1 (lpm_of en rk) \<noteq> None"
proof -
  obtain z where z: "mget N rk = Some z" using assms(7) by (auto simp: mhas_def)
  then have "row_prefix_ok (snd rk)" using assms(2) by (auto simp: rows_ok_def dest!: mget_SomeD)
  then show ?thesis using upserted_rows(1)[OF assms(1-6)] z by simp
qed

end

lemma trie_holds_keeps:
  assumes "\<And>e. e \<in> set es \<Longrightarrow> knows t (TenantID e)"
  shows "trie_holds kget en (intern_all ps t) es m \<longleftrightarrow> trie_holds kget en t es m"
proof -
  have "row_of (intern_all ps t) e = row_of t e" if "e \<in> set es" for e
    using id_of_keeps[of "TenantID e" t ps] assms[OF that] by (simp add: row_of_def knows_def)
  then have "map (\<lambda>e. (lpm_of en (row_of (intern_all ps t) e), Zone e)) es = map (\<lambda>e. (lpm_of en (row_of t e), Zone e)) es" by simp
  then show ?thesis by (simp only: trie_holds_def)
qed

lemma ApplyTrieDelta_phases:
  assumes "ApplyTrieDelta en kupd kdel ord (Some m) oldEntries newEntries (Some t) = Ret ((Some m', Some t'), d, None)"
    and "\<And>e. e \<in> set oldEntries \<Longrightarrow> knows t (TenantID e)"
  defines "N \<equiv> fst (index_rows newEntries ([], t))" and "Old \<equiv> fst (index_rows oldEntries ([], t))"
  obtains m1 d1 where "upsert_rows en kupd Old (ord N) (m, zero_delta, None) = Ret (m1, d1, None)"
    "delete_rows en kdel N (map fst (ord Old)) (m1, d1, None) = Ret (m', d, None)"
    "t' = intern_all (map TenantID oldEntries) (intern_all (map TenantID newEntries) t)"
proof -
  let ?t1 = "intern_all (map TenantID newEntries) t"
  have i1: "index_rows newEntries ([], t) = (N, ?t1)" by (simp add: N_def index_rows_eq Let_def)
  have i2: "index_rows oldEntries ([], ?t1) = (Old, intern_all (map TenantID oldEntries) ?t1)"
    using index_rows_known[of oldEntries t "map TenantID newEntries"] assms(2) by (simp add: Old_def index_rows_eq Let_def)
  show thesis
    using assms(1) that i1 i2 by (auto simp: ApplyTrieDelta_def split: outcome.splits prod.splits option.splits)
qed

lemma ApplyTrieDelta_upsert_error:
  assumes "upsert_rows en kupd (fst (index_rows oldEntries ([], t))) (ord (fst (index_rows newEntries ([], t)))) (m, zero_delta, None) = Ret (m1, d1, e1)"
    and "\<And>e. e \<in> set oldEntries \<Longrightarrow> knows t (TenantID e)"
    and "e1 = Some e"
  shows "ApplyTrieDelta en kupd kdel ord (Some m) oldEntries newEntries (Some t) =
    Ret ((Some m1, Some (intern_all (map TenantID oldEntries) (intern_all (map TenantID newEntries) t))), d1, e1)"
proof -
  define N where "N = fst (index_rows newEntries ([], t))"
  define Old where "Old = fst (index_rows oldEntries ([], t))"
  let ?t1 = "intern_all (map TenantID newEntries) t"
  have "index_rows newEntries ([], t) = (N, ?t1)" by (simp add: N_def index_rows_eq Let_def)
  moreover have "index_rows oldEntries ([], ?t1) = (Old, intern_all (map TenantID oldEntries) ?t1)"
    using index_rows_known[of oldEntries t "map TenantID newEntries"] assms(2) by (simp add: Old_def index_rows_eq Let_def)
  moreover have "upsert_rows en kupd Old (ord N) (m, zero_delta, None) = Ret (m1, d1, e1)" using assms(1) by (simp add: N_def Old_def)
  ultimately show ?thesis using assms(3) by (simp add: ApplyTrieDelta_def)
qed

text \<open>
  C25. The incremental writer implements the move from one trie to the next. Whatever order Go ranges
  over its maps in, if the kernel map holds the old rows and the pass returns no error, the map holds
  exactly the new rows afterwards (for a duplicated row, its last zone), and the counters are the numbers
  of rows that appeared, that changed their zone and that disappeared.
\<close>

theorem delta_moves_trie:
  assumes "trie_map kget kupd kdel kiter" and "\<And>xs. mset (ord xs) = mset xs"
    and "\<And>e. e \<in> set newEntries \<Longrightarrow> row_prefix_ok (Prefix e)"
    and "\<And>e. e \<in> set oldEntries \<Longrightarrow> row_prefix_ok (Prefix e)" and "\<And>e. e \<in> set oldEntries \<Longrightarrow> knows t (TenantID e)"
    and "trie_holds kget en t oldEntries m"
    and "ApplyTrieDelta en kupd kdel ord (Some m) oldEntries newEntries (Some t) = Ret ((Some m', Some t'), d, None)"
  shows "trie_holds kget en t' newEntries m' \<and>
    Added d = card {rk. mhas (fst (index_rows newEntries ([], t))) rk \<and> \<not> mhas (fst (index_rows oldEntries ([], t))) rk} \<and>
    Changed d = card {rk. mhas (fst (index_rows oldEntries ([], t))) rk \<and> mhas (fst (index_rows newEntries ([], t))) rk \<and>
      mget (fst (index_rows newEntries ([], t))) rk \<noteq> mget (fst (index_rows oldEntries ([], t))) rk} \<and>
    Removed d = card {rk. mhas (fst (index_rows oldEntries ([], t))) rk \<and> \<not> mhas (fst (index_rows newEntries ([], t))) rk}"
proof -
  let ?N = "fst (index_rows newEntries ([], t))" and ?O = "fst (index_rows oldEntries ([], t))"
  note wf = index_rows_wf[of newEntries t] index_rows_wf[of oldEntries t]
  have rok: "rows_ok ?N" "rows_ok ?O" by (rule index_rows_ok, erule assms(3,4))+
  obtain m1 d1 where U: "upsert_rows en kupd ?O (ord ?N) (m, zero_delta, None) = Ret (m1, d1, None)"
    and D: "delete_rows en kdel ?N (map fst (ord ?O)) (m1, d1, None) = Ret (m', d, None)"
    and t': "t' = intern_all (map TenantID oldEntries) (intern_all (map TenantID newEntries) t)"
    by (rule ApplyTrieDelta_phases[OF assms(7,5)])
  have old: "holds_rows kget en ?O m"
    using assms(6) trie_holds_keeps[of oldEntries t kget en "map TenantID oldEntries" m] trie_holds_rows[of oldEntries kget en t m] assms(4,5) by blast
  note R = trie_map.delta_rows[OF assms(1) wf rok assms(2,2) old U D]
  have "knows (intern_all (map TenantID newEntries) t) (TenantID e)" if "e \<in> set newEntries" for e
    using that intern_all_known[of "TenantID e" "map TenantID newEntries" t] by (auto simp: knows_def)
  then have "trie_holds kget en t' newEntries m'"
    unfolding t' using R(1) trie_holds_rows[of newEntries kget en t m'] trie_holds_keeps[of newEntries "intern_all (map TenantID newEntries) t" kget en _ m'] assms(3) by blast
  then show ?thesis using R(2-4) by blast
qed

definition ex_old_row :: trie_entry where "ex_old_row = \<lparr>TenantID = [], Prefix = catchall, Zone = ZoneExternal\<rparr>"
definition ex_new_row :: trie_entry where "ex_new_row = \<lparr>TenantID = [], Prefix = metadataPrefix, Zone = ZoneInfra\<rparr>"

lemma ex_prefixes:
  "row_prefix_ok catchall" "row_prefix_ok metadataPrefix" "metadataPrefix \<noteq> catchall"
  by (auto simp: row_prefix_ok_def catchall_def metadataPrefix_def Masked_def)

lemma ex_keys:
  "LpmKeyForPrefix en tid catchall = Ret (lpm_of en (tid, catchall))"
  "LpmKeyForPrefix en tid metadataPrefix = Ret (lpm_of en (tid, metadataPrefix))"
  "lpm_of en (tid, metadataPrefix) \<noteq> lpm_of en (tid, catchall)"
  using ex_prefixes by (simp_all add: LpmKey_row lpm_of_inj)

lemma ex_indexes:
  "index_rows [ex_new_row] ([], t) = ([((0, metadataPrefix), ZoneInfra)], t)"
  "index_rows [ex_old_row] ([], t) = ([((0, catchall), ZoneExternal)], t)"
  by (simp_all add: ex_new_row_def ex_old_row_def Intern_def TenantIDUnset_def)

lemma ex_phases:
  "upsert_rows en (bm_upd 16 {}) [((0, catchall), ZoneExternal)] [((0, metadataPrefix), ZoneInfra)] ([(lpm_of en (0, catchall), ZoneExternal)], d, None) =
     Ret ([(lpm_of en (0, catchall), ZoneExternal), (lpm_of en (0, metadataPrefix), ZoneInfra)], d\<lparr>Added := Added d + 1\<rparr>, None)"
  "delete_rows en (bm_del {}) [((0, metadataPrefix), ZoneInfra)] [(0, catchall)]
     ([(lpm_of en (0, catchall), ZoneExternal), (lpm_of en (0, metadataPrefix), ZoneInfra)], d, None) =
     Ret ([(lpm_of en (0, metadataPrefix), ZoneInfra)], d\<lparr>Removed := Removed d + 1\<rparr>, None)"
  using ex_prefixes(3) ex_keys(3)[of en 0] ex_keys(3)[of en 0, symmetric]
  by (auto simp: ex_keys bm_upd_def bm_del_def mput_Cons mdel_Cons mhas_def mget_Cons)

theorem delta_moves_trie_witness:
  "trie_holds mget Little ex_lpm_interner [ex_new_row] [(lpm_of Little (0, metadataPrefix), ZoneInfra)]"
proof -
  let ?m = "[(lpm_of Little (0, catchall), ZoneExternal)]"
  have km: "trie_map mget (bm_upd 16 {}) (bm_del {}) bm_iter" by (simp add: trie_map_def bounded_kernel_map)
  have "trie_holds mget Little ex_lpm_interner [ex_old_row] ?m"
    by (simp add: trie_holds_def ex_old_row_def row_of_def id_of_def TenantIDUnset_def mget_def)
  moreover have "ApplyTrieDelta Little (bm_upd 16 {}) (bm_del {}) rev (Some ?m) [ex_old_row] [ex_new_row] (Some ex_lpm_interner) =
      Ret ((Some [(lpm_of Little (0, metadataPrefix), ZoneInfra)], Some ex_lpm_interner), \<lparr>Added = 1, Changed = 0, Removed = 1\<rparr>, None)"
    by (simp add: ApplyTrieDelta_def ex_indexes ex_phases zero_delta_def del: index_rows.simps upsert_rows.simps delete_rows.simps)
  ultimately show ?thesis
    using delta_moves_trie[OF km, where ord = rev and newEntries = "[ex_new_row]" and oldEntries = "[ex_old_row]" and t = ex_lpm_interner and en = Little and m = ?m] ex_prefixes
    by (simp add: ex_new_row_def ex_old_row_def knows_def)
qed

text \<open>
  C26. There is no window in which an address loses its row. At every point of the upsert phase, also
  after failed updates, every key stored before the pass is still stored; when the upsert phase reported an error
  the pass returns with that error and the map as that phase left it, without deleting; and at every point of the delete phase every row of the new
  trie is stored.
\<close>

theorem delta_no_window:
  assumes "trie_map kget kupd kdel kiter" and "\<And>xs. mset (ord xs) = mset xs"
    and "\<And>e. e \<in> set newEntries \<Longrightarrow> row_prefix_ok (Prefix e)" and "\<And>e. e \<in> set oldEntries \<Longrightarrow> row_prefix_ok (Prefix e)"
    and "holds_rows kget en (fst (index_rows oldEntries ([], t))) m"
    and "upsert_rows en kupd (fst (index_rows oldEntries ([], t)))
           (take i (ord (fst (index_rows newEntries ([], t))))) (m, zero_delta, None) = Ret (mi, di, ei)"
    and "upsert_rows en kupd (fst (index_rows oldEntries ([], t)))
           (ord (fst (index_rows newEntries ([], t)))) (m, zero_delta, None) = Ret (m1, d1, e1)"
    and "delete_rows en kdel (fst (index_rows newEntries ([], t)))
           (take j (map fst (ord (fst (index_rows oldEntries ([], t)))))) (m1, d1, None) = Ret (mj, dj, ej)"
    and "\<And>e. e \<in> set oldEntries \<Longrightarrow> knows t (TenantID e)"
  shows "(\<forall>k. kget m k \<noteq> None \<longrightarrow> kget mi k \<noteq> None) \<and>
    (e1 \<noteq> None \<longrightarrow> (\<exists>t'. ApplyTrieDelta en kupd kdel ord (Some m) oldEntries newEntries (Some t) = Ret ((Some m1, Some t'), d1, e1))) \<and>
    (\<forall>rk. e1 = None \<and> mhas (fst (index_rows newEntries ([], t))) rk \<longrightarrow> kget mj (lpm_of en rk) \<noteq> None)"
proof -
  let ?N = "fst (index_rows newEntries ([], t))" and ?O = "fst (index_rows oldEntries ([], t))"
  note wf = index_rows_wf[of newEntries t] index_rows_wf[of oldEntries t]
  have rok: "rows_ok ?N" "rows_ok ?O" by (rule index_rows_ok, erule assms(3,4))+
  have "set (ord ?O) = set ?O" by (metis assms(2) set_mset_mset)
  then have okd: "row_prefix_ok (snd rk)" if "rk \<in> set (take j (map fst (ord ?O)))" for rk
    using rok(2) in_set_takeD[OF that] by (auto simp: rows_ok_def)
  have "kget mj (lpm_of en rk) \<noteq> None" if no: "e1 = None" and has: "mhas ?N rk" for rk
  proof -
    have ok: "row_prefix_ok (snd rk)" using has rok(1) by (auto simp: rows_ok_def mhas_iff)
    have "lpm_of en rk \<notin> lpm_of en ` set (deletes ?N (take j (map fst (ord ?O))))"
      using has okd ok lpm_of_inj[of "snd rk" _ en "fst rk"] by (auto simp: deletes_def) (metis prod.collapse)
    then have "kget mj (lpm_of en rk) = kget m1 (lpm_of en rk)"
      using trie_map.delete_rows_facts[OF assms(1,8), where k = "lpm_of en rk"] okd by blast
    also have "\<dots> \<noteq> None" by (rule trie_map.upserted_present[OF assms(1) wf(1) rok assms(2,5,7)[unfolded no] has])
    finally show ?thesis .
  qed
  moreover have "\<exists>t'. ApplyTrieDelta en kupd kdel ord (Some m) oldEntries newEntries (Some t) = Ret ((Some m1, Some t'), d1, e1)" if er: "e1 \<noteq> None"
  proof -
    obtain e where "e1 = Some e" using er by auto
    then show ?thesis using ApplyTrieDelta_upsert_error[where ord = ord, OF assms(7,9)] by blast
  qed
  ultimately show ?thesis using trie_map.upsert_keeps_keys[OF assms(1,6)] by blast
qed


theorem delta_no_window_witness:
  "mget [(lpm_of Little (0, metadataPrefix), ZoneInfra)] (lpm_of Little (0, metadataPrefix)) \<noteq> None"
proof -
  let ?m = "[(lpm_of Little (0, catchall), ZoneExternal)]"
  have km: "trie_map mget (bm_upd 16 {}) (bm_del {}) bm_iter" by (simp add: trie_map_def bounded_kernel_map)
  have "holds_rows mget Little (fst (index_rows [ex_old_row] ([], ex_lpm_interner))) ?m"
    unfolding ex_indexes holds_rows_def fst_conv by (auto simp: mget_Cons)
  then have "\<forall>rk. mhas [((0, metadataPrefix), ZoneInfra)] rk \<longrightarrow> mget [(lpm_of Little (0, metadataPrefix), ZoneInfra)] (lpm_of Little rk) \<noteq> None"
    using delta_no_window[OF km, where ord = rev and newEntries = "[ex_new_row]" and oldEntries = "[ex_old_row]" and t = ex_lpm_interner and en = Little and m = ?m
        and i = 1 and j = 1] ex_prefixes
    by (simp add: ex_indexes ex_phases del: index_rows.simps upsert_rows.simps delete_rows.simps) (simp add: ex_new_row_def ex_old_row_def knows_def)
  then show ?thesis by (simp add: mhas_def mget_Cons)
qed

section \<open>A row that is already gone\<close>

text \<open>
  The delete of a trie key that is not stored fails, and the delete loop reports that failure like any
  other. So once a pass has deleted one stale row and failed on another, the row that is gone makes every
  later pass from the same old rows fail.
\<close>

context trie_map
begin

lemma upsert_other:
  assumes "upsert_rows en kupd oldRows rs (m, d, err) = Ret (m', d', err')"
    and "\<And>rk z. (rk, z) \<in> set rs \<Longrightarrow> row_prefix_ok (snd rk)" and "k \<notin> lpm_of en ` fst ` set rs"
  shows "kget m' k = kget m k"
  using assms
proof (induction rs arbitrary: m d err)
  case (Cons r rs)
  obtain rk zone where r: "r = (rk, zone)" by (cases r)
  have ok: "\<And>rk z. (rk, z) \<in> set rs \<Longrightarrow> row_prefix_ok (snd rk)" using Cons.prems(2) by auto
  have key: "LpmKeyForPrefix en (fst rk) (snd rk) = Ret (lpm_of en rk)"
    using LpmKey_row[of "snd rk" en "fst rk"] Cons.prems(2)[of rk zone] r by simp
  obtain res m1 where u: "kupd (lpm_of en rk) zone m = (res, m1)" by (cases "kupd (lpm_of en rk) zone m")
  have "kget m1 k = kget m k"
    using upd_ok[of "lpm_of en rk" zone m m1 k] upd_err[of "lpm_of en rk" zone m _ m1 k] u Cons.prems(3) r by (cases res) auto
  then show ?case using Cons.IH[OF _ ok] Cons.prems(1,3) r key u by (cases res) (auto split: if_splits)
qed simp

lemma delete_missing_errs:
  assumes "\<And>k m. kget m k = None \<Longrightarrow> fst (kdel k m) \<noteq> None"
    and "delete_rows en kdel newRows rks (m, d, err) = Ret (m', d', err')"
    and "\<And>rk. rk \<in> set rks \<Longrightarrow> row_prefix_ok (snd rk)"
    and "rk \<in> set rks" "\<not> mhas newRows rk" "kget m (lpm_of en rk) = None"
  shows "err' \<noteq> None"
  using assms(2-)
proof (induction rks arbitrary: m d err)
  case (Cons x rks)
  have ok: "\<And>rk. rk \<in> set rks \<Longrightarrow> row_prefix_ok (snd rk)" using Cons.prems(2) by auto
  have key: "LpmKeyForPrefix en (fst x) (snd x) = Ret (lpm_of en x)"
    using LpmKey_row[of "snd x" en "fst x"] Cons.prems(2)[of x] by simp
  obtain res m1 where u: "kdel (lpm_of en x) m = (res, m1)" by (cases "kdel (lpm_of en x) m")
  have none: "kget m1 (lpm_of en rk) = None"
    using del_ok[of "lpm_of en x" m m1] del_missing[of "lpm_of en x" m m1] del_err[of "lpm_of en x" m m1] u Cons.prems(5)
    by (cases res; cases "the res") auto
  show ?case
  proof (cases "x = rk")
    case True
    then obtain e where "res = Some e" using assms(1)[OF Cons.prems(5)] u by (cases res) auto
    then have "delete_rows en kdel newRows rks (m1, d, note_error (lpm_of en x) err) = Ret (m', d', err')"
      using Cons.prems(1,4) True key u by simp
    then show ?thesis
      using delete_rows_facts[OF _ ok] note_error_Some[of "lpm_of en x" err] by (metis option.distinct(1))
  next
    case False
    then have "rk \<in> set rks" using Cons.prems(3) by simp
    then show ?thesis
      using Cons.IH[OF _ ok] Cons.prems(1,4,5) key u none by (cases "mhas newRows x"; cases res) auto
  qed
qed simp

lemma missing_row_blocks:
  assumes "\<And>k m. kget m k = None \<Longrightarrow> fst (kdel k m) \<noteq> None" and "\<And>xs. mset (ord xs) = mset xs"
    and "\<And>x. x \<in> set newEntries \<Longrightarrow> row_prefix_ok (Prefix x)" and "\<And>x. x \<in> set oldEntries \<Longrightarrow> row_prefix_ok (Prefix x)"
    and "\<And>x. x \<in> set oldEntries \<Longrightarrow> knows t (TenantID x)" and "e \<in> set oldEntries"
    and "\<not> mhas (fst (index_rows newEntries ([], t))) (row_of t e)" and "kget m (lpm_of en (row_of t e)) = None"
    and "ApplyTrieDelta en kupd kdel ord (Some m) oldEntries newEntries (Some t) = Ret ((m', t'), d, err)"
  shows "err \<noteq> None \<and> (\<exists>m1. m' = Some m1 \<and> kget m1 (lpm_of en (row_of t e)) = None) \<and>
    t' = Some (intern_all (map TenantID oldEntries) (intern_all (map TenantID newEntries) t))"
proof -
  define N where "N = fst (index_rows newEntries ([], t))"
  define Old where "Old = fst (index_rows oldEntries ([], t))"
  let ?k = "lpm_of en (row_of t e)"
  let ?t1 = "intern_all (map TenantID newEntries) t"
  have i1: "index_rows newEntries ([], t) = (N, ?t1)" by (simp add: N_def index_rows_eq Let_def)
  have i2: "index_rows oldEntries ([], ?t1) = (Old, intern_all (map TenantID oldEntries) ?t1)"
    using index_rows_known[of oldEntries t "map TenantID newEntries"] assms(5) by (simp add: Old_def index_rows_eq Let_def)
  have sets: "set (ord xs) = set xs" for xs using assms(2)[of xs] by (metis set_mset_mset)
  have rok: "rows_ok N" "rows_ok Old" unfolding N_def Old_def by (rule index_rows_ok, erule assms(3,4))+
  have okN: "row_prefix_ok (snd rk)" if "(rk, z) \<in> set (ord N)" for rk z using rok(1) that by (force simp: rows_ok_def sets)
  have okO: "row_prefix_ok (snd rk)" if "rk \<in> set (map fst (ord Old))" for rk using rok(2) that by (auto simp: rows_ok_def sets)
  have "row_of (intern_all (map TenantID oldEntries) t) e = row_of t e"
    using id_of_keeps[of "TenantID e" t] assms(5)[OF assms(6)] by (simp add: row_of_def knows_def)
  then have "(row_of t e, Zone e) \<in> set (rev (map (\<lambda>x. (row_of (intern_all (map TenantID oldEntries) t) x, Zone x)) oldEntries))"
    using assms(6) by force
  then have "map_of (rev (map (\<lambda>x. (row_of (intern_all (map TenantID oldEntries) t) x, Zone x)) oldEntries)) (row_of t e) \<noteq> None"
    unfolding map_of_eq_None_iff by (simp only: not_not image_iff) (rule bexI[of _ "(row_of t e, Zone e)"]; simp)
  then have "mhas Old (row_of t e)" by (simp add: mhas_def Old_def index_rows_get)
  then have inO: "row_of t e \<in> set (map fst (ord Old))" by (simp add: mhas_iff sets)
  have new: "\<not> mhas N (row_of t e)" using assms(7) by (simp add: N_def)
  have "row_prefix_ok (Prefix e)" by (rule assms(4)[OF assms(6)])
  then have fresh: "?k \<notin> lpm_of en ` fst ` set (ord N)"
    using new okN by (auto simp: mhas_iff sets row_of_def lpm_of_inj) force
  obtain m1 d1 e1 where U: "upsert_rows en kupd Old (ord N) (m, zero_delta, None) = Ret (m1, d1, e1)"
    using assms(9) i1 i2 by (auto simp: ApplyTrieDelta_def split: outcome.splits prod.splits)
  have m1: "kget m1 ?k = None" using upsert_other[OF U okN fresh] assms(8) by simp
  show ?thesis
  proof (cases e1)
    case (Some x)
    then show ?thesis using assms(9) i1 i2 U m1 by (auto simp: ApplyTrieDelta_def)
  next
    case None
    obtain m2 d2 e2 where D: "delete_rows en kdel N (map fst (ord Old)) (m1, d1, None) = Ret (m2, d2, e2)"
      using assms(9) i1 i2 U None by (auto simp: ApplyTrieDelta_def split: outcome.splits prod.splits)
    have "e2 \<noteq> None" by (rule delete_missing_errs[OF assms(1) D okO inO new m1])
    moreover have "kget m2 ?k = None" using delete_rows_facts[OF D okO, of ?k] m1 by auto
    ultimately show ?thesis using assms(9) i1 i2 U None D by (auto simp: ApplyTrieDelta_def)
  qed
qed

end

text \<open>A pass that deletes one stale row and fails on the other leaves such a map behind.\<close>

lemma partial_delete_leaves_gap:
  "ApplyTrieDelta Little (bm_upd 16 {}) (bm_del {lpm_of Little (0, catchall)}) id
     (Some [(lpm_of Little (0, catchall), ZoneExternal), (lpm_of Little (0, metadataPrefix), ZoneInfra)])
     [ex_old_row, ex_new_row] [] (Some ex_lpm_interner) =
   Ret ((Some [(lpm_of Little (0, catchall), ZoneExternal)], Some ex_lpm_interner),
     \<lparr>Added = 0, Changed = 0, Removed = 1\<rparr>, Some (ErrEntry (lpm_of Little (0, catchall))))"
  using ex_prefixes(3) ex_keys(3)[of Little 0] ex_keys(3)[of Little 0, symmetric]
  by (simp add: ApplyTrieDelta_def ex_old_row_def ex_new_row_def Intern_def TenantIDUnset_def ex_keys bm_del_def note_error_def zero_delta_def
      mput_Cons mdel_Cons mhas_def mget_Cons)

end
