(* ===== verification/Neutron_Sync.thy ===== *)
theory Neutron_Sync
  imports Neutron_Attrib
begin

text \<open>
  The anomaly report (\<^verbatim>\<open>internal/neutron/anomalies.go\<close>), the identity series (\<^verbatim>\<open>info.go\<close>), the resource
  lookups of the debug pages (\<^verbatim>\<open>lookup.go\<close>), and the sync and commit pair (\<^verbatim>\<open>sync.go\<close>, \<^verbatim>\<open>neutron.go\<close>).
  The OpenStack client is a record of its list results, one per call; a call that fails is \<^verbatim>\<open>Inl\<close> of the
  error text. The API-error counter is the list of endpoint labels recorded, newest last.
\<close>

section \<open>Anomalies\<close>

record dangling_route =
  DrSourceTenant :: string
  DrSourceRouter :: string
  DrDestination :: string
  DrNexthop :: string

record zero_trie_tenant =
  ZtTenantID :: string
  ZtNetworks :: nat
  ZtRouters :: nat
  ZtPorts :: nat

record duplicate_router_mac =
  DupMAC :: string
  DupPortIDs :: "string list"
  DupRouterIDs :: "string list"

record anomalies_report =
  ArCycles :: "cycle_hit list"
  ArAmbiguities :: "ambiguity_hit list"
  DanglingRoutes :: "dangling_route list"
  ZeroTrieTenants :: "zero_trie_tenant list"
  DuplicateRouterMACs :: "duplicate_router_mac list"
  MultiExternalPaths :: "multi_external_hit list"

definition Total_anomalies :: "anomalies_report \<Rightarrow> nat" where
  "Total_anomalies a = length (ArCycles a) + length (ArAmbiguities a) + length (DanglingRoutes a) +
     length (ZeroTrieTenants a) + length (DuplicateRouterMACs a) + length (MultiExternalPaths a)"

definition known_ips :: "snapshot \<Rightarrow> string set" where
  "known_ips snap = set (filter (\<lambda>a. a \<noteq> []) (concat (map (\<lambda>p. map IPAddress (FixedIPs p)) (Ports snap))))"

definition detectDanglingRoutes :: "snapshot \<Rightarrow> dangling_route list" where
  "detectDanglingRoutes snap =
    (if length (Routers snap) = 0 then []
     else sort_key (\<lambda>d. (DrSourceRouter d, DrDestination d))
       (concat (map (\<lambda>r. concat (map (\<lambda>rt. if Nexthop rt = [] \<or> Nexthop rt \<in> known_ips snap then []
            else [\<lparr>DrSourceTenant = RtrProjectID r, DrSourceRouter = RtrID r, DrDestination = Destination rt, DrNexthop = Nexthop rt\<rparr>])
          (Routes r))) (Routers snap))))"

definition bump :: "string \<Rightarrow> (zero_trie_tenant \<Rightarrow> zero_trie_tenant) \<Rightarrow> (string, zero_trie_tenant) gomap \<Rightarrow> (string, zero_trie_tenant) gomap" where
  "bump tid f owned =
    (if tid = [] then owned
     else mput tid (f (case mget owned tid of None \<Rightarrow> \<lparr>ZtTenantID = tid, ZtNetworks = 0, ZtRouters = 0, ZtPorts = 0\<rparr> | Some z \<Rightarrow> z)) owned)"

definition owned_tenants :: "snapshot \<Rightarrow> (string, zero_trie_tenant) gomap" where
  "owned_tenants snap =
    fold (\<lambda>p m. if \<not> IsVMPort (DeviceOwner p) then m else bump (PortProjectID p) (\<lambda>z. z\<lparr>ZtPorts := ZtPorts z + 1\<rparr>) m) (Ports snap)
     (fold (\<lambda>r. bump (RtrProjectID r) (\<lambda>z. z\<lparr>ZtRouters := ZtRouters z + 1\<rparr>)) (Routers snap)
       (fold (\<lambda>n. bump (NetProjectID n) (\<lambda>z. z\<lparr>ZtNetworks := ZtNetworks z + 1\<rparr>)) (Networks snap) []))"

definition detectZeroTrieTenants :: "snapshot \<Rightarrow> trie_entry list \<Rightarrow> zero_trie_tenant list" where
  "detectZeroTrieTenants snap trie =
    (let trieTenants = set (filter (\<lambda>t. t \<noteq> []) (map TenantID trie))
     in sort_key ZtTenantID (map snd (filter (\<lambda>(tid, z). tid \<notin> trieTenants) (owned_tenants snap))))"

definition mac_groups :: "snapshot \<Rightarrow> (string, port list) gomap" where
  "mac_groups snap =
    fold (\<lambda>p m. if DeviceOwner p \<noteq> DeviceOwnerRouterInterface \<or> MACAddress p = [] then m else mappend (MACAddress p) p m) (Ports snap) []"

definition detectDuplicateRouterMACs :: "snapshot \<Rightarrow> duplicate_router_mac list" where
  "detectDuplicateRouterMACs snap =
    sort_key DupMAC
      (map (\<lambda>(mac, ports). \<lparr>DupMAC = mac, DupPortIDs = sort (map PortUUID ports), DupRouterIDs = dedupe (map DeviceID ports)\<rparr>)
        (filter (\<lambda>(mac, ports). \<not> length ports < 2) (mac_groups snap)))"

definition DetectAnomalies :: "snapshot \<Rightarrow> trie_entry list \<Rightarrow> cycle_hit list \<Rightarrow> ambiguity_hit list \<Rightarrow> anomalies_report" where
  "DetectAnomalies snap trie cyc amb =
    \<lparr>ArCycles = cyc, ArAmbiguities = amb, DanglingRoutes = detectDanglingRoutes snap,
     ZeroTrieTenants = detectZeroTrieTenants snap trie, DuplicateRouterMACs = detectDuplicateRouterMACs snap,
     MultiExternalPaths = detectMultiExternalPaths snap\<rparr>"

section \<open>Identity series\<close>

datatype info_series =
    TenantInfo string string
  | ServerInfo string string string
  | PortInfo string string string string string

definition isInfoPort :: "port \<Rightarrow> bool" where
  "isInfoPort p \<longleftrightarrow> PortUUID p \<noteq> [] \<and> IsVMPort (DeviceOwner p) \<and> PortProjectID p \<noteq> [] \<and> MACAddress p \<noteq> []"

fun join_comma :: "string list \<Rightarrow> string" where
  "join_comma [] = []"
| "join_comma [x] = x"
| "join_comma (x # y # ys) = x @ '','' @ join_comma (y # ys)"

definition joinFixedIPs :: "fixed_ip list \<Rightarrow> string" where
  "joinFixedIPs ips = join_comma (sort (filter (\<lambda>a. a \<noteq> []) (map IPAddress ips)))"

text \<open>One loop with its seen-set: what it emits and the ids it has seen.\<close>

definition emit_once :: "('a \<Rightarrow> bool) \<Rightarrow> ('a \<Rightarrow> string) \<Rightarrow> ('a \<Rightarrow> info_series) \<Rightarrow> 'a \<Rightarrow> info_series list \<times> string list \<Rightarrow> info_series list \<times> string list" where
  "emit_once ok key ser x acc =
    (case acc of (out, seen) \<Rightarrow>
       if \<not> ok x then (out, seen)
       else if key x \<in> set seen then (out, seen)
       else (out @ [ser x], key x # seen))"

definition emit_family :: "('a \<Rightarrow> bool) \<Rightarrow> ('a \<Rightarrow> string) \<Rightarrow> ('a \<Rightarrow> info_series) \<Rightarrow> 'a list \<Rightarrow> info_series list" where
  "emit_family ok key ser xs = fst (fold (emit_once ok key ser) xs ([], []))"

definition InfoCollect :: "snapshot option \<Rightarrow> info_series list" where
  "InfoCollect s =
    (case s of None \<Rightarrow> []
     | Some snap \<Rightarrow>
         emit_family (\<lambda>p. ProjID p \<noteq> []) ProjID (\<lambda>p. TenantInfo (ProjID p) (ProjName p)) (Projects snap) @
         emit_family (\<lambda>s. SrvID s \<noteq> []) SrvID (\<lambda>s. ServerInfo (SrvID s) (SrvName s) (SrvProjectID s)) (Servers snap) @
         emit_family isInfoPort PortUUID (\<lambda>p. PortInfo (PortUUID p) (DeviceID p) (PortProjectID p) (MACAddress p) (joinFixedIPs (FixedIPs p))) (Ports snap))"

section \<open>Resource lookups\<close>

record resource_match =
  RmSubnet :: "subnet option"
  RmNetwork :: "network option"
  RmPort :: "port option"

definition no_match :: resource_match where
  "no_match = \<lparr>RmSubnet = None, RmNetwork = None, RmPort = None\<rparr>"

definition best_subnet_step :: "addr \<Rightarrow> string \<Rightarrow> subnet \<Rightarrow> (subnet \<times> nat) option \<Rightarrow> (subnet \<times> nat) option" where
  "best_subnet_step ip tenant s best =
    (if tenant \<noteq> [] \<and> SubProjectID s \<noteq> tenant then best
     else (case ParsePrefix (CIDR s) of
             None \<Rightarrow> best
           | Some p \<Rightarrow> if \<not> Contains p ip then best
                       else (case best of None \<Rightarrow> Some (s, PBits p)
                             | Some (_, bits) \<Rightarrow> if PBits p > bits then Some (s, PBits p) else best)))"

definition lookupResourceScoped :: "snapshot \<Rightarrow> addr \<Rightarrow> string \<Rightarrow> resource_match" where
  "lookupResourceScoped snap ip tenant =
    (let best = map_option fst (fold (best_subnet_step ip tenant) (Subnets snap) None)
     in \<lparr>RmSubnet = best,
         RmNetwork = (case best of None \<Rightarrow> None | Some s \<Rightarrow> find (\<lambda>n. NetID n = SubNetworkID s) (Networks snap)),
         RmPort = find (\<lambda>p. \<not> (tenant \<noteq> [] \<and> PortProjectID p \<noteq> tenant) \<and> (\<exists>f\<in>set (FixedIPs p). IPAddress f = Addr_String ip)) (Ports snap)\<rparr>)"

definition LookupResource :: "snapshot option \<Rightarrow> addr \<Rightarrow> string \<Rightarrow> resource_match" where
  "LookupResource s ip tenant =
    (case s of None \<Rightarrow> no_match
     | Some snap \<Rightarrow>
         (let m = lookupResourceScoped snap ip tenant
          in if tenant \<noteq> [] \<and> (RmSubnet m \<noteq> None \<or> RmPort m \<noteq> None) then m else lookupResourceScoped snap ip []))"

text \<open>The loop compares the bytes with upper-case letters shifted down.\<close>

fun equalFoldASCII :: "string \<Rightarrow> string \<Rightarrow> bool" where
  "equalFoldASCII [] [] = True"
| "equalFoldASCII (a # as) (b # bs) = (if lower a \<noteq> lower b then False else equalFoldASCII as bs)"
| "equalFoldASCII _ _ = False"

definition LookupPortByMAC :: "snapshot option \<Rightarrow> string \<Rightarrow> resource_match" where
  "LookupPortByMAC s mac =
    (case s of None \<Rightarrow> no_match
     | Some snap \<Rightarrow>
         if mac = [] then no_match
         else (case find (\<lambda>p. equalFoldASCII (MACAddress p) mac) (Ports snap) of
                 None \<Rightarrow> no_match
               | Some p \<Rightarrow> no_match\<lparr>RmPort := Some p, RmNetwork := find (\<lambda>n. NetID n = PortNetworkID p) (Networks snap)\<rparr>))"

section \<open>Sync and commit\<close>

record os_client =
  ListNetworks :: "string + network list"
  ListSubnets :: "string + subnet list"
  ListPorts :: "string + port list"
  ListRouters :: "string + router list"
  ListFloatingIPs :: "string + floating_ip list"
  ListProjects :: "string + project list"
  ListServers :: "string + nova_server list"
  ListLoadBalancers :: "string + load_balancer list"
  ListAmphorae :: "string + amphora list"

record sync_result =
  SrSnapshot :: snapshot
  SrEntries :: "trie_entry list"
  SrAmbiguities :: "ambiguity_hit list"
  SrCycles :: "cycle_hit list"
  SrAnomalies :: anomalies_report

record neutron =
  nClient :: "os_client option"
  nSnapshot :: "snapshot option"
  nTrie :: "trie_entry list option"
  nAnomalies :: "anomalies_report option"
  nLastSync :: int
  nApiErrors :: "string list"
  nGauge :: "anomalies_report option"

definition record_err :: "string \<Rightarrow> neutron \<Rightarrow> neutron" where
  "record_err endpoint n = n\<lparr>nApiErrors := nApiErrors n @ [endpoint]\<rparr>"

text \<open>A list call that aborts the sync, and one that leaves its list empty.\<close>

definition fatal :: "string \<Rightarrow> string \<Rightarrow> (string + 'a list) \<Rightarrow> ('a list \<Rightarrow> neutron \<Rightarrow> neutron \<times> (string + 'b)) \<Rightarrow> neutron \<Rightarrow> neutron \<times> (string + 'b)" where
  "fatal endpoint what r k n =
    (case r of Inl err \<Rightarrow> (record_err endpoint n, Inl (what @ '': '' @ err)) | Inr xs \<Rightarrow> k xs n)"

definition optional :: "string \<Rightarrow> (string + 'a list) \<Rightarrow> ('a list \<Rightarrow> neutron \<Rightarrow> neutron \<times> (string + 'b)) \<Rightarrow> neutron \<Rightarrow> neutron \<times> (string + 'b)" where
  "optional endpoint r k n = (case r of Inl err \<Rightarrow> k [] (record_err endpoint n) | Inr xs \<Rightarrow> k xs n)"

definition fetchAll :: "os_client \<Rightarrow> neutron \<Rightarrow> neutron \<times> (string + snapshot)" where
  "fetchAll c =
    fatal ''networks'' ''list networks'' (ListNetworks c) (\<lambda>nets.
    fatal ''subnets'' ''list subnets'' (ListSubnets c) (\<lambda>subs.
    fatal ''ports'' ''list ports'' (ListPorts c) (\<lambda>ps.
    fatal ''routers'' ''list routers'' (ListRouters c) (\<lambda>rs.
    fatal ''floatingips'' ''list floatingips'' (ListFloatingIPs c) (\<lambda>fips.
    fatal ''projects'' ''list projects'' (ListProjects c) (\<lambda>prjs.
    optional ''servers'' (ListServers c) (\<lambda>srvs.
    optional ''loadbalancers'' (ListLoadBalancers c) (\<lambda>lbs.
    optional ''amphorae'' (ListAmphorae c) (\<lambda>amps n.
      (n, Inr \<lparr>Networks = nets, Subnets = subs, Ports = ps, Routers = rs, FloatingIPs = fips, Projects = prjs,
               Servers = srvs, LoadBalancers = lbs, Amphorae = amps\<rparr>))))))))))"

definition resultFor :: "int \<Rightarrow> snapshot \<Rightarrow> sync_result" where
  "resultFor maxHops snap =
    (case buildTrie snap maxHops of (es, amb, cyc) \<Rightarrow>
       \<lparr>SrSnapshot = snap, SrEntries = es, SrAmbiguities = amb, SrCycles = cyc, SrAnomalies = DetectAnomalies snap es cyc amb\<rparr>)"

text \<open>The client is authenticated once and kept; \<^verbatim>\<open>auth\<close> is the outcome of the Keystone call.\<close>

definition Sync :: "(string + os_client) \<Rightarrow> int \<Rightarrow> neutron \<Rightarrow> neutron \<times> (string + sync_result)" where
  "Sync auth maxHops n =
    (case (case nClient n of Some c \<Rightarrow> Inr c | None \<Rightarrow> auth) of
       Inl err \<Rightarrow> (record_err ''keystone'' n, Inl (''keystone auth: '' @ err))
     | Inr c \<Rightarrow>
         (case fetchAll c (n\<lparr>nClient := Some c\<rparr>) of
            (n', Inl err) \<Rightarrow> (n', Inl err)
          | (n', Inr snap) \<Rightarrow> (n', Inr (resultFor maxHops snap))))"

text \<open>Commit is five stores; a reader may look between any two of them.\<close>

datatype commit_store = SetAnomalies | StoreSnapshot | StoreTrie | StoreAnomalies | StoreLastSync

definition commit_stores :: "commit_store list" where
  "commit_stores = [SetAnomalies, StoreSnapshot, StoreTrie, StoreAnomalies, StoreLastSync]"

fun store_one :: "sync_result \<Rightarrow> int \<Rightarrow> commit_store \<Rightarrow> neutron \<Rightarrow> neutron" where
  "store_one r at SetAnomalies n = n\<lparr>nGauge := Some (SrAnomalies r)\<rparr>"
| "store_one r at StoreSnapshot n = n\<lparr>nSnapshot := Some (SrSnapshot r)\<rparr>"
| "store_one r at StoreTrie n = n\<lparr>nTrie := Some (SrEntries r)\<rparr>"
| "store_one r at StoreAnomalies n = n\<lparr>nAnomalies := Some (SrAnomalies r)\<rparr>"
| "store_one r at StoreLastSync n = n\<lparr>nLastSync := at\<rparr>"

definition Commit :: "sync_result \<Rightarrow> int \<Rightarrow> neutron \<Rightarrow> neutron" where
  "Commit r at n = fold (store_one r at) commit_stores n"

definition Trie_accessor :: "neutron \<Rightarrow> trie_entry list" where
  "Trie_accessor n = (case nTrie n of None \<Rightarrow> [] | Some es \<Rightarrow> es)"

definition LastSyncTime :: "neutron \<Rightarrow> int option" where
  "LastSyncTime n = (if nLastSync n = 0 then None else Some (nLastSync n))"

section \<open>The report is complete\<close>

lemma sort_key_empty [simp]: "sort_key k xs = [] \<longleftrightarrow> xs = []"
  by (metis length_0_conv length_sort)

lemma known_ips_iff: "a \<in> known_ips snap \<longleftrightarrow> a \<noteq> [] \<and> (\<exists>p\<in>set (Ports snap). \<exists>f\<in>set (FixedIPs p). IPAddress f = a)"
  by (auto simp: known_ips_def)

lemma dangling_empty:
  "detectDanglingRoutes snap = [] \<longleftrightarrow> (\<forall>r\<in>set (Routers snap). \<forall>rt\<in>set (Routes r). Nexthop rt = [] \<or>
     (\<exists>p\<in>set (Ports snap). \<exists>f\<in>set (FixedIPs p). IPAddress f = Nexthop rt))"
proof -
  let ?row = "\<lambda>r rt. if Nexthop rt = [] \<or> Nexthop rt \<in> known_ips snap then []
    else [\<lparr>DrSourceTenant = RtrProjectID r, DrSourceRouter = RtrID r, DrDestination = Destination rt, DrNexthop = Nexthop rt\<rparr>]"
  have "detectDanglingRoutes snap = [] \<longleftrightarrow> (\<forall>r\<in>set (Routers snap). \<forall>rt\<in>set (Routes r). ?row r rt = [])"
    unfolding detectDanglingRoutes_def by (simp only: sort_key_empty concat_eq_Nil_conv set_map ball_simps length_0_conv split: if_split) auto
  also have "\<dots> \<longleftrightarrow> (\<forall>r\<in>set (Routers snap). \<forall>rt\<in>set (Routes r). Nexthop rt = [] \<or> Nexthop rt \<in> known_ips snap)" by simp
  finally show ?thesis unfolding known_ips_iff by blast
qed

lemma bump_keys: "mhas (bump t f m) k \<longleftrightarrow> mhas m k \<or> (k = t \<and> t \<noteq> [])"
  by (auto simp: bump_def)

lemma bump_fold_keys:
  "mhas (fold (\<lambda>x m. if P x then bump (key x) f m else m) xs m) k \<longleftrightarrow> mhas m k \<or> (k \<noteq> [] \<and> (\<exists>x\<in>set xs. P x \<and> key x = k))"
  by (induction xs arbitrary: m) (auto simp: bump_keys)

definition owns_something :: "snapshot \<Rightarrow> string \<Rightarrow> bool" where
  "owns_something snap t \<longleftrightarrow> t \<noteq> [] \<and> ((\<exists>n\<in>set (Networks snap). NetProjectID n = t) \<or> (\<exists>r\<in>set (Routers snap). RtrProjectID r = t) \<or>
     (\<exists>p\<in>set (Ports snap). IsVMPort (DeviceOwner p) \<and> PortProjectID p = t))"

lemma owned_tenants_keys: "t \<in> fst ` set (owned_tenants snap) \<longleftrightarrow> owns_something snap t"
proof -
  have if_not: "(\<lambda>p m. if \<not> IsVMPort (DeviceOwner p) then m else F p m) = (\<lambda>p m. if IsVMPort (DeviceOwner p) then F p m else m)" for F :: "port \<Rightarrow> (string, zero_trie_tenant) gomap \<Rightarrow> _"
    by (intro ext) simp
  show ?thesis
    unfolding mhas_iff[symmetric] owned_tenants_def if_not bump_fold_keys
    bump_fold_keys[where P = "\<lambda>_. True" and key = RtrProjectID, unfolded if_True]
    bump_fold_keys[where P = "\<lambda>_. True" and key = NetProjectID, unfolded if_True]
    by (auto simp: owns_something_def)
qed

lemma zero_trie_empty:
  "detectZeroTrieTenants snap trie = [] \<longleftrightarrow> (\<forall>t. owns_something snap t \<longrightarrow> (\<exists>e\<in>set trie. TenantID e = t))"
proof -
  have "detectZeroTrieTenants snap trie = [] \<longleftrightarrow> (\<forall>t\<in>fst ` set (owned_tenants snap). t \<noteq> [] \<and> t \<in> set (map TenantID trie))"
    by (simp add: detectZeroTrieTenants_def Let_def filter_empty_conv case_prod_beta conj_commute)
  also have "\<dots> \<longleftrightarrow> (\<forall>t. owns_something snap t \<longrightarrow> (\<exists>e\<in>set trie. TenantID e = t))"
  proof -
    have "owns_something snap t \<Longrightarrow> t \<noteq> []" for t by (simp add: owns_something_def)
    moreover have "t \<in> set (map TenantID trie) \<longleftrightarrow> (\<exists>e\<in>set trie. TenantID e = t)" for t by (simp add: image_iff eq_commute)
    ultimately show ?thesis unfolding Ball_def owned_tenants_keys by blast
  qed
  finally show ?thesis .
qed

lemma mac_groups_at:
  "list_at (mac_groups snap) mac = filter (\<lambda>p. DeviceOwner p = DeviceOwnerRouterInterface \<and> MACAddress p \<noteq> [] \<and> MACAddress p = mac) (Ports snap)"
proof -
  have "list_at (fold (\<lambda>p m. if DeviceOwner p \<noteq> DeviceOwnerRouterInterface \<or> MACAddress p = [] then m else mappend (MACAddress p) p m) ps m) mac =
      list_at m mac @ filter (\<lambda>p. DeviceOwner p = DeviceOwnerRouterInterface \<and> MACAddress p \<noteq> [] \<and> MACAddress p = mac) ps" for ps m
    by (induction ps arbitrary: m) (auto simp: list_at_mappend)
  from this[of _ "[]"] show ?thesis by (simp only: mac_groups_def list_at_Nil append_Nil)
qed

lemma mac_groups_wf: "mwf (mac_groups snap)"
  unfolding mac_groups_def by (rule fold_invariant_pres[where P = mwf]) (auto simp: mappend_def)

lemma distinct_groups: "distinct (map f xs) \<longleftrightarrow> (\<forall>v. length (filter (\<lambda>x. f x = v) xs) < 2)"
proof (induction xs)
  case (Cons x xs)
  have "f x \<in> f ` set xs \<longleftrightarrow> filter (\<lambda>y. f y = f x) xs \<noteq> []" by (auto simp: filter_empty_conv image_iff eq_commute[of "f x"])
  then show ?case using Cons by (auto simp: less_Suc_eq)
qed simp

lemma duplicate_macs_empty:
  "detectDuplicateRouterMACs snap = [] \<longleftrightarrow>
     distinct (map MACAddress (filter (\<lambda>p. DeviceOwner p = DeviceOwnerRouterInterface \<and> MACAddress p \<noteq> []) (Ports snap)))"
proof -
  let ?ps = "filter (\<lambda>p. DeviceOwner p = DeviceOwnerRouterInterface \<and> MACAddress p \<noteq> []) (Ports snap)"
  have at: "list_at (mac_groups snap) mac = filter (\<lambda>p. MACAddress p = mac) ?ps" for mac
    unfolding mac_groups_at filter_filter by (rule filter_cong) auto
  have "detectDuplicateRouterMACs snap = [] \<longleftrightarrow> (\<forall>mac ports. (mac, ports) \<in> set (mac_groups snap) \<longrightarrow> length ports < 2)"
    by (auto simp: detectDuplicateRouterMACs_def filter_empty_conv split: prod.splits)
  also have "\<dots> \<longleftrightarrow> (\<forall>mac. length (list_at (mac_groups snap) mac) < 2)"
    unfolding mget_in_set[OF mac_groups_wf] by (auto simp: list_at_def split: option.splits)
  finally show ?thesis unfolding at distinct_groups .
qed

lemma multi_path_empty:
  "detectMultiExternalPaths snap = [] \<longleftrightarrow> (\<forall>pid c. mget (externalCandidatesByPort snap) pid = Some c \<longrightarrow> length (candidates c) < 2)"
proof -
  show ?thesis
    unfolding mget_in_set[OF candidates_wf, symmetric]
    by (auto simp: detectMultiExternalPaths_def Let_def filter_empty_conv split: prod.splits)
qed

section \<open>Properties\<close>

text \<open>
  C22. The anomaly report is complete: it is empty exactly when the builder hit no cycle and no
  ambiguity, every static route with a nexthop points at some port's fixed address, every tenant that owns
  a network, a router or a VM port has a row in the trie, no two router interfaces share a hardware
  address, and no VM port has more than one candidate external network.
\<close>

theorem anomaly_report_complete:
  "Total_anomalies (DetectAnomalies snap trie cyc amb) = 0 \<longleftrightarrow> cyc = [] \<and> amb = [] \<and>
     (\<forall>r\<in>set (Routers snap). \<forall>rt\<in>set (Routes r). Nexthop rt = [] \<or>
        (\<exists>p\<in>set (Ports snap). \<exists>f\<in>set (FixedIPs p). IPAddress f = Nexthop rt)) \<and>
     (\<forall>t. owns_something snap t \<longrightarrow> (\<exists>e\<in>set trie. TenantID e = t)) \<and>
     distinct (map MACAddress (filter (\<lambda>p. DeviceOwner p = DeviceOwnerRouterInterface \<and> MACAddress p \<noteq> []) (Ports snap))) \<and>
     (\<forall>pid c. mget (externalCandidatesByPort snap) pid = Some c \<longrightarrow> length (candidates c) < 2)"
  unfolding dangling_empty[symmetric] zero_trie_empty[symmetric] duplicate_macs_empty[symmetric] multi_path_empty[symmetric]
  by (simp add: Total_anomalies_def DetectAnomalies_def)

theorem anomaly_report_complete_witness:
  "Total_anomalies (DetectAnomalies ex_snapshot [] [] []) \<noteq> 0"
proof -
  have "owns_something ex_snapshot ''a''" by (simp add: owns_something_def ex_snapshot_def)
  then show ?thesis using anomaly_report_complete[of ex_snapshot "[]" "[]" "[]"] by auto
qed

text \<open>What one sync returns and records, by the outcome of each call.\<close>

definition opt_list :: "(string + 'a list) \<Rightarrow> 'a list" where
  "opt_list r = (case r of Inl _ \<Rightarrow> [] | Inr xs \<Rightarrow> xs)"

definition opt_err :: "string \<Rightarrow> (string + 'a list) \<Rightarrow> string list" where
  "opt_err endpoint r = (case r of Inl _ \<Rightarrow> [endpoint] | Inr _ \<Rightarrow> [])"

lemma optional_eq:
  "optional endpoint r k n = k (opt_list r) (n\<lparr>nApiErrors := nApiErrors n @ opt_err endpoint r\<rparr>)"
  by (cases r) (simp_all add: optional_def opt_list_def opt_err_def record_err_def)

lemma fetchAll_ok:
  assumes "ListNetworks c = Inr nets" "ListSubnets c = Inr subs" "ListPorts c = Inr ps" "ListRouters c = Inr rs"
    "ListFloatingIPs c = Inr fips" "ListProjects c = Inr prjs"
  shows "fetchAll c n =
    (n\<lparr>nApiErrors := nApiErrors n @ opt_err ''servers'' (ListServers c) @ opt_err ''loadbalancers'' (ListLoadBalancers c) @ opt_err ''amphorae'' (ListAmphorae c)\<rparr>,
     Inr \<lparr>Networks = nets, Subnets = subs, Ports = ps, Routers = rs, FloatingIPs = fips, Projects = prjs,
          Servers = opt_list (ListServers c), LoadBalancers = opt_list (ListLoadBalancers c), Amphorae = opt_list (ListAmphorae c)\<rparr>)"
  by (simp add: fetchAll_def fatal_def assms optional_eq)

text \<open>The first mandatory call that fails, with its endpoint.\<close>

definition first_failure :: "os_client \<Rightarrow> (string \<times> string) option" where
  "first_failure c =
    (case (ListNetworks c, ListSubnets c, ListPorts c, ListRouters c, ListFloatingIPs c, ListProjects c) of
       (Inl e, _) \<Rightarrow> Some (''networks'', ''list networks: '' @ e)
     | (_, Inl e, _) \<Rightarrow> Some (''subnets'', ''list subnets: '' @ e)
     | (_, _, Inl e, _) \<Rightarrow> Some (''ports'', ''list ports: '' @ e)
     | (_, _, _, Inl e, _) \<Rightarrow> Some (''routers'', ''list routers: '' @ e)
     | (_, _, _, _, Inl e, _) \<Rightarrow> Some (''floatingips'', ''list floatingips: '' @ e)
     | (_, _, _, _, _, Inl e) \<Rightarrow> Some (''projects'', ''list projects: '' @ e)
     | _ \<Rightarrow> None)"

lemma fetchAll_fails:
  assumes "first_failure c = Some (endpoint, err)"
  shows "fetchAll c n = (record_err endpoint n, Inl err)"
  using assms by (auto simp: first_failure_def fetchAll_def fatal_def split: sum.splits)

lemma fetchAll_none: "first_failure c = None \<Longrightarrow> \<exists>nets subs ps rs fips prjs. ListNetworks c = Inr nets \<and> ListSubnets c = Inr subs \<and>
    ListPorts c = Inr ps \<and> ListRouters c = Inr rs \<and> ListFloatingIPs c = Inr fips \<and> ListProjects c = Inr prjs"
  by (auto simp: first_failure_def split: sum.splits)

definition published :: "neutron \<Rightarrow> snapshot option \<times> trie_entry list option \<times> anomalies_report option \<times> int" where
  "published n = (nSnapshot n, nTrie n, nAnomalies n, nLastSync n)"

text \<open>
  C23. The error paths of a sync. It publishes nothing, whatever happens. It fails exactly when there is
  no client and Keystone rejects the agent, or one of the six mandatory lists fails; the error and the
  endpoint counted are those of the first failing call. A failing server, load-balancer or amphora list
  is counted and read as empty, and the sync returns the build of that snapshot: its rows, its incidents
  and the anomalies computed from them. Once authenticated, the client is kept whether or not the lists
  succeed.
\<close>

theorem sync_error_paths:
  "published (fst (Sync auth h n)) = published n \<and>
   (case (case nClient n of Some c \<Rightarrow> Inr c | None \<Rightarrow> auth) of
      Inl e \<Rightarrow> Sync auth h n = (record_err ''keystone'' n, Inl (''keystone auth: '' @ e))
    | Inr c \<Rightarrow> nClient (fst (Sync auth h n)) = Some c \<and>
        (case first_failure c of
           Some (endpoint, err) \<Rightarrow> snd (Sync auth h n) = Inl err \<and> nApiErrors (fst (Sync auth h n)) = nApiErrors n @ [endpoint]
         | None \<Rightarrow> (\<exists>res. snd (Sync auth h n) = Inr res \<and> res = resultFor h (SrSnapshot res) \<and>
             ListNetworks c = Inr (Networks (SrSnapshot res)) \<and> ListSubnets c = Inr (Subnets (SrSnapshot res)) \<and>
             ListPorts c = Inr (Ports (SrSnapshot res)) \<and> ListRouters c = Inr (Routers (SrSnapshot res)) \<and>
             Servers (SrSnapshot res) = opt_list (ListServers c) \<and> LoadBalancers (SrSnapshot res) = opt_list (ListLoadBalancers c) \<and>
             Amphorae (SrSnapshot res) = opt_list (ListAmphorae c) \<and>
             nApiErrors (fst (Sync auth h n)) = nApiErrors n @ opt_err ''servers'' (ListServers c) @
               opt_err ''loadbalancers'' (ListLoadBalancers c) @ opt_err ''amphorae'' (ListAmphorae c))))"
proof (cases "case nClient n of Some c \<Rightarrow> Inr c | None \<Rightarrow> auth")
  case (Inl e)
  then show ?thesis by (simp add: Sync_def published_def record_err_def)
next
  case (Inr c)
  show ?thesis
  proof (cases "first_failure c")
    case None
    then obtain nets subs ps rs fips prjs where L: "ListNetworks c = Inr nets" "ListSubnets c = Inr subs" "ListPorts c = Inr ps"
      "ListRouters c = Inr rs" "ListFloatingIPs c = Inr fips" "ListProjects c = Inr prjs" using fetchAll_none by blast
    have "SrSnapshot (resultFor h snap) = snap" for snap by (simp add: resultFor_def split: prod.splits)
    then show ?thesis using Inr None by (simp add: Sync_def fetchAll_ok[OF L] L published_def)
  next
    case (Some fe)
    obtain endpoint err where fe: "fe = (endpoint, err)" by (cases fe)
    show ?thesis using Inr fetchAll_fails[OF Some[unfolded fe]] Some fe by (simp add: Sync_def published_def record_err_def)
  qed
qed

text \<open>
  A reader never sees a new sync time over old data: at every point of a commit, either the time is still
  the old one or the snapshot, the rows and the anomalies are all those of the committed result.
\<close>

lemma commit_time_last:
  "nLastSync (fold (store_one r at) (take k commit_stores) n) = nLastSync n \<or>
   published (fold (store_one r at) (take k commit_stores) n) = (Some (SrSnapshot r), Some (SrEntries r), Some (SrAnomalies r), at)"
proof (cases "k \<ge> 5")
  case False
  then have "k = 0 \<or> k = 1 \<or> k = 2 \<or> k = 3 \<or> k = 4" by arith
  then show ?thesis by (auto simp: commit_stores_def numeral_eq_Suc)
qed (simp add: commit_stores_def published_def)

lemma Commit_published: "published (Commit r at n) = (Some (SrSnapshot r), Some (SrEntries r), Some (SrAnomalies r), at)"
  by (simp add: Commit_def commit_stores_def published_def)

section \<open>Identity series are unique\<close>

lemma emit_once_fold:
  assumes "fold (emit_once ok key ser) xs ([], []) = (out, seen)"
  shows "\<exists>ys. out = map ser ys \<and> map key ys = rev seen \<and> distinct seen \<and> set ys \<subseteq> {x \<in> set xs. ok x} \<and> set seen = key ` {x \<in> set xs. ok x}"
  using assms
proof (induction xs arbitrary: out seen rule: rev_induct)
  case (snoc x xs)
  obtain o1 s1 where h: "fold (emit_once ok key ser) xs ([], []) = (o1, s1)" by (cases "fold (emit_once ok key ser) xs ([], [])")
  obtain ys where ys: "o1 = map ser ys" "map key ys = rev s1" "distinct s1" "set ys \<subseteq> {x \<in> set xs. ok x}" "set s1 = key ` {x \<in> set xs. ok x}"
    using snoc.IH[OF h] by blast
  have last: "(out, seen) = emit_once ok key ser x (o1, s1)" using snoc.prems h by simp
  show ?case
  proof (cases "ok x \<and> key x \<notin> set s1")
    case True
    then have "out = o1 @ [ser x]" "seen = key x # s1" using last by (simp_all add: emit_once_def)
    then show ?thesis using ys True by (intro exI[of _ "ys @ [x]"]) auto
  next
    case False
    then have "out = o1" "seen = s1" using last by (auto simp: emit_once_def split: if_splits)
    then show ?thesis using ys False by (intro exI[of _ ys]) auto
  qed
qed auto

text \<open>Each family has one series per eligible id, so the scrape never fails on a duplicate.\<close>

lemma emit_family_unique:
  assumes "\<And>x y. ser x = ser y \<Longrightarrow> key x = key y"
  shows "distinct (emit_family ok key ser xs) \<and>
    (\<forall>x\<in>set xs. ok x \<longrightarrow> (\<exists>y\<in>set xs. ok y \<and> key y = key x \<and> ser y \<in> set (emit_family ok key ser xs)))"
proof -
  obtain out seen where h: "fold (emit_once ok key ser) xs ([], []) = (out, seen)" by (cases "fold (emit_once ok key ser) xs ([], [])")
  obtain ys where ys: "out = map ser ys" "map key ys = rev seen" "distinct seen" "set ys \<subseteq> {x \<in> set xs. ok x}" "set seen = key ` {x \<in> set xs. ok x}"
    using emit_once_fold[OF h] by blast
  have "distinct (map key ys)" using ys by simp
  then have "distinct (map ser ys)" using assms by (metis (mono_tags, lifting) distinct_map inj_on_def)
  moreover have "\<exists>y\<in>set xs. ok y \<and> key y = key x \<and> ser y \<in> set out" if "x \<in> set xs" "ok x" for x
  proof -
    have "key x \<in> set (map key ys)" unfolding ys(2) set_rev ys(5) using that by blast
    then show ?thesis using ys(1,4) by auto
  qed
  ultimately show ?thesis using h ys(1) by (simp add: emit_family_def)
qed

lemma equalFoldASCII_EqualFold: "equalFoldASCII a b \<longleftrightarrow> EqualFold a b"
  by (induction a b rule: equalFoldASCII.induct) (auto simp: EqualFold_def)

end
