(* ===== verification/Reconcile.thy ===== *)
theory Reconcile
  imports Kernel_Writer Neutron_Sync Complex_Main
begin

text \<open>
  The periodic Neutron reconcile (\<^verbatim>\<open>internal/reconcile\<close>): fetch a snapshot, apply the trie delta, learn
  and ghost hardware addresses, swap the router map, re-assert the load-balancer addresses, commit, and
  prune. A pass runs on one goroutine, so it is one function of the reconciler's state; the stores it
  shares with the scraper are locked per call. Kernel updates may fail at any call. The order in which Go
  ranges over a map is an argument wherever the loop has effects. A nil store is None.
\<close>

section \<open>State\<close>

record ('m, 't, 'a) reconciler =
  rcSrc :: neutron
  rcTrie :: "'t option"
  rcAmp :: "'a option"
  rcMeta :: "sharded_map option"
  rcMac :: "'m option"
  rcRouters :: "router_macs option"
  rcSettler :: "global_state option"
  rcInterner :: interner
  rcRuns :: "string list"
  rcGhostedRatio :: rat
  rcAmphoraPorts :: "nat option"
  rcGauges :: "(string, nat) gomap option"

record ('m, 't, 'a) kernel_ops =
  koMac :: "u64 \<Rightarrow> u32 \<Rightarrow> 'm \<Rightarrow> kerr option \<times> 'm"
  koTrieUpd :: "lpm_key \<Rightarrow> u8 \<Rightarrow> 't \<Rightarrow> kerr option \<times> 't"
  koTrieDel :: "lpm_key \<Rightarrow> 't \<Rightarrow> kerr option \<times> 't"
  koAmp :: "amphora_key \<Rightarrow> u8 \<Rightarrow> 'a \<Rightarrow> kerr option \<times> 'a"
  koEndian :: endian
  koRowOrder :: "(trie_row_key \<times> u8) list \<Rightarrow> (trie_row_key \<times> u8) list"
  koMacOrder :: "(u64 \<times> tenant_meta) list \<Rightarrow> (u64 \<times> tenant_meta) list"

record mac_delta =
  Inserted :: nat
  MChanged :: nat
  Ghosted :: nat

definition resultOK :: string where "resultOK = ''ok''"
definition resultSyncError :: string where "resultSyncError = ''sync_error''"
definition resultApplyError :: string where "resultApplyError = ''apply_error''"

section \<open>Hardware addresses\<close>

definition desired_meta :: "snapshot \<Rightarrow> port \<Rightarrow> (u64 \<times> tenant_meta) option" where
  "desired_meta snap p =
    (if \<not> IsVMPort (DeviceOwner p) \<or> PortProjectID p = [] \<or> MACAddress p = [] then None
     else (case ParseMAC6 (MACAddress p) of
             None \<Rightarrow> None
           | Some hw \<Rightarrow>
               (case (case mget (AmphoraOwnerByPort snap) (PortUUID p) of None \<Rightarrow> (PortProjectID p, False) | Some ow \<Rightarrow> (ow, True)) of
                  (projectID, isAmphora) \<Rightarrow>
                    Some (MACKey hw, \<lparr>ProjectID = projectID, ServerID = DeviceID p, PortID = PortUUID p,
                      ExternalNetwork = str_at (ExternalNetworkByPort snap) (PortUUID p), IsAmphora = isAmphora, DeleteAt = 0\<rparr>))))"

definition DesiredMACs :: "snapshot \<Rightarrow> (u64, tenant_meta) gomap" where
  "DesiredMACs snap = fold (\<lambda>p out. case desired_meta snap p of None \<Rightarrow> out | Some (mac, meta) \<Rightarrow> mput mac meta out) (Ports snap) []"

definition publishAmphoraCount :: "(u64, tenant_meta) gomap \<Rightarrow> ('m, 't, 'a) reconciler \<Rightarrow> ('m, 't, 'a) reconciler" where
  "publishAmphoraCount desired r =
    (case rcAmphoraPorts r of None \<Rightarrow> r | Some _ \<Rightarrow> r\<lparr>rcAmphoraPorts := Some (length (filter (\<lambda>(mac, m). IsAmphora m) desired))\<rparr>)"

definition insertMAC :: "('m, 't, 'a) kernel_ops \<Rightarrow> u64 \<Rightarrow> tenant_meta \<Rightarrow> ('m, 't, 'a) reconciler \<Rightarrow> ('m, 't, 'a) reconciler" where
  "insertMAC ko mac meta r =
    (case Intern (ProjectID meta) (rcInterner r) of (i, t') \<Rightarrow>
       r\<lparr>rcMeta := map_option (ShardedMetadataMap_Insert mac (meta\<lparr>DeleteAt := 0\<rparr>)) (rcMeta r),
         rcInterner := t',
         rcMac := map_option (\<lambda>m. snd (macTenantWriter_Update (koMac ko) mac (TenantValue i (IsAmphora meta)) m)) (rcMac r)\<rparr>)"

definition settleAttributionChange :: "u64 \<Rightarrow> tenant_meta \<Rightarrow> ('m, 't, 'a) reconciler \<Rightarrow> ('m, 't, 'a) reconciler" where
  "settleAttributionChange mac old r =
    (case rcSettler r of
       None \<Rightarrow> r
     | Some g \<Rightarrow> r\<lparr>rcSettler := Some (fst (Settle SettleRebase
         (SettleResolver (rcRouters r) (\<lambda>k. if VMMAC k \<noteq> mac then None else Some old)) g))\<rparr>)"

definition learn_one :: "('m, 't, 'a) kernel_ops \<Rightarrow> u64 \<times> tenant_meta \<Rightarrow> ('m, 't, 'a) reconciler \<times> nat \<times> nat \<Rightarrow> ('m, 't, 'a) reconciler \<times> nat \<times> nat" where
  "learn_one ko mw st =
    (case (mw, st) of ((mac, want), (r, inserted, changed)) \<Rightarrow>
      (case (case rcMeta r of None \<Rightarrow> None | Some m \<Rightarrow> ShardedMetadataMap_Lookup m mac) of
         None \<Rightarrow> (insertMAC ko mac want r, inserted + 1, changed)
       | Some cur \<Rightarrow>
           if \<not> SameAttribution cur want then (insertMAC ko mac want (settleAttributionChange mac cur r), inserted, changed + 1)
           else if DeleteAt cur \<noteq> 0 then (insertMAC ko mac want r, inserted, changed + 1)
           else (r, inserted, changed)))"

definition learnMACs :: "('m, 't, 'a) kernel_ops \<Rightarrow> (u64, tenant_meta) gomap \<Rightarrow> ('m, 't, 'a) reconciler \<Rightarrow> ('m, 't, 'a) reconciler \<times> nat \<times> nat" where
  "learnMACs ko desired r = fold (learn_one ko) (koMacOrder ko desired) (r, 0, 0)"

text \<open>The Range callback: live entries, and those of them whose address is not wanted.\<close>

definition gone_step :: "(u64, tenant_meta) gomap \<Rightarrow> u64 list \<times> nat \<Rightarrow> u64 \<Rightarrow> tenant_meta \<Rightarrow> (u64 list \<times> nat) \<times> bool" where
  "gone_step desired acc mac m =
    (case acc of (gone, live) \<Rightarrow>
      (if DeleteAt m = 0 then (if mhas desired mac then gone else gone @ [mac], live + 1) else (gone, live), True))"

definition ghostGoneMACs :: "duration \<Rightarrow> (u64, tenant_meta) gomap \<Rightarrow> gotime \<Rightarrow> ('m, 't, 'a) reconciler \<Rightarrow> ('m, 't, 'a) reconciler \<times> nat \<times> nat" where
  "ghostGoneMACs grace desired now r =
    (case rcMeta r of
       None \<Rightarrow> (r, 0, 0)
     | Some m \<Rightarrow>
         (case ShardedMetadataMap_Range (gone_step desired) m ([], 0) of
            (gone, live) \<Rightarrow>
              (r\<lparr>rcMeta := Some (fold (\<lambda>mac s. fst (ShardedMetadataMap_MarkDelete mac (now + grace) s)) gone m)\<rparr>, length gone, live)))"

definition publishGhostedRatio :: "nat \<Rightarrow> nat \<Rightarrow> ('m, 't, 'a) reconciler \<Rightarrow> ('m, 't, 'a) reconciler" where
  "publishGhostedRatio ghosted live r = r\<lparr>rcGhostedRatio := (if live > 0 then of_nat ghosted / of_nat live else 0)\<rparr>"

definition reconcileMACs :: "('m, 't, 'a) kernel_ops \<Rightarrow> duration \<Rightarrow> snapshot \<Rightarrow> gotime \<Rightarrow> ('m, 't, 'a) reconciler \<Rightarrow> ('m, 't, 'a) reconciler \<times> mac_delta" where
  "reconcileMACs ko grace snap now r =
    (if rcMeta r = None \<or> rcMac r = None then (r, \<lparr>Inserted = 0, MChanged = 0, Ghosted = 0\<rparr>)
     else (let desired = DesiredMACs snap
           in case learnMACs ko desired r of (r1, inserted, changed) \<Rightarrow>
              (case ghostGoneMACs grace desired now r1 of (r2, ghosted, live) \<Rightarrow>
                 (publishAmphoraCount desired (publishGhostedRatio ghosted live r2),
                  \<lparr>Inserted = inserted, MChanged = changed, Ghosted = ghosted\<rparr>))))"

section \<open>Router interfaces\<close>

definition router_changed :: "router_macs \<Rightarrow> router_macs \<Rightarrow> u64 \<Rightarrow> bool" where
  "router_changed desired old mac \<longleftrightarrow>
    (case mget desired mac of
       Some ext \<Rightarrow> mget old mac = None \<or> mget old mac \<noteq> Some ext
     | None \<Rightarrow> mhas old mac)"

definition changed_macs :: "router_macs \<Rightarrow> router_macs \<Rightarrow> u64 list" where
  "changed_macs desired old = filter (router_changed desired old) (remdups (map fst desired @ map fst old))"

definition reconcileRouterMACs :: "snapshot \<Rightarrow> ('m, 't, 'a) reconciler \<Rightarrow> ('m, 't, 'a) reconciler \<times> nat" where
  "reconcileRouterMACs snap r =
    (case rcRouters r of
       None \<Rightarrow> (r, 0)
     | Some rm \<Rightarrow>
         (let desired = RouterExtMACs snap; changed = changed_macs desired (RouterMACs_Snapshot rm)
          in if length changed = 0 then (r, 0)
             else (let g' = (case (rcSettler r, rcMeta r) of
                               (Some g, Some m) \<Rightarrow> Some (fst (Settle SettleRebase (SettleResolver (rcRouters r)
                                  (\<lambda>k. if DstZone k \<noteq> ZoneExternal \<or> PeerMAC k \<notin> set changed then None else ShardedMetadataMap_Lookup m (VMMAC k))) g))
                             | (s, _) \<Rightarrow> s)
                   in (r\<lparr>rcSettler := g', rcRouters := Some (RouterMACs_Replace desired rm)\<rparr>, length changed))))"

section \<open>The rest of a pass\<close>

definition pruneServerSettled :: "nova_server list \<Rightarrow> ('m, 't, 'a) reconciler \<Rightarrow> ('m, 't, 'a) reconciler" where
  "pruneServerSettled servers r =
    (case rcSettler r of
       None \<Rightarrow> r
     | Some g \<Rightarrow> if length servers = 0 then r else r\<lparr>rcSettler := Some (fst (PruneServerSettled (map SrvID servers) g))\<rparr>)"

definition pruneTenantSettled :: "project list \<Rightarrow> ('m, 't, 'a) reconciler \<Rightarrow> ('m, 't, 'a) reconciler" where
  "pruneTenantSettled projects r =
    (case rcSettler r of
       None \<Rightarrow> r
     | Some g \<Rightarrow> if length projects = 0 then r
                 else r\<lparr>rcSettler := Some (fst (PruneTenantSettled (map ProjID projects @ [UnknownTenantID]) g))\<rparr>)"

definition refreshMapGauges :: "nat \<Rightarrow> nat \<Rightarrow> ('m, 't, 'a) reconciler \<Rightarrow> ('m, 't, 'a) reconciler" where
  "refreshMapGauges trieRows amphoraRows r =
    (case rcGauges r of
       None \<Rightarrow> r
     | Some gs \<Rightarrow>
         (let g1 = mput ''subnet_zone_trie'' trieRows gs;
              g2 = (case rcMeta r of None \<Rightarrow> g1 | Some m \<Rightarrow> mput ''mac_tenant_map'' (ShardedMetadataMap_Len m) g1);
              g3 = (case rcAmp r of None \<Rightarrow> g2 | Some _ \<Rightarrow> mput ''amphora_base_ip'' amphoraRows g2)
          in r\<lparr>rcGauges := Some g3\<rparr>))"

definition reconcileAmphoraIPs :: "('m, 't, 'a) kernel_ops \<Rightarrow> snapshot \<Rightarrow> ('m, 't, 'a) reconciler \<Rightarrow> (('m, 't, 'a) reconciler \<times> nat) outcome" where
  "reconcileAmphoraIPs ko snap r =
    (case rcAmp r of
       None \<Rightarrow> Ret (r, 0)
     | Some a \<Rightarrow>
         (case WriteAmphoraBaseIPs (koEndian ko) (koAmp ko) (Some a) (AmphoraBaseIPs snap) (Some (rcInterner r)) of
            Panic msg \<Rightarrow> Panic msg
          | Ret ((a', t'), n, err) \<Rightarrow> Ret (r\<lparr>rcAmp := a', rcInterner := (case t' of None \<Rightarrow> rcInterner r | Some t1 \<Rightarrow> t1)\<rparr>, n)))"

definition record_run :: "string \<Rightarrow> ('m, 't, 'a) reconciler \<Rightarrow> ('m, 't, 'a) reconciler" where
  "record_run res r = r\<lparr>rcRuns := rcRuns r @ [res]\<rparr>"

definition fetch :: "(string + os_client) \<Rightarrow> int \<Rightarrow> ('m, 't, 'a) reconciler \<Rightarrow> ('m, 't, 'a) reconciler \<times> sync_result option" where
  "fetch auth hops r =
    (case Sync auth hops (rcSrc r) of
       (n', Inl err) \<Rightarrow> (record_run resultSyncError (r\<lparr>rcSrc := n'\<rparr>), None)
     | (n', Inr res) \<Rightarrow> (r\<lparr>rcSrc := n'\<rparr>, Some res))"

definition applyTrie :: "('m, 't, 'a) kernel_ops \<Rightarrow> sync_result \<Rightarrow> ('m, 't, 'a) reconciler \<Rightarrow> (('m, 't, 'a) reconciler \<times> bool) outcome" where
  "applyTrie ko res r =
    (case ApplyTrieDelta (koEndian ko) (koTrieUpd ko) (koTrieDel ko) (koRowOrder ko) (rcTrie r) (Trie_accessor (rcSrc r)) (SrEntries res) (Some (rcInterner r)) of
       Panic msg \<Rightarrow> Panic msg
     | Ret ((t', i'), d, err) \<Rightarrow>
         (let r1 = r\<lparr>rcTrie := t', rcInterner := (case i' of None \<Rightarrow> rcInterner r | Some i1 \<Rightarrow> i1)\<rparr>
          in case err of Some _ \<Rightarrow> Ret (record_run resultApplyError r1, False) | None \<Rightarrow> Ret (r1, True)))"

definition reconcileOnce :: "('m, 't, 'a) kernel_ops \<Rightarrow> (string + os_client) \<Rightarrow> int \<Rightarrow> duration \<Rightarrow> gotime \<Rightarrow> ('m, 't, 'a) reconciler \<Rightarrow> ('m, 't, 'a) reconciler outcome" where
  "reconcileOnce ko auth hops grace now r =
    (case fetch auth hops r of
       (r1, None) \<Rightarrow> Ret r1
     | (r1, Some res) \<Rightarrow>
         (case applyTrie ko res r1 of
            Panic msg \<Rightarrow> Panic msg
          | Ret (r2, False) \<Rightarrow> Ret r2
          | Ret (r2, True) \<Rightarrow>
              (case reconcileMACs ko grace (SrSnapshot res) now r2 of (r3, mac) \<Rightarrow>
              (case reconcileRouterMACs (SrSnapshot res) r3 of (r4, nr) \<Rightarrow>
              (case reconcileAmphoraIPs ko (SrSnapshot res) r4 of
                 Panic msg \<Rightarrow> Panic msg
               | Ret (r5, nAmp) \<Rightarrow>
                   (let r6 = record_run resultOK (r5\<lparr>rcSrc := Commit res now (rcSrc r5)\<rparr>);
                        r7 = pruneTenantSettled (Projects (SrSnapshot res)) (pruneServerSettled (Servers (SrSnapshot res)) r6)
                    in Ret (refreshMapGauges (length (SrEntries res)) nAmp r7)))))))"

section \<open>What the series show\<close>

definition series_ok :: "('m, 't, 'a) reconciler \<Rightarrow> bool" where
  "series_ok r \<longleftrightarrow> (\<exists>m g. rcMeta r = Some m \<and> rcSettler r = Some g \<and> sharded_wf m \<and> gs_wf g \<and>
     (\<forall>k. mhas (counts g) k \<longrightarrow> ShardedMetadataMap_Lookup m (VMMAC k) \<noteq> None))"

definition shown :: "('m, 't, 'a) reconciler \<Rightarrow> flow_key \<Rightarrow> attribution3" where
  "shown r = display (the (rcMeta r)) (rcRouters r)"

definition store :: "('m, 't, 'a) reconciler \<Rightarrow> global_state" where
  "store r = the (rcSettler r)"

text \<open>Every tier shows the same values before and after.\<close>

definition same_series :: "measure_pick \<Rightarrow> ('m, 't, 'a) reconciler \<Rightarrow> ('m, 't, 'a) reconciler \<Rightarrow> bool" where
  "same_series pick r r' \<longleftrightarrow>
    tenant_tier pick (shown r') (store r') = tenant_tier pick (shown r) (store r) \<and>
    server_tier pick (shown r') (store r') = server_tier pick (shown r) (store r) \<and>
    total_tier pick (shown r') (store r') = total_tier pick (shown r) (store r)"

definition carries :: "measure_pick \<Rightarrow> ('m, 't, 'a) reconciler \<Rightarrow> ('m, 't, 'a) reconciler \<Rightarrow> bool" where
  "carries pick r r' \<longleftrightarrow> (series_ok r \<longrightarrow> series_ok r' \<and> same_series pick r r')"

lemma carries_refl [simp]: "carries pick r r"
  by (simp add: carries_def same_series_def)

lemma carries_trans: "carries pick r r1 \<Longrightarrow> carries pick r1 r2 \<Longrightarrow> carries pick r r2"
  by (simp add: carries_def same_series_def)

lemma carries_same:
  assumes "rcMeta r' = rcMeta r" "rcSettler r' = rcSettler r" "rcRouters r' = rcRouters r"
  shows "carries pick r r'"
  using assms by (simp add: carries_def series_ok_def same_series_def shown_def store_def)

text \<open>The tiers depend on the display of the counted rows only.\<close>

lemma tier_cong:
  assumes "pick \<in> {pick_bytes, pick_packets}" "gs_wf g" "\<And>k. mhas (counts g) k \<Longrightarrow> res' k = res k"
  shows "tenant_tier pick res' g = tenant_tier pick res g \<and> server_tier pick res' g = server_tier pick res g \<and>
    total_tier pick res' g = total_tier pick res g"
proof -
  have "Settle SettleRebase (\<lambda>_. None) g = (g, 0)" by (rule Settle_None) simp
  then show ?thesis
    using settle_tiers[where sr = "\<lambda>_. None" and mode = SettleRebase and res = res and res' = res', OF assms(2,1)] assms(3) by (auto intro!: ext)
qed

lemma insertMAC_fields:
  "rcMeta (insertMAC ko mac w r) = map_option (ShardedMetadataMap_Insert mac (w\<lparr>DeleteAt := 0\<rparr>)) (rcMeta r)"
  "rcSettler (insertMAC ko mac w r) = rcSettler r" "rcRouters (insertMAC ko mac w r) = rcRouters r"
  by (simp_all add: insertMAC_def split: prod.splits)

lemma Lookup_Insert:
  "sharded_wf m \<Longrightarrow> ShardedMetadataMap_Lookup (ShardedMetadataMap_Insert mac w m) x = (if x = mac then Some w else ShardedMetadataMap_Lookup m x)"
  by (rule shm.get_put)

lemma settle_keeps_rows: "gs_wf g \<Longrightarrow> mhas (counts (fst (Settle SettleRebase sr g))) k \<longleftrightarrow> mhas (counts g) k"
  by (simp add: mhas_def counts_Settle)

text \<open>
  Replacing the metadata and the routers after settling, in rebase mode, exactly the rows whose display
  they change, under the old display.
\<close>

lemma settle_and_switch:
  assumes pick: "pick \<in> {pick_bytes, pick_packets}"
    and r: "rcMeta r = Some m" "rcSettler r = Some g"
    and r': "rcMeta r' = Some m'" "rcSettler r' = Some (fst (Settle SettleRebase sr g))"
    and wf': "sharded_wf m'" and grow: "\<And>x. ShardedMetadataMap_Lookup m x \<noteq> None \<Longrightarrow> ShardedMetadataMap_Lookup m' x \<noteq> None"
    and agree: "\<And>k a. mhas (counts g) k \<Longrightarrow> sr k = Some a \<Longrightarrow> display m (rcRouters r) k = a"
    and keep: "\<And>k. mhas (counts g) k \<Longrightarrow> ShardedMetadataMap_Lookup m (VMMAC k) \<noteq> None \<Longrightarrow> sr k = None \<Longrightarrow> display m' (rcRouters r') k = display m (rcRouters r) k"
  shows "carries pick r r'"
  unfolding carries_def
proof
  assume ok: "series_ok r"
  then have g: "gs_wf g" and known: "\<And>k. mhas (counts g) k \<Longrightarrow> ShardedMetadataMap_Lookup m (VMMAC k) \<noteq> None"
    using r by (auto simp: series_ok_def)
  have "series_ok r'" using r' wf' g known grow settle_keeps_rows[OF g] by (auto simp: series_ok_def)
  moreover have "same_series pick r r'"
    using settle_tiers[OF g pick, where sr = sr and mode = SettleRebase and res = "display m (rcRouters r)" and res' = "display m' (rcRouters r')"]
      agree keep known r r' by (auto simp: same_series_def shown_def store_def intro!: ext)
  ultimately show "series_ok r' \<and> same_series pick r r'" by simp
qed

lemma switch_only:
  assumes "pick \<in> {pick_bytes, pick_packets}" "rcMeta r = Some m" "rcSettler r = Some g" "rcMeta r' = Some m'" "rcSettler r' = Some g" "sharded_wf m'"
    and "\<And>x. ShardedMetadataMap_Lookup m x \<noteq> None \<Longrightarrow> ShardedMetadataMap_Lookup m' x \<noteq> None"
    and "\<And>k. mhas (counts g) k \<Longrightarrow> ShardedMetadataMap_Lookup m (VMMAC k) \<noteq> None \<Longrightarrow> display m' (rcRouters r') k = display m (rcRouters r) k"
  shows "carries pick r r'"
  by (rule settle_and_switch[OF assms(1-4), where sr = "\<lambda>_. None"]) (use assms Settle_None[of "\<lambda>_. None"] in simp_all)

lemma SameAttribution_display:
  assumes "SameAttribution cur want" "ShardedMetadataMap_Lookup m (VMMAC k) = Some cur"
    "ShardedMetadataMap_Lookup m' (VMMAC k) = Some (want\<lparr>DeleteAt := x\<rparr>)"
  shows "display m' routers k = display m routers k"
  using assms by (cases cur; cases want) (simp add: SameAttribution_def display_def Resolver_Resolve_def)

lemma learn_one_carries:
  assumes pick: "pick \<in> {pick_bytes, pick_packets}"
  shows "carries pick (fst st) (fst (learn_one ko mw st))"
proof (cases "series_ok (fst st)")
  case True
  obtain mac want where mw: "mw = (mac, want)" by (cases mw)
  obtain r i c where st: "st = (r, i, c)" by (cases st)
  obtain m g where r: "rcMeta r = Some m" "rcSettler r = Some g" "sharded_wf m" using True st by (auto simp: series_ok_def)
  let ?m' = "ShardedMetadataMap_Insert mac (want\<lparr>DeleteAt := 0\<rparr>) m"
  have wf': "sharded_wf ?m'" using r(3) by (rule shm.wf_put)
  note L = Lookup_Insert[OF r(3), of mac "want\<lparr>DeleteAt := 0\<rparr>"]
  have ins: "rcMeta (insertMAC ko mac want r) = Some ?m'" "rcSettler (insertMAC ko mac want r) = Some g"
    "rcRouters (insertMAC ko mac want r) = rcRouters r" by (simp_all add: insertMAC_fields r)
  show ?thesis
  proof (cases "ShardedMetadataMap_Lookup m mac")
    case None
    have "carries pick r (insertMAC ko mac want r)"
      by (rule switch_only[OF pick r(1,2) ins(1,2) wf']) (use None L ins(3) in \<open>auto intro!: display_cong split: if_splits\<close>)
    then show ?thesis using mw st r None by (simp add: learn_one_def)
  next
    case (Some cur)
    show ?thesis
    proof (cases "SameAttribution cur want")
      case same: True
      have "carries pick r (insertMAC ko mac want r)"
      proof (rule switch_only[OF pick r(1,2) ins(1,2) wf'])
        fix k
        show "display ?m' (rcRouters (insertMAC ko mac want r)) k = display m (rcRouters r) k"
          unfolding ins(3) using SameAttribution_display[OF same, of m k ?m' 0] L[of "VMMAC k"] Some
          by (cases "VMMAC k = mac") (auto intro!: display_cong)
      qed (use L in auto)
      then show ?thesis using mw st r Some same by (simp add: learn_one_def)
    next
      case False
      let ?sr = "SettleResolver (rcRouters r) (\<lambda>k. if VMMAC k \<noteq> mac then None else Some cur)"
      have "carries pick r (insertMAC ko mac want (settleAttributionChange mac cur r))"
      proof (rule settle_and_switch[OF pick r(1,2), where sr = ?sr])
        show "display m (rcRouters r) k = a" if sra: "mhas (counts g) k" "?sr k = Some a" for k a
          using sra Some SettleResolver_display[of "\<lambda>k. if VMMAC k \<noteq> mac then None else Some cur" k cur m "rcRouters r"]
          by (cases "VMMAC k = mac") (auto simp: SettleResolver_def)
        show "display ?m' (rcRouters (insertMAC ko mac want (settleAttributionChange mac cur r))) k = display m (rcRouters r) k" if "?sr k = None" for k
          using that L[of "VMMAC k"] by (auto simp: insertMAC_fields settleAttributionChange_def r intro!: display_cong split: if_splits)
      qed (use r L wf' in \<open>auto simp: insertMAC_fields settleAttributionChange_def\<close>)
      then show ?thesis using mw st r Some False by (simp add: learn_one_def)
    qed
  qed
qed (simp add: carries_def)

lemma learnMACs_carries:
  assumes "pick \<in> {pick_bytes, pick_packets}"
  shows "carries pick r (fst (learnMACs ko desired r))"
  unfolding learnMACs_def
  by (rule fold_invariant_pres[where P = "\<lambda>st. carries pick r (fst st)"])
     (auto intro: carries_trans learn_one_carries[OF assms])

lemma mark_fold:
  assumes "sharded_wf m"
  shows "sharded_wf (fold (\<lambda>mac s. fst (ShardedMetadataMap_MarkDelete mac due s)) macs m) \<and>
    ShardedMetadataMap_Lookup (fold (\<lambda>mac s. fst (ShardedMetadataMap_MarkDelete mac due s)) macs m) x =
      (if x \<in> set macs then map_option (DeleteAt_update (\<lambda>_. due)) (ShardedMetadataMap_Lookup m x) else ShardedMetadataMap_Lookup m x)"
  using assms
proof (induction macs arbitrary: m)
  case (Cons mac macs)
  have L: "ShardedMetadataMap_Lookup (fst (ShardedMetadataMap_MarkDelete mac due m)) y =
      (if y = mac then map_option (DeleteAt_update (\<lambda>_. due)) (ShardedMetadataMap_Lookup m mac) else ShardedMetadataMap_Lookup m y)" for y
    using Cons.prems by (auto simp: MarkDelete_is_Insert shm.get_put split: option.splits)
  show ?case using Cons.IH[of "fst (ShardedMetadataMap_MarkDelete mac due m)"] Cons.prems L[of x]
    by (cases "ShardedMetadataMap_Lookup m x") auto
qed simp

lemma ghostGoneMACs_carries:
  assumes pick: "pick \<in> {pick_bytes, pick_packets}"
  shows "carries pick r (fst (ghostGoneMACs grace desired now r))"
proof (cases "series_ok r")
  case True
  obtain m g where r: "rcMeta r = Some m" "rcSettler r = Some g" "sharded_wf m" using True by (auto simp: series_ok_def)
  obtain gone live where rg: "ShardedMetadataMap_Range (gone_step desired) m ([], 0) = (gone, live)"
    by (cases "ShardedMetadataMap_Range (gone_step desired) m ([], 0)")
  let ?m' = "fold (\<lambda>mac s. fst (ShardedMetadataMap_MarkDelete mac (now + grace) s)) gone m"
  note M = mark_fold[OF r(3), of "now + grace" gone]
  have "carries pick r (r\<lparr>rcMeta := Some ?m'\<rparr>)"
  proof (rule switch_only[OF pick r(1,2)])
    show "display ?m' (rcRouters (r\<lparr>rcMeta := Some ?m'\<rparr>)) k = display m (rcRouters r) k" for k
      using M[of "VMMAC k"] by (auto simp: display_def Resolver_Resolve_def split: option.splits)
  qed (use r M in auto)
  then show ?thesis using r rg by (simp add: ghostGoneMACs_def)
qed (simp add: carries_def)

lemma reconcileMACs_carries:
  assumes pick: "pick \<in> {pick_bytes, pick_packets}"
  shows "carries pick r (fst (reconcileMACs ko grace snap now r))"
proof (cases "rcMeta r = None \<or> rcMac r = None")
  case False
  let ?d = "DesiredMACs snap"
  obtain r1 i c where l: "learnMACs ko ?d r = (r1, i, c)" by (cases "learnMACs ko ?d r")
  obtain r2 gh lv where g: "ghostGoneMACs grace ?d now r1 = (r2, gh, lv)" by (cases "ghostGoneMACs grace ?d now r1")
  have "carries pick r r1" using learnMACs_carries[OF pick, of r ko ?d] l by simp
  moreover have "carries pick r1 r2" using ghostGoneMACs_carries[OF pick, of r1 grace ?d now] g by simp
  moreover have "carries pick r2 (publishAmphoraCount ?d (publishGhostedRatio gh lv r2))"
    by (rule carries_same) (simp_all add: publishAmphoraCount_def publishGhostedRatio_def split: option.splits)
  ultimately have "carries pick r (publishAmphoraCount ?d (publishGhostedRatio gh lv r2))" by (metis carries_trans)
  then show ?thesis using False l g by (simp add: reconcileMACs_def Let_def)
qed (simp add: reconcileMACs_def)

lemma changed_macs_iff: "mac \<in> set (changed_macs desired old) \<longleftrightarrow> mget desired mac \<noteq> mget old mac"
proof -
  have "mac \<in> set (map fst desired @ map fst old) \<longleftrightarrow> mget desired mac \<noteq> None \<or> mget old mac \<noteq> None"
    using mhas_iff[of desired mac] mhas_iff[of old mac] by (simp add: mhas_def)
  then show ?thesis
    by (auto simp: changed_macs_def router_changed_def mhas_def split: option.splits)
qed

lemma reconcileRouterMACs_carries:
  assumes pick: "pick \<in> {pick_bytes, pick_packets}"
  shows "carries pick r (fst (reconcileRouterMACs snap r))"
proof (cases "series_ok r \<and> rcRouters r \<noteq> None \<and> changed_macs (RouterExtMACs snap) (the (rcRouters r)) \<noteq> []")
  case True
  obtain m g rm where r: "rcMeta r = Some m" "rcSettler r = Some g" "sharded_wf m" "rcRouters r = Some rm"
    using True by (auto simp: series_ok_def)
  let ?d = "RouterExtMACs snap" and ?ch = "changed_macs (RouterExtMACs snap) rm"
  let ?pk = "\<lambda>k. if DstZone k \<noteq> ZoneExternal \<or> PeerMAC k \<notin> set ?ch then None else ShardedMetadataMap_Lookup m (VMMAC k)"
  let ?sr = "SettleResolver (rcRouters r) ?pk"
  let ?r' = "r\<lparr>rcSettler := Some (fst (Settle SettleRebase ?sr g)), rcRouters := Some ?d\<rparr>"
  have "carries pick r ?r'"
  proof (rule settle_and_switch[OF pick r(1,2), where sr = ?sr])
    show "display m (rcRouters r) k = a" if sra: "mhas (counts g) k" "?sr k = Some a" for k a
    proof -
      obtain meta where "?pk k = Some meta" using sra(2) by (cases "?pk k") (auto simp: SettleResolver_def)
      then show ?thesis using SettleResolver_display[of ?pk k meta m "rcRouters r"] sra(2) by (auto split: if_splits)
    qed
    show "display m (rcRouters ?r') k = display m (rcRouters r) k"
      if "ShardedMetadataMap_Lookup m (VMMAC k) \<noteq> None" "?sr k = None" for k
    proof -
      have "DstZone k \<noteq> ZoneExternal \<or> PeerMAC k \<notin> set ?ch" using that by (auto split: if_splits)
      then have "FlowExternalLabel (Some ?d) x k = FlowExternalLabel (Some rm) x k" for x
        by (auto simp: FlowExternalLabel_def RouterMACs_Lookup_def changed_macs_iff)
      then show ?thesis using r(4) by (simp add: display_def Resolver_Resolve_def split: option.splits)
    qed
  qed (use r in auto)
  then show ?thesis using r True by (simp add: reconcileRouterMACs_def Let_def RouterMACs_Snapshot_def RouterMACs_Replace_def)
next
  case False
  then show ?thesis
    by (cases "series_ok r"; cases "rcRouters r") (auto simp: carries_def same_series_def reconcileRouterMACs_def RouterMACs_Snapshot_def Let_def)
qed

section \<open>A whole pass\<close>

lemma fetch_fields:
  assumes "fetch auth hops r = (r1, res)"
  shows "rcMeta r1 = rcMeta r" "rcSettler r1 = rcSettler r" "rcRouters r1 = rcRouters r" "rcTrie r1 = rcTrie r"
  using assms by (auto simp: fetch_def record_run_def split: prod.splits sum.splits)

lemma applyTrie_fields:
  assumes "applyTrie ko res r = Ret (r1, ok)"
  shows "rcMeta r1 = rcMeta r" "rcSettler r1 = rcSettler r" "rcRouters r1 = rcRouters r" "rcSrc r1 = rcSrc r"
  using assms by (auto simp: applyTrie_def record_run_def Let_def split: outcome.splits prod.splits option.splits)

lemma reconcileAmphoraIPs_fields:
  assumes "reconcileAmphoraIPs ko snap r = Ret (r1, n)"
  shows "rcMeta r1 = rcMeta r" "rcSettler r1 = rcSettler r" "rcRouters r1 = rcRouters r" "rcSrc r1 = rcSrc r" "rcRuns r1 = rcRuns r"
  using assms by (auto simp: reconcileAmphoraIPs_def split: outcome.splits prod.splits option.splits)

text \<open>
  What the two releases at the end of a pass keep: the total tier, the tenant tier of every listed
  project and of the unknown tenant, and the server tier of every listed server.
\<close>

definition tenant_listed :: "snapshot \<Rightarrow> string \<Rightarrow> bool" where
  "tenant_listed snap t \<longleftrightarrow> Projects snap = [] \<or> t = UnknownTenantID \<or> t \<in> ProjID ` set (Projects snap)"

definition server_listed :: "snapshot \<Rightarrow> string \<Rightarrow> bool" where
  "server_listed snap s \<longleftrightarrow> Servers snap = [] \<or> s \<in> SrvID ` set (Servers snap)"

definition keeps_listed :: "measure_pick \<Rightarrow> snapshot \<Rightarrow> ('m, 't, 'a) reconciler \<Rightarrow> ('m, 't, 'a) reconciler \<Rightarrow> bool" where
  "keeps_listed pick snap r r' \<longleftrightarrow>
    total_tier pick (shown r') (store r') = total_tier pick (shown r) (store r) \<and>
    (\<forall>sk. tenant_listed snap (TsTenant sk) \<longrightarrow> tenant_tier pick (shown r') (store r') sk = tenant_tier pick (shown r) (store r) sk) \<and>
    (\<forall>ck. server_listed snap (SsServerID ck) \<longrightarrow> server_tier pick (shown r') (store r') ck = server_tier pick (shown r) (store r) ck)"

lemma same_series_keeps: "same_series pick r r' \<Longrightarrow> keeps_listed pick snap r r'"
  by (simp add: same_series_def keeps_listed_def)

lemma keeps_listed_trans: "keeps_listed pick snap r r1 \<Longrightarrow> keeps_listed pick snap r1 r2 \<Longrightarrow> keeps_listed pick snap r r2"
  by (simp add: keeps_listed_def)

lemma pruneServerSettled_keeps:
  assumes "series_ok r"
  shows "series_ok (pruneServerSettled (Servers snap) r) \<and> keeps_listed pick snap r (pruneServerSettled (Servers snap) r)"
  using assms
  by (auto simp: series_ok_def keeps_listed_def pruneServerSettled_def shown_def store_def server_listed_def
      tenant_tier_def server_tier_def total_tier_def bucket_at_def serverSettled_Prune intro!: ext)

lemma pruneTenantSettled_keeps:
  assumes "series_ok r" "pick \<in> {pick_bytes, pick_packets}"
  shows "series_ok (pruneTenantSettled (Projects snap) r) \<and> keeps_listed pick snap r (pruneTenantSettled (Projects snap) r)"
proof -
  obtain m g where r: "rcMeta r = Some m" "rcSettler r = Some g" "sharded_wf m" "gs_wf g"
    and known: "\<forall>k. mhas (counts g) k \<longrightarrow> ShardedMetadataMap_Lookup m (VMMAC k) \<noteq> None"
    using assms(1) by (auto simp: series_ok_def)
  have "total_tier pick res (fst (PruneTenantSettled alive g)) tk = total_tier pick res g tk" for res alive tk
    using assms(2) bytes_m.PruneTenantSettled_total_tier[OF r(4)] packets_m.PruneTenantSettled_total_tier[OF r(4)] by auto
  then show ?thesis using r known
    by (auto simp: series_ok_def keeps_listed_def pruneTenantSettled_def shown_def store_def tenant_listed_def
        tenant_tier_def server_tier_def bucket_at_def tenantSettled_Prune intro!: ext)
qed

lemma refreshMapGauges_carries: "carries pick r (refreshMapGauges a b r)"
  by (rule carries_same) (simp_all add: refreshMapGauges_def Let_def split: option.splits)

text \<open>The three outcomes of a pass that returns.\<close>

lemma reconcileOnce_cases:
  assumes "reconcileOnce ko auth hops grace now r = Ret r'"
  obtains (sync) "fetch auth hops r = (r', None)"
    | (kernel) r1 res where "fetch auth hops r = (r1, Some res)" "applyTrie ko res r1 = Ret (r', False)"
    | (ok) r1 res r2 r3 d r4 nr r5 nAmp where "fetch auth hops r = (r1, Some res)" "applyTrie ko res r1 = Ret (r2, True)"
        "reconcileMACs ko grace (SrSnapshot res) now r2 = (r3, d)" "reconcileRouterMACs (SrSnapshot res) r3 = (r4, nr)"
        "reconcileAmphoraIPs ko (SrSnapshot res) r4 = Ret (r5, nAmp)"
        "r' = refreshMapGauges (length (SrEntries res)) nAmp (pruneTenantSettled (Projects (SrSnapshot res))
           (pruneServerSettled (Servers (SrSnapshot res)) (record_run resultOK (r5\<lparr>rcSrc := Commit res now (rcSrc r5)\<rparr>))))"
  using assms
  by (auto simp: reconcileOnce_def Let_def split: prod.splits option.splits outcome.splits bool.splits)

lemma call_published:
  assumes "\<And>xs n. published (fst (k xs n)) = published n"
  shows "published (fst (fatal ep what res k n)) = published n" "published (fst (optional ep res k n)) = published n"
  using assms by (simp_all add: fatal_def optional_def record_err_def published_def split: sum.splits)

lemma fetchAll_published: "published (fst (fetchAll c n)) = published n"
  unfolding fetchAll_def by (intro call_published) simp

lemma Sync_published: "published (fst (Sync auth hops n)) = published n"
proof (cases "case nClient n of Some c \<Rightarrow> Inr c | None \<Rightarrow> auth")
  case (Inr c)
  then show ?thesis using fetchAll_published[of c "n\<lparr>nClient := Some c\<rparr>"]
    by (auto simp: Sync_def published_def split: prod.splits sum.splits)
qed (simp add: Sync_def published_def record_err_def)

lemma Sync_snapshot:
  assumes "Sync auth hops n = (n', Inr res)"
  shows "res = resultFor hops (SrSnapshot res)"
proof -
  have "SrSnapshot (resultFor hops snap) = snap" for snap by (simp add: resultFor_def split: prod.splits)
  then show ?thesis using assms by (auto simp: Sync_def split: option.splits sum.splits prod.splits)
qed

lemma fetch_runs:
  assumes "fetch auth hops r = (r1, res)"
  shows "published (rcSrc r1) = published (rcSrc r)"
    "rcRuns r1 = rcRuns r @ (case res of None \<Rightarrow> [resultSyncError] | Some _ \<Rightarrow> [])"
  using assms Sync_published[of auth hops "rcSrc r"] by (auto simp: fetch_def record_run_def split: prod.splits sum.splits)

lemma applyTrie_runs:
  assumes "applyTrie ko res r = Ret (r1, ok)"
  shows "rcRuns r1 = rcRuns r @ (if ok then [] else [resultApplyError])"
  using assms by (auto simp: applyTrie_def record_run_def Let_def split: outcome.splits prod.splits option.splits)

lemma learn_one_src: "rcSrc (fst (learn_one ko mw st)) = rcSrc (fst st) \<and> rcRuns (fst (learn_one ko mw st)) = rcRuns (fst st) \<and> rcAmp (fst (learn_one ko mw st)) = rcAmp (fst st)"
  by (auto simp: learn_one_def insertMAC_def settleAttributionChange_def split: prod.splits option.splits)

lemma reconcileMACs_src:
  fixes r :: "('m, 't, 'a) reconciler"
  shows "rcSrc (fst (reconcileMACs ko grace snap now r)) = rcSrc r \<and> rcRuns (fst (reconcileMACs ko grace snap now r)) = rcRuns r \<and> rcAmp (fst (reconcileMACs ko grace snap now r)) = rcAmp r"
proof -
  have "rcSrc (fst (learnMACs ko d r)) = rcSrc r \<and> rcRuns (fst (learnMACs ko d r)) = rcRuns r \<and> rcAmp (fst (learnMACs ko d r)) = rcAmp r" for d
    unfolding learnMACs_def
    by (rule fold_invariant_pres[where P = "\<lambda>st. rcSrc (fst st) = rcSrc r \<and> rcRuns (fst st) = rcRuns r \<and> rcAmp (fst st) = rcAmp r"]) (simp_all add: learn_one_src)
  moreover have "rcSrc (fst (ghostGoneMACs grace d now q)) = rcSrc q \<and> rcRuns (fst (ghostGoneMACs grace d now q)) = rcRuns q \<and> rcAmp (fst (ghostGoneMACs grace d now q)) = rcAmp q"
    for d and q :: "('m, 't, 'a) reconciler"
    by (simp add: ghostGoneMACs_def split: option.splits prod.splits)
  moreover have "rcSrc (publishAmphoraCount d (publishGhostedRatio gh lv q)) = rcSrc q" "rcRuns (publishAmphoraCount d (publishGhostedRatio gh lv q)) = rcRuns q"
    "rcAmp (publishAmphoraCount d (publishGhostedRatio gh lv q)) = rcAmp q"
    for d gh lv and q :: "('m, 't, 'a) reconciler"
    by (simp_all add: publishAmphoraCount_def publishGhostedRatio_def split: option.splits)
  ultimately show ?thesis
    by (simp add: reconcileMACs_def Let_def prod.case_eq_if)
qed

lemma reconcileRouterMACs_src: "rcSrc (fst (reconcileRouterMACs snap r)) = rcSrc r \<and> rcRuns (fst (reconcileRouterMACs snap r)) = rcRuns r \<and> rcAmp (fst (reconcileRouterMACs snap r)) = rcAmp r"
  by (simp add: reconcileRouterMACs_def Let_def split: option.splits)

lemma closing_src:
  "rcSrc (refreshMapGauges a b (pruneTenantSettled ps (pruneServerSettled ss r))) = rcSrc r"
  "rcRuns (refreshMapGauges a b (pruneTenantSettled ps (pruneServerSettled ss r))) = rcRuns r"
  by (simp_all add: refreshMapGauges_def pruneTenantSettled_def pruneServerSettled_def Let_def split: option.splits)

text \<open>
  C27. A reconcile pass moves metadata under live traffic without moving a billed value, and is all or
  nothing on what it publishes. Take a store in which every counted row's VM address has metadata. Every
  pass that returns records one outcome and keeps that invariant. A pass that fails to sync or to write
  the trie publishes nothing and leaves every tier at its value. A successful pass publishes the new
  snapshot with its trie and time, and, although addresses, owners and router networks may have been
  re-pointed and dead tenants and servers released, every total series keeps its value, and so does every
  tenant series of a listed project or the unknown tenant and every server series of a listed server.
\<close>

theorem reconcile_keeps_series:
  assumes "pick \<in> {pick_bytes, pick_packets}" and "series_ok r" and "reconcileOnce ko auth hops grace now r = Ret r'"
  shows "series_ok r' \<and>
    (same_series pick r r' \<and> published (rcSrc r') = published (rcSrc r) \<and>
       (rcRuns r' = rcRuns r @ [resultSyncError] \<or> rcRuns r' = rcRuns r @ [resultApplyError]) \<or>
     (\<exists>snap. rcRuns r' = rcRuns r @ [resultOK] \<and> keeps_listed pick snap r r' \<and>
       published (rcSrc r') = (Some snap, Some (fst (buildTrie snap hops)), Some (SrAnomalies (resultFor hops snap)), now)))"
  using assms(3)
proof (cases rule: reconcileOnce_cases)
  case sync
  have "carries pick r r'" by (rule carries_same) (use fetch_fields[OF sync] in simp_all)
  then show ?thesis using fetch_runs[OF sync] assms(2) by (simp add: carries_def)
next
  case (kernel r1 res)
  have "carries pick r r'" by (rule carries_same) (use fetch_fields[OF kernel(1)] applyTrie_fields[OF kernel(2)] in simp_all)
  then show ?thesis
    using fetch_runs[OF kernel(1)] applyTrie_runs[OF kernel(2)] applyTrie_fields[OF kernel(2)] assms(2) by (simp add: carries_def)
next
  case (ok r1 res r2 r3 d r4 nr r5 nAmp)
  let ?snap = "SrSnapshot res"
  let ?r6 = "record_run resultOK (r5\<lparr>rcSrc := Commit res now (rcSrc r5)\<rparr>)"
  let ?r7 = "pruneServerSettled (Servers ?snap) ?r6"
  let ?r8 = "pruneTenantSettled (Projects ?snap) ?r7"
  have "carries pick r r2" by (rule carries_same) (use fetch_fields[OF ok(1)] applyTrie_fields[OF ok(2)] in simp_all)
  moreover have "carries pick r2 r3" using reconcileMACs_carries[OF assms(1), of r2 ko grace ?snap now] ok(3) by simp
  moreover have "carries pick r3 r4" using reconcileRouterMACs_carries[OF assms(1), of r3 ?snap] ok(4) by simp
  moreover have "carries pick r4 ?r6"
    by (rule carries_same) (use reconcileAmphoraIPs_fields[OF ok(5)] in \<open>simp_all add: record_run_def\<close>)
  ultimately have r6: "series_ok ?r6" "same_series pick r ?r6" using assms(2) by (auto simp: carries_def same_series_def)
  have r7: "series_ok ?r7" "keeps_listed pick ?snap ?r6 ?r7" using pruneServerSettled_keeps[OF r6(1)] by blast+
  have r8: "series_ok ?r8" "keeps_listed pick ?snap ?r7 ?r8" using pruneTenantSettled_keeps[OF r7(1) assms(1)] by blast+
  have r9: "series_ok r'" "same_series pick ?r8 r'"
    using refreshMapGauges_carries[of pick ?r8 "length (SrEntries res)" nAmp] r8(1) ok(6) by (simp_all add: carries_def)
  have keeps: "keeps_listed pick ?snap r r'"
    using same_series_keeps[OF r6(2)] r7(2) r8(2) same_series_keeps[OF r9(2)] by (metis keeps_listed_trans)
  have "rcRuns r5 = rcRuns r" "published (rcSrc r') = published (rcSrc ?r6)" "rcRuns r' = rcRuns ?r6"
    using fetch_runs(2)[OF ok(1)] applyTrie_runs[OF ok(2)] reconcileMACs_src[of ko grace ?snap now r2] reconcileRouterMACs_src[of ?snap r3]
      reconcileAmphoraIPs_fields[OF ok(5)] ok(3,4) by (simp_all add: ok(6) closing_src)
  moreover have "published (rcSrc ?r6) = (Some ?snap, Some (SrEntries res), Some (SrAnomalies res), now)"
    by (simp add: record_run_def Commit_published)
  moreover have "res = resultFor hops ?snap"
    using ok(1) Sync_snapshot[of auth hops "rcSrc r"] by (auto simp: fetch_def split: prod.splits sum.splits)
  then have "SrEntries res = SrEntries (resultFor hops ?snap)" "SrAnomalies res = SrAnomalies (resultFor hops ?snap)"
    by (rule arg_cong)+
  moreover have "SrEntries (resultFor hops ?snap) = fst (buildTrie ?snap hops)" by (simp add: resultFor_def prod.case_eq_if)
  ultimately show ?thesis using keeps r9(1) by (intro conjI disjI2 exI[of _ ?snap]) (simp_all add: record_run_def)
qed

text \<open>A cloud whose only port has gone: the pass ghosts its address and fills an empty trie.\<close>

definition ex_client :: os_client where
  "ex_client = \<lparr>ListNetworks = Inr (Networks ex_trie_snapshot), ListSubnets = Inr (Subnets ex_trie_snapshot), ListPorts = Inr (Ports ex_trie_snapshot),
     ListRouters = Inr (Routers ex_trie_snapshot), ListFloatingIPs = Inr (FloatingIPs ex_trie_snapshot), ListProjects = Inr (Projects ex_trie_snapshot),
     ListServers = Inl ''503'', ListLoadBalancers = Inr [], ListAmphorae = Inr []\<rparr>"

definition ex_ops :: "((u64, u32) gomap, (lpm_key, u8) gomap, (amphora_key, u8) gomap) kernel_ops" where
  "ex_ops = \<lparr>koMac = bm_upd 16 {}, koTrieUpd = bm_upd 16 {}, koTrieDel = bm_del {}, koAmp = bm_upd 16 {}, koEndian = Little,
     koRowOrder = id, koMacOrder = id\<rparr>"

definition ex_reconciler :: "((u64, u32) gomap, (lpm_key, u8) gomap, (amphora_key, u8) gomap) reconciler" where
  "ex_reconciler = \<lparr>rcSrc = \<lparr>nClient = None, nSnapshot = None, nTrie = None, nAnomalies = None, nLastSync = 0, nApiErrors = [], nGauge = None\<rparr>,
     rcTrie = Some [], rcAmp = None, rcMeta = Some ex_meta_map, rcMac = Some [], rcRouters = None, rcSettler = Some ex_state,
     rcInterner = ex_lpm_interner, rcRuns = [], rcGhostedRatio = 0, rcAmphoraPorts = None, rcGauges = None\<rparr>"

lemma ex_series_ok: "series_ok ex_reconciler"
proof -
  have "VMMAC k = MACKey (Mac 2 0 0 0 0 10)" if "mhas (counts ex_state) k" for k
    using that by (auto simp: ex_state_def ex_key_def mhas_iff VMMAC_def dir_codes)
  then show ?thesis using lookup_ex by (auto simp: series_ok_def ex_reconciler_def sharded_wf_ex gs_wf_ex_state)
qed

lemma ex_fetch:
  "\<exists>r1. fetch (Inr ex_client) 16 ex_reconciler = (r1, Some (resultFor 16 ex_trie_snapshot)) \<and>
     r1 = ex_reconciler\<lparr>rcSrc := rcSrc r1\<rparr> \<and> nTrie (rcSrc r1) = None"
  by (simp add: fetch_def Sync_def fetchAll_def fatal_def optional_def ex_client_def ex_reconciler_def record_err_def ex_trie_snapshot_def ex_snapshot_def)

lemma ex_apply:
  assumes "r1 = ex_reconciler\<lparr>rcSrc := src\<rparr>" "nTrie src = None"
  shows "\<exists>r2. applyTrie ex_ops (resultFor 16 ex_trie_snapshot) r1 = Ret (r2, True) \<and> rcAmp r2 = None"
proof -
  have e: "SrEntries (resultFor 16 ex_trie_snapshot) =
      [\<lparr>TenantID = [], Prefix = catchall, Zone = ZoneExternal\<rparr>, \<lparr>TenantID = [], Prefix = metadataPrefix, Zone = ZoneInfra\<rparr>]"
    using ex_trie_rows[of 16] by (simp add: resultFor_def prod.case_eq_if)
  have "row_prefix_ok catchall" "row_prefix_ok metadataPrefix"
    by (auto simp: row_prefix_ok_def catchall_def metadataPrefix_def Masked_def)
  then have keys: "LpmKeyForPrefix Little 0 catchall = Ret (lpm_of Little (0, catchall))"
    "LpmKeyForPrefix Little 0 metadataPrefix = Ret (lpm_of Little (0, metadataPrefix))"
    by (simp_all add: LpmKey_row)
  have "metadataPrefix \<noteq> catchall" by (simp add: metadataPrefix_def catchall_def)
  then show ?thesis
    by (simp add: applyTrie_def ApplyTrieDelta_def assms e Trie_accessor_def ex_reconciler_def ex_ops_def keys Intern_def TenantIDUnset_def
        mput_Cons mget_Cons bm_upd_def zero_delta_def Let_def)
qed

theorem reconcile_keeps_series_witness:
  "\<exists>r'. reconcileOnce ex_ops (Inr ex_client) 16 60 5 ex_reconciler = Ret r' \<and>
     total_tier pick_bytes (shown r') (store r') = total_tier pick_bytes (shown ex_reconciler) (store ex_reconciler)"
proof -
  obtain r1 where r1: "fetch (Inr ex_client) 16 ex_reconciler = (r1, Some (resultFor 16 ex_trie_snapshot))"
    "r1 = ex_reconciler\<lparr>rcSrc := rcSrc r1\<rparr>" "nTrie (rcSrc r1) = None" using ex_fetch by blast
  obtain r2 where r2: "applyTrie ex_ops (resultFor 16 ex_trie_snapshot) r1 = Ret (r2, True)" "rcAmp r2 = None"
    using ex_apply[OF r1(2,3)] by blast
  obtain r3 d r4 nr where r34: "reconcileMACs ex_ops 60 (SrSnapshot (resultFor 16 ex_trie_snapshot)) 5 r2 = (r3, d)"
    "reconcileRouterMACs (SrSnapshot (resultFor 16 ex_trie_snapshot)) r3 = (r4, nr)" by (meson surj_pair)
  have "\<exists>r5. reconcileAmphoraIPs ex_ops (SrSnapshot (resultFor 16 ex_trie_snapshot)) r4 = Ret (r5, 0)"
    using r2(2) r34 reconcileMACs_src[of ex_ops 60 "SrSnapshot (resultFor 16 ex_trie_snapshot)" 5 r2]
      reconcileRouterMACs_src[of "SrSnapshot (resultFor 16 ex_trie_snapshot)" r3] by (simp add: reconcileAmphoraIPs_def)
  then obtain r' where r': "reconcileOnce ex_ops (Inr ex_client) 16 60 5 ex_reconciler = Ret r'"
    using r1(1) r2(1) r34 by (auto simp: reconcileOnce_def Let_def)
  then have "total_tier pick_bytes (shown r') (store r') = total_tier pick_bytes (shown ex_reconciler) (store ex_reconciler)"
    using reconcile_keeps_series[OF _ ex_series_ok r', of pick_bytes] by (auto simp: same_series_def keeps_listed_def)
  then show ?thesis using r' by blast
qed

section \<open>A pass blocked by a row that is already gone\<close>

text \<open>
  A committed row that the kernel no longer holds, after a delete phase that failed half way. While the
  fetched snapshots do not ask for the row again, no pass commits, and the state stays blocked: the retry
  that \<^verbatim>\<open>applyTrie\<close> announces deletes the same row again, and the kernel answers that it is not there.
\<close>

definition blocked :: "('t \<Rightarrow> lpm_key \<Rightarrow> u8 option) \<Rightarrow> endian \<Rightarrow> trie_entry \<Rightarrow> ('m, 't, 'a) reconciler \<Rightarrow> bool" where
  "blocked kget en e r \<longleftrightarrow> e \<in> set (Trie_accessor (rcSrc r)) \<and>
    (\<forall>x\<in>set (Trie_accessor (rcSrc r)). knows (rcInterner r) (TenantID x) \<and> row_prefix_ok (Prefix x)) \<and>
    (\<exists>m. rcTrie r = Some m \<and> kget m (lpm_of en (row_of (rcInterner r) e)) = None)"

lemma knows_all: "knows t p \<Longrightarrow> knows (intern_all ps t) p"
  by (auto simp: knows_def intern_all_keeps)

lemma fetch_interner:
  assumes "fetch auth hops r = (r1, res)"
  shows "rcInterner r1 = rcInterner r" "rcTrie r1 = rcTrie r" "Trie_accessor (rcSrc r1) = Trie_accessor (rcSrc r)"
  using assms fetch_runs(1)[OF assms]
  by (auto simp: fetch_def record_run_def published_def Trie_accessor_def split: prod.splits sum.splits)

lemma blocked_pass_commits_nothing:
  assumes "trie_map kget (koTrieUpd ko) (koTrieDel ko) kiter" and "\<And>k m. kget m k = None \<Longrightarrow> fst (koTrieDel ko k m) \<noteq> None"
    and "\<And>xs. mset (koRowOrder ko xs) = mset xs" and "blocked kget (koEndian ko) e r"
    and "\<And>r1 res. fetch auth hops r = (r1, Some res) \<Longrightarrow>
      \<not> mhas (fst (index_rows (SrEntries res) ([], rcInterner r))) (row_of (rcInterner r) e)"
    and "reconcileOnce ko auth hops grace now r = Ret r'"
  shows "blocked kget (koEndian ko) e r' \<and> published (rcSrc r') = published (rcSrc r) \<and>
    (rcRuns r' = rcRuns r @ [resultSyncError] \<or> rcRuns r' = rcRuns r @ [resultApplyError])"
proof -
  obtain m where m: "rcTrie r = Some m" "kget m (lpm_of (koEndian ko) (row_of (rcInterner r) e)) = None"
    and old: "e \<in> set (Trie_accessor (rcSrc r))" "\<And>x. x \<in> set (Trie_accessor (rcSrc r)) \<Longrightarrow> knows (rcInterner r) (TenantID x)"
      "\<And>x. x \<in> set (Trie_accessor (rcSrc r)) \<Longrightarrow> row_prefix_ok (Prefix x)"
    using assms(4) by (auto simp: blocked_def)
  have fail: "\<not> ok \<and> blocked kget (koEndian ko) e r2" if f: "fetch auth hops r = (r1, Some res)" and ap: "applyTrie ko res r1 = Ret (r2, ok)" for r1 res r2 ok
  proof -
    note F = fetch_interner[OF f]
    obtain t' i' d err where A: "ApplyTrieDelta (koEndian ko) (koTrieUpd ko) (koTrieDel ko) (koRowOrder ko) (Some m) (Trie_accessor (rcSrc r))
        (SrEntries res) (Some (rcInterner r)) = Ret ((t', i'), d, err)" and ok: "ok \<longleftrightarrow> err = None"
      and r2: "rcTrie r2 = t'" "rcInterner r2 = (case i' of None \<Rightarrow> rcInterner r | Some i1 \<Rightarrow> i1)" "rcSrc r2 = rcSrc r1"
      using ap F m(1) by (auto simp: applyTrie_def Let_def record_run_def split: outcome.splits prod.splits option.splits)
    have "row_prefix_ok (Prefix x)" if "x \<in> set (SrEntries res)" for x
    proof -
      have "res = resultFor hops (SrSnapshot res)"
        using f Sync_snapshot[of auth hops "rcSrc r"] by (auto simp: fetch_def split: prod.splits sum.splits)
      then have "SrEntries res = SrEntries (resultFor hops (SrSnapshot res))" by (rule arg_cong)
      then have "SrEntries res = fst (buildTrie (SrSnapshot res) hops)" by (simp add: resultFor_def prod.case_eq_if)
      then show ?thesis using that trie_row_prefix_ok by metis
    qed
    note B = trie_map.missing_row_blocks[OF assms(1,2,3) this old(3,2,1) assms(5)[OF f] m(2) A]
    define ps where "ps = map TenantID (SrEntries res) @ map TenantID (Trie_accessor (rcSrc r))"
    have i: "rcInterner r2 = intern_all ps (rcInterner r)" using B r2(2) by (simp add: ps_def)
    have "row_of (rcInterner r2) e = row_of (rcInterner r) e"
      using id_of_keeps[of "TenantID e" "rcInterner r" ps] old(1,2) by (auto simp: i row_of_def knows_def)
    then have "blocked kget (koEndian ko) e r2"
      using B r2 F(3) old knows_all by (auto simp: blocked_def i)
    then show ?thesis using B ok by simp
  qed
  show ?thesis using assms(6)
  proof (cases rule: reconcileOnce_cases)
    case sync
    then show ?thesis using fetch_interner[OF sync] fetch_runs[OF sync] assms(4) by (simp add: blocked_def)
  next
    case (kernel r1 res)
    then show ?thesis
      using fail[OF kernel] fetch_runs[OF kernel(1)] applyTrie_runs[OF kernel(2)] applyTrie_fields(4)[OF kernel(2)] by simp
  next
    case (ok r1 res r2)
    then show ?thesis using fail by blast
  qed
qed

end
