(* ===== verification/Cold_Start.thy ===== *)
theory Cold_Start
  imports Reconcile
begin

text \<open>
  The metadata cold start (\<^verbatim>\<open>internal/agent/coldstart_linux.go\<close>, \<^verbatim>\<open>retry.go\<close>): the first sync, retried with
  backoff while Neutron is unreachable, the fill of the userspace map and of the three kernel maps, the
  ambiguity policy and the commit. The stores are those the reconciler shares, so the state is its record.
  The retry loop runs as long as the environment makes it fail: it is a function of the sequence of its
  attempts, each with the context's error when the wait after it is cancelled, and a sequence that ends
  before the loop does leaves it running.
\<close>

section \<open>Retry\<close>

text \<open>What \<^verbatim>\<open>errors.As\<close> finds in an error: a response with a status code, or nothing.\<close>

datatype go_err = Code int | Untyped

definition isRetryableNeutronErr :: "go_err option \<Rightarrow> bool" where
  "isRetryableNeutronErr err =
    (case err of None \<Rightarrow> False
     | Some (Code actual) \<Rightarrow> (if actual \<ge> 500 \<or> actual = 429 then True else False)
     | Some Untyped \<Rightarrow> True)"

definition int64 :: "int \<Rightarrow> int" where
  "int64 n = (n + 2 ^ 63) mod 2 ^ 64 - 2 ^ 63"

definition next_delay :: "duration \<Rightarrow> duration \<Rightarrow> duration" where
  "next_delay mx delay = (let d = int64 (delay * 2) in if d > mx then mx else d)"

datatype 'e retry_end = RetryOk | RetryFailed 'e | RetryRunning

fun retryWithBackoff ::
  "('i \<Rightarrow> 's \<Rightarrow> 's \<times> 'e option) \<Rightarrow> ('e \<Rightarrow> bool) \<Rightarrow> duration \<Rightarrow> duration \<Rightarrow> ('i \<times> 'e option) list \<Rightarrow> 's \<Rightarrow>
     's \<times> 'e retry_end \<times> duration list" where
  "retryWithBackoff fetchf retryable delay mx [] s = (s, RetryRunning, [])"
| "retryWithBackoff fetchf retryable delay mx ((i, ctx) # as) s =
    (case fetchf i s of
       (s', None) \<Rightarrow> (s', RetryOk, [])
     | (s', Some err) \<Rightarrow>
         if \<not> retryable err then (s', RetryFailed err, [])
         else (case ctx of
                 Some e \<Rightarrow> (s', RetryFailed e, [delay])
               | None \<Rightarrow> (case retryWithBackoff fetchf retryable (next_delay mx delay) mx as s' of
                           (s'', r, ds) \<Rightarrow> (s'', r, delay # ds))))"

definition neutronBackoffInitial :: duration where "neutronBackoffInitial = 1000000000"
definition neutronBackoffMax :: duration where "neutronBackoffMax = 30000000000"

section \<open>Filling the stores\<close>

record populate_stats =
  inserted :: nat
  skipped :: nat
  unknownOwners :: nat
  amphoraPorts :: nat

text \<open>The counts of the port audit; the last component is the number of trunk subports.\<close>

definition audit_port :: "port \<Rightarrow> populate_stats \<times> nat \<Rightarrow> populate_stats \<times> nat" where
  "audit_port p st = (case st of (s, trunks) \<Rightarrow>
    (if \<not> IsVMPort (DeviceOwner p) \<or> PortProjectID p = [] \<or> MACAddress p = [] then (s, trunks)
     else (case ParseMAC6 (MACAddress p) of
             None \<Rightarrow> (s\<lparr>skipped := skipped s + 1\<rparr>, trunks)
           | Some hw \<Rightarrow>
               (if IsKnownVMOwner (DeviceOwner p) then s else s\<lparr>unknownOwners := unknownOwners s + 1\<rparr>,
                if IsTrunkSubport (DeviceOwner p) then trunks + 1 else trunks))))"

definition auditPorts :: "snapshot \<Rightarrow> populate_stats \<Rightarrow> populate_stats \<times> nat" where
  "auditPorts snap s = fold audit_port (Ports snap) (s, 0)"

definition populate_one :: "u64 \<times> tenant_meta \<Rightarrow> sharded_map \<times> populate_stats \<Rightarrow> sharded_map \<times> populate_stats" where
  "populate_one mw st = (case (mw, st) of ((mac, want), (meta, s)) \<Rightarrow>
    (ShardedMetadataMap_Insert mac want meta,
     s\<lparr>inserted := inserted s + 1, amphoraPorts := amphoraPorts s + (if IsAmphora want then 1 else 0)\<rparr>))"

definition populateMetadataFromPorts ::
  "((u64 \<times> tenant_meta) list \<Rightarrow> (u64 \<times> tenant_meta) list) \<Rightarrow> sharded_map \<Rightarrow> snapshot \<Rightarrow> sharded_map \<times> populate_stats \<times> nat" where
  "populateMetadataFromPorts ord meta snap =
    (case fold populate_one (ord (DesiredMACs snap)) (meta, \<lparr>inserted = 0, skipped = 0, unknownOwners = 0, amphoraPorts = 0\<rparr>) of
       (meta', s) \<Rightarrow> (meta', auditPorts snap s))"

datatype cold_error =
    CsSync string
  | CsMissing string
  | CsMac nat "u64 write_error"
  | CsTrie nat "lpm_key write_error"
  | CsAmphora nat "amphora_key write_error"
  | CsAmbiguous nat ambiguity_hit

definition or_else :: "'b option \<Rightarrow> 'b \<Rightarrow> 'b" where
  "or_else x y = (case x of None \<Rightarrow> y | Some v \<Rightarrow> v)"

text \<open>Row counts of the address map and of the trie, and the error.\<close>

definition pushToKernel :: "('m, 't, 'a) kernel_ops \<Rightarrow> sync_result \<Rightarrow> ('m, 't, 'a) reconciler \<Rightarrow>
    (('m, 't, 'a) reconciler \<times> nat \<times> nat \<times> cold_error option) outcome" where
  "pushToKernel ko res r =
    (if rcMac r = None then Ret (r, 0, 0, Some (CsMissing ''mac_tenant_map''))
     else if rcTrie r = None then Ret (r, 0, 0, Some (CsMissing ''subnet_zone_trie''))
     else (case WriteMacTenantMap (koMac ko) (rcMac r) (rcMeta r) (Some (rcInterner r)) of
       ((mm, it), nMac, e1) \<Rightarrow>
         (let r1 = r\<lparr>rcMac := mm, rcInterner := or_else it (rcInterner r)\<rparr>
          in case e1 of Some e \<Rightarrow> Ret (r1, nMac, 0, Some (CsMac nMac e))
           | None \<Rightarrow>
         (case WriteSubnetZoneTrie (koEndian ko) (koTrieUpd ko) (rcTrie r1) (SrEntries res) (Some (rcInterner r1)) of
            Panic msg \<Rightarrow> Panic msg
          | Ret ((tm, it2), nRows, e2) \<Rightarrow>
         (let r2 = r1\<lparr>rcTrie := tm, rcInterner := or_else it2 (rcInterner r1)\<rparr>
          in case e2 of Some e \<Rightarrow> Ret (r2, nMac, nRows, Some (CsTrie nRows e))
           | None \<Rightarrow>
         if rcAmp r2 = None then Ret (r2, nMac, nRows, Some (CsMissing ''amphora_base_ip''))
         else (case WriteAmphoraBaseIPs (koEndian ko) (koAmp ko) (rcAmp r2) (AmphoraBaseIPs (SrSnapshot res)) (Some (rcInterner r2)) of
            Panic msg \<Rightarrow> Panic msg
          | Ret ((am, it3), nAmp, e3) \<Rightarrow>
         (let r3 = r2\<lparr>rcAmp := am, rcInterner := or_else it3 (rcInterner r2)\<rparr>
          in case e3 of Some e \<Rightarrow> Ret (r3, nMac, nRows, Some (CsAmphora nAmp e))
           | None \<Rightarrow> Ret (r3\<lparr>rcGauges := map_option (mput ''amphora_base_ip'' nAmp) (rcGauges r3)\<rparr>, nMac, nRows, None))))))))"

definition enforceAmbiguityPolicy :: "bool \<Rightarrow> ambiguity_hit list \<Rightarrow> cold_error option" where
  "enforceAmbiguityPolicy unsafeAllow ambs =
    (if length ambs = 0 then None
     else if \<not> unsafeAllow then Some (CsAmbiguous (length ambs) (hd ambs)) else None)"

section \<open>The cold start\<close>

text \<open>One attempt: a sync against the answers of the API at that moment; the closure keeps its result.\<close>

definition zero_result :: sync_result where
  "zero_result = \<lparr>SrSnapshot = \<lparr>Networks = [], Subnets = [], Ports = [], Routers = [], FloatingIPs = [], Projects = [], Servers = [],
     LoadBalancers = [], Amphorae = []\<rparr>, SrEntries = [], SrAmbiguities = [], SrCycles = [],
     SrAnomalies = \<lparr>ArCycles = [], ArAmbiguities = [], DanglingRoutes = [], ZeroTrieTenants = [], DuplicateRouterMACs = [], MultiExternalPaths = []\<rparr>\<rparr>"

definition sync_attempt :: "int \<Rightarrow> (string + os_client) \<Rightarrow> neutron \<times> sync_result \<Rightarrow> (neutron \<times> sync_result) \<times> string option" where
  "sync_attempt hops auth st =
    (case Sync auth hops (fst st) of
       (n', Inl err) \<Rightarrow> ((n', snd st), Some err)
     | (n', Inr res) \<Rightarrow> ((n', res), None))"

datatype cold_end = CsReady | CsFailed cold_error | CsRunning

definition after_sync :: "('m, 't, 'a) kernel_ops \<Rightarrow> bool \<Rightarrow> gotime \<Rightarrow> sync_result \<Rightarrow> ('m, 't, 'a) reconciler \<Rightarrow> (('m, 't, 'a) reconciler \<times> cold_end) outcome" where
  "after_sync ko unsafeAllow now res r =
    (let snap = SrSnapshot res;
         pop = map_option (\<lambda>m. populateMetadataFromPorts (koMacOrder ko) m snap) (rcMeta r);
         r1 = r\<lparr>rcMeta := map_option fst pop,
                rcAmphoraPorts := (case pop of None \<Rightarrow> rcAmphoraPorts r | Some (m, s, t) \<Rightarrow> Some (amphoraPorts s)),
                rcRouters := map_option (RouterMACs_Replace (RouterExtMACs snap)) (rcRouters r)\<rparr>
     in case pushToKernel ko res r1 of
          Panic msg \<Rightarrow> Panic msg
        | Ret (r2, nMac, nRows, Some e) \<Rightarrow> Ret (r2, CsFailed e)
        | Ret (r2, nMac, nRows, None) \<Rightarrow>
            (case enforceAmbiguityPolicy unsafeAllow (SrAmbiguities res) of
               Some e \<Rightarrow> Ret (r2, CsFailed e)
             | None \<Rightarrow>
                 Ret (r2\<lparr>rcGauges := map_option (\<lambda>g. mput ''subnet_zone_trie'' nRows (mput ''mac_tenant_map'' nMac g)) (rcGauges r2),
                         rcSrc := Commit res now (rcSrc r2)\<rparr>, CsReady)))"

definition coldStartNeutron ::
  "('m, 't, 'a) kernel_ops \<Rightarrow> (string \<Rightarrow> go_err) \<Rightarrow> bool \<Rightarrow> bool \<Rightarrow> int \<Rightarrow> ((string + os_client) \<times> string option) list \<Rightarrow> gotime \<Rightarrow>
     ('m, 't, 'a) reconciler \<Rightarrow> (('m, 't, 'a) reconciler \<times> cold_end) outcome" where
  "coldStartNeutron ko errclass enabled unsafeAllow hops attempts now r =
    (if \<not> enabled then Ret (r, CsReady)
     else (case retryWithBackoff (sync_attempt hops) (\<lambda>e. isRetryableNeutronErr (Some (errclass e)))
                  neutronBackoffInitial neutronBackoffMax attempts (rcSrc r, zero_result) of
             ((n', res), fin, ds) \<Rightarrow>
               (let r1 = r\<lparr>rcSrc := n'\<rparr>
                in case fin of
                     RetryRunning \<Rightarrow> Ret (r1, CsRunning)
                   | RetryFailed e \<Rightarrow> Ret (r1, CsFailed (CsSync e))
                   | RetryOk \<Rightarrow> after_sync ko unsafeAllow now res r1)))"

section \<open>The retry loop\<close>

lemma next_delay_min:
  assumes "0 < d" "d \<le> mx" "mx < 2 ^ 62"
  shows "next_delay mx d = min (2 * d) mx"
proof -
  have "int64 (d * 2) = d * 2" using assms by (simp add: int64_def)
  then show ?thesis by (simp add: next_delay_def Let_def min_def)
qed

text \<open>The waits double from the initial one up to the cap.\<close>

lemma retry_delays:
  assumes "0 < d" "d \<le> mx" "mx < 2 ^ 62" "k < length (snd (snd (retryWithBackoff f ok d mx as s)))"
  shows "snd (snd (retryWithBackoff f ok d mx as s)) ! k = min (d * 2 ^ k) mx"
  using assms
proof (induction as arbitrary: d s k)
  case (Cons a as)
  obtain i ctx where a: "a = (i, ctx)" by (cases a)
  obtain s1 e where f: "f i s = (s1, e)" by (cases "f i s")
  obtain s2 r2 ds2 where rec: "retryWithBackoff f ok (next_delay mx d) mx as s1 = (s2, r2, ds2)"
    by (cases "retryWithBackoff f ok (next_delay mx d) mx as s1")
  have nd: "next_delay mx d = min (2 * d) mx" by (rule next_delay_min[OF Cons.prems(1-3)])
  show ?case
  proof (cases k)
    case 0
    then show ?thesis using Cons.prems a f rec by (auto split: option.splits if_splits)
  next
    case (Suc j)
    then have ds: "snd (snd (retryWithBackoff f ok d mx (a # as) s)) = d # ds2" and j: "j < length ds2"
      using Cons.prems(4) a f rec by (auto split: option.splits if_splits)
    have "ds2 ! j = min (next_delay mx d * 2 ^ j) mx"
      using Cons.IH[of "next_delay mx d" j s1] nd Cons.prems(1-3) j rec by auto
    moreover have "min (min (2 * d) mx * 2 ^ j) mx = min (d * 2 ^ Suc j) mx"
    proof (cases "2 * d \<le> mx")
      case False
      have one: "(1::int) \<le> 2 ^ j" by simp
      have "mx \<le> mx * 2 ^ j" using mult_left_mono[OF one, of mx] Cons.prems(1,2) by simp
      moreover have "2 * d * 1 \<le> 2 * d * 2 ^ j" by (rule mult_left_mono[OF one]) (use Cons.prems(1) in simp)
      then have "mx \<le> d * 2 ^ Suc j" using False by (simp add: mult_ac)
      ultimately show ?thesis using False by simp
    qed (simp add: mult_ac)
    ultimately show ?thesis using Suc nd ds by simp
  qed
qed simp

lemma retry_sync:
  assumes "retryWithBackoff (sync_attempt hops) ok d mx as (n, z) = ((n', res), fin, ds)"
  shows "published n' = published n \<and> (fin = RetryOk \<longrightarrow> res = resultFor hops (SrSnapshot res))"
  using assms
proof (induction as arbitrary: n d ds)
  case (Cons a as)
  obtain auth ctx where a: "a = (auth, ctx)" by (cases a)
  obtain n1 o1 where sy: "Sync auth hops n = (n1, o1)" by (cases "Sync auth hops n")
  have pub: "published n1 = published n" using Sync_published[of auth hops n] sy by simp
  obtain x fin2 ds2 where rec: "retryWithBackoff (sync_attempt hops) ok (next_delay mx d) mx as (n1, z) = (x, fin2, ds2)"
    by (cases "retryWithBackoff (sync_attempt hops) ok (next_delay mx d) mx as (n1, z)")
  obtain n2 res2 where x: "x = (n2, res2)" by (cases x)
  show ?case
  proof (cases o1)
    case (Inr r1)
    then show ?thesis using Cons.prems a sy pub Sync_snapshot[of auth hops n n1 r1] by (auto simp: sync_attempt_def)
  next
    case (Inl e)
    then have "sync_attempt hops auth (n, z) = ((n1, z), Some e)" using sy by (simp add: sync_attempt_def)
    then show ?thesis using Cons.prems a pub rec x Cons.IH[of "next_delay mx d" n1]
      by (auto split: if_splits option.splits)
  qed
qed simp

section \<open>The fill\<close>

lemma populate_fold:
  assumes "sharded_wf m"
  shows "sharded_wf (fst (fold populate_one xs (m, s))) \<and>
    ShardedMetadataMap_Lookup (fst (fold populate_one xs (m, s))) x =
      (case map_of (rev xs) x of Some v \<Rightarrow> Some v | None \<Rightarrow> ShardedMetadataMap_Lookup m x)"
  using assms
proof (induction xs arbitrary: m s)
  case (Cons a xs)
  obtain mac w where a: "a = (mac, w)" by (cases a)
  have "sharded_wf (ShardedMetadataMap_Insert mac w m)" using Cons.prems by (rule shm.wf_put)
  note IH = Cons.IH[OF this] 
  show ?case using IH Cons.prems by (auto simp: a populate_one_def Lookup_Insert map_add_def split: option.splits)
qed simp

lemma mwf_DesiredMACs: "mwf (DesiredMACs snap)"
  unfolding DesiredMACs_def by (rule fold_invariant_pres[where P = mwf]) (auto split: option.splits)

lemma DesiredMACs_live:
  assumes "mget (DesiredMACs snap) mac = Some w"
  shows "DeleteAt w = 0"
proof -
  have "\<forall>mac w. mget (DesiredMACs snap) mac = Some w \<longrightarrow> DeleteAt w = 0"
    unfolding DesiredMACs_def
    by (rule fold_invariant_pres[where P = "\<lambda>out. \<forall>mac w. mget out mac = Some w \<longrightarrow> DeleteAt w = 0"])
       (auto simp: desired_meta_def split: option.splits if_splits prod.splits)
  then show ?thesis using assms by blast
qed

lemma map_of_rev_distinct: "distinct (map fst xs) \<Longrightarrow> map_of (rev xs) = map_of xs"
  by (subst map_of_inject_set) (simp_all add: rev_map[symmetric])

lemma ord_get:
  assumes "mwf m" "mset xs = mset m"
  shows "map_of (rev xs) k = mget m k"
proof -
  have "mwf xs" "mget xs k = mget m k" using mwf_perm_get[OF assms] by auto
  then have "map_of (rev xs) = map_of xs" by (intro map_of_rev_distinct) (simp add: mwf_def)
  then show ?thesis using \<open>mget xs k = mget m k\<close> by (simp add: mget_def)
qed

lemma populate_lookup:
  assumes "\<And>xs. mset (ord xs) = mset xs"
  shows "sharded_wf (fst (populateMetadataFromPorts ord ShardedMetadataMap_New snap)) \<and>
    ShardedMetadataMap_Lookup (fst (populateMetadataFromPorts ord ShardedMetadataMap_New snap)) x = mget (DesiredMACs snap) x"
  using populate_fold[of ShardedMetadataMap_New "ord (DesiredMACs snap)" "\<lparr>inserted = 0, skipped = 0, unknownOwners = 0, amphoraPorts = 0\<rparr>" x]
    ord_get[OF mwf_DesiredMACs assms, of snap x]
  by (auto simp: populateMetadataFromPorts_def  split: prod.splits option.splits)

text \<open>The pairs that the address writer pushes, read with any later interner.\<close>

definition mac_row :: "interner \<Rightarrow> u64 \<times> tenant_meta \<Rightarrow> u64 \<times> u32" where
  "mac_row t mw = (fst mw, TenantValue (id_of t (ProjectID (snd mw))) (IsAmphora (snd mw)))"

definition tenanted :: "(u64 \<times> tenant_meta) list \<Rightarrow> (u64 \<times> tenant_meta) list" where
  "tenanted xs = filter (\<lambda>mw. ProjectID (snd mw) \<noteq> []) xs"

definition push_pair :: "u64 \<Rightarrow> tenant_meta \<Rightarrow> (u64 \<times> u32) list \<times> interner \<Rightarrow> (u64 \<times> u32) list \<times> interner" where
  "push_pair mac meta acc = fst (mac_pair acc mac meta)"

lemma push_pairs:
  "fold (\<lambda>(mac, meta). push_pair mac meta) xs (ps, t) =
    (let t' = intern_all (map (\<lambda>mw. ProjectID (snd mw)) (tenanted xs)) t in (ps @ map (mac_row t') (tenanted xs), t'))"
proof (induction xs arbitrary: ps t)
  case (Cons x xs)
  obtain mac meta where x: "x = (mac, meta)" by (cases x)
  obtain i t1 where it: "Intern (ProjectID meta) t = (i, t1)" by (cases "Intern (ProjectID meta) t")
  have "i = id_of (intern_all (map (\<lambda>mw. ProjectID (snd mw)) (tenanted xs)) t1) (ProjectID meta)"
    using Intern_id_of[of "ProjectID meta" t "map (\<lambda>mw. ProjectID (snd mw)) (tenanted xs)"] it by simp
  then show ?case using Cons.IH it x
    by (cases "ProjectID meta = []") (simp_all add: push_pair_def mac_pair_def tenanted_def mac_row_def Let_def)
qed (simp add: tenanted_def Let_def)

lemma Range_mac_pair:
  "ShardedMetadataMap_Range mac_pair s ([], t) =
    (let t' = intern_all (map (\<lambda>mw. ProjectID (snd mw)) (tenanted (flat s))) t in (map (mac_row t') (tenanted (flat s)), t'))"
proof -
  have "mac_pair = (\<lambda>st mac meta. (push_pair mac meta st, True))"
    by (intro ext) (simp add: push_pair_def mac_pair_def split: prod.splits)
  then show ?thesis using Range_fold[of push_pair s "([], t)"] push_pairs[of "flat s" "[]" t] by simp
qed

definition mac_value :: "interner \<Rightarrow> tenant_meta option \<Rightarrow> u32 option" where
  "mac_value t meta = (case meta of None \<Rightarrow> None | Some m \<Rightarrow>
     if ProjectID m = [] then None else Some (TenantValue (id_of t (ProjectID m)) (IsAmphora m)))"

lemma mac_rows_get:
  assumes "mwf xs"
  shows "map_of (rev (map (mac_row t) (tenanted xs))) mac = mac_value t (mget xs mac)"
proof -
  have d: "distinct (map fst (map (mac_row t) (tenanted xs)))"
    using assms by (simp add: mwf_def tenanted_def mac_row_def comp_def distinct_map_filter)
  then have "map_of (rev (map (mac_row t) (tenanted xs))) = map_of (map (mac_row t) (tenanted xs))"
    by (rule map_of_rev_distinct)
  moreover have "map_of (map (mac_row t) (tenanted xs)) mac = mac_value t (mget xs mac)"
    using assms
  proof (induction xs)
    case (Cons x xs)
    obtain a meta where x: "x = (a, meta)" by (cases x)
    have "mget xs a = None" using Cons.prems x by (simp add: mhas_def)
    then show ?case using Cons x
      by (auto simp: tenanted_def mac_row_def mac_value_def mget_Cons split: option.splits)
  qed (simp add: tenanted_def mac_value_def)
  ultimately show ?thesis by simp
qed

lemma mac_write_holds:
  assumes km: "kernel_map kget kupd kdel kiter" and wf: "sharded_wf s" and empty: "\<And>k. kget m k = None"
    and w: "WriteMacTenantMap kupd (Some m) (Some s) (Some t) = ((mm, it), n, None)"
  obtains m' ps where "mm = Some m'" "it = Some (intern_all ps t)" "ps = map (\<lambda>mw. ProjectID (snd mw)) (tenanted (flat s))"
    "\<And>mac. kget m' mac = mac_value (intern_all ps t) (ShardedMetadataMap_Lookup s mac)"
proof -
  let ?ps = "map (\<lambda>mw. ProjectID (snd mw)) (tenanted (flat s))"
  let ?kvs = "map (mac_row (intern_all ?ps t)) (tenanted (flat s))"
  obtain m' where u: "update_all kupd ?kvs (m, 0, None) = (m', n, None)" and mm: "mm = Some m'" "it = Some (intern_all ?ps t)"
    using w by (auto simp: WriteMacTenantMap_def Range_mac_pair Let_def split: prod.splits)
  have "kget m' mac = mac_value (intern_all ?ps t) (ShardedMetadataMap_Lookup s mac)" for mac
    using kernel_map.update_all_ok[OF km u, of mac] mac_rows_get[OF mwf_flat[OF wf], of "intern_all ?ps t" mac] mget_flat[OF wf, of mac] empty
    by (auto split: option.splits)
  then show thesis using that mm by blast
qed

lemma base_ips_interner:
  assumes "write_base_ips en kupd es (m, t, w, err) = Ret (m', t', w', err')"
  shows "\<exists>ps. t' = intern_all ps t"
  using assms
proof (induction es arbitrary: m t w err)
  case Nil
  then show ?case by (intro exI[of _ "[]"]) simp
next
  case (Cons e es)
  show ?case
  proof (cases "BaseProjectID e = []")
    case True
    then show ?thesis using Cons by simp
  next
    case False
    obtain i t1 where it: "Intern (BaseProjectID e) t = (i, t1)" by (cases "Intern (BaseProjectID e) t")
    have "\<exists>ps. t' = intern_all ps t1"
      using Cons.IH Cons.prems False it by (auto split: outcome.splits prod.splits option.splits)
    then obtain ps where "t' = intern_all ps t1" by blast
    then show ?thesis using it by (intro exI[of _ "BaseProjectID e # ps"]) simp
  qed
qed

section \<open>What a cold start leaves\<close>

lemma pushToKernel_ok:
  assumes "pushToKernel ko res r = Ret (r', nMac, nRows, None)"
    and "kernel_map kgetM (koMac ko) kdelM kiterM" and "kernel_map kgetT (koTrieUpd ko) kdelT kiterT"
    and "rcMeta r = Some s" "sharded_wf s" and "rcMac r = Some mm" "\<And>k. kgetM mm k = None" and "rcTrie r = Some tm" "\<And>k. kgetT tm k = None"
    and "\<And>e. e \<in> set (SrEntries res) \<Longrightarrow> row_prefix_ok (Prefix e)"
  obtains mm' tm' where "rcMac r' = Some mm'" "rcTrie r' = Some tm'"
    "\<And>mac. kgetM mm' mac = mac_value (rcInterner r') (ShardedMetadataMap_Lookup s mac)"
    "trie_holds kgetT (koEndian ko) (rcInterner r') (SrEntries res) tm'"
    "\<And>e. e \<in> set (SrEntries res) \<Longrightarrow> knows (rcInterner r') (TenantID e)"
    "rcMeta r' = rcMeta r" "rcRouters r' = rcRouters r" "rcSrc r' = rcSrc r"
proof -
  obtain mo it where w1: "WriteMacTenantMap (koMac ko) (Some mm) (Some s) (Some (rcInterner r)) = ((mo, it), nMac, None)"
    using assms(1,4,6,8) by (auto simp: pushToKernel_def Let_def split: prod.splits option.splits outcome.splits if_splits)
  obtain mm' ps where mm': "mo = Some mm'" "it = Some (intern_all ps (rcInterner r))" "ps = map (\<lambda>mw. ProjectID (snd mw)) (tenanted (flat s))"
    "\<And>mac. kgetM mm' mac = mac_value (intern_all ps (rcInterner r)) (ShardedMetadataMap_Lookup s mac)"
    by (rule mac_write_holds[OF assms(2,5,7) w1]) blast
  let ?t1 = "intern_all ps (rcInterner r)"
  obtain to it2 where w2: "WriteSubnetZoneTrie (koEndian ko) (koTrieUpd ko) (Some tm) (SrEntries res) (Some ?t1) = Ret ((to, it2), nRows, None)"
    using assms(1,4,6,8) w1 mm'(1,2) by (auto simp: pushToKernel_def Let_def or_else_def split: prod.splits option.splits outcome.splits if_splits)
  obtain tm' t2 where tm: "to = Some tm'" "it2 = Some t2" using w2 by (auto simp: WriteSubnetZoneTrie_def split: outcome.splits prod.splits)
  have T: "trie_holds kgetT (koEndian ko) t2 (SrEntries res) tm'" "t2 = intern_all (map TenantID (SrEntries res)) ?t1"
    using full_write_holds[OF assms(3,10,9) w2[unfolded tm]] by auto
  obtain am ao it3 nA where w3: "rcAmp r = Some am"
    "WriteAmphoraBaseIPs (koEndian ko) (koAmp ko) (Some am) (AmphoraBaseIPs (SrSnapshot res)) (Some t2) = Ret ((ao, it3), nA, None)"
    and r': "rcMac r' = Some mm'" "rcTrie r' = Some tm'" "rcInterner r' = or_else it3 t2" "rcMeta r' = rcMeta r" "rcRouters r' = rcRouters r" "rcSrc r' = rcSrc r"
    using assms(1,4,6,8) w1 mm'(1,2) w2 tm
    by (auto simp: pushToKernel_def Let_def or_else_def split: prod.splits option.splits outcome.splits if_splits)
  have "\<exists>qs. rcInterner r' = intern_all qs t2"
    using w3(2) r'(3) by (auto simp: WriteAmphoraBaseIPs_def or_else_def dest: base_ips_interner split: outcome.splits prod.splits)
  then obtain qs where t3: "rcInterner r' = intern_all qs t2" by blast
  have kn: "knows t2 (TenantID e)" if "e \<in> set (SrEntries res)" for e
    using intern_all_known[of "TenantID e" "map TenantID (SrEntries res)" ?t1] that by (auto simp: T(2) knows_def)
  have "trie_holds kgetT (koEndian ko) (rcInterner r') (SrEntries res) tm'"
    unfolding t3 using trie_holds_keeps[of "SrEntries res" t2 kgetT "koEndian ko" qs tm'] kn T(1) by blast
  moreover have "kgetM mm' mac = mac_value (rcInterner r') (ShardedMetadataMap_Lookup s mac)" for mac
  proof (cases "ShardedMetadataMap_Lookup s mac")
    case (Some m)
    show ?thesis
    proof (cases "ProjectID m = []")
      case False
      have "(mac, m) \<in> set (tenanted (flat s))" using Some False mget_flat[OF assms(5), of mac] by (simp add: tenanted_def mget_SomeD)
      then have "ProjectID m \<in> set ps" by (force simp: mm'(3))
      then have "mget (forward ?t1) (ProjectID m) \<noteq> None" using intern_all_known False by blast
      then have "id_of (rcInterner r') (ProjectID m) = id_of ?t1 (ProjectID m)"
        using id_of_keeps[of "ProjectID m" ?t1 "map TenantID (SrEntries res) @ qs"] by (simp add: t3 T(2))
      then show ?thesis using mm'(4)[of mac] Some by (simp add: mac_value_def)
    qed (use mm'(4)[of mac] Some in \<open>simp add: mac_value_def\<close>)
  qed (use mm'(4)[of mac] in \<open>simp add: mac_value_def\<close>)
  moreover have "knows (rcInterner r') (TenantID e)" if "e \<in> set (SrEntries res)" for e using knows_all[OF kn[OF that]] by (simp add: t3)
  ultimately show thesis using that r' by blast
qed

section \<open>A reconcile of the same snapshot\<close>

lemma Intern_noop: "p = [] \<or> mget (forward t) p \<noteq> None \<Longrightarrow> snd (Intern p t) = t"
  by (auto simp: Intern_def)

lemma intern_all_noop: "(\<And>p. p \<in> set ps \<Longrightarrow> knows t p) \<Longrightarrow> intern_all ps t = t"
  by (induction ps) (simp_all add: knows_def Intern_noop)

lemma upsert_noop: "(\<And>rk z. (rk, z) \<in> set rs \<Longrightarrow> mget N rk = Some z) \<Longrightarrow> upsert_rows en kupd N rs (m, d, err) = Ret (m, d, err)"
  by (induction rs) auto

lemma delete_noop: "(\<And>rk. rk \<in> set rks \<Longrightarrow> mhas N rk) \<Longrightarrow> delete_rows en kdel N rks (m, d, err) = Ret (m, d, err)"
  by (induction rks) auto

lemma ApplyTrieDelta_same:
  assumes "\<And>xs. mset (ord xs) = mset xs" and "\<And>e. e \<in> set es \<Longrightarrow> knows t (TenantID e)"
  shows "ApplyTrieDelta en kupd kdel ord (Some m) es es (Some t) = Ret ((Some m, Some t), zero_delta, None)"
proof -
  define N where "N = fst (index_rows es ([], t))"
  have t: "intern_all (map TenantID es) t = t" by (rule intern_all_noop) (use assms(2) in auto)
  have i: "index_rows es ([], t) = (N, t)" by (simp add: N_def index_rows_eq Let_def t)
  have wf: "mwf N" by (simp add: N_def index_rows_wf)
  have sets: "set (ord N) = set N" using assms(1)[of N] by (metis set_mset_mset)
  have "upsert_rows en kupd N (ord N) (m, zero_delta, None) = Ret (m, zero_delta, None)"
    by (rule upsert_noop) (simp add: sets mget_in_set[OF wf])
  moreover have "delete_rows en kdel N (map fst (ord N)) (m, zero_delta, None) = Ret (m, zero_delta, None)"
    by (rule delete_noop) (auto simp: sets mhas_iff)
  ultimately show ?thesis by (simp add: ApplyTrieDelta_def i)
qed

lemma SameAttribution_refl: "SameAttribution w w"
  by (simp add: SameAttribution_def)

lemma learnMACs_noop:
  assumes "\<And>xs. mset (koMacOrder ko xs) = mset xs" and "mwf d" and "rcMeta r = Some m"
    and "\<And>mac w. mget d mac = Some w \<Longrightarrow> ShardedMetadataMap_Lookup m mac = Some w \<and> DeleteAt w = 0"
  shows "learnMACs ko d r = (r, 0, 0)"
proof -
  have "set (koMacOrder ko d) = set d" using assms(1)[of d] by (metis set_mset_mset)
  then have "learn_one ko mw (r, 0, 0) = (r, 0, 0)" if "mw \<in> set (koMacOrder ko d)" for mw
    using that assms(2-4) SameAttribution_refl by (cases mw) (auto simp: learn_one_def mget_in_set)
  then have "\<forall>mw\<in>set (koMacOrder ko d). learn_one ko mw (r, 0, 0) = (r, 0, 0)" by blast
  then show ?thesis unfolding learnMACs_def
    by (intro fold_invariant_pres[where P = "\<lambda>st. st = (r, 0, 0)"]) auto
qed

lemma ghostGone_noop:
  assumes "sharded_wf m" "rcMeta r = Some m" "\<And>mac. ShardedMetadataMap_Lookup m mac = mget d mac"
  shows "fst (ghostGoneMACs grace d now r) = r \<and> fst (snd (ghostGoneMACs grace d now r)) = 0"
proof -
  let ?f = "\<lambda>mac meta acc. fst (gone_step d acc mac meta)"
  have "gone_step d = (\<lambda>st mac meta. (?f mac meta st, True))" by (intro ext) (simp add: gone_step_def split: prod.splits)
  then have range: "ShardedMetadataMap_Range (gone_step d) m ([], 0) = fold (\<lambda>(mac, meta). ?f mac meta) (flat m) ([], 0)"
    using Range_fold[of ?f m "([], 0)"] by simp
  have "fst (fold (\<lambda>(mac, meta). ?f mac meta) (flat m) ([], 0)) = []"
  proof (rule fold_invariant_pres[where P = "\<lambda>acc. fst acc = []"])
    fix x and acc :: "u64 list \<times> nat"
    assume x: "x \<in> set (flat m)" and acc: "fst acc = []"
    have "mhas d (fst x)"
      using x mget_in_set[OF mwf_flat[OF assms(1)], of "fst x" "snd x"] mget_flat[OF assms(1), of "fst x"] assms(3) by (auto simp: mhas_def)
    then show "fst ((\<lambda>(mac, meta). ?f mac meta) x acc) = []" using acc by (simp add: gone_step_def prod.case_eq_if)
  qed simp
  then show ?thesis using assms(2) range by (auto simp: ghostGoneMACs_def split: prod.splits)
qed

lemma reconcileMACs_noop:
  assumes "\<And>xs. mset (koMacOrder ko xs) = mset xs" and "rcMeta r = Some m" "sharded_wf m" "rcMac r = Some mm"
    and "\<And>mac. ShardedMetadataMap_Lookup m mac = mget (DesiredMACs snap) mac"
  shows "\<exists>ratio ports. reconcileMACs ko grace snap now r =
    (r\<lparr>rcGhostedRatio := ratio, rcAmphoraPorts := ports\<rparr>, \<lparr>Inserted = 0, MChanged = 0, Ghosted = 0\<rparr>)"
proof -
  have l: "learnMACs ko (DesiredMACs snap) r = (r, 0, 0)"
    by (rule learnMACs_noop[OF assms(1) mwf_DesiredMACs assms(2)]) (use assms(5) DesiredMACs_live in auto)
  obtain live where g: "ghostGoneMACs grace (DesiredMACs snap) now r = (r, 0, live)"
    using ghostGone_noop[OF assms(3,2,5), of grace now] by (metis prod.collapse)
  have "publishAmphoraCount (DesiredMACs snap) (publishGhostedRatio 0 live r) =
      r\<lparr>rcGhostedRatio := rcGhostedRatio (publishGhostedRatio 0 live r), rcAmphoraPorts := rcAmphoraPorts (publishAmphoraCount (DesiredMACs snap) r)\<rparr>"
    by (cases r) (simp add: publishAmphoraCount_def publishGhostedRatio_def split: option.splits)
  then show ?thesis using l g assms(2,4) by (auto simp: reconcileMACs_def Let_def)
qed

lemma applyTrie_noop:
  assumes "\<And>xs. mset (koRowOrder ko xs) = mset xs" and "rcTrie r = Some tm" and "Trie_accessor (rcSrc r) = SrEntries res"
    and "\<And>e. e \<in> set (SrEntries res) \<Longrightarrow> knows (rcInterner r) (TenantID e)"
  shows "applyTrie ko res r = Ret (r, True)"
proof -
  have "ApplyTrieDelta (koEndian ko) (koTrieUpd ko) (koTrieDel ko) (koRowOrder ko) (Some tm) (SrEntries res) (SrEntries res) (Some (rcInterner r)) =
      Ret ((Some tm, Some (rcInterner r)), zero_delta, None)" by (rule ApplyTrieDelta_same[OF assms(1,4)])
  moreover have "r\<lparr>rcTrie := Some tm, rcInterner := rcInterner r\<rparr> = r" using assms(2) by (cases r) simp
  ultimately show ?thesis using assms(2,3) by (simp add: applyTrie_def Let_def)
qed

lemma reconcileRouterMACs_noop:
  assumes "rcRouters r = Some (RouterExtMACs snap)"
  shows "reconcileRouterMACs snap r = (r, 0)"
proof -
  have "mac \<notin> set (changed_macs (RouterExtMACs snap) (RouterExtMACs snap))" for mac by (simp add: changed_macs_iff)
  then have "changed_macs (RouterExtMACs snap) (RouterExtMACs snap) = []" by (metis list.set_intros(1) neq_Nil_conv)
  then show ?thesis using assms by (simp add: reconcileRouterMACs_def RouterMACs_Snapshot_def Let_def)
qed

section \<open>Properties\<close>

lemma Trie_accessor_published: "published n = (sn, Some es, an, ts) \<Longrightarrow> Trie_accessor n = es"
  by (simp add: published_def Trie_accessor_def)

lemma SrEntries_resultFor [simp]: "SrEntries (resultFor hops snap) = fst (buildTrie snap hops)"
  "SrSnapshot (resultFor hops snap) = snap" "SrAmbiguities (resultFor hops snap) = fst (snd (buildTrie snap hops))"
  by (simp_all add: resultFor_def prod.case_eq_if)

lemma after_sync_ready:
  assumes "after_sync ko unsafeAllow now (resultFor hops snap) r = Ret (r', CsReady)"
    and "kernel_map kgetM (koMac ko) kdelM kiterM" and "kernel_map kgetT (koTrieUpd ko) kdelT kiterT"
    and "\<And>xs. mset (koMacOrder ko xs) = mset xs"
    and "rcMeta r = Some ShardedMetadataMap_New" and "rcRouters r = Some rm"
    and "rcMac r = Some mm" "\<And>k. kgetM mm k = None" and "rcTrie r = Some tm" "\<And>k. kgetT tm k = None"
  obtains m mm' tm' where "rcMeta r' = Some m" "sharded_wf m" "\<And>mac. ShardedMetadataMap_Lookup m mac = mget (DesiredMACs snap) mac"
    "rcMac r' = Some mm'" "\<And>mac. kgetM mm' mac = mac_value (rcInterner r') (mget (DesiredMACs snap) mac)"
    "rcTrie r' = Some tm'" "trie_holds kgetT (koEndian ko) (rcInterner r') (fst (buildTrie snap hops)) tm'"
    "\<And>e. e \<in> set (fst (buildTrie snap hops)) \<Longrightarrow> knows (rcInterner r') (TenantID e)"
    "rcRouters r' = Some (RouterExtMACs snap)" "unsafeAllow \<or> fst (snd (buildTrie snap hops)) = []"
    "published (rcSrc r') = (Some snap, Some (fst (buildTrie snap hops)), Some (SrAnomalies (resultFor hops snap)), now)"
proof -
  define m where "m = fst (populateMetadataFromPorts (koMacOrder ko) ShardedMetadataMap_New snap)"
  have m: "sharded_wf m" "\<And>mac. ShardedMetadataMap_Lookup m mac = mget (DesiredMACs snap) mac"
    using populate_lookup[OF assms(4)] by (auto simp: m_def)
  obtain ports where ports: "(case map_option (\<lambda>m. populateMetadataFromPorts (koMacOrder ko) m snap) (rcMeta r) of
      None \<Rightarrow> rcAmphoraPorts r | Some (m, s, t) \<Rightarrow> Some (amphoraPorts s)) = ports" by blast
  let ?r1 = "r\<lparr>rcMeta := Some m, rcAmphoraPorts := ports, rcRouters := Some (RouterExtMACs snap)\<rparr>"
  obtain r2 nMac nRows where p: "pushToKernel ko (resultFor hops snap) ?r1 = Ret (r2, nMac, nRows, None)"
    and pol: "enforceAmbiguityPolicy unsafeAllow (fst (snd (buildTrie snap hops))) = None"
    and r': "r' = r2\<lparr>rcGauges := map_option (\<lambda>g. mput ''subnet_zone_trie'' nRows (mput ''mac_tenant_map'' nMac g)) (rcGauges r2),
       rcSrc := Commit (resultFor hops snap) now (rcSrc r2)\<rparr>"
    using assms(1,5,6) ports
    by (auto simp: after_sync_def Let_def m_def RouterMACs_Replace_def split: outcome.splits prod.splits option.splits)
  obtain mm' tm' where "rcMac r2 = Some mm'" "rcTrie r2 = Some tm'"
    "\<And>mac. kgetM mm' mac = mac_value (rcInterner r2) (ShardedMetadataMap_Lookup m mac)"
    "trie_holds kgetT (koEndian ko) (rcInterner r2) (SrEntries (resultFor hops snap)) tm'"
    "\<And>e. e \<in> set (SrEntries (resultFor hops snap)) \<Longrightarrow> knows (rcInterner r2) (TenantID e)"
    "rcMeta r2 = rcMeta ?r1" "rcRouters r2 = rcRouters ?r1"
    by (rule pushToKernel_ok[OF p assms(2,3), where s = m and mm = mm and tm = tm])
       (use assms(7-10) m(1) trie_row_prefix_ok in auto)
  moreover have "unsafeAllow \<or> fst (snd (buildTrie snap hops)) = []"
    using pol by (auto simp: enforceAmbiguityPolicy_def split: if_splits)
  ultimately show thesis using m r' by (intro that[of m mm' tm']) (simp_all add: Commit_published)
qed


text \<open>A failed or unfinished cold start publishes nothing.\<close>

lemma pushToKernel_src: "pushToKernel ko res r = Ret (r', a, b, e) \<Longrightarrow> rcSrc r' = rcSrc r"
  by (auto simp: pushToKernel_def Let_def split: prod.splits option.splits outcome.splits if_splits)

lemma cold_start_not_ready_publishes_nothing:
  assumes "coldStartNeutron ko errclass enabled unsafeAllow hops attempts now r = Ret (r', fin)" "fin \<noteq> CsReady"
  shows "published (rcSrc r') = published (rcSrc r)"
proof -
  obtain n' res f ds where rt: "retryWithBackoff (sync_attempt hops) (\<lambda>e. isRetryableNeutronErr (Some (errclass e)))
      neutronBackoffInitial neutronBackoffMax attempts (rcSrc r, zero_result) = ((n', res), f, ds)" by (metis prod.collapse)
  have "rcSrc r' = n' \<or> rcSrc r' = rcSrc r"
    using assms rt by (auto simp: coldStartNeutron_def after_sync_def Let_def dest!: pushToKernel_src
        split: if_splits retry_end.splits outcome.splits prod.splits option.splits)
  then show ?thesis using retry_sync[OF rt] by auto
qed

definition ex_cold :: "((u64, u32) gomap, (lpm_key, u8) gomap, (amphora_key, u8) gomap) reconciler" where
  "ex_cold = ex_reconciler\<lparr>rcMeta := Some ShardedMetadataMap_New, rcRouters := Some [], rcAmp := Some []\<rparr>"

lemma ex_cold_trie:
  "WriteSubnetZoneTrie Little (bm_upd 16 {}) (Some []) (fst (buildTrie ex_trie_snapshot 16)) (Some ex_lpm_interner) =
     Ret ((Some [(lpm_of Little (0, catchall), ZoneExternal), (lpm_of Little (0, metadataPrefix), ZoneInfra)], Some ex_lpm_interner), 2, None)"
  using ex_keys(3)[of Little 0] ex_keys(3)[of Little 0, symmetric]
  by (simp add: ex_trie_rows WriteSubnetZoneTrie_def Intern_def TenantIDUnset_def bm_upd_def mput_Cons ex_keys)

lemma ex_cold_sync:
  "\<exists>n'. Sync (Inr ex_client) 16 (rcSrc ex_cold) = (n', Inr (resultFor 16 ex_trie_snapshot))"
  "\<exists>n'. Sync (Inl ''down'') 16 (rcSrc ex_cold) = (n', Inl ''keystone auth: down'') \<and> nClient n' = None"
  by (simp_all add: Sync_def fetchAll_def fatal_def optional_def ex_client_def ex_cold_def ex_reconciler_def record_err_def ex_trie_snapshot_def ex_snapshot_def)

lemma ex_cold_runs:
  "\<exists>r'. coldStartNeutron ex_ops (\<lambda>_. Code 503) True True 16 [(Inl ''down'', None), (Inr ex_client, None)] 5 ex_cold = Ret (r', CsReady)"
proof -
  obtain n1 where s1: "Sync (Inl ''down'') 16 (rcSrc ex_cold) = (n1, Inl ''keystone auth: down'')" "nClient n1 = None" using ex_cold_sync by blast
  obtain n2 where s2: "Sync (Inr ex_client) 16 n1 = (n2, Inr (resultFor 16 ex_trie_snapshot))"
    using s1(2) by (simp add: Sync_def fetchAll_def fatal_def optional_def ex_client_def record_err_def ex_trie_snapshot_def ex_snapshot_def)
  have none: "DesiredMACs ex_trie_snapshot = []" "AmphoraBaseIPs ex_trie_snapshot = []"
    by (simp_all add: DesiredMACs_def ex_trie_snapshot_def ex_snapshot_def AmphoraBaseIPs_def Let_def)
  have mac: "WriteMacTenantMap (bm_upd 16 {}) (Some []) (Some ShardedMetadataMap_New) (Some t) = ((Some [], Some t), 0, None)" for t
    by (simp add: WriteMacTenantMap_def Range_mac_pair flat_def ShardedMetadataMap_New_def tenanted_def Let_def)
  have aud: "auditPorts ex_trie_snapshot st = (st, 0)" for st by (simp add: auditPorts_def ex_trie_snapshot_def)
  show ?thesis
    using s1 s2 none mac ex_cold_trie aud
    by (simp add: coldStartNeutron_def sync_attempt_def isRetryableNeutronErr_def after_sync_def Let_def populateMetadataFromPorts_def
        pushToKernel_def ex_cold_def ex_reconciler_def ex_ops_def or_else_def WriteAmphoraBaseIPs_def enforceAmbiguityPolicy_def)
qed


end
