(* ===== verification/Kick.thy ===== *)
theory Kick
  imports Netip
begin

text \<open>
  What starts a reconcile pass: the Kafka consumer (\<^verbatim>\<open>internal/kafka\<close>) that turns Neutron notifications into
  kicks, and the loop of the reconciler (\<^verbatim>\<open>Run\<close>, \<^verbatim>\<open>Kick\<close> and \<^verbatim>\<open>timedPass\<close> of
  \<^verbatim>\<open>internal/reconcile/reconcile.go\<close>) that serves kicks after a debounce window and ticks at its interval. Each branch of the loop's \<^verbatim>\<open>select\<close> is a function of the
  loop's state; \<^verbatim>\<open>loop_step\<close> interleaves them with the callers of \<^verbatim>\<open>Kick\<close>, with live values of the knobs.
\<close>

section \<open>Notifications\<close>

definition HasSuffix :: "string \<Rightarrow> string \<Rightarrow> bool" where
  "HasSuffix s p \<longleftrightarrow> length p \<le> length s \<and> drop (length s - length p) s = p"

definition neutronPublisherPrefix :: string where "neutronPublisherPrefix = ''network''"
definition committedSuffix :: string where "committedSuffix = ''.end''"
definition metadataEventPrefixes :: "string list" where
  "metadataEventPrefixes = [''port.'', ''subnet.'', ''router.'', ''network.'']"

definition isNeutronChange :: "string \<Rightarrow> string \<Rightarrow> bool" where
  "isNeutronChange eventType publisherID =
    (if \<not> HasPrefix publisherID neutronPublisherPrefix then False
     else if \<not> HasSuffix eventType committedSuffix then False
     else list_ex (\<lambda>p. HasPrefix eventType p) metadataEventPrefixes)"

text \<open>
  \<^verbatim>\<open>encoding/json\<close> is two parameters: the envelope's message field, and the two routing fields of the inner message.
\<close>

definition decodeEvent :: "(string \<Rightarrow> string option) \<Rightarrow> (string \<Rightarrow> (string \<times> string) option) \<Rightarrow> string \<Rightarrow> (string \<times> string) option" where
  "decodeEvent outer inner value =
    (case outer value of
       None \<Rightarrow> None
     | Some msg \<Rightarrow> if msg = [] then None else inner msg)"

record consumer =
  cKicks :: nat
  cErrors :: nat
  cLag :: int
  cClosed :: bool

definition kafka_handle :: "(string \<Rightarrow> string option) \<Rightarrow> (string \<Rightarrow> (string \<times> string) option) \<Rightarrow> string \<Rightarrow> consumer \<Rightarrow> consumer" where
  "kafka_handle outer inner value c =
    (case decodeEvent outer inner value of
       None \<Rightarrow> c
     | Some (eventType, publisherID) \<Rightarrow> if isNeutronChange eventType publisherID then c\<lparr>cKicks := cKicks c + 1\<rparr> else c)"

text \<open>
  What one read returns: a message with the lag after it, or an error, with whether the context was cancelled then or during the pause.
\<close>

datatype read_result = Message string int | FetchError bool bool

fun consume :: "(string \<Rightarrow> string option) \<Rightarrow> (string \<Rightarrow> (string \<times> string) option) \<Rightarrow> read_result list \<Rightarrow> consumer \<Rightarrow> consumer \<times> bool" where
  "consume outer inner [] c = (c, False)"
| "consume outer inner (FetchError cancelled cancelledPause # rs) c =
    (if cancelled then (c\<lparr>cClosed := True\<rparr>, True)
     else if cancelledPause then (c\<lparr>cErrors := cErrors c + 1, cClosed := True\<rparr>, True)
     else consume outer inner rs (c\<lparr>cErrors := cErrors c + 1\<rparr>))"
| "consume outer inner (Message v lag # rs) c = consume outer inner rs ((kafka_handle outer inner v c)\<lparr>cLag := lag\<rparr>)"

text \<open>A read that brings a committed Neutron change.\<close>

fun is_change :: "(string \<Rightarrow> string option) \<Rightarrow> (string \<Rightarrow> (string \<times> string) option) \<Rightarrow> read_result \<Rightarrow> bool" where
  "is_change outer inner (Message v lag) = (case decodeEvent outer inner v of None \<Rightarrow> False | Some (e, p) \<Rightarrow> isNeutronChange e p)"
| "is_change outer inner (FetchError a b) = False"

lemma kafka_handle_kicks: "cKicks (kafka_handle outer inner v c) = cKicks c + (if is_change outer inner (Message v lag) then 1 else 0)"
  by (simp add: kafka_handle_def split: option.splits prod.splits)

text \<open>\<^verbatim>\<open>awaited\<close> is the error of the boot barrier, if any. The second component tells whether \<^verbatim>\<open>Run\<close> returned.\<close>

definition Consumer_Run :: "(string \<Rightarrow> string option) \<Rightarrow> (string \<Rightarrow> (string \<times> string) option) \<Rightarrow> string option \<Rightarrow> read_result list \<Rightarrow> consumer \<Rightarrow> consumer \<times> bool" where
  "Consumer_Run outer inner awaited rs c = (case awaited of Some err \<Rightarrow> (c, True) | None \<Rightarrow> consume outer inner rs c)"

section \<open>The loop\<close>

datatype trigger = TriggerTick | TriggerKick

definition kickMaxWait :: duration where "kickMaxWait = 5 * 1000000000"

text \<open>
  The kick channel holds one token; \<^verbatim>\<open>settleC\<close> is the time the settle timer fires, if a kick waits. \<^verbatim>\<open>lPass\<close> is
  the pass that runs. The last three fields record, for the proofs, whether a kick is newer than the start of the last pass, when
  the waiting burst began, and the passes so far.
\<close>

record kick_loop =
  kickPending :: bool
  settleC :: "gotime option"
  deadline :: gotime
  cur :: duration
  lPass :: "trigger option"
  kickTotal :: nat
  unserved :: bool
  burstStart :: gotime
  passes :: "(trigger \<times> gotime) list"

definition loop_start :: "duration \<Rightarrow> kick_loop" where
  "loop_start interval = \<lparr>kickPending = False, settleC = None, deadline = 0, cur = interval, lPass = None, kickTotal = 0, unserved = False, burstStart = 0, passes = []\<rparr>"

definition Kick :: "kick_loop \<Rightarrow> kick_loop" where
  "Kick r = r\<lparr>kickTotal := kickTotal r + 1, kickPending := True, unserved := True\<rparr>"

text \<open>A pass fetches its snapshot after it starts, so it sees every change announced before.\<close>

definition pass_begin :: "trigger \<Rightarrow> gotime \<Rightarrow> kick_loop \<Rightarrow> kick_loop" where
  "pass_begin tr now r = r\<lparr>lPass := Some tr, unserved := False, passes := passes r @ [(tr, now)]\<rparr>"

text \<open>The end of a round: the interval is read again.\<close>

definition round_end :: "duration \<Rightarrow> kick_loop \<Rightarrow> kick_loop" where
  "round_end interval r = (if interval \<noteq> cur r then r\<lparr>cur := interval\<rparr> else r)"

definition on_tick :: "gotime \<Rightarrow> kick_loop \<Rightarrow> kick_loop" where
  "on_tick now r = pass_begin TriggerTick now r"

definition tick_done :: "duration \<Rightarrow> kick_loop \<Rightarrow> kick_loop" where
  "tick_done interval r = round_end interval (r\<lparr>lPass := None, settleC := None\<rparr>)"

definition on_kick :: "duration \<Rightarrow> duration \<Rightarrow> duration \<Rightarrow> gotime \<Rightarrow> kick_loop \<Rightarrow> kick_loop" where
  "on_kick maxWait window interval now r =
    (let r1 = r\<lparr>kickPending := False\<rparr> in
     if window \<le> 0 then pass_begin TriggerKick now r1
     else let r2 = (if settleC r1 = None then r1\<lparr>deadline := now + maxWait, burstStart := now\<rparr> else r1)
          in round_end interval (r2\<lparr>settleC := Some (now + min window (deadline r2 - now))\<rparr>))"

definition on_settle :: "gotime \<Rightarrow> kick_loop \<Rightarrow> kick_loop" where
  "on_settle now r = pass_begin TriggerKick now (r\<lparr>settleC := None\<rparr>)"

definition kick_done :: "duration \<Rightarrow> kick_loop \<Rightarrow> kick_loop" where
  "kick_done interval r = round_end interval (r\<lparr>lPass := None\<rparr>)"

text \<open>
  A step of the loop or of a caller of \<^verbatim>\<open>Kick\<close>, at a time. The loop waits in its \<^verbatim>\<open>select\<close> exactly when no pass runs; a timer's value is received not before the timer's time.
\<close>

inductive loop_step :: "duration \<Rightarrow> gotime \<Rightarrow> kick_loop \<Rightarrow> kick_loop \<Rightarrow> bool" for maxWait where
  kick: "loop_step maxWait now r (Kick r)"
| tick: "lPass r = None \<Longrightarrow> loop_step maxWait now r (on_tick now r)"
| tick_done: "lPass r = Some TriggerTick \<Longrightarrow> loop_step maxWait now r (tick_done interval r)"
| receive: "lPass r = None \<Longrightarrow> kickPending r \<Longrightarrow> loop_step maxWait now r (on_kick maxWait window interval now r)"
| settle: "lPass r = None \<Longrightarrow> settleC r = Some t \<Longrightarrow> t \<le> now \<Longrightarrow> loop_step maxWait now r (on_settle now r)"
| kick_done: "lPass r = Some TriggerKick \<Longrightarrow> loop_step maxWait now r (kick_done interval r)"

text \<open>Runs: time does not run backwards.\<close>

inductive loop_run :: "duration \<Rightarrow> kick_loop \<Rightarrow> gotime \<Rightarrow> kick_loop \<Rightarrow> gotime \<Rightarrow> bool" for maxWait where
  start: "loop_run maxWait r t r t"
| step: "loop_run maxWait r t r' t' \<Longrightarrow> t' \<le> t'' \<Longrightarrow> loop_step maxWait t'' r' r'' \<Longrightarrow> loop_run maxWait r t r'' t''"

inductive_cases loop_step_cases: "loop_step maxWait now r r'"

section \<open>Invariant\<close>

text \<open>
  A kick that is newer than the last pass is in the channel or waits for the settle timer; during a pass it is in the
  channel. An armed timer fires at most \<^verbatim>\<open>maxWait\<close> after the burst began.
\<close>

definition loop_inv :: "duration \<Rightarrow> gotime \<Rightarrow> kick_loop \<Rightarrow> bool" where
  "loop_inv maxWait now r \<longleftrightarrow>
    (unserved r \<longrightarrow> kickPending r \<or> (lPass r = None \<and> settleC r \<noteq> None))
    \<and> (\<forall>t. settleC r = Some t \<longrightarrow> t \<le> burstStart r + maxWait \<and> deadline r = burstStart r + maxWait \<and> burstStart r \<le> now)"

lemmas loop_defs = Kick_def pass_begin_def round_end_def on_tick_def tick_done_def on_kick_def on_settle_def kick_done_def

lemma loop_inv_later: "loop_inv maxWait now r \<Longrightarrow> now \<le> now' \<Longrightarrow> loop_inv maxWait now' r"
  by (fastforce simp: loop_inv_def)

lemma loop_inv_step:
  assumes "loop_step maxWait now r r'" "loop_inv maxWait now r"
  shows "loop_inv maxWait now r'"
  using assms by (cases rule: loop_step.cases) (auto simp: loop_inv_def loop_defs Let_def)

lemma loop_inv_run: "loop_run maxWait r t r' t' \<Longrightarrow> loop_inv maxWait t r \<Longrightarrow> loop_inv maxWait t' r'"
  by (induction rule: loop_run.induct) (blast intro: loop_inv_step loop_inv_later)+

lemma loop_inv_start: "loop_inv maxWait t (loop_start interval)"
  by (simp add: loop_inv_def loop_start_def)

lemma loop_run_time: "loop_run maxWait r t r' t' \<Longrightarrow> t \<le> t'"
  by (induction rule: loop_run.induct) auto

lemma loop_run_passes: "loop_run maxWait r t r' t' \<Longrightarrow> \<exists>ps. passes r' = passes r @ ps"
proof (induction rule: loop_run.induct)
  case (step r t r' t' t'' r'')
  then show ?case by (cases rule: loop_step.cases[OF step.hyps(3)]) (auto simp: loop_defs Let_def)
qed simp

text \<open>While no pass starts, the burst keeps its deadline, whatever kicks arrive.\<close>

lemma burst_kept:
  assumes "loop_run maxWait r t r' t'" "passes r' = passes r" "lPass r = None" "settleC r = Some s" "loop_inv maxWait t r"
  shows "lPass r' = None \<and> (\<exists>s'. settleC r' = Some s') \<and> burstStart r' = burstStart r"
  using assms
proof (induction rule: loop_run.induct)
  case (step r t r1 t1 t2 r2)
  obtain ps where ps: "passes r1 = passes r @ ps" using loop_run_passes[OF step.hyps(1)] by blast
  obtain qs where qs: "passes r2 = passes r1 @ qs" using loop_run_passes[OF loop_run.step[OF loop_run.start step.hyps(2,3)]] by blast
  have "passes r1 = passes r" using ps qs step.prems(1) by simp
  then have IH: "lPass r1 = None" "\<exists>s'. settleC r1 = Some s'" "burstStart r1 = burstStart r" using step.IH step.prems by auto
  show ?case using step.hyps(3) IH \<open>passes r1 = passes r\<close> step.prems(1)
    by (cases rule: loop_step.cases) (auto simp: loop_defs Let_def)
qed simp

lemma serve_settled:
  assumes "lPass r = None" "settleC r = Some s"
  shows "loop_run maxWait r t (on_settle (max t s) r) (max t s)"
  by (rule loop_run.step[OF loop_run.start]) (use assms in \<open>auto intro: loop_step.settle\<close>)

lemma loop_run_trans: "loop_run maxWait r2 t2 r3 t3 \<Longrightarrow> loop_run maxWait r1 t1 r2 t2 \<Longrightarrow> loop_run maxWait r1 t1 r3 t3"
  by (induction rule: loop_run.induct) (auto intro: loop_run.step)

lemma serve_pending:
  assumes "lPass r = None" "kickPending r" "loop_inv maxWait t r" "0 \<le> maxWait"
  shows "\<exists>r' t'. loop_run maxWait r t r' t' \<and> \<not> unserved r' \<and> passes r' \<noteq> passes r \<and> t' \<le> t + maxWait"
proof -
  define r1 where "r1 = on_kick maxWait 1 (cur r) t r"
  have 1: "loop_run maxWait r t r1 t"
    unfolding r1_def by (rule loop_run.step[OF loop_run.start order_refl loop_step.receive[OF assms(1,2)]])
  obtain s where s: "settleC r1 = Some s" "s \<le> t + maxWait" "lPass r1 = None" "passes r1 = passes r"
    using assms(1,3) by (cases "settleC r") (simp_all add: r1_def on_kick_def round_end_def Let_def loop_inv_def min.coboundedI2)
  have "loop_run maxWait r t (on_settle (max t s) r1) (max t s)" by (rule loop_run_trans[OF serve_settled[OF s(3,1)] 1])
  then show ?thesis using s assms(4) by (intro exI[of _ "on_settle (max t s) r1"] exI[of _ "max t s"]) (simp add: on_settle_def pass_begin_def)
qed

section \<open>Properties\<close>



text \<open>
  The consumer kicks once for each committed Neutron change it reads and for nothing else, not at all before the boot
  barrier, and returns only when it is cancelled or the boot fails.
\<close>

theorem consumer_kicks_exact:
  "cKicks (fst (Consumer_Run outer inner awaited rs c)) \<le> cKicks c + length (filter (is_change outer inner) rs)
   \<and> (awaited \<noteq> None \<longrightarrow> fst (Consumer_Run outer inner awaited rs c) = c)
   \<and> (awaited = None \<longrightarrow> \<not> snd (Consumer_Run outer inner awaited rs c) \<longrightarrow>
        cKicks (fst (Consumer_Run outer inner awaited rs c)) = cKicks c + length (filter (is_change outer inner) rs))
   \<and> (snd (Consumer_Run outer inner awaited rs c) \<longrightarrow> awaited \<noteq> None \<or> (\<exists>a b. FetchError a b \<in> set rs \<and> (a \<or> b)))"
proof (cases awaited)
  case None
  have "cKicks (fst (consume outer inner rs c)) \<le> cKicks c + length (filter (is_change outer inner) rs)
   \<and> (\<not> snd (consume outer inner rs c) \<longrightarrow> cKicks (fst (consume outer inner rs c)) = cKicks c + length (filter (is_change outer inner) rs))
   \<and> (snd (consume outer inner rs c) \<longrightarrow> (\<exists>a b. FetchError a b \<in> set rs \<and> (a \<or> b)))"
  proof (induction rs arbitrary: c)
    case (Cons x rs)
    show ?case
    proof (cases x)
      case (Message v lag)
      have "cKicks ((kafka_handle outer inner v c)\<lparr>cLag := lag\<rparr>) = cKicks c + (if is_change outer inner x then 1 else 0)"
        using kafka_handle_kicks[of outer inner v c lag] Message by simp
      then show ?thesis using Cons.IH[of "(kafka_handle outer inner v c)\<lparr>cLag := lag\<rparr>"] Message
        by (cases "is_change outer inner x") (fastforce simp del: is_change.simps)+
    next
      case (FetchError a b)
      then show ?thesis using Cons.IH[of "c\<lparr>cErrors := cErrors c + 1\<rparr>"] by auto
    qed
  qed simp
  with None show ?thesis by (simp add: Consumer_Run_def)
qed (simp add: Consumer_Run_def)

end
