(* ===== verification/Tc_Attach.thy ===== *)
theory Tc_Attach
  imports Bpf_Abi
begin

text \<open>
  Binding the telemetry programs to a link (\<^verbatim>\<open>internal/tcattach\<close>) and the hunt for filters a previous run
  left behind (\<^verbatim>\<open>internal/zombie\<close>). The calls of the netlink library on the kernel's traffic control are a
  record of operations on a kernel state; a listing may be interrupted, so it takes the number of the
  attempt. The locale \<^verbatim>\<open>tc_kernel\<close> states what the kernel promises of them.
\<close>

section \<open>Filters and hooks\<close>

datatype direction = Ingress | Egress | BadDirection int

text \<open>A filter on a hook: whether it is a BPF filter, its name, handle and priority, and its program.\<close>

record tc_filter =
  fBpf :: bool
  fName :: string
  fHandle :: nat
  fPriority :: nat
  fProg :: nat

definition FilterHandle :: nat where "FilterHandle = 1"
definition FilterPriority :: nat where "FilterPriority = 1"
definition FilterIngressName :: string where "FilterIngressName = ''telemetry_in''"
definition FilterEgressName :: string where "FilterEgressName = ''telemetry_out''"

definition HandleMinIngress :: u32 where "HandleMinIngress = 0xFFFFFFF2"
definition HandleMinEgress :: u32 where "HandleMinEgress = 0xFFFFFFF3"

record hook =
  hName :: string
  hParent :: u32

definition Hooks :: "hook list" where
  "Hooks = [\<lparr>hName = FilterIngressName, hParent = HandleMinIngress\<rparr>, \<lparr>hName = FilterEgressName, hParent = HandleMinEgress\<rparr>]"

record link =
  lName :: string
  lIndex :: int
  lType :: string

datatype list_error = DumpInterrupted | ListError string

record 'k tc_ops =
  qdisc_replace :: "int \<Rightarrow> 'k \<Rightarrow> string option \<times> 'k"
  filter_replace :: "int \<Rightarrow> u32 \<Rightarrow> tc_filter \<Rightarrow> 'k \<Rightarrow> string option \<times> 'k"
  filter_del :: "int \<Rightarrow> u32 \<Rightarrow> tc_filter \<Rightarrow> 'k \<Rightarrow> string option \<times> 'k"
  filter_list :: "nat \<Rightarrow> int \<Rightarrow> u32 \<Rightarrow> 'k \<Rightarrow> tc_filter list \<times> list_error option"

section \<open>Attach\<close>

definition ensureClsact :: "'k tc_ops \<Rightarrow> link \<Rightarrow> 'k \<Rightarrow> string option \<times> 'k" where
  "ensureClsact ops l k =
    (case qdisc_replace ops (lIndex l) k of
       (Some err, k') \<Rightarrow> (Some (''tcattach: clsact qdisc on '' @ lName l @ '': '' @ err), k')
     | (None, k') \<Rightarrow> (None, k'))"

fun parentTCHandle :: "direction \<Rightarrow> string + u32" where
  "parentTCHandle Ingress = Inr HandleMinIngress"
| "parentTCHandle Egress = Inr HandleMinEgress"
| "parentTCHandle (BadDirection n) = Inl ''tcattach: bad direction''"

definition replaceFilter :: "'k tc_ops \<Rightarrow> link \<Rightarrow> nat \<Rightarrow> direction \<Rightarrow> string \<Rightarrow> 'k \<Rightarrow> string option \<times> 'k" where
  "replaceFilter ops l prog dir name k =
    (case parentTCHandle dir of
       Inl err \<Rightarrow> (Some err, k)
     | Inr parent \<Rightarrow>
         (case filter_replace ops (lIndex l) parent \<lparr>fBpf = True, fName = name, fHandle = FilterHandle, fPriority = FilterPriority, fProg = prog\<rparr> k of
            (Some err, k') \<Rightarrow> (Some (''tcattach: attach '' @ name @ '' on '' @ lName l @ '': '' @ err), k')
          | (None, k') \<Rightarrow> (None, k')))"

definition removeFilter :: "'k tc_ops \<Rightarrow> link \<Rightarrow> direction \<Rightarrow> 'k \<Rightarrow> string option \<times> 'k" where
  "removeFilter ops l dir k =
    (case parentTCHandle dir of
       Inl err \<Rightarrow> (Some err, k)
     | Inr parent \<Rightarrow>
         (case filter_del ops (lIndex l) parent \<lparr>fBpf = True, fName = [], fHandle = FilterHandle, fPriority = FilterPriority, fProg = 0\<rparr> k of
            (Some err, k') \<Rightarrow> (Some (''tcattach: remove filter on '' @ lName l @ '': '' @ err), k')
          | (None, k') \<Rightarrow> (None, k')))"

definition Replace :: "'k tc_ops \<Rightarrow> link \<Rightarrow> nat \<Rightarrow> direction \<Rightarrow> string \<Rightarrow> 'k \<Rightarrow> string option \<times> 'k" where
  "Replace ops l prog dir name k =
    (case ensureClsact ops l k of
       (Some err, k') \<Rightarrow> (Some err, k')
     | (None, k') \<Rightarrow> replaceFilter ops l prog dir name k')"

definition AttachTelemetry :: "'k tc_ops \<Rightarrow> nat \<Rightarrow> nat \<Rightarrow> link \<Rightarrow> 'k \<Rightarrow> string option \<times> 'k" where
  "AttachTelemetry ops ingress egress l k =
    (case Replace ops l ingress Ingress FilterIngressName k of
       (Some err, k1) \<Rightarrow> (Some err, k1)
     | (None, k1) \<Rightarrow>
         (case Replace ops l egress Egress FilterEgressName k1 of
            (Some err, k2) \<Rightarrow> (Some err, snd (removeFilter ops l Ingress k2))
          | (None, k2) \<Rightarrow> (None, k2)))"

section \<open>Presence\<close>

definition IsTelemetryFilterName :: "string \<Rightarrow> bool" where
  "IsTelemetryFilterName name = (\<exists>h\<in>set Hooks. name = hName h)"

definition telemetryFilter :: "tc_filter \<Rightarrow> bool" where
  "telemetryFilter f = (fBpf f \<and> IsTelemetryFilterName (fName f))"

definition hookFilters :: "'k tc_ops \<Rightarrow> link \<Rightarrow> u32 \<Rightarrow> 'k \<Rightarrow> tc_filter list \<times> list_error option" where
  "hookFilters ops l parent k =
    (let first = filter_list ops 0 (lIndex l) parent k;
         res = (if snd first = Some DumpInterrupted then filter_list ops 1 (lIndex l) parent k else first)
     in case res of (filters, err) \<Rightarrow>
          (if err \<noteq> None \<and> err \<noteq> Some DumpInterrupted then ([], None)
           else (filter telemetryFilter filters, err)))"

definition TelemetryFilters :: "'k tc_ops \<Rightarrow> link \<Rightarrow> 'k \<Rightarrow> (u32 \<times> tc_filter) list" where
  "TelemetryFilters ops l k = concat (map (\<lambda>h. map (\<lambda>f. (hParent h, f)) (fst (hookFilters ops l (hParent h) k))) Hooks)"

definition in_slot :: "hook \<Rightarrow> tc_filter \<Rightarrow> bool" where
  "in_slot h f \<longleftrightarrow> fName f = hName h \<and> fHandle f = FilterHandle \<and> fPriority f = FilterPriority"

fun has_hooks :: "'k tc_ops \<Rightarrow> link \<Rightarrow> 'k \<Rightarrow> hook list \<Rightarrow> list_error + bool" where
  "has_hooks ops l k [] = Inr True"
| "has_hooks ops l k (h # hs) =
    (case hookFilters ops l (hParent h) k of
       (fs, Some err) \<Rightarrow> Inl err
     | (fs, None) \<Rightarrow> if \<not> (\<exists>f\<in>set fs. in_slot h f) then Inr False else has_hooks ops l k hs)"

definition HasTelemetry :: "'k tc_ops \<Rightarrow> link \<Rightarrow> 'k \<Rightarrow> list_error + bool" where
  "HasTelemetry ops l k = has_hooks ops l k Hooks"

section \<open>The hunt\<close>

fun hunt_filters :: "'k tc_ops \<Rightarrow> link \<Rightarrow> (u32 \<times> tc_filter) list \<Rightarrow> 'k \<times> nat \<times> string list \<Rightarrow> 'k \<times> nat \<times> string list" where
  "hunt_filters ops l [] st = st"
| "hunt_filters ops l ((parent, f) # fs) (k, cleaned, errs) =
    (case filter_del ops (lIndex l) parent f k of
       (Some err, k') \<Rightarrow> hunt_filters ops l fs (k', cleaned, errs @ [err])
     | (None, k') \<Rightarrow> hunt_filters ops l fs (k', cleaned + 1, errs))"

fun hunt_links :: "'k tc_ops \<Rightarrow> link list \<Rightarrow> 'k \<times> nat \<times> string list \<Rightarrow> 'k \<times> nat \<times> string list" where
  "hunt_links ops [] st = st"
| "hunt_links ops (l # ls) (k, cleaned, errs) = hunt_links ops ls (hunt_filters ops l (TelemetryFilters ops l k) (k, cleaned, errs))"

text \<open>The error carries how many deletes failed and why.\<close>

definition Hunt :: "'k tc_ops \<Rightarrow> string + link list \<Rightarrow> 'k \<Rightarrow> 'k \<times> nat \<times> string list option" where
  "Hunt ops links k =
    (case links of
       Inl err \<Rightarrow> (k, 0, Some [''zombie: list links: '' @ err])
     | Inr ls \<Rightarrow> (case hunt_links ops ls (k, 0, []) of (k', cleaned, errs) \<Rightarrow> (k', cleaned, if errs \<noteq> [] then Some errs else None)))"

section \<open>What the kernel promises\<close>

definition slot_of :: "tc_filter \<Rightarrow> nat \<times> nat" where
  "slot_of f = (fPriority f, fHandle f)"

definition put_slot :: "tc_filter \<Rightarrow> tc_filter list \<Rightarrow> tc_filter list" where
  "put_slot f fs = f # filter (\<lambda>g. slot_of g \<noteq> slot_of f) fs"

definition del_slot :: "tc_filter \<Rightarrow> tc_filter list \<Rightarrow> tc_filter list" where
  "del_slot f fs = filter (\<lambda>g. slot_of g \<noteq> slot_of f) fs"

lemma parents_differ: "HandleMinIngress \<noteq> HandleMinEgress"
  by (simp add: HandleMinIngress_def HandleMinEgress_def)

text \<open>A link carries the telemetry programs when each hook has the agent's filter in the agent's slot.\<close>

definition carries :: "('k \<Rightarrow> int \<Rightarrow> u32 \<Rightarrow> tc_filter list) \<Rightarrow> 'k \<Rightarrow> link \<Rightarrow> bool" where
  "carries filters k l \<longleftrightarrow> (\<forall>h\<in>set Hooks. \<exists>f\<in>set (filters k (lIndex l) (hParent h)). fBpf f \<and> in_slot h f)"

text \<open>
  \<^verbatim>\<open>filters k i p\<close> is what hook p of the link with index i holds. A failed call changes no filter; a
  replace puts its filter in its slot (priority and handle), a delete empties the slot; a listing that
  reports no error is exact.
\<close>

locale tc_kernel =
  fixes ops :: "'k tc_ops" and filters :: "'k \<Rightarrow> int \<Rightarrow> u32 \<Rightarrow> tc_filter list"
  assumes qdisc_keeps: "qdisc_replace ops i k = (r, k') \<Longrightarrow> filters k' = filters k"
    and replace_ok: "filter_replace ops i p f k = (None, k') \<Longrightarrow> filters k' = (filters k)(i := (filters k i)(p := put_slot f (filters k i p)))"
    and replace_err: "filter_replace ops i p f k = (Some e, k') \<Longrightarrow> filters k' = filters k"
    and del_ok: "filter_del ops i p f k = (None, k') \<Longrightarrow> filters k' = (filters k)(i := (filters k i)(p := del_slot f (filters k i p)))"
    and del_err: "filter_del ops i p f k = (Some e, k') \<Longrightarrow> filters k' = filters k"
    and list_exact: "filter_list ops n i p k = (fs, None) \<Longrightarrow> set fs = set (filters k i p)"
begin

lemma replaceFilter_ok:
  assumes "replaceFilter ops l prog dir name k = (None, k')" "parentTCHandle dir = Inr p"
  shows "filters k' = (filters k)(lIndex l := (filters k (lIndex l))(p := put_slot \<lparr>fBpf = True, fName = name, fHandle = FilterHandle, fPriority = FilterPriority, fProg = prog\<rparr> (filters k (lIndex l) p)))"
  using assms replace_ok by (auto simp: replaceFilter_def split: prod.splits option.splits)

lemma replaceFilter_err:
  assumes "replaceFilter ops l prog dir name k = (Some e, k')"
  shows "filters k' = filters k"
  using assms replace_err by (auto simp: replaceFilter_def split: prod.splits option.splits sum.splits)

lemma ensureClsact_keeps:
  assumes "ensureClsact ops l k = (r, k')"
  shows "filters k' = filters k"
  using assms qdisc_keeps by (auto simp: ensureClsact_def split: prod.splits option.splits)

lemma Replace_ok:
  assumes "Replace ops l prog dir name k = (None, k')" "parentTCHandle dir = Inr p"
  shows "filters k' = (filters k)(lIndex l := (filters k (lIndex l))(p := put_slot \<lparr>fBpf = True, fName = name, fHandle = FilterHandle, fPriority = FilterPriority, fProg = prog\<rparr> (filters k (lIndex l) p)))"
proof -
  obtain r k1 where q: "ensureClsact ops l k = (r, k1)" by (cases "ensureClsact ops l k")
  with assms(1) have "replaceFilter ops l prog dir name k1 = (None, k')"
    by (cases r) (auto simp: Replace_def)
  from replaceFilter_ok[OF this assms(2)] show ?thesis by (simp add: ensureClsact_keeps[OF q])
qed

lemma Replace_err:
  assumes "Replace ops l prog dir name k = (Some e, k')"
  shows "filters k' = filters k"
proof -
  obtain r k1 where q: "ensureClsact ops l k = (r, k1)" by (cases "ensureClsact ops l k")
  with assms have "k' = k1 \<or> replaceFilter ops l prog dir name k1 = (Some e, k')"
    by (cases r) (auto simp: Replace_def)
  then show ?thesis using replaceFilter_err ensureClsact_keeps[OF q] by fastforce
qed

lemma del_frame:
  assumes "filter_del ops i p f k = (r, k')" "(j, q) \<noteq> (i, p)"
  shows "filters k' j q = filters k j q"
  using assms del_ok[of i p f k k'] del_err[of i p f k _ k'] by (cases r) auto

lemma del_subset:
  assumes "filter_del ops i p f k = (r, k')"
  shows "set (filters k' j q) \<subseteq> set (filters k j q)"
  using assms del_ok[of i p f k k'] del_err[of i p f k _ k'] by (cases r) (auto simp: del_slot_def)

lemma del_keeps:
  assumes "filter_del ops i p f k = (r, k')" "g \<in> set (filters k j q)" "(j, q) = (i, p) \<Longrightarrow> slot_of g \<noteq> slot_of f"
  shows "g \<in> set (filters k' j q)"
  using assms del_ok[of i p f k k'] del_err[of i p f k _ k'] by (cases r) (auto simp: del_slot_def)

lemma removeFilter_del:
  assumes "removeFilter ops l dir k = (r, k')" "parentTCHandle dir = Inr p"
  obtains f r' where "filter_del ops (lIndex l) p f k = (r', k')" "slot_of f = (FilterPriority, FilterHandle)" "r' = None \<longleftrightarrow> r = None"
proof -
  let ?f = "\<lparr>fBpf = True, fName = [], fHandle = FilterHandle, fPriority = FilterPriority, fProg = 0\<rparr>"
  obtain r' k1 where d: "filter_del ops (lIndex l) p ?f k = (r', k1)" by (cases "filter_del ops (lIndex l) p ?f k")
  with assms have "k' = k1" "r' = None \<longleftrightarrow> r = None" by (cases r'; auto simp: removeFilter_def)+
  with d show thesis by (auto intro!: that[of ?f r'] simp: slot_of_def)
qed

lemma removeFilter_frame:
  assumes "removeFilter ops l dir k = (r, k')" "parentTCHandle dir = Inr p" "(j, q) \<noteq> (lIndex l, p)"
  shows "filters k' j q = filters k j q"
  by (rule removeFilter_del[OF assms(1,2)]) (rule del_frame[OF _ assms(3)])

lemma removeFilter_ok:
  assumes "removeFilter ops l dir k = (None, k')" "parentTCHandle dir = Inr p"
  shows "\<forall>f\<in>set (filters k' (lIndex l) p). slot_of f \<noteq> (FilterPriority, FilterHandle)"
  by (rule removeFilter_del[OF assms]) (auto dest: del_ok simp: del_slot_def)

lemma removeFilter_others:
  assumes "removeFilter ops l dir k = (r, k')" "parentTCHandle dir = Inr p" "slot_of g \<noteq> (FilterPriority, FilterHandle)"
  shows "g \<in> set (filters k' j q) \<longleftrightarrow> g \<in> set (filters k j q)"
  by (rule removeFilter_del[OF assms(1,2)]) (use del_subset del_keeps assms(3) in \<open>metis subsetD\<close>)

lemma AttachTelemetry_ok:
  assumes "AttachTelemetry ops ingress egress l k = (None, k')"
  defines "i \<equiv> lIndex l"
  defines "fi \<equiv> \<lparr>fBpf = True, fName = FilterIngressName, fHandle = FilterHandle, fPriority = FilterPriority, fProg = ingress\<rparr>"
  defines "fe \<equiv> \<lparr>fBpf = True, fName = FilterEgressName, fHandle = FilterHandle, fPriority = FilterPriority, fProg = egress\<rparr>"
  shows "filters k' = (filters k)(i := (filters k i)(HandleMinIngress := put_slot fi (filters k i HandleMinIngress),
                                                    HandleMinEgress := put_slot fe (filters k i HandleMinEgress)))"
proof -
  obtain r k1 where 1: "Replace ops l ingress Ingress FilterIngressName k = (r, k1)" by (cases "Replace ops l ingress Ingress FilterIngressName k")
  with assms(1) have r: "r = None" by (cases r) (auto simp: AttachTelemetry_def)
  with 1 assms(1) have 2: "Replace ops l egress Egress FilterEgressName k1 = (None, k')"
    by (auto simp: AttachTelemetry_def split: prod.splits option.splits)
  show ?thesis
    using parents_differ Replace_ok[OF 1[unfolded r], of HandleMinIngress] Replace_ok[OF 2, of HandleMinEgress]
    by (simp add: i_def fi_def fe_def)
qed

lemma AttachTelemetry_hooks:
  assumes "AttachTelemetry ops ingress egress l k = (r, k')" "j \<noteq> lIndex l \<or> q \<notin> {HandleMinIngress, HandleMinEgress}"
  shows "filters k' j q = filters k j q"
proof -
  obtain r1 k1 where 1: "Replace ops l ingress Ingress FilterIngressName k = (r1, k1)" by (cases "Replace ops l ingress Ingress FilterIngressName k")
  obtain r2 k2 where 2: "Replace ops l egress Egress FilterEgressName k1 = (r2, k2)" by (cases "Replace ops l egress Egress FilterEgressName k1")
  obtain r3 k3 where 3: "removeFilter ops l Ingress k2 = (r3, k3)" by (cases "removeFilter ops l Ingress k2")
  have f1: "filters k1 j q = filters k j q"
    using 1 Replace_err Replace_ok[of l ingress Ingress FilterIngressName k k1 HandleMinIngress] assms(2) by (cases r1) auto
  have f2: "filters k2 j q = filters k1 j q"
    using 2 Replace_err Replace_ok[of l egress Egress FilterEgressName k1 k2 HandleMinEgress] assms(2) by (cases r2) auto
  have f3: "filters k3 j q = filters k2 j q"
    using removeFilter_frame[OF 3, of HandleMinIngress j q] assms(2) by auto
  show ?thesis using assms(1) 1 2 3 f1 f2 f3 by (cases r1; cases r2) (auto simp: AttachTelemetry_def)
qed

lemma AttachTelemetry_frame:
  assumes "AttachTelemetry ops ingress egress l k = (r, k')" "j \<noteq> lIndex l"
  shows "filters k' j = filters k j"
  using AttachTelemetry_hooks[OF assms(1)] assms(2) by (intro ext) blast

lemma AttachTelemetry_carries:
  assumes "AttachTelemetry ops ingress egress l k = (None, k')"
  shows "carries filters k' l"
  using AttachTelemetry_ok[OF assms] parents_differ by (simp add: carries_def Hooks_def put_slot_def in_slot_def)

lemma carries_frame:
  assumes "AttachTelemetry ops ingress egress l k = (r, k')" "lIndex l' \<noteq> lIndex l"
  shows "carries filters k' l' = carries filters k l'"
  using AttachTelemetry_frame[OF assms] by (simp add: carries_def)

lemma hookFilters_sound:
  assumes "hookFilters ops l p k = (fs, None)"
  shows "set fs \<subseteq> {f \<in> set (filters k (lIndex l) p). telemetryFilter f}"
  using assms list_exact[of 0 "lIndex l" p k] list_exact[of 1 "lIndex l" p k]
  by (auto simp: hookFilters_def Let_def split: if_splits prod.splits)

lemma has_hooks_sound:
  assumes "has_hooks ops l k hs = Inr True"
  shows "\<forall>h\<in>set hs. \<exists>f\<in>set (filters k (lIndex l) (hParent h)). fBpf f \<and> in_slot h f"
  using assms hookFilters_sound
  by (induction hs) (fastforce simp: telemetryFilter_def split: if_splits prod.splits option.splits)+

lemma HasTelemetry_carries: "HasTelemetry ops l k = Inr True \<Longrightarrow> carries filters k l"
  using has_hooks_sound unfolding HasTelemetry_def carries_def by blast

subsection \<open>The hunt\<close>

lemma hunt_filters_step:
  assumes "hunt_filters ops l ((p, f) # fs) (k, c, es) = st"
  obtains r k1 where "filter_del ops (lIndex l) p f k = (r, k1)"
    "hunt_filters ops l fs (k1, (case r of None \<Rightarrow> c + 1 | Some e \<Rightarrow> c), (case r of None \<Rightarrow> es | Some e \<Rightarrow> es @ [e])) = st"
  using assms by (cases "filter_del ops (lIndex l) p f k"; cases "fst (filter_del ops (lIndex l) p f k)") auto

lemma hunt_filters_subset:
  assumes "hunt_filters ops l fs (k, c, es) = (k', c', es')"
  shows "set (filters k' j q) \<subseteq> set (filters k j q)"
  using assms
proof (induction fs arbitrary: k c es)
  case (Cons a fs)
  obtain p f where a: "a = (p, f)" by (cases a)
  show ?case using Cons.prems[unfolded a]
    by (rule hunt_filters_step) (use Cons.IH del_subset in blast)
qed simp

lemma hunt_filters_count:
  assumes "hunt_filters ops l fs (k, c, es) = (k', c', es')"
  shows "length es' + c' = length es + c + length fs \<and> length es \<le> length es'"
  using assms
proof (induction fs arbitrary: k c es)
  case (Cons a fs)
  obtain p f where a: "a = (p, f)" by (cases a)
  show ?case using Cons.prems[unfolded a]
  proof (rule hunt_filters_step)
    fix r k1
    assume "hunt_filters ops l fs (k1, (case r of None \<Rightarrow> c + 1 | Some e \<Rightarrow> c), (case r of None \<Rightarrow> es | Some e \<Rightarrow> es @ [e])) = (k', c', es')"
    from Cons.IH[OF this] show ?thesis by (cases r) auto
  qed
qed simp

lemma hunt_filters_errs:
  assumes "hunt_filters ops l fs (k, c, es) = (k', c', es')"
  shows "take (length es) es' = es"
  using assms
proof (induction fs arbitrary: k c es)
  case (Cons a fs)
  obtain p f where a: "a = (p, f)" by (cases a)
  show ?case using Cons.prems[unfolded a]
  proof (rule hunt_filters_step)
    fix r k1
    assume "hunt_filters ops l fs (k1, (case r of None \<Rightarrow> c + 1 | Some e \<Rightarrow> c), (case r of None \<Rightarrow> es | Some e \<Rightarrow> es @ [e])) = (k', c', es')"
    from Cons.IH[OF this] show ?thesis
      by (cases r) (auto dest: arg_cong[where f="take (length es)"] simp: min_def)
  qed
qed simp

lemma hunt_filters_clean:
  assumes "hunt_filters ops l fs (k, c, es) = (k', c', es)" "(p, f) \<in> set fs" "g \<in> set (filters k' (lIndex l) p)"
  shows "slot_of g \<noteq> slot_of f"
  using assms(1,2)
proof (induction fs arbitrary: k c)
  case (Cons a fs)
  obtain p1 f1 where a: "a = (p1, f1)" by (cases a)
  show ?case using Cons.prems(1)[unfolded a]
  proof (rule hunt_filters_step)
    fix r k1
    assume d: "filter_del ops (lIndex l) p1 f1 k = (r, k1)"
      and rec: "hunt_filters ops l fs (k1, (case r of None \<Rightarrow> c + 1 | Some e \<Rightarrow> c), (case r of None \<Rightarrow> es | Some e \<Rightarrow> es @ [e])) = (k', c', es)"
    have r: "r = None" using hunt_filters_count[OF rec] by (cases r) auto
    have "\<forall>h\<in>set (filters k1 (lIndex l) p1). slot_of h \<noteq> slot_of f1"
      using del_ok[of "lIndex l" p1 f1 k k1] d r by (auto simp: del_slot_def)
    then have head: "p = p1 \<Longrightarrow> slot_of g \<noteq> slot_of f1"
      using hunt_filters_subset[OF rec] assms(3) by blast
    show ?thesis using Cons.IH[of k1 "c + 1"] Cons.prems(2) rec head r a by auto
  qed
qed simp

lemma hunt_filters_keeps:
  assumes "hunt_filters ops l fs (k, c, es) = (k', c', es')" "g \<in> set (filters k j q)"
    and "\<And>f. \<lbrakk>j = lIndex l; (q, f) \<in> set fs\<rbrakk> \<Longrightarrow> slot_of g \<noteq> slot_of f"
  shows "g \<in> set (filters k' j q)"
  using assms
proof (induction fs arbitrary: k c es)
  case (Cons a fs)
  obtain p1 f1 where a: "a = (p1, f1)" by (cases a)
  show ?case using Cons.prems(1)[unfolded a]
  proof (rule hunt_filters_step)
    fix r k1
    assume d: "filter_del ops (lIndex l) p1 f1 k = (r, k1)"
      and rec: "hunt_filters ops l fs (k1, (case r of None \<Rightarrow> c + 1 | Some e \<Rightarrow> c), (case r of None \<Rightarrow> es | Some e \<Rightarrow> es @ [e])) = (k', c', es')"
    have "g \<in> set (filters k1 j q)" by (rule del_keeps[OF d Cons.prems(2)]) (use Cons.prems(3) a in auto)
    from Cons.IH[OF rec this] Cons.prems(3) show ?thesis by auto
  qed
qed simp

end

text \<open>
  A kernel whose listings the hunt can use: a second attempt is not interrupted, and a listing fails
  only on a hook that holds no filter (most links have no clsact qdisc). An interrupted or failed
  listing shows nothing the hook does not hold.
\<close>

definition listings_settle :: "'k tc_ops \<Rightarrow> ('k \<Rightarrow> int \<Rightarrow> u32 \<Rightarrow> tc_filter list) \<Rightarrow> bool" where
  "listings_settle ops filters \<longleftrightarrow>
    (\<forall>n i p k. (snd (filter_list ops n i p k) = Some DumpInterrupted \<longrightarrow> n = 0)
       \<and> (\<forall>e. snd (filter_list ops n i p k) = Some (ListError e) \<longrightarrow> filters k i p = []))"

context tc_kernel
begin

lemma hookFilters_exact:
  assumes "listings_settle ops filters"
  shows "set (fst (hookFilters ops l p k)) = {f \<in> set (filters k (lIndex l) p). telemetryFilter f}"
proof -
  have q: "snd (filter_list ops n i p k) = Some DumpInterrupted \<Longrightarrow> n = 0"
    "snd (filter_list ops n i p k) = Some (ListError e) \<Longrightarrow> filters k i p = []" for n i p k e
    using assms unfolding listings_settle_def by (simp, metis)
  obtain fs0 e0 where 0: "filter_list ops 0 (lIndex l) p k = (fs0, e0)" by (cases "filter_list ops 0 (lIndex l) p k")
  obtain fs1 e1 where 1: "filter_list ops 1 (lIndex l) p k = (fs1, e1)" by (cases "filter_list ops 1 (lIndex l) p k")
  have e1: "e1 \<noteq> Some DumpInterrupted" using q(1)[of 1 "lIndex l" p k] 1 by auto
  have settled: "set (fst (if e \<noteq> None \<and> e \<noteq> Some DumpInterrupted then ([], None) else (filter telemetryFilter fs, e))) = {f \<in> set (filters k (lIndex l) p). telemetryFilter f}"
    if "filter_list ops n (lIndex l) p k = (fs, e)" "e \<noteq> Some DumpInterrupted" for n fs e
  proof (cases e)
    case None
    then show ?thesis using list_exact that(1) by simp
  next
    case (Some err)
    then have "filters k (lIndex l) p = []" using q(2)[of n "lIndex l" p k] that by (cases err) auto
    then show ?thesis using Some that(2) by simp
  qed
  show ?thesis
  proof (cases "e0 = Some DumpInterrupted")
    case True
    then have "hookFilters ops l p k = (if e1 \<noteq> None \<and> e1 \<noteq> Some DumpInterrupted then ([], None) else (filter telemetryFilter fs1, e1))"
      using 0 1 by (simp add: hookFilters_def)
    with settled[OF 1 e1] show ?thesis by simp
  next
    case False
    then have "hookFilters ops l p k = (if e0 \<noteq> None \<and> e0 \<noteq> Some DumpInterrupted then ([], None) else (filter telemetryFilter fs0, e0))"
      using 0 by (simp add: hookFilters_def)
    with settled[OF 0 False] show ?thesis by simp
  qed
qed

lemma hookFilters_decided:
  assumes "listings_settle ops filters"
  shows "snd (hookFilters ops l p k) = None"
proof -
  have "snd (filter_list ops 1 (lIndex l) p k) \<noteq> Some DumpInterrupted"
    using assms unfolding listings_settle_def by (metis one_neq_zero)
  then show ?thesis by (auto simp: hookFilters_def Let_def split: prod.splits)
qed

lemma has_hooks_decided:
  assumes "listings_settle ops filters"
  shows "\<exists>b. has_hooks ops l k hs = Inr b"
proof (induction hs)
  case (Cons h hs)
  then show ?case
    using hookFilters_decided[OF assms, of l "hParent h" k] by (auto split: prod.splits)
qed auto

lemma TelemetryFilters_exact:
  assumes "listings_settle ops filters"
  shows "set (TelemetryFilters ops l k) = {(p, f). p \<in> hParent ` set Hooks \<and> f \<in> set (filters k (lIndex l) p) \<and> telemetryFilter f}"
  using hookFilters_exact[OF assms] by (auto simp: TelemetryFilters_def)

lemma hunt_links_hunts:
  assumes "listings_settle ops filters" "hunt_links ops ls (k, c, es) = (k', c', es')"
    and "\<And>i p. inj_on slot_of (set (filters k i p))"
  shows "set (filters k' j q) \<subseteq> set (filters k j q) \<and> length es \<le> length es'
    \<and> (\<forall>g\<in>set (filters k j q). \<not> telemetryFilter g \<longrightarrow> g \<in> set (filters k' j q))
    \<and> (es' = es \<longrightarrow> (\<forall>l\<in>set ls. \<forall>h\<in>set Hooks. \<forall>g\<in>set (filters k' (lIndex l) (hParent h)). \<not> telemetryFilter g))"
  using assms(2,3)
proof (induction ls arbitrary: k c es j q)
  case (Cons l ls)
  define fs where "fs = TelemetryFilters ops l k"
  obtain k1 c1 es1 where h: "hunt_filters ops l fs (k, c, es) = (k1, c1, es1)" by (cases "hunt_filters ops l fs (k, c, es)") auto
  have rec: "hunt_links ops ls (k1, c1, es1) = (k', c', es')" using Cons.prems(1) h by (simp add: fs_def)
  have sub: "set (filters k1 j q) \<subseteq> set (filters k j q)" for j q by (rule hunt_filters_subset[OF h])
  have inj: "inj_on slot_of (set (filters k1 i p))" for i p by (rule inj_on_subset[OF Cons.prems(2) sub])
  note IH = Cons.IH[OF rec inj]
  have keep: "g \<in> set (filters k1 j q)" if "g \<in> set (filters k j q)" "\<not> telemetryFilter g" for g j q
  proof (rule hunt_filters_keeps[OF h that(1)])
    fix f assume "j = lIndex l" "(q, f) \<in> set fs"
    then have "f \<in> set (filters k j q)" "telemetryFilter f"
      using TelemetryFilters_exact[OF assms(1)] by (auto simp: fs_def)
    then show "slot_of g \<noteq> slot_of f" using Cons.prems(2)[of j q] that by (auto dest: inj_onD)
  qed
  have errs: "es1 = es" if "es' = es"
    using IH that hunt_filters_count[OF h] hunt_filters_errs[OF h] by (metis le_antisym order_refl take_all)
  have clean: "\<not> telemetryFilter g" if "es' = es" "h \<in> set Hooks" "g \<in> set (filters k' (lIndex l) (hParent h))" for h g
  proof
    assume t: "telemetryFilter g"
    have g1: "g \<in> set (filters k1 (lIndex l) (hParent h))" using IH[of "lIndex l" "hParent h"] that(3) by blast
    then have "(hParent h, g) \<in> set fs"
      using TelemetryFilters_exact[OF assms(1), of l k] subsetD[OF sub g1] t that(2) by (simp add: fs_def)
    from hunt_filters_clean[OF h[unfolded errs[OF that(1)]] this g1] show False by simp
  qed
  show ?case
  proof (intro conjI impI ballI)
    show "set (filters k' j q) \<subseteq> set (filters k j q)" using IH sub by blast
    show "length es \<le> length es'" using IH hunt_filters_count[OF h] by fastforce
    show "g \<in> set (filters k' j q)" if "g \<in> set (filters k j q)" "\<not> telemetryFilter g" for g
      using IH keep[OF that] that(2) by blast
    show "\<not> telemetryFilter g" if "es' = es" "l' \<in> set (l # ls)" "h \<in> set Hooks" "g \<in> set (filters k' (lIndex l') (hParent h))" for l' h g
      using IH clean[OF that(1,3)] errs[OF that(1)] that by (cases "l' = l") auto
  qed
qed simp

lemma has_hooks_complete:
  assumes "listings_settle ops filters"
    and "\<forall>h\<in>set hs. \<exists>f\<in>set (filters k (lIndex l) (hParent h)). fBpf f \<and> in_slot h f" "set hs \<subseteq> set Hooks"
  shows "has_hooks ops l k hs = Inr True"
  using assms(2,3)
proof (induction hs)
  case (Cons h hs)
  have "snd (hookFilters ops l (hParent h) k) = None" by (rule hookFilters_decided[OF assms(1)])
  then obtain fs where fs: "hookFilters ops l (hParent h) k = (fs, None)" by (metis prod.collapse)
  have "\<exists>f\<in>set fs. in_slot h f"
    using hookFilters_exact[OF assms(1), of l "hParent h" k] fs Cons.prems
    by (auto simp: telemetryFilter_def IsTelemetryFilterName_def in_slot_def)
  then show ?case using Cons fs by simp
qed simp

lemma HasTelemetry_decides:
  assumes "listings_settle ops filters"
  shows "HasTelemetry ops l k = Inr (carries filters k l)"
proof (cases "carries filters k l")
  case True
  then show ?thesis using has_hooks_complete[OF assms, of Hooks k l] by (simp add: HasTelemetry_def carries_def)
next
  case False
  obtain b where b: "HasTelemetry ops l k = Inr b" using has_hooks_decided[OF assms] unfolding HasTelemetry_def by blast
  with False HasTelemetry_carries[of l k] show ?thesis by (cases b) auto
qed

lemma AttachTelemetry_err:
  assumes "AttachTelemetry ops ingress egress l k = (Some e, k')"
  defines "i \<equiv> lIndex l"
  shows "filters k' i HandleMinEgress = filters k i HandleMinEgress"
    and "slot_of g \<noteq> (FilterPriority, FilterHandle) \<Longrightarrow> g \<in> set (filters k' i HandleMinIngress) \<longleftrightarrow> g \<in> set (filters k i HandleMinIngress)"
    and "filters k' = filters k \<or> (\<exists>k2. snd (removeFilter ops l Ingress k2) = k' \<and>
           (fst (removeFilter ops l Ingress k2) = None \<longrightarrow> (\<forall>f\<in>set (filters k' i HandleMinIngress). slot_of f \<noteq> (FilterPriority, FilterHandle))))"
proof -
  let ?slot = "(FilterPriority, FilterHandle)"
  obtain r1 k1 where 1: "Replace ops l ingress Ingress FilterIngressName k = (r1, k1)" by (cases "Replace ops l ingress Ingress FilterIngressName k")
  obtain r2 k2 where 2: "Replace ops l egress Egress FilterEgressName k1 = (r2, k2)" by (cases "Replace ops l egress Egress FilterEgressName k1")
  obtain r3 k3 where 3: "removeFilter ops l Ingress k2 = (r3, k3)" by (cases "removeFilter ops l Ingress k2")
  have eg: "filters k3 i HandleMinEgress = filters k2 i HandleMinEgress"
    using removeFilter_frame[OF 3, of HandleMinIngress i HandleMinEgress] parents_differ by (simp add: i_def)
  have rest: "filters k' i HandleMinEgress = filters k i HandleMinEgress \<and>
      (\<forall>g. slot_of g \<noteq> ?slot \<longrightarrow> (g \<in> set (filters k' i HandleMinIngress) \<longleftrightarrow> g \<in> set (filters k i HandleMinIngress))) \<and>
      (filters k' = filters k \<or> (\<exists>k2. snd (removeFilter ops l Ingress k2) = k' \<and>
        (fst (removeFilter ops l Ingress k2) = None \<longrightarrow> (\<forall>f\<in>set (filters k' i HandleMinIngress). slot_of f \<noteq> ?slot))))"
  proof (cases r1)
    case (Some e1)
    then have "filters k' = filters k" using 1 assms(1) Replace_err by (auto simp: AttachTelemetry_def)
    then show ?thesis by simp
  next
    case None
    note f1 = Replace_ok[OF 1[unfolded None], of HandleMinIngress]
    have r2: "r2 \<noteq> None" and k': "k' = k3" using assms(1) 1 2 3 None by (auto simp: AttachTelemetry_def split: option.splits)
    have f2: "filters k2 = filters k1" using 2 r2 Replace_err by (cases r2) auto
    have 4: "fst (removeFilter ops l Ingress k2) = None \<longrightarrow> (\<forall>f\<in>set (filters k' i HandleMinIngress). slot_of f \<noteq> ?slot)"
      using removeFilter_ok[of l Ingress k2 k3 HandleMinIngress] 3 k' by (simp add: i_def)
    have 5: "g \<in> set (filters k' i HandleMinIngress) \<longleftrightarrow> g \<in> set (filters k i HandleMinIngress)" if "slot_of g \<noteq> ?slot" for g
      using removeFilter_others[OF 3, of HandleMinIngress g] that f1 f2 k' by (auto simp: i_def put_slot_def slot_of_def)
    have "snd (removeFilter ops l Ingress k2) = k'" using 3 k' by simp
    with 4 5 show ?thesis using eg f1 f2 k' parents_differ by (auto simp: i_def)
  qed
  then show "filters k' i HandleMinEgress = filters k i HandleMinEgress"
    and "slot_of g \<noteq> ?slot \<Longrightarrow> g \<in> set (filters k' i HandleMinIngress) \<longleftrightarrow> g \<in> set (filters k i HandleMinIngress)"
    and "filters k' = filters k \<or> (\<exists>k2. snd (removeFilter ops l Ingress k2) = k' \<and>
           (fst (removeFilter ops l Ingress k2) = None \<longrightarrow> (\<forall>f\<in>set (filters k' i HandleMinIngress). slot_of f \<noteq> ?slot)))"
    by blast+
qed

end

text \<open>A kernel on which a delete fails only because there is nothing to delete.\<close>

locale tc_kernel_del = tc_kernel +
  assumes del_absent: "filter_del ops i p f k = (Some e, k') \<Longrightarrow> slot_of f \<notin> slot_of ` set (filters k i p)"
begin

lemma removeFilter_absent:
  assumes "removeFilter ops l dir k = (r, k')" "parentTCHandle dir = Inr p"
  shows "\<forall>f\<in>set (filters k' (lIndex l) p). slot_of f \<noteq> (FilterPriority, FilterHandle)"
proof (rule removeFilter_del[OF assms])
  fix f r'
  assume d: "filter_del ops (lIndex l) p f k = (r', k')" and f: "slot_of f = (FilterPriority, FilterHandle)"
  show ?thesis
  proof (cases r')
    case None
    with d f show ?thesis by (auto dest: del_ok simp: del_slot_def)
  next
    case (Some e)
    with d f del_err del_absent show ?thesis by (metis imageI)
  qed
qed

lemma AttachTelemetry_unattached:
  assumes "AttachTelemetry ops ingress egress l k = (Some e, k')" "\<not> carries filters k l"
  shows "\<not> carries filters k' l"
proof (cases "filters k' = filters k")
  case True
  with assms(2) show ?thesis by (simp add: carries_def)
next
  case False
  then obtain k2 where "snd (removeFilter ops l Ingress k2) = k'" using AttachTelemetry_err(3)[OF assms(1)] by blast
  then have "\<forall>f\<in>set (filters k' (lIndex l) HandleMinIngress). slot_of f \<noteq> (FilterPriority, FilterHandle)"
    using removeFilter_absent[of l Ingress k2 "fst (removeFilter ops l Ingress k2)" k' HandleMinIngress] by (simp add: prod_eq_iff)
  then show ?thesis by (auto simp: carries_def Hooks_def in_slot_def slot_of_def)
qed

end

section \<open>A kernel with clsact hooks\<close>

text \<open>
  A table of hooks: the links that have the qdisc, the filters of each hook, the hooks that refuse a
  new filter, and the hooks whose first listing is interrupted. A hook exists only under the qdisc.
\<close>

record tc_table =
  kQdisc :: "int list"
  kHooks :: "(int \<times> u32, tc_filter list) gomap"
  kRefuse :: "(int \<times> u32) list"
  kBusy :: "(int \<times> u32) list"

primrec or_nil :: "'a list option \<Rightarrow> 'a list" where
  "or_nil None = []"
| "or_nil (Some xs) = xs"

definition table_filters :: "tc_table \<Rightarrow> int \<Rightarrow> u32 \<Rightarrow> tc_filter list" where
  "table_filters k i p = (if i \<in> set (kQdisc k) then or_nil (mget (kHooks k) (i, p)) else [])"

definition table_ops :: "tc_table tc_ops" where
  "table_ops = \<lparr>
     qdisc_replace = \<lambda>i k. if i \<in> set (kQdisc k) then (None, k)
       else (None, k\<lparr>kQdisc := i # kQdisc k, kHooks := filter (\<lambda>e. fst (fst e) \<noteq> i) (kHooks k)\<rparr>),
     filter_replace = \<lambda>i p f k. if i \<notin> set (kQdisc k) \<or> (i, p) \<in> set (kRefuse k) then (Some ''invalid argument'', k)
       else (None, k\<lparr>kHooks := mput (i, p) (put_slot f (table_filters k i p)) (kHooks k)\<rparr>),
     filter_del = \<lambda>i p f k. if \<not> list_ex (\<lambda>g. slot_of g = slot_of f) (table_filters k i p) then (Some ''no such file or directory'', k)
       else (None, k\<lparr>kHooks := mput (i, p) (del_slot f (table_filters k i p)) (kHooks k)\<rparr>),
     filter_list = \<lambda>n i p k. if i \<notin> set (kQdisc k) then ([], Some (ListError ''no such device''))
       else if n = 0 \<and> (i, p) \<in> set (kBusy k) then (take 1 (table_filters k i p), Some DumpInterrupted)
       else (table_filters k i p, None)\<rparr>"

lemma mget_filter_other: "mget (filter (\<lambda>e. fst (fst e) \<noteq> i) m) (j, p) = (if j = i then None else mget m (j, p))"
  by (induction m) (auto simp: mget_Cons)

lemma table_filters_none: "list_ex (\<lambda>g. slot_of g = slot_of f) (table_filters k i p) \<Longrightarrow> i \<in> set (kQdisc k)"
  by (cases "i \<in> set (kQdisc k)") (simp_all add: table_filters_def)

lemma table_filters_put:
  assumes "i \<in> set (kQdisc k)"
  shows "table_filters (k\<lparr>kHooks := mput (i, p) fs (kHooks k)\<rparr>) = (table_filters k)(i := (table_filters k i)(p := fs))"
  using assms by (auto simp: table_filters_def fun_eq_iff)

interpretation tab: tc_kernel table_ops table_filters
proof
  show "table_filters k' = table_filters k" if "qdisc_replace table_ops i k = (r, k')" for i k r k'
    using that by (auto simp: table_ops_def table_filters_def mget_filter_other fun_eq_iff split: if_splits)
  show "table_filters k' = (table_filters k)(i := (table_filters k i)(p := put_slot f (table_filters k i p)))"
    if "filter_replace table_ops i p f k = (None, k')" for i p f k k'
    using that by (auto simp: table_ops_def table_filters_put split: if_splits)
  show "table_filters k' = table_filters k" if "filter_replace table_ops i p f k = (Some e, k')" for i p f k e k'
    using that by (auto simp: table_ops_def split: if_splits)
  show "table_filters k' = (table_filters k)(i := (table_filters k i)(p := del_slot f (table_filters k i p)))"
    if "filter_del table_ops i p f k = (None, k')" for i p f k k'
    using that table_filters_none[of f k i p] table_filters_put[of i k p] by (simp add: table_ops_def split: if_splits) blast
  show "table_filters k' = table_filters k" if "filter_del table_ops i p f k = (Some e, k')" for i p f k e k'
    using that by (auto simp: table_ops_def split: if_splits)
  show "set fs = set (table_filters k i p)" if "filter_list table_ops n i p k = (fs, None)" for n i p k fs
    using that by (auto simp: table_ops_def split: if_splits)
qed

interpretation tab_del: tc_kernel_del table_ops table_filters
proof
  show "slot_of f \<notin> slot_of ` set (table_filters k i p)" if "filter_del table_ops i p f k = (Some e, k')" for i p f k e k'
    using that by (auto simp: table_ops_def list_ex_iff split: if_splits)
qed

lemma table_settles: "listings_settle table_ops table_filters"
  by (simp add: listings_settle_def table_ops_def table_filters_def)

section \<open>Properties\<close>


definition tap_link :: link where
  "tap_link = \<lparr>lName = ''tap0'', lIndex = 7, lType = ''tuntap''\<rparr>"

definition old_filter :: "string \<Rightarrow> tc_filter" where
  "old_filter n = \<lparr>fBpf = True, fName = n, fHandle = 1, fPriority = 49152, fProg = 3\<rparr>"

text \<open>A table where an older build left its ingress filter at another priority, beside a filter of somebody else.\<close>

definition old_table :: tc_table where
  "old_table = \<lparr>kQdisc = [7], kHooks = [((7, HandleMinIngress), [old_filter FilterIngressName, (old_filter ''other'')\<lparr>fPriority := 5\<rparr>])], kRefuse = [(7, HandleMinEgress)], kBusy = [(7, HandleMinIngress)]\<rparr>"

lemmas table_run_simps = AttachTelemetry_def Replace_def ensureClsact_def replaceFilter_def removeFilter_def Hooks_def
  table_ops_def table_filters_def old_table_def old_filter_def tap_link_def put_slot_def del_slot_def slot_of_def
  FilterPriority_def FilterHandle_def FilterIngressName_def FilterEgressName_def HandleMinIngress_def HandleMinEgress_def
  mget_Cons mput_def


text \<open>
  The hunt for orphans at boot deletes what carries a telemetry name and nothing else. Where listings settle and no two filters of a hook share a slot, a hunt that
  reports no failed delete leaves no link with a BPF filter of a telemetry name, at any priority or handle; every other filter of
  every link survives, also when deletes fail; no filter is added; and a failed link listing changes nothing.
\<close>

theorem hunt_leaves_no_orphan:
  assumes "tc_kernel ops filters" "listings_settle ops filters" "\<And>i p. inj_on slot_of (set (filters k i p))"
    and "Hunt ops links k = (k', cleaned, err)"
  shows "(\<forall>i p. {g \<in> set (filters k i p). \<not> telemetryFilter g} \<subseteq> set (filters k' i p) \<and> set (filters k' i p) \<subseteq> set (filters k i p))
    \<and> (case links of
         Inl e \<Rightarrow> k' = k \<and> cleaned = 0 \<and> err \<noteq> None
       | Inr ls \<Rightarrow> err = None \<longrightarrow> (\<forall>l\<in>set ls. \<forall>h\<in>set Hooks. \<forall>g\<in>set (filters k' (lIndex l) (hParent h)). \<not> telemetryFilter g))"
proof (cases links)
  case (Inl e)
  then show ?thesis using assms(4) by (auto simp: Hunt_def)
next
  case (Inr ls)
  obtain k1 c1 es1 where h: "hunt_links ops ls (k, 0, []) = (k1, c1, es1)" by (cases "hunt_links ops ls (k, 0, [])") auto
  have k1: "k1 = k'" and es: "err = None \<longrightarrow> es1 = []" using assms(4) h Inr by (auto simp: Hunt_def split: if_splits)
  note hunted = tc_kernel.hunt_links_hunts[OF assms(1,2) h assms(3)]
  show ?thesis unfolding Inr sum.case using hunted k1 es by blast
qed

theorem hunt_leaves_no_orphan_witness:
  "Hunt table_ops (Inr [tap_link]) old_table = (old_table\<lparr>kHooks := [((7, HandleMinIngress), [(old_filter ''other'')\<lparr>fPriority := 5\<rparr>])]\<rparr>, 1, None)
   \<and> filter telemetryFilter (table_filters (fst (Hunt table_ops (Inr [tap_link]) old_table)) 7 HandleMinIngress) = []"
proof -
  have r: "Hunt table_ops (Inr [tap_link]) old_table = (old_table\<lparr>kHooks := [((7, HandleMinIngress), [(old_filter ''other'')\<lparr>fPriority := 5\<rparr>])]\<rparr>, 1, None)"
    by (simp add: Hunt_def TelemetryFilters_def hookFilters_def telemetryFilter_def IsTelemetryFilterName_def table_run_simps)
  have inj: "inj_on slot_of (set (table_filters old_table i p))" for i p
    by (auto simp: table_filters_def old_table_def mget_Cons old_filter_def slot_of_def inj_on_def)
  have h: "\<lparr>hName = FilterIngressName, hParent = HandleMinIngress\<rparr> \<in> set Hooks" by (simp add: Hooks_def)
  have "lIndex tap_link = 7" by (simp add: tap_link_def)
  then show ?thesis
    using hunt_leaves_no_orphan[OF tab.tc_kernel_axioms table_settles inj r] h r by (auto simp: filter_empty_conv)
qed

end
