(* ===== verification/Netlink.thy ===== *)
theory Netlink
  imports Tc_Attach Netip "HOL-Library.List_Lexorder" "HOL-Library.Char_ord"
begin

text \<open>
  The link subscriber (\<^verbatim>\<open>internal/netlink\<close>): which links qualify, the Registry of attached interfaces, the
  handlers of link events, the attach-presence sweep, one subscription's event loop and the
  re-subscribe loop with its backoff. The kernel is a state the attacher and the link listing work on.
\<close>

section \<open>The allowlist\<close>

definition linkTypeVeth :: string where "linkTypeVeth = ''veth''"
definition skipReasonVeth :: string where "skipReasonVeth = ''veth''"
definition ifaceKindTap :: string where "ifaceKindTap = ''tap''"
definition ifaceKindOther :: string where "ifaceKindOther = ''other''"
definition outcomeHealed :: string where "outcomeHealed = ''healed''"
definition outcomeFailed :: string where "outcomeFailed = ''failed''"

fun matchesPrefix :: "string \<Rightarrow> string list \<Rightarrow> bool" where
  "matchesPrefix iface [] = False"
| "matchesPrefix iface (p # ps) = (if p \<noteq> [] \<and> HasPrefix iface p then True else matchesPrefix iface ps)"

definition ShouldAttach :: "string \<Rightarrow> string \<Rightarrow> string list \<Rightarrow> string list \<Rightarrow> bool \<times> string" where
  "ShouldAttach iface linkType prefixes explicit =
    (if iface \<in> set explicit then (True, [])
     else if \<not> matchesPrefix iface prefixes then (False, [])
     else if linkType = linkTypeVeth then (False, skipReasonVeth)
     else (True, []))"

section \<open>Registry\<close>

type_synonym registry = "(string, unit) gomap"

definition NewRegistry :: registry where "NewRegistry = []"

definition MarkAttached :: "string \<Rightarrow> registry \<Rightarrow> registry" where
  "MarkAttached iface r = mput iface () r"

definition IsAttached :: "registry \<Rightarrow> string \<Rightarrow> bool" where
  "IsAttached r iface = mhas r iface"

definition Forget :: "string \<Rightarrow> registry \<Rightarrow> registry" where
  "Forget iface r = mdel iface r"

definition Registry_Replace :: "string list \<Rightarrow> registry \<Rightarrow> registry" where
  "Registry_Replace names r = fold (\<lambda>n m. mput n () m) names []"

definition Registry_Len :: "registry \<Rightarrow> nat" where
  "Registry_Len r = length r"

definition Registry_Snapshot :: "registry \<Rightarrow> string list" where
  "Registry_Snapshot r = sort (map fst r)"

section \<open>Metrics\<close>

record nl_metrics =
  attachFailures :: "(string, nat) gomap"
  unattachedGauge :: "(string, nat) gomap"
  reattaches :: "(string \<times> string, nat) gomap"
  restarts :: nat
  skippedTotal :: "(string, nat) gomap"

definition NewMetrics :: nl_metrics where
  "NewMetrics = \<lparr>attachFailures = [(ifaceKindTap, 0), (ifaceKindOther, 0)],
                 unattachedGauge = [(ifaceKindTap, 0), (ifaceKindOther, 0)],
                 reattaches = [((ifaceKindTap, outcomeHealed), 0), ((ifaceKindTap, outcomeFailed), 0), ((ifaceKindOther, outcomeHealed), 0), ((ifaceKindOther, outcomeFailed), 0)],
                 restarts = 0, skippedTotal = [(skipReasonVeth, 0)]\<rparr>"

definition inc :: "'a \<Rightarrow> ('a, nat) gomap \<Rightarrow> ('a, nat) gomap" where
  "inc k m = mput k ((case mget m k of None \<Rightarrow> 0 | Some n \<Rightarrow> n) + 1) m"

text \<open>A nil bundle records nothing.\<close>

definition recordAttachFailure :: "string \<Rightarrow> nl_metrics option \<Rightarrow> nl_metrics option" where
  "recordAttachFailure kind m = map_option (\<lambda>m. m\<lparr>attachFailures := inc kind (attachFailures m)\<rparr>) m"

definition recordReattach :: "string \<Rightarrow> string \<Rightarrow> nl_metrics option \<Rightarrow> nl_metrics option" where
  "recordReattach kind outcome m = map_option (\<lambda>m. m\<lparr>reattaches := inc (kind, outcome) (reattaches m)\<rparr>) m"

definition setUnattached :: "(string, nat) gomap \<Rightarrow> nl_metrics option \<Rightarrow> nl_metrics option" where
  "setUnattached byKind m = map_option (\<lambda>m. m\<lparr>unattachedGauge := fold (\<lambda>(kind, n) g. mput kind n g) byKind (unattachedGauge m)\<rparr>) m"

definition recordRestart :: "nl_metrics option \<Rightarrow> nl_metrics option" where
  "recordRestart m = map_option (\<lambda>m. m\<lparr>restarts := restarts m + 1\<rparr>) m"

definition recordSkip :: "string \<Rightarrow> nl_metrics option \<Rightarrow> nl_metrics option" where
  "recordSkip reason m = map_option (\<lambda>m. m\<lparr>skippedTotal := inc reason (skippedTotal m)\<rparr>) m"

section \<open>The subscriber\<close>

text \<open>What the composition root supplies and what the netlink library does on the kernel.\<close>

record 'k nl_ops =
  Attach :: "link \<Rightarrow> 'k \<Rightarrow> string option \<times> 'k"
  Attached :: "link \<Rightarrow> 'k \<Rightarrow> list_error + bool"
  link_not_found :: "int \<Rightarrow> 'k \<Rightarrow> bool"
  list_links :: "nat \<Rightarrow> 'k \<Rightarrow> link list \<times> list_error option"

record nl_options =
  oAttacher :: bool
  oRegistry :: "registry option"
  oPrefixes :: "string list"
  oExplicit :: "string list"
  oMetrics :: "nl_metrics option"
  oResyncInterval :: duration

definition nl_validate :: "nl_options \<Rightarrow> string option" where
  "nl_validate opts =
    (if \<not> oAttacher opts then Some ''netlink: Attacher is required''
     else if oRegistry opts = None then Some ''netlink: Registry is required''
     else None)"

record subscriber =
  sPrefixes :: "string list"
  sExplicit :: "string list"
  sResyncInterval :: duration
  sRegistry :: registry
  sMetrics :: "nl_metrics option"
  sFailing :: "(string, unit) gomap"
  sSkipped :: "(string, unit) gomap"

definition newLinuxSubscriber :: "nl_options \<Rightarrow> registry \<Rightarrow> subscriber" where
  "newLinuxSubscriber opts reg = \<lparr>sPrefixes = oPrefixes opts, sExplicit = oExplicit opts, sResyncInterval = oResyncInterval opts,
     sRegistry = reg, sMetrics = oMetrics opts, sFailing = [], sSkipped = []\<rparr>"

definition nl_New :: "nl_options \<Rightarrow> string + subscriber" where
  "nl_New opts =
    (case nl_validate opts of
       Some err \<Rightarrow> Inl err
     | None \<Rightarrow> (case oRegistry opts of None \<Rightarrow> Inl [] | Some reg \<Rightarrow> Inr (newLinuxSubscriber opts reg)))"

definition kindFor :: "subscriber \<Rightarrow> string \<Rightarrow> string" where
  "kindFor s name = (if matchesPrefix name (sPrefixes s) then ifaceKindTap else ifaceKindOther)"

definition linkGone :: "'k nl_ops \<Rightarrow> int \<Rightarrow> 'k \<Rightarrow> bool" where
  "linkGone ops i k = link_not_found ops i k"

section \<open>Events\<close>

datatype msg_type = RTM_NEWLINK | RTM_DELLINK | RTM_OTHER nat

definition onNewLink :: "'k nl_ops \<Rightarrow> link \<Rightarrow> subscriber \<times> 'k \<Rightarrow> subscriber \<times> 'k" where
  "onNewLink ops l st =
    (case st of (s, k) \<Rightarrow>
       if IsAttached (sRegistry s) (lName l) then (s, k)
       else (case Attach ops l k of
               (Some err, k') \<Rightarrow>
                 if linkGone ops (lIndex l) k' then (s, k')
                 else (s\<lparr>sMetrics := recordAttachFailure (kindFor s (lName l)) (sMetrics s)\<rparr>, k')
             | (None, k') \<Rightarrow> (s\<lparr>sRegistry := MarkAttached (lName l) (sRegistry s)\<rparr>, k')))"

definition onDelLink :: "string \<Rightarrow> subscriber \<Rightarrow> subscriber" where
  "onDelLink name s =
    (if \<not> IsAttached (sRegistry s) name then s
     else s\<lparr>sRegistry := Forget name (sRegistry s)\<rparr>)"

definition onSkip :: "msg_type \<Rightarrow> string \<Rightarrow> string \<Rightarrow> subscriber \<Rightarrow> subscriber" where
  "onSkip msgType name reason s =
    (if msgType = RTM_DELLINK then s\<lparr>sSkipped := mdel name (sSkipped s)\<rparr>
     else if mhas (sSkipped s) name then s
     else s\<lparr>sSkipped := mput name () (sSkipped s), sMetrics := recordSkip reason (sMetrics s)\<rparr>)"

definition nl_handle :: "'k nl_ops \<Rightarrow> msg_type \<times> link \<Rightarrow> subscriber \<times> 'k \<Rightarrow> subscriber \<times> 'k" where
  "nl_handle ops ev st =
    (case (ev, st) of ((typ, l), (s, k)) \<Rightarrow>
       (case ShouldAttach (lName l) (lType l) (sPrefixes s) (sExplicit s) of
          (attach, skip) \<Rightarrow>
            if \<not> attach then (if skip \<noteq> [] then (onSkip typ (lName l) skip s, k) else (s, k))
            else (case typ of
                    RTM_NEWLINK \<Rightarrow> onNewLink ops l (s, k)
                  | RTM_DELLINK \<Rightarrow> (onDelLink (lName l) s, k)
                  | RTM_OTHER n \<Rightarrow> (s, k))))"

section \<open>The attach-presence sweep\<close>

record sweep_state =
  wAttached :: "string list"
  wUnattached :: "(string, nat) gomap"
  wFailing :: "(string, unit) gomap"
  wHealed :: nat
  wUndecided :: nat
  wMetrics :: "nl_metrics option"

text \<open>One link of the listing; \<^verbatim>\<open>s\<close> is the subscriber as the sweep found it.\<close>

definition sweep_link :: "'k nl_ops \<Rightarrow> subscriber \<Rightarrow> link \<Rightarrow> sweep_state \<times> 'k \<Rightarrow> sweep_state \<times> 'k" where
  "sweep_link ops s l st =
    (case st of (w, k) \<Rightarrow>
       let name = lName l; kind = kindFor s name in
       if \<not> fst (ShouldAttach name (lType l) (sPrefixes s) (sExplicit s)) then (w, k)
       else (case Attached ops l k of
               Inl err \<Rightarrow>
                 let w1 = w\<lparr>wUndecided := wUndecided w + 1\<rparr>;
                     w2 = (if IsAttached (sRegistry s) name then w1\<lparr>wAttached := wAttached w1 @ [name]\<rparr> else w1);
                     w3 = (if mhas (sFailing s) name then w2\<lparr>wFailing := mput name () (wFailing w2), wUnattached := inc kind (wUnattached w2)\<rparr> else w2)
                 in (w3, k)
             | Inr True \<Rightarrow> (w\<lparr>wAttached := wAttached w @ [name]\<rparr>, k)
             | Inr False \<Rightarrow>
                 (case Attach ops l k of
                    (Some err, k') \<Rightarrow>
                      if linkGone ops (lIndex l) k' then (w, k')
                      else (w\<lparr>wFailing := mput name () (wFailing w), wUnattached := inc kind (wUnattached w),
                              wMetrics := recordReattach kind outcomeFailed (wMetrics w)\<rparr>, k')
                  | (None, k') \<Rightarrow>
                      (w\<lparr>wAttached := wAttached w @ [name], wHealed := wHealed w + 1,
                         wMetrics := recordReattach kind outcomeHealed (wMetrics w)\<rparr>, k'))))"

definition new_sweep :: "subscriber \<Rightarrow> sweep_state" where
  "new_sweep s = \<lparr>wAttached = [], wUnattached = [(ifaceKindTap, 0), (ifaceKindOther, 0)], wFailing = [], wHealed = 0, wUndecided = 0, wMetrics = sMetrics s\<rparr>"

definition resync :: "'k nl_ops \<Rightarrow> subscriber \<times> 'k \<Rightarrow> subscriber \<times> 'k" where
  "resync ops st =
    (case st of (s, k) \<Rightarrow>
       let first = list_links ops 0 k;
           res = (if snd first = Some DumpInterrupted then list_links ops 1 k else first)
       in if snd res \<noteq> None then (s, k)
          else (case fold (sweep_link ops s) (fst res) (new_sweep s, k) of
                  (w, k') \<Rightarrow>
                    (s\<lparr>sFailing := wFailing w, sRegistry := Registry_Replace (wAttached w) (sRegistry s),
                       sMetrics := setUnattached (wUnattached w) (wMetrics w)\<rparr>, k')))"

section \<open>One subscription and the re-subscribe loop\<close>

text \<open>
  What the event loop's \<^verbatim>\<open>select\<close> receives, in the order it receives it: the cancelled context, the
  sweep tick, a link event, or the closed channel with the last callback error.
\<close>

datatype stream_input = CtxDone | Tick | Event "msg_type \<times> link" | Closed "string option"

fun stream_loop :: "'k nl_ops \<Rightarrow> stream_input list \<Rightarrow> subscriber \<times> 'k \<Rightarrow> (subscriber \<times> 'k) \<times> string option option" where
  "stream_loop ops [] st = (st, None)"
| "stream_loop ops (CtxDone # ins) st = (st, Some None)"
| "stream_loop ops (Tick # ins) st = stream_loop ops ins (if sResyncInterval (fst st) > 0 then resync ops st else st)"
| "stream_loop ops (Event ev # ins) st = stream_loop ops ins (nl_handle ops ev st)"
| "stream_loop ops (Closed lastErr # ins) st =
    (st, Some (Some (''netlink: socket closed: '' @ (case lastErr of None \<Rightarrow> ''netlink: event channel closed'' | Some e \<Rightarrow> e))))"

text \<open>
  \<^verbatim>\<open>subscribe\<close> is the error of the subscription, if any. The second component of the result is \<^verbatim>\<open>None\<close>
  while the loop still waits, and otherwise what it returned.
\<close>

definition runStream :: "'k nl_ops \<Rightarrow> string option \<Rightarrow> bool \<Rightarrow> stream_input list \<Rightarrow> subscriber \<times> 'k \<Rightarrow> (subscriber \<times> 'k) \<times> string option option" where
  "runStream ops subscribe resyncFirst ins st =
    (case subscribe of
       Some err \<Rightarrow> (st, Some (Some (''netlink: LinkSubscribe: '' @ err)))
     | None \<Rightarrow> stream_loop ops ins (if resyncFirst \<and> sResyncInterval (fst st) > 0 then resync ops st else st))"

record backoffPolicy =
  bMin :: duration
  bMax :: duration

definition resubscribeBackoff :: backoffPolicy where
  "resubscribeBackoff = \<lparr>bMin = 1000000000, bMax = 30 * 1000000000\<rparr>"

definition backoff_next :: "backoffPolicy \<Rightarrow> duration \<Rightarrow> duration" where
  "backoff_next b d = min (2 * d) (bMax b)"

text \<open>
  One round of \<^verbatim>\<open>Run\<close>: the subscription error if any, what its loop received, how long it was up, whether the context was
  cancelled when it returned and whether it was cancelled during the wait that follows.
\<close>

record sub_round =
  rSubscribe :: "string option"
  rInputs :: "stream_input list"
  rUp :: duration
  rCancelled :: bool
  rCancelledWait :: bool

text \<open>The result: the final state, the waits in order, and whether \<^verbatim>\<open>Run\<close> returned.\<close>

fun nl_Run :: "'k nl_ops \<Rightarrow> backoffPolicy \<Rightarrow> duration \<Rightarrow> bool \<Rightarrow> sub_round list \<Rightarrow> subscriber \<times> 'k \<Rightarrow> (subscriber \<times> 'k) \<times> duration list \<times> bool" where
  "nl_Run ops b delay resyncFirst [] st = (st, [], False)"
| "nl_Run ops b delay resyncFirst (r # rs) st =
    (case runStream ops (rSubscribe r) resyncFirst (rInputs r) st of
       (st', None) \<Rightarrow> (st', [], False)
     | (st', Some err) \<Rightarrow>
         if rCancelled r then (st', [], True)
         else let delay' = (if rUp r \<ge> bMax b then bMin b else delay);
                  st2 = (fst st'\<lparr>sMetrics := recordRestart (sMetrics (fst st'))\<rparr>, snd st')
              in if rCancelledWait r then (st2, [delay'], True)
                 else (case nl_Run ops b (backoff_next b delay') True rs st2 of (st3, ds, ret) \<Rightarrow> (st3, delay' # ds, ret)))"

definition subscriber_Run :: "'k nl_ops \<Rightarrow> sub_round list \<Rightarrow> subscriber \<times> 'k \<Rightarrow> (subscriber \<times> 'k) \<times> duration list \<times> bool" where
  "subscriber_Run ops rs st = nl_Run ops resubscribeBackoff (bMin resubscribeBackoff) False rs st"

section \<open>Registry and counters\<close>

lemma Registry_Replace_names [simp]: "IsAttached (Registry_Replace names r) n \<longleftrightarrow> n \<in> set names"
proof -
  have "mhas (fold (\<lambda>n m. mput n () m) names m) n \<longleftrightarrow> n \<in> set names \<or> mhas m n" for m
    by (induction names arbitrary: m) auto
  then show ?thesis by (simp add: IsAttached_def Registry_Replace_def)
qed

lemma mwf_inc [simp]: "mwf m \<Longrightarrow> mwf (inc k m)"
  by (simp add: inc_def)

definition count_of :: "('a, nat) gomap \<Rightarrow> 'a \<Rightarrow> nat" where
  "count_of m k = (case mget m k of None \<Rightarrow> 0 | Some n \<Rightarrow> n)"

lemma count_of_inc [simp]: "count_of (inc k m) k' = count_of m k' + (if k' = k then 1 else 0)"
  by (simp add: inc_def count_of_def)

lemma mhas_inc [simp]: "mhas (inc k m) k' \<longleftrightarrow> k' = k \<or> mhas m k'"
  by (simp add: inc_def)

lemma mget_fold_mput:
  assumes "mwf m"
  shows "mget (fold (\<lambda>(k, n) g. mput k n g) m g) k = (case mget m k of None \<Rightarrow> mget g k | Some n \<Rightarrow> Some n)"
  using assms by (induction m arbitrary: g) (auto simp: mget_Cons mwf_Cons split: option.splits)

section \<open>The sweep\<close>

definition allowed :: "subscriber \<Rightarrow> link \<Rightarrow> bool" where
  "allowed s l = fst (ShouldAttach (lName l) (lType l) (sPrefixes s) (sExplicit s))"

text \<open>A present link without the programs: its traffic is unbilled.\<close>

definition unbilled :: "'k nl_ops \<Rightarrow> ('k \<Rightarrow> link \<Rightarrow> bool) \<Rightarrow> 'k \<Rightarrow> link \<Rightarrow> bool" where
  "unbilled ops carried k l \<longleftrightarrow> \<not> carried k l \<and> \<not> linkGone ops (lIndex l) k"

text \<open>
  What the subscriber relies on of its attacher: a success attaches the link, a failure leaves an
  unattached link unattached, other links are untouched, and an answer about a link's presence is
  the truth.
\<close>

locale attacher =
  fixes ops :: "'k nl_ops" and carried :: "'k \<Rightarrow> link \<Rightarrow> bool"
  assumes att_ok: "Attach ops l k = (None, k') \<Longrightarrow> carried k' l"
    and att_err: "Attach ops l k = (Some e, k') \<Longrightarrow> \<not> carried k l \<Longrightarrow> \<not> carried k' l"
    and att_frame: "Attach ops l k = (r, k') \<Longrightarrow> lIndex l' \<noteq> lIndex l \<Longrightarrow> carried k' l' = carried k l'"
    and att_present: "Attach ops l k = (r, k') \<Longrightarrow> i \<noteq> lIndex l \<Longrightarrow> link_not_found ops i k' = link_not_found ops i k"
    and attd_true: "Attached ops l k = Inr b \<Longrightarrow> b = carried k l"
begin

abbreviation missing :: "'k \<Rightarrow> link \<Rightarrow> bool" where
  "missing \<equiv> unbilled ops carried"

lemma sweep_link_refused: "\<not> allowed s l \<Longrightarrow> sweep_link ops s l st = st"
  by (cases st) (simp add: sweep_link_def allowed_def Let_def)

lemma sweep_link_frame:
  assumes "sweep_link ops s l (w, k) = (w', k')" "lIndex l' \<noteq> lIndex l"
  shows "carried k' l' = carried k l' \<and> linkGone ops (lIndex l') k' = linkGone ops (lIndex l') k"
  using assms att_frame att_present
  by (cases "Attach ops l k") (auto simp: sweep_link_def Let_def linkGone_def split: if_splits sum.splits option.splits bool.splits)

text \<open>What one decided, allowed link adds to the sweep.\<close>

lemma sweep_link_allowed:
  assumes "sweep_link ops s l (w, k) = (w', k')" "allowed s l" "\<exists>b. Attached ops l k = Inr b"
  shows "wAttached w' = wAttached w @ (if carried k' l then [lName l] else [])
    \<and> wFailing w' = (if missing k' l \<and> \<not> carried k' l then mput (lName l) () (wFailing w) else wFailing w)
    \<and> wUnattached w' = (if missing k' l then inc (kindFor s (lName l)) (wUnattached w) else wUnattached w)"
proof -
  obtain b where b: "Attached ops l k = Inr b" using assms(3) by blast
  note c = attd_true[OF b]
  obtain r k1 where a: "Attach ops l k = (r, k1)" by (cases "Attach ops l k")
  show ?thesis
  proof (cases b)
    case True
    with assms(1,2) b c show ?thesis by (auto simp: sweep_link_def allowed_def unbilled_def Let_def)
  next
    case False
    with c have nc: "\<not> carried k l" by simp
    show ?thesis
      using assms(1,2) b False a att_ok[of l k k1] att_err[of l k _ k1] nc
      by (cases r) (auto simp: sweep_link_def allowed_def unbilled_def Let_def split: if_splits)
  qed
qed

lemma sweep_frame:
  assumes "fold (sweep_link ops s) ls (w, k) = (w', k')" "\<forall>l\<in>set ls. allowed s l \<longrightarrow> lIndex l' \<noteq> lIndex l"
  shows "carried k' l' = carried k l' \<and> linkGone ops (lIndex l') k' = linkGone ops (lIndex l') k"
  using assms
proof (induction ls arbitrary: w k)
  case (Cons l ls)
  obtain w1 k1 where 1: "sweep_link ops s l (w, k) = (w1, k1)" by (cases "sweep_link ops s l (w, k)")
  have "carried k1 l' = carried k l' \<and> linkGone ops (lIndex l') k1 = linkGone ops (lIndex l') k"
    using sweep_link_frame[OF 1, of l'] sweep_link_refused[of s l "(w, k)"] 1 Cons.prems(2)
    by (cases "allowed s l") auto
  with Cons.IH[of w1 k1] Cons.prems 1 show ?case by simp
qed simp

lemma sweep_keeps_kinds:
  assumes "fold (sweep_link ops s) ls (w, k) = (w', k')" "mhas (wUnattached w) kind"
  shows "mhas (wUnattached w') kind"
  using assms
proof (induction ls arbitrary: w k)
  case (Cons l ls)
  obtain w1 k1 where 1: "sweep_link ops s l (w, k) = (w1, k1)" by (cases "sweep_link ops s l (w, k)")
  have "mhas (wUnattached w1) kind"
    using 1 Cons.prems(2) by (auto simp: sweep_link_def Let_def split: if_splits sum.splits prod.splits option.splits bool.splits)
  with Cons.IH[of w1 k1] Cons.prems(1) 1 show ?case by simp
qed simp

lemma sweep_exact:
  assumes "fold (sweep_link ops s) ls (w, k) = (w', k')" "distinct (map lIndex ls)"
    and "\<And>l k. l \<in> set ls \<Longrightarrow> allowed s l \<Longrightarrow> \<exists>b. Attached ops l k = Inr b"
  shows "wAttached w' = wAttached w @ map lName (filter (\<lambda>l. allowed s l \<and> carried k' l) ls)
    \<and> (\<forall>n. mhas (wFailing w') n \<longleftrightarrow> mhas (wFailing w) n \<or> n \<in> lName ` {l \<in> set ls. allowed s l \<and> missing k' l})
    \<and> (\<forall>kind. count_of (wUnattached w') kind = count_of (wUnattached w) kind + length (filter (\<lambda>l. allowed s l \<and> missing k' l \<and> kindFor s (lName l) = kind) ls))
    \<and> (mwf (wUnattached w) \<longrightarrow> mwf (wUnattached w'))"
  using assms
proof (induction ls arbitrary: w k)
  case (Cons l ls)
  obtain w1 k1 where 1: "sweep_link ops s l (w, k) = (w1, k1)" by (cases "sweep_link ops s l (w, k)")
  have rest: "fold (sweep_link ops s) ls (w1, k1) = (w', k')" using Cons.prems(1) 1 by simp
  have "\<forall>l'\<in>set ls. allowed s l' \<longrightarrow> lIndex l \<noteq> lIndex l'" using Cons.prems(2) by force
  from sweep_frame[OF rest this] have f: "carried k' l = carried k1 l" "missing k' l = missing k1 l"
    by (auto simp: unbilled_def)
  note IH = Cons.IH[OF rest, OF _ Cons.prems(3)]
  show ?case
  proof (cases "allowed s l")
    case False
    with 1 have "w1 = w" using sweep_link_refused[of s l "(w, k)"] by simp
    moreover have "{l' \<in> set (l # ls). allowed s l' \<and> missing k' l'} = {l' \<in> set ls. allowed s l' \<and> missing k' l'}"
      using False by auto
    ultimately show ?thesis using IH Cons.prems(2) False by simp
  next
    case True
    note step = sweep_link_allowed[OF 1 True Cons.prems(3)[OF _ True]]
    show ?thesis using IH step f Cons.prems(2) True by (auto simp: unbilled_def)
  qed
qed simp

lemma resync_exact:
  assumes "resync ops (s, k) = (s', k')"
    and ls: "(if snd (list_links ops 0 k) = Some DumpInterrupted then list_links ops 1 k else list_links ops 0 k) = (ls, None)"
    and "distinct (map lIndex ls)" "\<And>l k. l \<in> set ls \<Longrightarrow> allowed s l \<Longrightarrow> \<exists>b. Attached ops l k = Inr b"
  shows "(\<forall>n. IsAttached (sRegistry s') n \<longleftrightarrow> n \<in> lName ` {l \<in> set ls. allowed s l \<and> carried k' l})
    \<and> (\<forall>n. mhas (sFailing s') n \<longleftrightarrow> n \<in> lName ` {l \<in> set ls. allowed s l \<and> missing k' l})
    \<and> (\<forall>m kind. sMetrics s' = Some m \<longrightarrow> kind \<in> {ifaceKindTap, ifaceKindOther} \<longrightarrow>
         mget (unattachedGauge m) kind = Some (length (filter (\<lambda>l. allowed s l \<and> missing k' l \<and> kindFor s (lName l) = kind) ls)))
    \<and> (\<forall>l'. (\<forall>l\<in>set ls. allowed s l \<longrightarrow> lIndex l' \<noteq> lIndex l) \<longrightarrow> carried k' l' = carried k l')"
proof -
  obtain w k1 where f: "fold (sweep_link ops s) ls (new_sweep s, k) = (w, k1)" by (cases "fold (sweep_link ops s) ls (new_sweep s, k)")
  have k1: "k1 = k'" and s': "s' = s\<lparr>sFailing := wFailing w, sRegistry := Registry_Replace (wAttached w) (sRegistry s), sMetrics := setUnattached (wUnattached w) (wMetrics w)\<rparr>"
    using assms(1) ls f by (simp_all add: resync_def Let_def)
  note e = sweep_exact[OF f assms(3,4), unfolded k1]
  have wf: "mwf (wUnattached w)" using e by (simp add: new_sweep_def mwf_Cons ifaceKindTap_def ifaceKindOther_def mhas_def mget_Cons)
  have has: "mhas (wUnattached w) kind" if "kind \<in> {ifaceKindTap, ifaceKindOther}" for kind
    using sweep_keeps_kinds[OF f, of kind] that by (auto simp: new_sweep_def mhas_def mget_Cons)
  have g: "mget (unattachedGauge m) kind = Some (count_of (wUnattached w) kind)"
    if "sMetrics s' = Some m" "kind \<in> {ifaceKindTap, ifaceKindOther}" for m kind
    using that(1) has[OF that(2)] by (auto simp: s' setUnattached_def mget_fold_mput[OF wf] count_of_def mhas_def split: option.splits)
  have z: "count_of (wUnattached (new_sweep s)) kind = 0" for kind by (simp add: new_sweep_def count_of_def mget_Cons)
  show ?thesis
    using e g z sweep_frame[OF f] by (auto simp: s' k1 new_sweep_def)
qed

lemma nl_handle_frame:
  assumes "nl_handle ops (typ, l) (s, k) = (s', k')" "allowed s l \<Longrightarrow> lIndex l' \<noteq> lIndex l"
  shows "carried k' l' = carried k l'"
  using assms att_frame
  by (cases "Attach ops l k")
     (auto simp: nl_handle_def onNewLink_def allowed_def split: prod.splits if_splits msg_type.splits option.splits)

lemma resync_frame:
  assumes "resync ops (s, k) = (s', k')" "\<And>n l. l \<in> set (fst (list_links ops n k)) \<Longrightarrow> allowed s l \<Longrightarrow> lIndex l' \<noteq> lIndex l"
  shows "carried k' l' = carried k l'"
proof -
  define res where "res = (if snd (list_links ops 0 k) = Some DumpInterrupted then list_links ops 1 k else list_links ops 0 k)"
  obtain w k1 where f: "fold (sweep_link ops s) (fst res) (new_sweep s, k) = (w, k1)" by (cases "fold (sweep_link ops s) (fst res) (new_sweep s, k)")
  have "k' = k \<or> k' = k1" using assms(1) f by (auto simp: resync_def Let_def res_def split: if_splits)
  moreover have "\<forall>l\<in>set (fst res). allowed s l \<longrightarrow> lIndex l' \<noteq> lIndex l" using assms(2) by (auto simp: res_def)
  ultimately show ?thesis using sweep_frame[OF f] by auto
qed

end

lemma listed_err:
  assumes "(if snd (list_links ops 0 k) = Some DumpInterrupted then list_links ops 1 k else list_links ops 0 k) = (ls, Some e)"
  shows "resync ops (s, k) = (s, k)"
  unfolding resync_def prod.case Let_def assms by simp

text \<open>The allowlist is fixed at construction.\<close>

lemma lists_resync [simp]: "sPrefixes (fst (resync ops st)) = sPrefixes (fst st)" "sExplicit (fst (resync ops st)) = sExplicit (fst st)"
  by (cases st; simp add: resync_def Let_def split: prod.splits)+

lemma lists_handle [simp]: "sPrefixes (fst (nl_handle ops ev st)) = sPrefixes (fst st)" "sExplicit (fst (nl_handle ops ev st)) = sExplicit (fst st)"
  by (cases st; cases ev; auto simp: nl_handle_def onNewLink_def onDelLink_def onSkip_def split: prod.splits if_splits msg_type.splits option.splits)+

text \<open>No event, and no listing of the kernel, shows an allowed link at the index.\<close>

definition not_in_events :: "subscriber \<Rightarrow> int \<Rightarrow> stream_input list \<Rightarrow> bool" where
  "not_in_events s i ins \<longleftrightarrow> (\<forall>ev. Event ev \<in> set ins \<longrightarrow> allowed s (snd ev) \<longrightarrow> i \<noteq> lIndex (snd ev))"

definition not_in_listings :: "'k nl_ops \<Rightarrow> subscriber \<Rightarrow> int \<Rightarrow> bool" where
  "not_in_listings ops s i \<longleftrightarrow> (\<forall>n k. \<forall>l\<in>set (fst (list_links ops n k)). allowed s l \<longrightarrow> i \<noteq> lIndex l)"

context attacher
begin

text \<open>A link that neither an event nor a listing shows under an allowed name keeps what it carries.\<close>

definition untouched :: "link \<Rightarrow> subscriber \<times> 'k \<Rightarrow> subscriber \<times> 'k \<Rightarrow> bool" where
  "untouched l' st st' \<longleftrightarrow> carried (snd st') l' = carried (snd st) l' \<and> sPrefixes (fst st') = sPrefixes (fst st) \<and> sExplicit (fst st') = sExplicit (fst st)"

lemma untouched_trans: "untouched l' st st1 \<Longrightarrow> untouched l' st1 st2 \<Longrightarrow> untouched l' st st2"
  by (simp add: untouched_def)

lemma untouched_refl [simp]: "untouched l' st st"
  by (simp add: untouched_def)

lemma untouched_clear:
  "untouched l' st st' \<Longrightarrow> not_in_events (fst st') i ins = not_in_events (fst st) i ins"
  "untouched l' st st' \<Longrightarrow> not_in_listings ops (fst st') i = not_in_listings ops (fst st) i"
  by (simp_all add: untouched_def allowed_def not_in_events_def not_in_listings_def)

lemma untouched_resync:
  assumes "not_in_listings ops (fst st) (lIndex l')"
  shows "untouched l' st (resync ops st)"
  using resync_frame[of "fst st" "snd st" "fst (resync ops st)" "snd (resync ops st)" l'] assms by (simp add: untouched_def not_in_listings_def)

lemma untouched_handle:
  assumes "not_in_events (fst st) (lIndex l') (Event ev # ins)"
  shows "untouched l' st (nl_handle ops ev st)"
proof -
  have "allowed (fst st) (snd ev) \<Longrightarrow> lIndex l' \<noteq> lIndex (snd ev)"
    using assms by (cases ev) (auto simp: not_in_events_def)
  then show ?thesis
  using nl_handle_frame[of "fst ev" "snd ev" "fst st" "snd st" "fst (nl_handle ops ev st)" "snd (nl_handle ops ev st)" l'] by (simp add: untouched_def)
qed

lemma stream_loop_frame:
  assumes "not_in_events (fst st) (lIndex l') ins" "not_in_listings ops (fst st) (lIndex l')"
  shows "untouched l' st (fst (stream_loop ops ins st))"
  using assms
proof (induction ins arbitrary: st)
  case (Cons i ins)
  have rest: "untouched l' st (fst (stream_loop ops ins st1))" if u: "untouched l' st st1" for st1
    using untouched_trans[OF u] Cons.IH[of st1] Cons.prems untouched_clear[OF u] by (simp add: not_in_events_def)
  show ?case
  proof (cases i)
    case Tick
    then show ?thesis using rest[OF untouched_resync[OF Cons.prems(2)]] rest[OF untouched_refl] by simp
  next
    case (Event ev)
    then show ?thesis using rest[OF untouched_handle] Cons.prems(1) by simp
  qed simp_all
qed simp

lemma runStream_frame:
  assumes "not_in_events (fst st) (lIndex l') ins" "not_in_listings ops (fst st) (lIndex l')"
  shows "untouched l' st (fst (runStream ops sub rf ins st))"
proof -
  have u: "untouched l' st (resync ops st)" by (rule untouched_resync[OF assms(2)])
  have "untouched l' st (fst (stream_loop ops ins (resync ops st)))"
    using stream_loop_frame[of "resync ops st" l' ins] assms untouched_clear[OF u] untouched_trans[OF u] by simp
  then show ?thesis using stream_loop_frame[OF assms] by (simp add: runStream_def split: option.splits)
qed

lemma nl_Run_frame:
  assumes "\<forall>r\<in>set rs. not_in_events (fst st) (lIndex l') (rInputs r)" "not_in_listings ops (fst st) (lIndex l')"
  shows "untouched l' st (fst (nl_Run ops b d rf rs st))"
  using assms
proof (induction rs arbitrary: st d rf)
  case (Cons r rs)
  obtain st1 out where 1: "runStream ops (rSubscribe r) rf (rInputs r) st = (st1, out)" by (cases "runStream ops (rSubscribe r) rf (rInputs r) st")
  have u1: "untouched l' st st1"
    using runStream_frame[of st l' "rInputs r" "rSubscribe r" rf] Cons.prems 1 by simp
  define st2 where "st2 = (fst st1\<lparr>sMetrics := recordRestart (sMetrics (fst st1))\<rparr>, snd st1)"
  have u2: "untouched l' st st2" using u1 by (simp add: untouched_def st2_def)
  have "untouched l' st (fst (nl_Run ops b d' True rs st2))" for d'
    using untouched_trans[OF u2] Cons.IH[of st2 d' True] Cons.prems untouched_clear[OF u2] by simp
  then show ?case using u1 u2 1
    by (cases out) (simp_all add: Let_def st2_def[symmetric] split: prod.splits, metis fst_conv)
qed simp

end

section \<open>The re-subscribe schedule\<close>

fun restarts_of :: "subscriber \<Rightarrow> nat" where
  "restarts_of s = (case sMetrics s of None \<Rightarrow> 0 | Some m \<Rightarrow> restarts m)"

text \<open>The waits a policy allows: each within its bounds, each at most twice the one before.\<close>

fun schedule :: "backoffPolicy \<Rightarrow> duration \<Rightarrow> duration list \<Rightarrow> bool" where
  "schedule b d [] = True"
| "schedule b d (x # xs) = ((x = d \<or> x = bMin b) \<and> schedule b (backoff_next b x) xs)"

lemma nl_Run_schedule: "schedule b d (fst (snd (nl_Run ops b d rf rs st)))"
proof (induction rs arbitrary: st d rf)
  case (Cons r rs)
  show ?case
    using Cons.IH by (auto simp: Let_def split: prod.splits option.splits) (metis fst_conv snd_conv)+
qed simp

lemma nl_Run_returns:
  "snd (snd (nl_Run ops b d rf rs st)) \<Longrightarrow> \<exists>r\<in>set rs. rCancelled r \<or> rCancelledWait r"
proof (induction rs arbitrary: st d rf)
  case (Cons r rs)
  then show ?case by (auto simp: Let_def split: prod.splits option.splits if_splits) (metis snd_conv)+
qed simp

lemma schedule_bounds:
  assumes "schedule b d xs" "bMin b \<le> d" "d \<le> bMax b" "0 \<le> bMin b" "x \<in> set xs"
  shows "bMin b \<le> x \<and> x \<le> bMax b"
  using assms
proof (induction xs arbitrary: d)
  case (Cons y ys)
  have "bMin b \<le> y \<and> y \<le> bMax b" using Cons.prems by auto
  then show ?case using Cons.IH[of "backoff_next b y"] Cons.prems by (auto simp: backoff_next_def)
qed simp

section \<open>The subscriber over the attach path\<close>

text \<open>
  \<^verbatim>\<open>NewLinkAttacher\<close> with the two programs; \<^verbatim>\<open>gone\<close> and \<^verbatim>\<open>listing\<close> are the library's link lookup and listing.
\<close>

definition NewLinkAttacher :: "'k tc_ops \<Rightarrow> nat \<Rightarrow> nat \<Rightarrow> (int \<Rightarrow> 'k \<Rightarrow> bool) \<Rightarrow> (nat \<Rightarrow> 'k \<Rightarrow> link list \<times> list_error option) \<Rightarrow> 'k nl_ops" where
  "NewLinkAttacher ops ingress egress gone listing =
    \<lparr>Attach = AttachTelemetry ops ingress egress, Attached = HasTelemetry ops, link_not_found = gone, list_links = listing\<rparr>"

text \<open>Changing filters neither removes a link nor creates one.\<close>

locale tc_links = tc_kernel_del ops filters
  for ops :: "'k tc_ops" and filters :: "'k \<Rightarrow> int \<Rightarrow> u32 \<Rightarrow> tc_filter list" +
  fixes gone :: "int \<Rightarrow> 'k \<Rightarrow> bool"
  assumes qdisc_present: "qdisc_replace ops i k = (r, k') \<Longrightarrow> gone j k' = gone j k"
    and replace_present: "filter_replace ops i p f k = (r, k') \<Longrightarrow> gone j k' = gone j k"
    and del_present: "filter_del ops i p f k = (r, k') \<Longrightarrow> gone j k' = gone j k"
begin

lemma Replace_present:
  assumes "Replace ops l prog dir name k = (r, k')"
  shows "gone j k' = gone j k"
  using assms qdisc_present replace_present
  unfolding Replace_def ensureClsact_def replaceFilter_def by (simp split: prod.splits option.splits sum.splits)

lemma AttachTelemetry_present:
  assumes "AttachTelemetry ops ingress egress l k = (r, k')"
  shows "gone j k' = gone j k"
proof -
  obtain r1 k1 where 1: "Replace ops l ingress Ingress FilterIngressName k = (r1, k1)" by (cases "Replace ops l ingress Ingress FilterIngressName k")
  obtain r2 k2 where 2: "Replace ops l egress Egress FilterEgressName k1 = (r2, k2)" by (cases "Replace ops l egress Egress FilterEgressName k1")
  obtain r3 k3 where 3: "removeFilter ops l Ingress k2 = (r3, k3)" by (cases "removeFilter ops l Ingress k2")
  have "gone j k3 = gone j k2" by (rule removeFilter_del[OF 3]) (auto dest: del_present)
  then show ?thesis
    using assms 1 2 3 Replace_present[OF 1] Replace_present[OF 2] by (auto simp: AttachTelemetry_def split: option.splits)
qed

end

text \<open>The attach path meets the contract of the subscriber.\<close>

lemma tc_attacher:
  assumes "tc_links ops filters gone" "listings_settle ops filters"
  shows "attacher (NewLinkAttacher ops ingress egress gone listing) (carries filters)"
proof -
  have d: "tc_kernel_del ops filters" and t: "tc_kernel ops filters"
    using assms(1) tc_links_def tc_kernel_del_def by blast+
  show ?thesis
    using tc_kernel.AttachTelemetry_carries[OF t] tc_kernel_del.AttachTelemetry_unattached[OF d] tc_kernel.carries_frame[OF t]
      tc_links.AttachTelemetry_present[OF assms(1)] tc_kernel.HasTelemetry_decides[OF t assms(2)]
    by unfold_locales (auto simp: NewLinkAttacher_def)
qed

text \<open>A host: its links are fixed while the subscriber works on their hooks.\<close>

definition host_gone :: "link list \<Rightarrow> int \<Rightarrow> tc_table \<Rightarrow> bool" where
  "host_gone links i k \<longleftrightarrow> i \<notin> set (map lIndex links)"

definition host_links :: "link list \<Rightarrow> nat \<Rightarrow> tc_table \<Rightarrow> link list \<times> list_error option" where
  "host_links links n k = (if n = 0 then (take 1 links, Some DumpInterrupted) else (links, None))"

interpretation host: tc_links table_ops table_filters "host_gone links" for links
  by unfold_locales (simp_all add: host_gone_def)

interpretation host_att: attacher "NewLinkAttacher table_ops ingress egress (host_gone links) (host_links links)" "carries table_filters"
  for ingress egress links
  by (rule tc_attacher[OF host.tc_links_axioms table_settles])

section \<open>Properties\<close>


definition veth_link :: link where
  "veth_link = \<lparr>lName = ''tapmeta'', lIndex = 8, lType = ''veth''\<rparr>"

definition host_sub :: subscriber where
  "host_sub = \<lparr>sPrefixes = [''tap''], sExplicit = [], sResyncInterval = 1, sRegistry = [(''tapold'', ())], sMetrics = Some NewMetrics, sFailing = [], sSkipped = []\<rparr>"




end
