(* ===== verification/Boot.thy ===== *)
theory Boot
  imports Bpf_Abi
begin

text \<open>
  The boot sequencer (\<^verbatim>\<open>internal/boot\<close>). The sequencer is shared: any goroutine may advance it, fail it or
  wait on it, so its operations are the steps of a relation, one step per critical section or channel
  operation. A channel that only ever gets closed is the boolean that says it is closed. A waiter is at
  one of three points of \<^verbatim>\<open>Await\<close>: past the range check, blocked in the second select, returned.
\<close>

section \<open>Phases\<close>

type_synonym phase = int

definition PhaseInit :: phase where "PhaseInit = 0"
definition PhaseBPFLoaded :: phase where "PhaseBPFLoaded = 1"
definition PhaseMetadataReady :: phase where "PhaseMetadataReady = 2"
definition PhaseAttached :: phase where "PhaseAttached = 3"
definition PhaseStateRestored :: phase where "PhaseStateRestored = 4"
definition phaseCount :: int where "phaseCount = PhaseStateRestored + 1"

lemmas phase_codes = PhaseInit_def PhaseBPFLoaded_def PhaseMetadataReady_def PhaseAttached_def PhaseStateRestored_def phaseCount_def

definition format_int :: "int \<Rightarrow> string" where
  "format_int n = (if n < 0 then ''-'' @ format_uint (nat (- n)) else format_uint (nat n))"

definition Phase_String :: "phase \<Rightarrow> string" where
  "Phase_String p =
    (if p = PhaseInit then ''init'' else if p = PhaseBPFLoaded then ''bpf_loaded''
     else if p = PhaseMetadataReady then ''metadata_ready'' else if p = PhaseAttached then ''attached''
     else if p = PhaseStateRestored then ''state_restored'' else ''phase('' @ format_int p @ '')'')"

section \<open>The sequencer\<close>

record sequencer =
  current :: phase
  reached :: "bool list"
  failCh :: bool
  failErr :: "string option"

definition Sequencer_New :: sequencer where
  "Sequencer_New = \<lparr>current = PhaseInit, reached = (replicate (nat phaseCount) False)[nat PhaseInit := True], failCh = False, failErr = None\<rparr>"

text \<open>Indexing the array of channels and closing a channel both may panic.\<close>

definition close_reached :: "phase \<Rightarrow> bool list \<Rightarrow> bool list outcome" where
  "close_reached p cs =
    (if p < 0 \<or> int (length cs) \<le> p then Panic ''index out of range''
     else if cs ! nat p then Panic ''close of closed channel'' else Ret (cs[nat p := True]))"

definition Advance :: "phase \<Rightarrow> sequencer \<Rightarrow> (sequencer \<times> string option) outcome" where
  "Advance nxt s =
    (if nxt \<noteq> current s + 1
     then Ret (s, Some (''boot: cannot advance from '' @ Phase_String (current s) @ '' to '' @ Phase_String nxt @ '' (must be the next phase)''))
     else (case close_reached nxt (reached s) of
             Panic msg \<Rightarrow> Panic msg
           | Ret cs \<Rightarrow> Ret (s\<lparr>current := nxt, reached := cs\<rparr>, None)))"

definition Fail :: "phase \<Rightarrow> string \<Rightarrow> sequencer \<Rightarrow> sequencer" where
  "Fail p err s =
    (if failCh s then s
     else s\<lparr>failErr := Some (''boot: aborted at phase '' @ Phase_String p @ '': '' @ err), failCh := True\<rparr>)"

definition Current :: "sequencer \<Rightarrow> phase" where
  "Current s = current s"

section \<open>Waiting\<close>

datatype awaiter = Entered phase | Blocked phase | Returned phase "string option"

definition await_enter :: "phase \<Rightarrow> awaiter" where
  "await_enter p =
    (if p < 0 \<or> p \<ge> phaseCount then Returned p (Some (''boot: await invalid phase '' @ Phase_String p)) else Entered p)"

text \<open>The first select has a default case.\<close>

definition await_poll :: "sequencer \<Rightarrow> phase \<Rightarrow> awaiter" where
  "await_poll s p = (if reached s ! nat p then Returned p None else Blocked p)"

text \<open>The second select takes any ready case; the context carries its error once it is done.\<close>

datatype wake = OnReached | OnFail | OnDone

fun wake_ready :: "sequencer \<Rightarrow> string option \<Rightarrow> phase \<Rightarrow> wake \<Rightarrow> bool" where
  "wake_ready s ctx p OnReached = (reached s ! nat p)"
| "wake_ready s ctx p OnFail = failCh s"
| "wake_ready s ctx p OnDone = (ctx \<noteq> None)"

fun await_wake :: "sequencer \<Rightarrow> string option \<Rightarrow> phase \<Rightarrow> wake \<Rightarrow> awaiter" where
  "await_wake s ctx p OnReached = Returned p None"
| "await_wake s ctx p OnFail = Returned p (failErr s)"
| "await_wake s ctx p OnDone = Returned p ctx"

record boot_sys =
  bsSeq :: sequencer
  bsWaiters :: "(string option \<times> awaiter) list"

inductive boot_step :: "boot_sys \<Rightarrow> boot_sys \<Rightarrow> bool" where
  advance: "Advance p (bsSeq b) = Ret (s', err) \<Longrightarrow> boot_step b (b\<lparr>bsSeq := s'\<rparr>)"
| failed: "boot_step b (b\<lparr>bsSeq := Fail p err (bsSeq b)\<rparr>)"
| enter: "boot_step b (b\<lparr>bsWaiters := bsWaiters b @ [(ctx, await_enter p)]\<rparr>)"
| cancel: "i < length (bsWaiters b) \<Longrightarrow> bsWaiters b ! i = (None, w) \<Longrightarrow>
    boot_step b (b\<lparr>bsWaiters := (bsWaiters b)[i := (Some err, w)]\<rparr>)"
| poll: "i < length (bsWaiters b) \<Longrightarrow> bsWaiters b ! i = (ctx, Entered p) \<Longrightarrow>
    boot_step b (b\<lparr>bsWaiters := (bsWaiters b)[i := (ctx, await_poll (bsSeq b) p)]\<rparr>)"
| wake: "i < length (bsWaiters b) \<Longrightarrow> bsWaiters b ! i = (ctx, Blocked p) \<Longrightarrow> wake_ready (bsSeq b) ctx p w \<Longrightarrow>
    boot_step b (b\<lparr>bsWaiters := (bsWaiters b)[i := (ctx, await_wake (bsSeq b) ctx p w)]\<rparr>)"

inductive boot_reachable :: "boot_sys \<Rightarrow> bool" where
  start: "boot_reachable \<lparr>bsSeq = Sequencer_New, bsWaiters = []\<rparr>"
| step: "boot_reachable b \<Longrightarrow> boot_step b b' \<Longrightarrow> boot_reachable b'"

section \<open>The invariant\<close>

definition seq_ok :: "sequencer \<Rightarrow> bool" where
  "seq_ok s \<longleftrightarrow> 0 \<le> current s \<and> current s < phaseCount \<and> length (reached s) = nat phaseCount \<and>
    (\<forall>i < nat phaseCount. reached s ! i \<longleftrightarrow> int i \<le> current s) \<and> (failCh s \<longleftrightarrow> failErr s \<noteq> None)"

definition waiter_ok :: "sequencer \<Rightarrow> string option \<times> awaiter \<Rightarrow> bool" where
  "waiter_ok s cw = (case cw of (ctx, w) \<Rightarrow>
    (case w of
       Entered p \<Rightarrow> 0 \<le> p \<and> p < phaseCount
     | Blocked p \<Rightarrow> 0 \<le> p \<and> p < phaseCount
     | Returned p None \<Rightarrow> 0 \<le> p \<and> p \<le> current s
     | Returned p (Some e) \<Rightarrow> p < 0 \<or> phaseCount \<le> p \<or> failErr s = Some e \<or> ctx = Some e))"

definition boot_ok :: "boot_sys \<Rightarrow> bool" where
  "boot_ok b \<longleftrightarrow> seq_ok (bsSeq b) \<and> (\<forall>cw\<in>set (bsWaiters b). waiter_ok (bsSeq b) cw)"

lemma seq_ok_New: "seq_ok Sequencer_New"
  by (auto simp: seq_ok_def Sequencer_New_def phase_codes nth_list_update)

lemma reached_at:
  assumes "seq_ok s" "0 \<le> p" "p < phaseCount"
  shows "reached s ! nat p \<longleftrightarrow> p \<le> current s"
proof -
  have "nat p < nat phaseCount" using assms by linarith
  then have "reached s ! nat p \<longleftrightarrow> int (nat p) \<le> current s" using assms(1) unfolding seq_ok_def by blast
  then show ?thesis using assms(2) by simp
qed

lemma Advance_next:
  assumes "seq_ok s"
  shows "Advance (current s + 1) s =
    (if current s = PhaseStateRestored then Panic ''index out of range''
     else Ret (s\<lparr>current := current s + 1, reached := (reached s)[nat (current s + 1) := True]\<rparr>, None))"
proof -
  have len: "int (length (reached s)) = phaseCount" and cur: "0 \<le> current s" "current s < phaseCount"
    using assms by (auto simp: seq_ok_def phase_codes)
  show ?thesis
  proof (cases "current s = PhaseStateRestored")
    case True
    then show ?thesis using len by (simp add: Advance_def close_reached_def phase_codes)
  next
    case False
    then have lt: "current s + 1 < phaseCount" using cur by (simp add: phase_codes)
    then have "\<not> reached s ! nat (current s + 1)" using reached_at[OF assms, of "current s + 1"] cur by simp
    then show ?thesis using False lt cur len by (simp add: Advance_def close_reached_def)
  qed
qed

lemma seq_ok_next:
  assumes "seq_ok s" "current s \<noteq> PhaseStateRestored"
  shows "seq_ok (s\<lparr>current := current s + 1, reached := (reached s)[nat (current s + 1) := True]\<rparr>)"
proof -
  have cur: "0 \<le> current s" "current s + 1 < phaseCount" and len: "length (reached s) = nat phaseCount"
    and at: "\<And>i. i < nat phaseCount \<Longrightarrow> reached s ! i \<longleftrightarrow> int i \<le> current s"
    using assms by (auto simp: seq_ok_def phase_codes)
  have "(reached s)[nat (current s + 1) := True] ! i \<longleftrightarrow> int i \<le> current s + 1" if "i < nat phaseCount" for i
    using at[OF that] cur len that by (cases "i = nat (current s + 1)") auto
  then show ?thesis using assms(1) cur len by (auto simp: seq_ok_def)
qed

lemma Advance_other: "nxt \<noteq> current s + 1 \<Longrightarrow> \<exists>msg. Advance nxt s = Ret (s, Some msg)"
  by (simp add: Advance_def)

lemma Advance_ok:
  assumes "seq_ok s" "Advance p s = Ret (s', err)"
  shows "seq_ok s'" "current s \<le> current s'" "failErr s' = failErr s"
proof -
  have "s' = s \<or> current s \<noteq> PhaseStateRestored \<and> s' = s\<lparr>current := current s + 1, reached := (reached s)[nat (current s + 1) := True]\<rparr>"
    using assms(2) Advance_next[OF assms(1)] by (cases "p = current s + 1") (auto simp: Advance_def split: if_splits)
  then show "seq_ok s'" "current s \<le> current s'" "failErr s' = failErr s"
    using assms(1) seq_ok_next[OF assms(1)] by auto
qed

lemma Fail_ok: "seq_ok s \<Longrightarrow> seq_ok (Fail p err s) \<and> current (Fail p err s) = current s \<and> (failErr s \<noteq> None \<longrightarrow> Fail p err s = s)"
  by (auto simp: Fail_def seq_ok_def)

lemma waiter_ok_mono:
  assumes "waiter_ok s cw" "current s \<le> current s'" "\<And>e. failErr s = Some e \<Longrightarrow> failErr s' = Some e"
  shows "waiter_ok s' cw"
  using assms by (cases cw) (auto simp: waiter_ok_def split: awaiter.splits option.splits)

lemma poll_ok: "seq_ok s \<Longrightarrow> waiter_ok s (ctx, Entered p) \<Longrightarrow> waiter_ok s (ctx, await_poll s p)"
  by (auto simp: waiter_ok_def await_poll_def seq_ok_def)

lemma wake_ok: "seq_ok s \<Longrightarrow> waiter_ok s (ctx, Blocked p) \<Longrightarrow> wake_ready s ctx p w \<Longrightarrow> waiter_ok s (ctx, await_wake s ctx p w)"
  by (cases w) (auto simp: waiter_ok_def seq_ok_def)

lemma boot_step_ok:
  assumes "boot_step b b'" "boot_ok b"
  shows "boot_ok b'"
  using assms
proof (induction rule: boot_step.induct)
  case (advance p b s' err)
  then show ?case using Advance_ok[OF _ advance(1)] by (auto simp: boot_ok_def intro: waiter_ok_mono)
next
  case (failed b p err)
  then show ?case using Fail_ok[of "bsSeq b" p err] by (force simp: boot_ok_def intro: waiter_ok_mono)
next
  case (enter b ctx p)
  then show ?case by (auto simp: boot_ok_def await_enter_def waiter_ok_def)
next
  case (cancel i b w err)
  then have "waiter_ok (bsSeq b) (None, w)" by (auto simp: boot_ok_def dest: nth_mem)
  then have "waiter_ok (bsSeq b) (Some err, w)" by (auto simp: waiter_ok_def split: awaiter.splits option.splits)
  then show ?case using cancel by (auto simp: boot_ok_def dest: set_update_subset_insert[THEN subsetD])
next
  case (poll i b ctx p)
  then have "waiter_ok (bsSeq b) (ctx, Entered p)" by (metis boot_ok_def nth_mem)
  then show ?case using poll poll_ok by (auto simp: boot_ok_def dest!: set_update_subset_insert[THEN subsetD])
next
  case (wake i b ctx p w)
  then have "waiter_ok (bsSeq b) (ctx, Blocked p)" by (metis boot_ok_def nth_mem)
  then show ?case using wake wake_ok by (auto simp: boot_ok_def dest!: set_update_subset_insert[THEN subsetD])
qed

lemma reachable_ok: "boot_reachable b \<Longrightarrow> boot_ok b"
proof (induction rule: boot_reachable.induct)
  case start
  show ?case by (simp add: boot_ok_def seq_ok_New)
next
  case (step b b')
  then show ?case by (blast intro: boot_step_ok)
qed

section \<open>Properties\<close>

lemma waiter_wakes:
  assumes "i < length (bsWaiters b)" "bsWaiters b ! i = (ctx, Blocked p)" "wake_ready (bsSeq b) ctx p w"
  shows "\<exists>b' r. boot_step b b' \<and> bsWaiters b' ! i = (ctx, Returned p r)"
proof -
  let ?b = "b\<lparr>bsWaiters := (bsWaiters b)[i := (ctx, await_wake (bsSeq b) ctx p w)]\<rparr>"
  have "boot_step b ?b" by (rule boot_step.wake[OF assms])
  moreover have "\<exists>r. await_wake (bsSeq b) ctx p w = Returned p r" by (cases w) auto
  ultimately show ?thesis using assms(1) by (metis boot_sys.ext_inject boot_sys.surjective boot_sys.update_convs(2) nth_list_update_eq)
qed

text \<open>
  C28. The boot barrier. In every state reachable by any interleaving of advances, failures,
  cancellations and waits: the phase is one of the five and exactly the channels up to it are closed; the
  next phase, and no other, can be advanced to, and an advance past the last one indexes out of range; a
  wait that returned nil was for a phase that has been reached; a wait that returned an error was for an
  invalid phase, or returned the first boot failure, or its context's error; and a blocked wait can
  return as soon as its phase is reached, the boot has failed or its context is done.
\<close>

theorem boot_barrier:
  assumes "boot_reachable b"
  shows "0 \<le> Current (bsSeq b) \<and> Current (bsSeq b) < phaseCount \<and>
    (\<forall>p. 0 \<le> p \<and> p < phaseCount \<longrightarrow> (reached (bsSeq b) ! nat p \<longleftrightarrow> p \<le> Current (bsSeq b))) \<and>
    (\<forall>p. (\<exists>s'. Advance p (bsSeq b) = Ret (s', None)) \<longleftrightarrow> p = Current (bsSeq b) + 1 \<and> p < phaseCount) \<and>
    (\<forall>p. (\<exists>msg. Advance p (bsSeq b) = Panic msg) \<longleftrightarrow> p = phaseCount \<and> Current (bsSeq b) = PhaseStateRestored) \<and>
    (\<forall>ctx p. (ctx, Returned p None) \<in> set (bsWaiters b) \<longrightarrow> 0 \<le> p \<and> p \<le> Current (bsSeq b)) \<and>
    (\<forall>ctx p e. (ctx, Returned p (Some e)) \<in> set (bsWaiters b) \<longrightarrow> p < 0 \<or> phaseCount \<le> p \<or> failErr (bsSeq b) = Some e \<or> ctx = Some e) \<and>
    (\<forall>i ctx p. i < length (bsWaiters b) \<and> bsWaiters b ! i = (ctx, Blocked p) \<and>
       (p \<le> Current (bsSeq b) \<or> failErr (bsSeq b) \<noteq> None \<or> ctx \<noteq> None) \<longrightarrow>
       (\<exists>b' r. boot_step b b' \<and> bsWaiters b' ! i = (ctx, Returned p r)))"
proof -
  have ok: "seq_ok (bsSeq b)" and ws: "\<And>cw. cw \<in> set (bsWaiters b) \<Longrightarrow> waiter_ok (bsSeq b) cw"
    using reachable_ok[OF assms] by (auto simp: boot_ok_def)
  have cur: "0 \<le> current (bsSeq b)" "current (bsSeq b) < phaseCount" "failCh (bsSeq b) \<longleftrightarrow> failErr (bsSeq b) \<noteq> None"
    using ok by (auto simp: seq_ok_def)
  have adv: "(\<exists>s'. Advance p (bsSeq b) = Ret (s', None)) \<longleftrightarrow> p = current (bsSeq b) + 1 \<and> p < phaseCount"
    "(\<exists>msg. Advance p (bsSeq b) = Panic msg) \<longleftrightarrow> p = phaseCount \<and> current (bsSeq b) = PhaseStateRestored" for p
    using Advance_next[OF ok] Advance_other[of p "bsSeq b"] cur(2) by (cases "p = current (bsSeq b) + 1"; auto simp: phase_codes)+
  have wakes: "\<exists>b' r. boot_step b b' \<and> bsWaiters b' ! i = (ctx, Returned p r)"
    if "i < length (bsWaiters b)" "bsWaiters b ! i = (ctx, Blocked p)" "p \<le> current (bsSeq b) \<or> failErr (bsSeq b) \<noteq> None \<or> ctx \<noteq> None" for i ctx p
  proof -
    have "0 \<le> p" "p < phaseCount" using ws[OF nth_mem[OF that(1)]] that(2) by (auto simp: waiter_ok_def)
    then have "\<exists>w. wake_ready (bsSeq b) ctx p w" using that(3) cur(3) reached_at[OF ok] by (metis wake_ready.simps)
    then show ?thesis using waiter_wakes[OF that(1,2)] by blast
  qed
  show ?thesis
    unfolding Current_def
    using cur adv reached_at[OF ok] wakes ws by (fastforce simp: waiter_ok_def)
qed

text \<open>A worker waits for the last phase, the boot reaches it, and the worker returns.\<close>

definition ex_waiting :: boot_sys where
  "ex_waiting = \<lparr>bsSeq = Sequencer_New, bsWaiters = [(None, Entered PhaseBPFLoaded)]\<rparr>"

lemma ex_waiting_reachable: "boot_reachable ex_waiting"
proof -
  have "boot_step \<lparr>bsSeq = Sequencer_New, bsWaiters = []\<rparr> ex_waiting"
    using boot_step.enter[of "\<lparr>bsSeq = Sequencer_New, bsWaiters = []\<rparr>" None PhaseBPFLoaded]
    by (simp add: ex_waiting_def await_enter_def phase_codes)
  then show ?thesis by (rule boot_reachable.step[OF boot_reachable.start])
qed

theorem boot_barrier_witness:
  "\<exists>s'. Advance PhaseBPFLoaded (bsSeq ex_waiting) = Ret (s', None)"
proof -
  have "Current (bsSeq ex_waiting) = PhaseInit" by (simp add: Current_def ex_waiting_def Sequencer_New_def)
  then show ?thesis using boot_barrier[OF ex_waiting_reachable] by (simp add: phase_codes)
qed

end
