(* ===== verification/Bootstrap.thy ===== *)
theory Bootstrap
  imports Boot
begin

text \<open>
  The startup sequence (\<^verbatim>\<open>internal/agent/bootstrap_linux.go\<close>): the step table, the load of the BPF collection
  with its pinning policy, and the wiring of the agent. The parts that talk to the operating system and
  to other packages are given by their outcomes in a \<^verbatim>\<open>boot_env\<close>; the decisions on them are the code's.
  An error is its message, with the operation that failed and what it wraps but not the path or the hint.
\<close>

section \<open>Configuration, environment, state\<close>

record boot_cfg =
  NeutronEnabled :: bool
  KafkaEnabled :: bool
  WALEnabled :: bool
  AttachPrefixes :: "string list"
  AttachInterfaces :: "string list"
  UnsafeAllowUnpinnedMaps :: bool

text \<open>A loaded collection by the names of its maps and programs; loading is the \<^verbatim>\<open>ebpf\<close> package's.\<close>

record collection =
  Maps :: "string list"
  Programs :: "string list"

text \<open>A failed load of a pinned collection, with whether it is \<^verbatim>\<open>ErrMapIncompatible\<close>.\<close>

datatype pin_error = PinError string bool

datatype remove_result = Removed | RemoveNotExist | RemoveError string

record boot_env =
  eConfig :: "string + boot_cfg"
  eLogging :: "string option"
  eMemlock :: "string option"
  eHunt :: "nat \<times> string option"
  eSpec :: "string + (string, u32) gomap"
  eMkdir :: "nat \<Rightarrow> string option"
  ePinned :: "nat \<Rightarrow> pin_error + collection"
  eRemove :: "string \<Rightarrow> remove_result"
  eUnpinned :: "string + collection"
  eReader :: "string option"
  eStats :: "string option"
  eNew :: "string option"
  eColdStart :: "string option"
  eSubscriber :: "string option"
  eEnsureDir :: "string option"
  eRestore :: "string option"

record bootstrapper =
  bSeq :: sequencer
  bCfg :: boot_cfg
  bColl :: "collection option"
  bCollClosed :: bool
  zombiesCleaned :: nat
  mapsPinned :: bool
  bAgent :: bool
  bSubscriber :: bool
  bSweeper :: bool
  bReconciler :: bool
  bKafka :: bool

section \<open>Loading the collection\<close>

definition MapTelemetry :: string where "MapTelemetry = ''telemetry_map''"
definition MapTelemetryStats :: string where "MapTelemetryStats = ''telemetry_stats''"
definition MapMacTenant :: string where "MapMacTenant = ''mac_tenant_map''"
definition MapSubnetZoneTrie :: string where "MapSubnetZoneTrie = ''subnet_zone_trie''"
definition MapAmphoraBaseIP :: string where "MapAmphoraBaseIP = ''amphora_base_ip''"
definition ProgramIngress :: string where "ProgramIngress = ''tc_telemetry_in''"
definition ProgramEgress :: string where "ProgramEgress = ''tc_telemetry_out''"

definition pinnedMaps :: "string list" where
  "pinnedMaps = [MapTelemetry, MapTelemetryStats]"

text \<open>The n-th attempt; the spec is its map sizes by name.\<close>

definition loadPinnedCollection :: "boot_env \<Rightarrow> (string, u32) gomap \<Rightarrow> nat \<Rightarrow> pin_error + collection" where
  "loadPinnedCollection env spec n =
    (case eMkdir env n of
       Some err \<Rightarrow> Inl (PinError (''create pin dir: '' @ err) False)
     | None \<Rightarrow>
         (case find (\<lambda>name. \<not> mhas spec name) pinnedMaps of
            Some name \<Rightarrow> Inl (PinError (name @ '' not present in BPF spec'') False)
          | None \<Rightarrow>
              (case ePinned env n of
                 Inl (PinError err inc) \<Rightarrow> Inl (PinError (''load BPF collection (pinned): '' @ err) inc)
               | Inr coll \<Rightarrow> Inr coll)))"

definition loadUnpinnedCollection :: "boot_env \<Rightarrow> string + collection" where
  "loadUnpinnedCollection env =
    (case eUnpinned env of Inl err \<Rightarrow> Inl (''load BPF collection (unpinned): '' @ err) | Inr coll \<Rightarrow> Inr coll)"

definition removeStalePins :: "boot_env \<Rightarrow> string list" where
  "removeStalePins env = concat (map (\<lambda>name. case eRemove env name of
     Removed \<Rightarrow> [] | RemoveNotExist \<Rightarrow> [] | RemoveError err \<Rightarrow> [''remove '' @ name @ '': '' @ err]) pinnedMaps)"

definition unpinned_fallback :: "boot_cfg \<Rightarrow> boot_env \<Rightarrow> string \<Rightarrow> string + collection \<times> bool" where
  "unpinned_fallback cfg env err =
    (if \<not> UnsafeAllowUnpinnedMaps cfg then Inl (''pin maps: '' @ err)
     else (case loadUnpinnedCollection env of Inl e \<Rightarrow> Inl e | Inr coll \<Rightarrow> Inr (coll, False)))"

definition loadCollection :: "boot_cfg \<Rightarrow> boot_env \<Rightarrow> string + collection \<times> bool" where
  "loadCollection cfg env =
    (case eSpec env of
       Inl err \<Rightarrow> Inl (''load BPF spec: '' @ err)
     | Inr spec \<Rightarrow>
         (case ValidateMapSizes (Some spec) of
            Some _ \<Rightarrow> Inl ''BPF spec validation''
          | None \<Rightarrow>
              (case loadPinnedCollection env spec 0 of
                 Inr coll \<Rightarrow> Inr (coll, True)
               | Inl (PinError err inc) \<Rightarrow>
                   if inc then
                     (if removeStalePins env \<noteq> [] then unpinned_fallback cfg env (err @ ''; removing stale pins also failed'')
                      else (case loadPinnedCollection env spec 1 of
                              Inr coll \<Rightarrow> Inr (coll, True)
                            | Inl (PinError err2 _) \<Rightarrow> unpinned_fallback cfg env err2))
                   else unpinned_fallback cfg env err)))"

section \<open>The steps\<close>

type_synonym boot_fn = "boot_env \<Rightarrow> bootstrapper \<Rightarrow> (bootstrapper \<times> string option) outcome"

definition advance_to :: "phase \<Rightarrow> bootstrapper \<Rightarrow> (bootstrapper \<times> string option) outcome" where
  "advance_to p b = (case Advance p (bSeq b) of Panic msg \<Rightarrow> Panic msg | Ret (s', err) \<Rightarrow> Ret (b\<lparr>bSeq := s'\<rparr>, err))"

definition prepareProcess :: boot_fn where
  "prepareProcess env b =
    (case eConfig env of Inl err \<Rightarrow> Ret (b, Some err)
     | Inr cfg \<Rightarrow> (case eLogging env of Some err \<Rightarrow> Ret (b, Some (''init logging: '' @ err))
     | None \<Rightarrow> (case eMemlock env of Some err \<Rightarrow> Ret (b, Some (''remove memlock rlimit: '' @ err))
     | None \<Rightarrow> Ret (b\<lparr>bCfg := cfg\<rparr>, None))))"

definition huntZombies :: boot_fn where
  "huntZombies env b = Ret (b\<lparr>zombiesCleaned := fst (eHunt env)\<rparr>, None)"

definition loadBPF :: boot_fn where
  "loadBPF env b =
    (case loadCollection (bCfg b) env of
       Inl err \<Rightarrow> Ret (b, Some err)
     | Inr (coll, pinned) \<Rightarrow> advance_to PhaseBPFLoaded (b\<lparr>bColl := Some coll, mapsPinned := pinned\<rparr>))"

definition has_map :: "bootstrapper \<Rightarrow> string \<Rightarrow> bool" where
  "has_map b name = (case bColl b of None \<Rightarrow> False | Some c \<Rightarrow> name \<in> set (Maps c))"

definition missing :: "string \<Rightarrow> string option" where
  "missing name = Some (name @ '' map missing from collection'')"

definition buildAgent :: boot_fn where
  "buildAgent env b =
    (if \<not> has_map b MapTelemetry then Ret (b, Some (MapTelemetry @ '' not present in BPF collection''))
     else case eReader env of Some err \<Rightarrow> Ret (b, Some err) | None \<Rightarrow>
     if \<not> has_map b MapTelemetryStats then Ret (b, Some (MapTelemetryStats @ '' not present in BPF collection''))
     else case eStats env of Some err \<Rightarrow> Ret (b, Some err) | None \<Rightarrow>
     case eNew env of Some err \<Rightarrow> Ret (b, Some err) | None \<Rightarrow> Ret (b\<lparr>bAgent := True\<rparr>, None))"

definition coldStart :: boot_fn where
  "coldStart env b = (case eColdStart env of Some err \<Rightarrow> Ret (b, Some err) | None \<Rightarrow> advance_to PhaseMetadataReady b)"

text \<open>None: no subscriber is configured.\<close>

definition buildNetlinkSubscriber :: "boot_env \<Rightarrow> bootstrapper \<Rightarrow> string + bool" where
  "buildNetlinkSubscriber env b =
    (if AttachPrefixes (bCfg b) = [] \<and> AttachInterfaces (bCfg b) = [] then Inr False
     else if \<not> (case bColl b of None \<Rightarrow> False | Some c \<Rightarrow> ProgramIngress \<in> set (Programs c) \<and> ProgramEgress \<in> set (Programs c))
     then Inl (''netlink subscriber: '' @ ProgramIngress @ '' / '' @ ProgramEgress @ '' not present in BPF collection'')
     else (case eSubscriber env of Some err \<Rightarrow> Inl (''netlink subscriber: '' @ err) | None \<Rightarrow> Inr True))"

definition subscribeNetlink :: boot_fn where
  "subscribeNetlink env b =
    (case buildNetlinkSubscriber env b of
       Inl err \<Rightarrow> Ret (b, Some err)
     | Inr sub \<Rightarrow> advance_to PhaseAttached (if sub then b\<lparr>bSubscriber := True\<rparr> else b))"

definition wireGC :: boot_fn where
  "wireGC env b =
    (if \<not> has_map b MapMacTenant then Ret (b, missing MapMacTenant)
     else if \<not> has_map b MapTelemetry then Ret (b, missing MapTelemetry)
     else Ret (b\<lparr>bSweeper := True\<rparr>, None))"

definition wireReconcile :: boot_fn where
  "wireReconcile env b =
    (if \<not> NeutronEnabled (bCfg b) then Ret (b, None)
     else if \<not> has_map b MapSubnetZoneTrie then Ret (b, missing MapSubnetZoneTrie)
     else if \<not> has_map b MapMacTenant then Ret (b, missing MapMacTenant)
     else if \<not> has_map b MapAmphoraBaseIP then Ret (b, missing MapAmphoraBaseIP)
     else Ret (b\<lparr>bReconciler := True\<rparr>, None))"

definition wireKafka :: boot_fn where
  "wireKafka env b =
    (if \<not> KafkaEnabled (bCfg b) then Ret (b, None)
     else if \<not> bReconciler b then Ret (b, None)
     else Ret (b\<lparr>bKafka := True\<rparr>, None))"

definition prepareWALDir :: boot_fn where
  "prepareWALDir env b = (if \<not> WALEnabled (bCfg b) then Ret (b, None) else Ret (b, eEnsureDir env))"

definition restoreWAL :: boot_fn where
  "restoreWAL env b = (case eRestore env of Some err \<Rightarrow> Ret (b, Some err) | None \<Rightarrow> advance_to PhaseStateRestored b)"

definition closeCollection :: "bootstrapper \<Rightarrow> bootstrapper" where
  "closeCollection b = (if bColl b \<noteq> None then b\<lparr>bCollClosed := True\<rparr> else b)"

fun run_steps :: "boot_env \<Rightarrow> (string \<times> boot_fn) list \<Rightarrow> bootstrapper \<Rightarrow> (bootstrapper \<times> string option) outcome" where
  "run_steps env [] b = Ret (b, None)"
| "run_steps env ((name, fn) # ss) b =
    (case fn env b of
       Panic msg \<Rightarrow> Panic msg
     | Ret (b', Some err) \<Rightarrow> Ret (closeCollection b', Some (''bootstrap: '' @ name @ '': '' @ err))
     | Ret (b', None) \<Rightarrow> run_steps env ss b')"

definition boot_steps :: "(string \<times> boot_fn) list" where
  "boot_steps =
    [(''prepare process'', prepareProcess), (''hunt zombies'', huntZombies), (''load BPF collection'', loadBPF),
     (''build agent'', buildAgent), (''cold-start Neutron'', coldStart), (''subscribe netlink'', subscribeNetlink),
     (''wire GC'', wireGC), (''wire reconcile'', wireReconcile), (''wire kafka'', wireKafka),
     (''prepare WAL directory'', prepareWALDir), (''restore WAL'', restoreWAL)]"

definition zero_cfg :: boot_cfg where
  "zero_cfg = \<lparr>NeutronEnabled = False, KafkaEnabled = False, WALEnabled = False, AttachPrefixes = [], AttachInterfaces = [], UnsafeAllowUnpinnedMaps = False\<rparr>"

definition boot_start :: bootstrapper where
  "boot_start = \<lparr>bSeq = Sequencer_New, bCfg = zero_cfg, bColl = None, bCollClosed = False, zombiesCleaned = 0, mapsPinned = False,
     bAgent = False, bSubscriber = False, bSweeper = False, bReconciler = False, bKafka = False\<rparr>"

definition Bootstrap :: "boot_env \<Rightarrow> (bootstrapper \<times> string option) outcome" where
  "Bootstrap env = run_steps env boot_steps boot_start"

section \<open>The collection\<close>

text \<open>
  Pinned means that a pinned load succeeded, and a second attempt is made only after every stale pin is
  gone; an unpinned collection is used only when the operator allows it.
\<close>

lemma loadCollection_policy:
  "loadCollection cfg env = Inr (coll, pinned) \<Longrightarrow>
    (\<exists>spec. eSpec env = Inr spec \<and> ValidateMapSizes (Some spec) = None) \<and>
    (if pinned then ePinned env 0 = Inr coll \<or>
        ePinned env 1 = Inr coll \<and> removeStalePins env = [] \<and> (\<exists>e. ePinned env 0 = Inl (PinError e True))
     else UnsafeAllowUnpinnedMaps cfg \<and> eUnpinned env = Inr coll)"
  by (auto simp: loadCollection_def loadPinnedCollection_def unpinned_fallback_def loadUnpinnedCollection_def
      split: sum.splits option.splits pin_error.splits if_splits)

section \<open>The order\<close>

definition phase_after :: "nat \<Rightarrow> phase" where
  "phase_after i = (if 11 \<le> i then PhaseStateRestored else if 6 \<le> i then PhaseAttached else if 5 \<le> i then PhaseMetadataReady
     else if 3 \<le> i then PhaseBPFLoaded else PhaseInit)"

text \<open>What holds when the first i steps have succeeded.\<close>

definition done_upto :: "boot_env \<Rightarrow> nat \<Rightarrow> bootstrapper \<Rightarrow> bool" where
  "done_upto env i b \<longleftrightarrow> seq_ok (bSeq b) \<and> current (bSeq b) = phase_after i \<and> \<not> bCollClosed b \<and>
    (1 \<le> i \<longrightarrow> eConfig env = Inr (bCfg b)) \<and>
    (bColl b \<noteq> None \<longleftrightarrow> 3 \<le> i) \<and> (3 \<le> i \<longrightarrow> mapsPinned b \<or> UnsafeAllowUnpinnedMaps (bCfg b)) \<and>
    (bAgent b \<longleftrightarrow> 4 \<le> i) \<and> (5 \<le> i \<longrightarrow> eColdStart env = None) \<and>
    (bSubscriber b \<longleftrightarrow> 6 \<le> i \<and> (AttachPrefixes (bCfg b) \<noteq> [] \<or> AttachInterfaces (bCfg b) \<noteq> [])) \<and>
    (bSweeper b \<longleftrightarrow> 7 \<le> i) \<and> (bReconciler b \<longleftrightarrow> 8 \<le> i \<and> NeutronEnabled (bCfg b)) \<and>
    (bKafka b \<longleftrightarrow> 9 \<le> i \<and> KafkaEnabled (bCfg b) \<and> NeutronEnabled (bCfg b)) \<and>
    (10 \<le> i \<longrightarrow> WALEnabled (bCfg b) \<longrightarrow> eEnsureDir env = None) \<and> (11 \<le> i \<longrightarrow> eRestore env = None)"

lemma advance_good:
  assumes "done_upto env i b" "bSeq b1 = bSeq b" "p = phase_after i + 1" "p < phaseCount"
    and "\<And>s'. seq_ok s' \<Longrightarrow> current s' = p \<Longrightarrow> done_upto env (Suc i) (b1\<lparr>bSeq := s'\<rparr>)"
  shows "\<exists>b'. advance_to p b1 = Ret (b', None) \<and> done_upto env (Suc i) b'"
proof -
  have ok: "seq_ok (bSeq b1)" and cur: "p = current (bSeq b1) + 1" using assms(1-3) by (auto simp: done_upto_def)
  have ne: "current (bSeq b1) \<noteq> PhaseStateRestored" using cur assms(4) by (simp add: phase_codes)
  then show ?thesis
    using Advance_next[OF ok] seq_ok_next[OF ok] cur assms(5) by (simp add: advance_to_def)
qed

lemmas step_defs = prepareProcess_def huntZombies_def buildAgent_def wireGC_def wireReconcile_def wireKafka_def prepareWALDir_def

definition step_good :: "boot_env \<Rightarrow> nat \<Rightarrow> boot_fn \<Rightarrow> bool" where
  "step_good env i fn \<longleftrightarrow> (\<forall>b. done_upto env i b \<longrightarrow>
     (\<exists>err. fn env b = Ret (b, Some err)) \<or> (\<exists>b'. fn env b = Ret (b', None) \<and> done_upto env (Suc i) b'))"

lemma step_goodI:
  assumes "\<And>b. done_upto env i b \<Longrightarrow> (\<exists>err. fn env b = Ret (b, Some err)) \<or> (\<exists>b'. fn env b = Ret (b', None) \<and> done_upto env (Suc i) b')"
  shows "step_good env i fn"
  using assms by (simp add: step_good_def)

lemma plain_steps_good:
  "step_good env 0 prepareProcess" "step_good env 1 huntZombies" "step_good env 3 buildAgent" "step_good env 6 wireGC"
  "step_good env 7 wireReconcile" "step_good env 8 wireKafka" "step_good env 9 prepareWALDir"
  by (rule step_goodI; simp add: done_upto_def step_defs missing_def phase_after_def split: sum.splits option.splits; fastforce?)+

lemma loadBPF_good: "step_good env 2 loadBPF"
proof (rule step_goodI)
  fix b
  assume d: "done_upto env 2 b"
  show "(\<exists>err. loadBPF env b = Ret (b, Some err)) \<or> (\<exists>b'. loadBPF env b = Ret (b', None) \<and> done_upto env (Suc 2) b')"
  proof (cases "loadCollection (bCfg b) env")
    case (Inr cp)
    obtain coll pinned where cp: "cp = (coll, pinned)" by (cases cp)
    have pol: "pinned \<or> UnsafeAllowUnpinnedMaps (bCfg b)" using loadCollection_policy[of "bCfg b" env coll pinned] Inr cp by (auto split: if_splits)
    have "\<exists>b'. advance_to PhaseBPFLoaded (b\<lparr>bColl := Some coll, mapsPinned := pinned\<rparr>) = Ret (b', None) \<and> done_upto env (Suc 2) b'"
      by (rule advance_good[OF d]) (use d pol in \<open>auto simp: done_upto_def phase_after_def phase_codes\<close>)
    then show ?thesis using Inr cp by (simp add: loadBPF_def)
  qed (simp add: loadBPF_def)
qed

lemma coldStart_good: "step_good env 4 coldStart"
proof (rule step_goodI)
  fix b
  assume d: "done_upto env 4 b"
  have "\<exists>b'. advance_to PhaseMetadataReady b = Ret (b', None) \<and> done_upto env (Suc 4) b'" if "eColdStart env = None"
    by (rule advance_good[OF d]) (use d that in \<open>auto simp: done_upto_def phase_after_def phase_codes\<close>)
  then show "(\<exists>err. coldStart env b = Ret (b, Some err)) \<or> (\<exists>b'. coldStart env b = Ret (b', None) \<and> done_upto env (Suc 4) b')"
    by (simp add: coldStart_def split: option.splits)
qed

lemma subscribeNetlink_good: "step_good env 5 subscribeNetlink"
proof (rule step_goodI)
  fix b
  assume d: "done_upto env 5 b"
  have "\<exists>b'. advance_to PhaseAttached (if sub then b\<lparr>bSubscriber := True\<rparr> else b) = Ret (b', None) \<and> done_upto env (Suc 5) b'"
    if "buildNetlinkSubscriber env b = Inr sub" for sub
    by (rule advance_good[OF d])
       (use d that in \<open>auto simp: done_upto_def phase_after_def phase_codes buildNetlinkSubscriber_def split: if_splits option.splits\<close>)
  then show "(\<exists>err. subscribeNetlink env b = Ret (b, Some err)) \<or> (\<exists>b'. subscribeNetlink env b = Ret (b', None) \<and> done_upto env (Suc 5) b')"
    by (simp add: subscribeNetlink_def split: sum.splits)
qed

lemma restoreWAL_good: "step_good env 10 restoreWAL"
proof (rule step_goodI)
  fix b
  assume d: "done_upto env 10 b"
  have "\<exists>b'. advance_to PhaseStateRestored b = Ret (b', None) \<and> done_upto env (Suc 10) b'" if "eRestore env = None"
    by (rule advance_good[OF d]) (use d that in \<open>auto simp: done_upto_def phase_after_def phase_codes\<close>)
  then show "(\<exists>err. restoreWAL env b = Ret (b, Some err)) \<or> (\<exists>b'. restoreWAL env b = Ret (b', None) \<and> done_upto env (Suc 10) b')"
    by (simp add: restoreWAL_def split: option.splits)
qed

lemma run_good:
  assumes "\<And>j. j < length ss \<Longrightarrow> step_good env (i + j) (snd (ss ! j))" "done_upto env i b"
  shows "(\<exists>b'. run_steps env ss b = Ret (b', None) \<and> done_upto env (i + length ss) b') \<or>
    (\<exists>j b' err. j < length ss \<and> done_upto env (i + j) b' \<and> snd (ss ! j) env b' = Ret (b', Some err) \<and>
      run_steps env ss b = Ret (closeCollection b', Some (''bootstrap: '' @ fst (ss ! j) @ '': '' @ err)))"
  using assms
proof (induction ss arbitrary: i b)
  case (Cons x ss)
  obtain name fn where x: "x = (name, fn)" by (cases x)
  have "step_good env i fn" using Cons.prems(1)[of 0] x by simp
  then consider err where "fn env b = Ret (b, Some err)" | b' where "fn env b = Ret (b', None)" "done_upto env (Suc i) b'"
    using Cons.prems(2) by (auto simp: step_good_def)
  then show ?case
  proof cases
    case 1
    then show ?thesis using x Cons.prems(2) by (intro disjI2 exI[of _ 0] exI[of _ b] exI[of _ err]) simp
  next
    case 2
    have IH: "\<And>j. j < length ss \<Longrightarrow> step_good env (Suc i + j) (snd (ss ! j))" using Cons.prems(1)[of "Suc _"] by simp
    from Cons.IH[of "Suc i" b', OF _ 2(2)] IH
    have "(\<exists>b2. run_steps env ss b' = Ret (b2, None) \<and> done_upto env (Suc i + length ss) b2) \<or>
      (\<exists>j b2 err. j < length ss \<and> done_upto env (Suc i + j) b2 \<and> snd (ss ! j) env b2 = Ret (b2, Some err) \<and>
        run_steps env ss b' = Ret (closeCollection b2, Some (''bootstrap: '' @ fst (ss ! j) @ '': '' @ err)))" by blast
    then show ?thesis
    proof (elim disjE exE conjE)
      fix b2
      assume "run_steps env ss b' = Ret (b2, None)" "done_upto env (Suc i + length ss) b2"
      then show ?thesis using x 2(1) by simp
    next
      fix j b2 err
      assume "j < length ss" "done_upto env (Suc i + j) b2" "snd (ss ! j) env b2 = Ret (b2, Some err)"
        "run_steps env ss b' = Ret (closeCollection b2, Some (''bootstrap: '' @ fst (ss ! j) @ '': '' @ err))"
      then show ?thesis using x 2(1) by (intro disjI2 exI[of _ "Suc j"] exI[of _ b2] exI[of _ err]) simp
    qed
  qed
qed simp

lemma boot_steps_good: "j < length boot_steps \<Longrightarrow> step_good env (0 + j) (snd (boot_steps ! j))"
  using plain_steps_good[of env] loadBPF_good[of env] coldStart_good[of env] subscribeNetlink_good[of env] restoreWAL_good[of env]
  by (simp add: boot_steps_def less_Suc_eq numeral_eq_Suc) (elim disjE; simp)

section \<open>Properties\<close>


end
