(* ===== verification/Instruments.thy ===== *)
theory Instruments
  imports Complex_Main Netlink Neutron_Sync Bootstrap
begin

text \<open>
  The health instruments of the subsystems (the \<^verbatim>\<open>metrics.go\<close> of \<^verbatim>\<open>wal\<close>, \<^verbatim>\<open>neutron\<close>, \<^verbatim>\<open>bpf\<close>,
  \<^verbatim>\<open>zombie\<close>, \<^verbatim>\<open>gc\<close>, \<^verbatim>\<open>unresolved\<close>, \<^verbatim>\<open>reconcile\<close>, \<^verbatim>\<open>scraper\<close>, \<^verbatim>\<open>kafka\<close> and
  \<^verbatim>\<open>runtime\<close>), the bundle the agent builds of them (\<^verbatim>\<open>agent/subsystem_metrics.go\<close>) and their
  registration (\<^verbatim>\<open>agent/http.go\<close>).

  A counter or gauge is its value, a labelled one the map from the label values of its series to their
  values, a histogram the durations it observed, newest last. Counters count events, so they are natural
  numbers; the exposition format carries them as floats. The registry is the Prometheus client library:
  an operation on its own state with the documented behaviour, that a collector is accepted when its
  metric names are new and refused otherwise.
\<close>

section \<open>Instruments\<close>

type_synonym 'l counter_vec = "('l, nat) gomap"

text \<open>\<^verbatim>\<open>WithLabelValues\<close> creates the series at zero; an addition goes through it.\<close>

definition with_label :: "'l \<Rightarrow> 'l counter_vec \<Rightarrow> 'l counter_vec" where
  "with_label l v = (if mhas v l then v else mput l 0 v)"

definition vec_add :: "'l \<Rightarrow> nat \<Rightarrow> 'l counter_vec \<Rightarrow> 'l counter_vec" where
  "vec_add l n v = mput l ((case mget v l of None \<Rightarrow> 0 | Some x \<Rightarrow> x) + n) v"

definition vec_at :: "'l counter_vec \<Rightarrow> 'l \<Rightarrow> nat" where
  "vec_at v l = (case mget v l of None \<Rightarrow> 0 | Some x \<Rightarrow> x)"

definition vec_observe :: "'l \<Rightarrow> 'a \<Rightarrow> ('l, 'a list) gomap \<Rightarrow> ('l, 'a list) gomap" where
  "vec_observe l d v = mput l ((case mget v l of None \<Rightarrow> [] | Some x \<Rightarrow> x) @ [d]) v"

definition seeded :: "'l list \<Rightarrow> 'l counter_vec" where
  "seeded ls = fold with_label ls []"

text \<open>A nil bundle records nothing.\<close>

definition on_bundle :: "('m \<Rightarrow> 'm) \<Rightarrow> 'm option \<Rightarrow> 'm option" where
  "on_bundle f m = map_option f m"

section \<open>WAL\<close>

definition StageMarshal :: string where "StageMarshal = ''marshal''"
definition StageWrite :: string where "StageWrite = ''write''"
definition StageFsync :: string where "StageFsync = ''fsync''"
definition StageRenameBak :: string where "StageRenameBak = ''rename_bak''"
definition StageRenameCurrent :: string where "StageRenameCurrent = ''rename_current''"
definition StageDirSync :: string where "StageDirSync = ''dir_sync''"
definition LoadFallbackBak :: string where "LoadFallbackBak = ''bak''"
definition LoadFallbackEmpty :: string where "LoadFallbackEmpty = ''empty''"

lemmas stage_names = StageMarshal_def StageWrite_def StageFsync_def StageRenameBak_def StageRenameCurrent_def StageDirSync_def
lemmas fallback_names = LoadFallbackBak_def LoadFallbackEmpty_def

record wal_metrics =
  snapshotCopySeconds :: "duration list"
  marshalSeconds :: "duration list"
  flushLatencySeconds :: "duration list"
  flushFailures :: "string counter_vec"
  loadFallback :: "string counter_vec"
  countersReset :: int

definition wal_NewMetrics :: wal_metrics where
  "wal_NewMetrics =
    \<lparr>snapshotCopySeconds = [], marshalSeconds = [], flushLatencySeconds = [],
     flushFailures = seeded [StageWrite, StageFsync, StageRenameBak, StageRenameCurrent, StageDirSync],
     loadFallback = seeded [LoadFallbackBak, LoadFallbackEmpty], countersReset = 0\<rparr>"

definition ObserveCopy :: "duration \<Rightarrow> wal_metrics option \<Rightarrow> wal_metrics option" where
  "ObserveCopy d = on_bundle (\<lambda>m. m\<lparr>snapshotCopySeconds := snapshotCopySeconds m @ [d]\<rparr>)"

definition observeMarshal :: "duration \<Rightarrow> wal_metrics option \<Rightarrow> wal_metrics option" where
  "observeMarshal d = on_bundle (\<lambda>m. m\<lparr>marshalSeconds := marshalSeconds m @ [d]\<rparr>)"

definition observeFlush :: "duration \<Rightarrow> wal_metrics option \<Rightarrow> wal_metrics option" where
  "observeFlush d = on_bundle (\<lambda>m. m\<lparr>flushLatencySeconds := flushLatencySeconds m @ [d]\<rparr>)"

definition observeFailure :: "string \<Rightarrow> wal_metrics option \<Rightarrow> wal_metrics option" where
  "observeFailure stage = on_bundle (\<lambda>m. m\<lparr>flushFailures := vec_add stage 1 (flushFailures m)\<rparr>)"

definition SetCountersReset :: "int \<Rightarrow> wal_metrics option \<Rightarrow> wal_metrics option" where
  "SetCountersReset unixSeconds = on_bundle (\<lambda>m. m\<lparr>countersReset := unixSeconds\<rparr>)"

definition RecordLoadFallback :: "string \<Rightarrow> wal_metrics option \<Rightarrow> wal_metrics option" where
  "RecordLoadFallback src = on_bundle (\<lambda>m. m\<lparr>loadFallback := vec_add src 1 (loadFallback m)\<rparr>)"

definition wal_names :: "string list list" where
  "wal_names = [[''wal_snapshot_copy_seconds''], [''wal_marshal_seconds''], [''wal_flush_latency_seconds''], [''wal_flush_failures_total''],
     [''wal_load_fallback_total''], [''agent_counters_reset_timestamp_seconds'']]"

section \<open>Neutron\<close>

text \<open>An API error: the status code the library reports, if it is a response, and its text.\<close>

record api_error =
  aeCode :: "int option"
  aeText :: string

definition codeNetwork :: string where "codeNetwork = ''network''"

definition Itoa10 :: "int \<Rightarrow> string" where
  "Itoa10 i = (if i < 0 then CHR ''-'' # format_uint (nat (- i)) else format_uint (nat i))"

definition errCodeLabel :: "api_error \<Rightarrow> string" where
  "errCodeLabel err = (case aeCode err of Some c \<Rightarrow> Itoa10 c | None \<Rightarrow> codeNetwork)"

definition endpoints :: "string list" where
  "endpoints = [''keystone'', ''networks'', ''subnets'', ''routers'', ''ports'', ''projects'', ''floatingips'', ''servers'', ''loadbalancers'', ''amphorae'']"

definition anomalyClasses :: "string list" where
  "anomalyClasses = [''cycle'', ''ambiguity'', ''dangling_route'', ''zero_trie_tenant'', ''duplicate_router_mac'', ''multi_external_path'']"

record neutron_metrics =
  apiErrors :: "(string \<times> string) counter_vec"
  unknownOwners :: "string counter_vec"
  builderStep :: "(string, duration list) gomap"
  anomaliesGauge :: "string counter_vec"
  trunkSubports :: int
  amphoraPorts :: int

definition neutron_NewMetrics :: neutron_metrics where
  "neutron_NewMetrics =
    \<lparr>apiErrors = seeded (map (\<lambda>ep. (ep, codeNetwork)) endpoints), unknownOwners = [], builderStep = [],
     anomaliesGauge = seeded anomalyClasses, trunkSubports = 0, amphoraPorts = 0\<rparr>"

text \<open>The sync age is computed when it is read.\<close>

definition syncAge :: "gotime \<Rightarrow> gotime \<Rightarrow> duration" where
  "syncAge lastSync now = (if lastSync = 0 then -1 else now - lastSync)"

definition ObserveBuilderStep :: "string \<Rightarrow> duration \<Rightarrow> neutron_metrics option \<Rightarrow> neutron_metrics option" where
  "ObserveBuilderStep step d = on_bundle (\<lambda>m. m\<lparr>builderStep := vec_observe step d (builderStep m)\<rparr>)"

definition RecordAPIError :: "string \<Rightarrow> api_error option \<Rightarrow> neutron_metrics option \<Rightarrow> neutron_metrics option" where
  "RecordAPIError endpoint err m =
    (case err of None \<Rightarrow> m | Some e \<Rightarrow> on_bundle (\<lambda>m. m\<lparr>apiErrors := vec_add (endpoint, errCodeLabel e) 1 (apiErrors m)\<rparr>) m)"

definition RecordUnknownOwner :: "string \<Rightarrow> neutron_metrics option \<Rightarrow> neutron_metrics option" where
  "RecordUnknownOwner deviceOwner = on_bundle (\<lambda>m. m\<lparr>unknownOwners := vec_add deviceOwner 1 (unknownOwners m)\<rparr>)"

definition SetTrunkSubports :: "int \<Rightarrow> neutron_metrics option \<Rightarrow> neutron_metrics option" where
  "SetTrunkSubports n = on_bundle (\<lambda>m. m\<lparr>trunkSubports := n\<rparr>)"

definition SetAmphoraPorts :: "int \<Rightarrow> neutron_metrics option \<Rightarrow> neutron_metrics option" where
  "SetAmphoraPorts n = on_bundle (\<lambda>m. m\<lparr>amphoraPorts := n\<rparr>)"

definition neutron_SetAnomalies :: "anomalies_report \<Rightarrow> neutron_metrics option \<Rightarrow> neutron_metrics option" where
  "neutron_SetAnomalies a = on_bundle (\<lambda>m. m\<lparr>anomaliesGauge :=
     fold (\<lambda>(c, n) g. mput c n g)
       [(''cycle'', length (ArCycles a)), (''ambiguity'', length (ArAmbiguities a)), (''dangling_route'', length (DanglingRoutes a)),
        (''zero_trie_tenant'', length (ZeroTrieTenants a)), (''duplicate_router_mac'', length (DuplicateRouterMACs a)),
        (''multi_external_path'', length (MultiExternalPaths a))] (anomaliesGauge m)\<rparr>)"

definition neutron_names :: "string list list" where
  "neutron_names = [[''neutron_sync_age_seconds''], [''neutron_api_errors_total''], [''neutron_unknown_device_owner_total''],
     [''neutron_builder_step_duration_seconds''], [''neutron_anomalies''], [''neutron_trunk_subports''], [''neutron_amphora_ports'']]"

definition info_names :: "string list" where
  "info_names = [''tenant_info'', ''server_info'', ''port_info'']"

section \<open>BPF maps\<close>

lemmas map_names = MapTelemetry_def MapSubnetZoneTrie_def MapMacTenant_def MapAmphoraBaseIP_def

record bpf_metrics =
  maxEntries :: "string counter_vec"
  currentEntries :: "string counter_vec"
  updateFailures :: "u64 list"
  mapsPinnedGauge :: nat

definition bpf_NewMetrics :: bpf_metrics where
  "bpf_NewMetrics = \<lparr>maxEntries = [], currentEntries = [], updateFailures = replicate statReasonCount 0, mapsPinnedGauge = 0\<rparr>"

definition SetMax :: "string \<Rightarrow> nat \<Rightarrow> bpf_metrics option \<Rightarrow> bpf_metrics option" where
  "SetMax mapName n = on_bundle (\<lambda>m. m\<lparr>maxEntries := mput mapName n (maxEntries m)\<rparr>)"

definition SetCurrent :: "string \<Rightarrow> nat \<Rightarrow> bpf_metrics option \<Rightarrow> bpf_metrics option" where
  "SetCurrent mapName n = on_bundle (\<lambda>m. m\<lparr>currentEntries := mput mapName n (currentEntries m)\<rparr>)"

definition SetMapsPinned :: "bool \<Rightarrow> bpf_metrics option \<Rightarrow> bpf_metrics option" where
  "SetMapsPinned pinned = on_bundle (\<lambda>m. m\<lparr>mapsPinnedGauge := (if pinned then 1 else 0)\<rparr>)"

text \<open>The drained kernel counters, one per reason, stored as they are.\<close>

definition SetUpdateFailures :: "u64 list \<Rightarrow> bpf_metrics option \<Rightarrow> bpf_metrics option" where
  "SetUpdateFailures c = on_bundle (\<lambda>m. m\<lparr>updateFailures := map (\<lambda>reason. c ! reason) [0..<statReasonCount]\<rparr>)"

definition stats_Collect :: "bpf_metrics \<Rightarrow> (string \<times> u64) list" where
  "stats_Collect m = map (\<lambda>reason. (StatReason_String (of_nat reason), updateFailures m ! reason)) [0..<statReasonCount]"

definition bpf_names :: "string list list" where
  "bpf_names = [[''bpf_map_max_entries''], [''bpf_map_current_entries''], [''bpf_update_failures_total''], [''bpf_maps_pinned'']]"

section \<open>Zombie hunter, garbage collection, unresolved buffer\<close>

record zombie_metrics =
  zCleaned :: nat

definition zombie_NewMetrics :: zombie_metrics where "zombie_NewMetrics = \<lparr>zCleaned = 0\<rparr>"

definition RecordCleaned :: "int \<Rightarrow> zombie_metrics option \<Rightarrow> zombie_metrics option" where
  "RecordCleaned n m = (if n \<le> 0 then m else on_bundle (\<lambda>m. m\<lparr>zCleaned := zCleaned m + nat n\<rparr>) m)"

definition reasonTTL :: string where "reasonTTL = ''ttl''"
definition reasonPressureRelief :: string where "reasonPressureRelief = ''pressure_relief''"
definition reasonGhostResidualFlow :: string where "reasonGhostResidualFlow = ''ghost_residual_flow''"
definition reasonLRU :: string where "reasonLRU = ''lru''"
definition reasonExpired :: string where "reasonExpired = ''expired''"

lemmas reason_names = reasonTTL_def reasonPressureRelief_def reasonGhostResidualFlow_def reasonLRU_def reasonExpired_def

record gc_metrics =
  gcEvictions :: "string counter_vec"
  pressureReliefRun :: nat
  settledFlows :: nat
  ghostsActive :: nat

definition gc_NewMetrics :: gc_metrics where
  "gc_NewMetrics = \<lparr>gcEvictions = seeded [reasonTTL, reasonPressureRelief, reasonGhostResidualFlow], pressureReliefRun = 0, settledFlows = 0, ghostsActive = 0\<rparr>"

definition gc_evict :: "string \<Rightarrow> nat \<Rightarrow> gc_metrics option \<Rightarrow> gc_metrics option" where
  "gc_evict reason n m = (if n = 0 then m else on_bundle (\<lambda>m. m\<lparr>gcEvictions := vec_add reason n (gcEvictions m)\<rparr>) m)"

definition RecordTTLEvictions :: "nat \<Rightarrow> gc_metrics option \<Rightarrow> gc_metrics option" where
  "RecordTTLEvictions n = gc_evict reasonTTL n"

definition RecordPressureReliefEvictions :: "nat \<Rightarrow> gc_metrics option \<Rightarrow> gc_metrics option" where
  "RecordPressureReliefEvictions n = gc_evict reasonPressureRelief n"

definition RecordResidualFlowEvictions :: "nat \<Rightarrow> gc_metrics option \<Rightarrow> gc_metrics option" where
  "RecordResidualFlowEvictions n = gc_evict reasonGhostResidualFlow n"

definition RecordSettledFlows :: "nat \<Rightarrow> gc_metrics option \<Rightarrow> gc_metrics option" where
  "RecordSettledFlows n m = (if n = 0 then m else on_bundle (\<lambda>m. m\<lparr>settledFlows := settledFlows m + n\<rparr>) m)"

definition IncPressureReliefRuns :: "gc_metrics option \<Rightarrow> gc_metrics option" where
  "IncPressureReliefRuns = on_bundle (\<lambda>m. m\<lparr>pressureReliefRun := pressureReliefRun m + 1\<rparr>)"

definition SetGhostsActive :: "nat \<Rightarrow> gc_metrics option \<Rightarrow> gc_metrics option" where
  "SetGhostsActive n = on_bundle (\<lambda>m. m\<lparr>ghostsActive := n\<rparr>)"

definition gc_names :: "string list list" where
  "gc_names = [[''gc_evictions_total''], [''gc_pressure_relief_runs_total''], [''gc_settled_flows_total''], [''lingering_ghosts_active'']]"

record unresolved_metrics =
  uDepth :: nat
  uEvictions :: "string counter_vec"
  uResolved :: nat

definition unresolved_NewMetrics :: unresolved_metrics where
  "unresolved_NewMetrics = \<lparr>uDepth = 0, uEvictions = seeded [reasonLRU, reasonExpired], uResolved = 0\<rparr>"

definition SetDepth :: "nat \<Rightarrow> unresolved_metrics option \<Rightarrow> unresolved_metrics option" where
  "SetDepth n = on_bundle (\<lambda>m. m\<lparr>uDepth := n\<rparr>)"

definition RecordLRUEviction :: "unresolved_metrics option \<Rightarrow> unresolved_metrics option" where
  "RecordLRUEviction = on_bundle (\<lambda>m. m\<lparr>uEvictions := vec_add reasonLRU 1 (uEvictions m)\<rparr>)"

definition RecordExpiredEvictions :: "nat \<Rightarrow> unresolved_metrics option \<Rightarrow> unresolved_metrics option" where
  "RecordExpiredEvictions n m = (if n = 0 then m else on_bundle (\<lambda>m. m\<lparr>uEvictions := vec_add reasonExpired n (uEvictions m)\<rparr>) m)"

definition RecordResolved :: "unresolved_metrics option \<Rightarrow> unresolved_metrics option" where
  "RecordResolved = on_bundle (\<lambda>m. m\<lparr>uResolved := uResolved m + 1\<rparr>)"

definition unresolved_names :: "string list list" where
  "unresolved_names = [[''unresolved_buffer_depth''], [''unresolved_buffer_evictions_total''], [''unresolved_resolved_total'']]"

section \<open>Reconcile, scraper, Kafka, runtime\<close>

definition resultOK :: string where "resultOK = ''ok''"
definition resultSyncError :: string where "resultSyncError = ''sync_error''"
definition resultApplyError :: string where "resultApplyError = ''apply_error''"
definition triggerTick :: string where "triggerTick = ''tick''"
definition triggerKick :: string where "triggerKick = ''kick''"

lemmas result_names = resultOK_def resultSyncError_def resultApplyError_def triggerTick_def triggerKick_def

record reconcile_metrics =
  rRuns :: "string counter_vec"
  rDuration :: "(string, duration list) gomap"
  rKicks :: nat
  rGhostedRatio :: rat

definition reconcile_NewMetrics :: reconcile_metrics where
  "reconcile_NewMetrics = \<lparr>rRuns = seeded [resultOK, resultSyncError, resultApplyError],
     rDuration = [(triggerTick, []), (triggerKick, [])], rKicks = 0, rGhostedRatio = 0\<rparr>"

definition RecordRun :: "string \<Rightarrow> reconcile_metrics option \<Rightarrow> reconcile_metrics option" where
  "RecordRun result = on_bundle (\<lambda>m. m\<lparr>rRuns := vec_add result 1 (rRuns m)\<rparr>)"

definition ObservePass :: "string \<Rightarrow> duration \<Rightarrow> reconcile_metrics option \<Rightarrow> reconcile_metrics option" where
  "ObservePass trigger d = on_bundle (\<lambda>m. m\<lparr>rDuration := vec_observe trigger d (rDuration m)\<rparr>)"

definition RecordKick :: "reconcile_metrics option \<Rightarrow> reconcile_metrics option" where
  "RecordKick = on_bundle (\<lambda>m. m\<lparr>rKicks := rKicks m + 1\<rparr>)"

definition SetGhostedRatio :: "rat \<Rightarrow> reconcile_metrics option \<Rightarrow> reconcile_metrics option" where
  "SetGhostedRatio ratio = on_bundle (\<lambda>m. m\<lparr>rGhostedRatio := ratio\<rparr>)"

definition reconcile_names :: "string list list" where
  "reconcile_names = [[''reconcile_runs_total''], [''reconcile_duration_seconds''], [''reconcile_kicks_total''], [''reconcile_ghosted_ratio'']]"

record scraper_metrics =
  scrapeDuration :: "duration list"

definition scraper_NewMetrics :: scraper_metrics where "scraper_NewMetrics = \<lparr>scrapeDuration = []\<rparr>"

definition ObserveScrape :: "duration \<Rightarrow> scraper_metrics option \<Rightarrow> scraper_metrics option" where
  "ObserveScrape d = on_bundle (\<lambda>m. m\<lparr>scrapeDuration := scrapeDuration m @ [d]\<rparr>)"

record kafka_metrics =
  kLag :: "(string, int) gomap"
  kConsumeErrors :: "string counter_vec"

definition kafka_NewMetrics :: "string \<Rightarrow> kafka_metrics" where
  "kafka_NewMetrics topic = \<lparr>kLag = [(topic, 0)], kConsumeErrors = seeded [topic]\<rparr>"

definition SetLag :: "string \<Rightarrow> int \<Rightarrow> kafka_metrics option \<Rightarrow> kafka_metrics option" where
  "SetLag topic lag = on_bundle (\<lambda>m. m\<lparr>kLag := mput topic lag (kLag m)\<rparr>)"

definition RecordConsumeError :: "string \<Rightarrow> kafka_metrics option \<Rightarrow> kafka_metrics option" where
  "RecordConsumeError topic = on_bundle (\<lambda>m. m\<lparr>kConsumeErrors := vec_add topic 1 (kConsumeErrors m)\<rparr>)"

definition reloadApplied :: string where "reloadApplied = ''applied''"
definition reloadInvalid :: string where "reloadInvalid = ''invalid''"
definition reloadReadError :: string where "reloadReadError = ''read_error''"

lemmas reload_names = reloadApplied_def reloadInvalid_def reloadReadError_def

record runtime_metrics =
  rtReloads :: "string counter_vec"

definition runtime_NewMetrics :: runtime_metrics where
  "runtime_NewMetrics = \<lparr>rtReloads = seeded [reloadApplied, reloadInvalid, reloadReadError]\<rparr>"

text \<open>This one has no guard: the caller checks for nil.\<close>

definition RecordReload :: "string \<Rightarrow> runtime_metrics \<Rightarrow> runtime_metrics" where
  "RecordReload result m = m\<lparr>rtReloads := vec_add result 1 (rtReloads m)\<rparr>"

section \<open>The bundle of the agent\<close>

record subsystem_metrics =
  mxWal :: wal_metrics
  mxNeutron :: neutron_metrics
  mxBpf :: bpf_metrics
  mxZombie :: zombie_metrics
  mxNetlink :: nl_metrics
  mxGc :: gc_metrics
  mxUnresolved :: unresolved_metrics
  mxReconcile :: reconcile_metrics
  mxScraper :: scraper_metrics
  mxKafka :: kafka_metrics
  mxRuntime :: runtime_metrics
  mxRegistry :: registry

definition newSubsystemMetrics :: "neutron_metrics \<Rightarrow> string \<Rightarrow> subsystem_metrics" where
  "newSubsystemMetrics neutronMx kafkaTopic =
    (let bpfMx = Some bpf_NewMetrics;
         bpfMx = SetMax MapMacTenant (unat MapMacTenantMaxEntries) bpfMx;
         bpfMx = SetMax MapSubnetZoneTrie (unat MapSubnetZoneTrieMaxEntries) bpfMx;
         bpfMx = SetMax MapTelemetry (unat MapTelemetryMaxEntries) bpfMx;
         bpfMx = SetMax MapAmphoraBaseIP (unat MapAmphoraBaseIPMaxEntries) bpfMx;
         bpfMx = SetCurrent MapMacTenant 0 bpfMx;
         bpfMx = SetCurrent MapSubnetZoneTrie 0 bpfMx;
         bpfMx = SetCurrent MapTelemetry 0 bpfMx;
         bpfMx = SetCurrent MapAmphoraBaseIP 0 bpfMx
     in \<lparr>mxWal = wal_NewMetrics, mxNeutron = neutronMx, mxBpf = the bpfMx, mxZombie = zombie_NewMetrics, mxNetlink = NewMetrics,
         mxGc = gc_NewMetrics, mxUnresolved = unresolved_NewMetrics, mxReconcile = reconcile_NewMetrics, mxScraper = scraper_NewMetrics,
         mxKafka = kafka_NewMetrics kafkaTopic, mxRuntime = runtime_NewMetrics, mxRegistry = NewRegistry\<rparr>)"

text \<open>
  The reader that wraps the scraper's map reader: a drain that succeeds records the fill of the telemetry
  map and then the kernel counters, if they are wired and readable; nothing of this fails the drain.
\<close>

definition telemetryFill_BatchLookup ::
  "('e option \<times> (flow_key, flow_metrics) gomap) \<Rightarrow> (string + u64 list) option \<Rightarrow> bpf_metrics option \<Rightarrow> bpf_metrics option \<times> 'e option" where
  "telemetryFill_BatchLookup inner stats mx =
    (case inner of
       (Some err, _) \<Rightarrow> (mx, Some err)
     | (None, dst) \<Rightarrow>
         (let mx = SetCurrent MapTelemetry (length dst) mx
          in case stats of
               None \<Rightarrow> (mx, None)
             | Some (Inl _) \<Rightarrow> (mx, None)
             | Some (Inr cs) \<Rightarrow> (SetUpdateFailures cs mx, None)))"

text \<open>The names of the collectors of each subsystem, in registration order, without their common prefix.\<close>

definition netlink_names :: "string list list" where
  "netlink_names = [[''tc_attach_failures_total''], [''attached_interfaces''], [''tc_unattached_interfaces''], [''tc_reattach_total''],
     [''netlink_subscriber_restarts_total''], [''netlink_skipped_interfaces_total'']]"

definition kafka_names :: "string list list" where
  "kafka_names = [[''kafka_lag_messages''], [''kafka_consume_errors_total'']]"

definition registrations :: "(string \<times> string list list) list" where
  "registrations =
    [(''wal'', wal_names), (''neutron'', neutron_names @ [info_names]), (''bpf'', bpf_names), (''zombie'', [[''zombie_filters_cleaned_total'']]),
     (''netlink'', netlink_names), (''gc'', gc_names), (''unresolved'', unresolved_names), (''reconcile'', reconcile_names),
     (''scraper'', [[''scrape_duration_seconds'']]), (''kafka'', kafka_names), (''runtime'', [[''config_reloads_total'']])]"

text \<open>The families of the billing collector.\<close>

definition collector_names :: "string list" where
  "collector_names = [''bytes_total'', ''packets_total'', ''tenant_bytes_total'', ''tenant_packets_total'', ''server_bytes_total'', ''server_packets_total'',
     ''port_bytes_total'', ''port_packets_total'', ''port_proto_bytes_total'', ''port_proto_packets_total'', ''state_flows'', ''state_tenant_settled_tuples'',
     ''state_server_settled_tuples'', ''state_total_settled_tuples'', ''scraper_errors_total'', ''scraper_last_success_unix_seconds'', ''collect_duration_seconds'']"

definition metric_prefix :: string where "metric_prefix = ''lachesis_''"

section \<open>The registry\<close>

text \<open>The contract of the Prometheus registry: a collector is accepted exactly when its names are new.\<close>

locale metric_registry =
  fixes fresh :: 'r and register :: "string list \<Rightarrow> 'r \<Rightarrow> string + 'r" and registered :: "'r \<Rightarrow> string set"
  assumes fresh_empty: "registered fresh = {}"
    and accept: "\<lbrakk>distinct ns; set ns \<inter> registered r = {}\<rbrakk> \<Longrightarrow> \<exists>r'. register ns r = Inr r' \<and> registered r' = registered r \<union> set ns"
    and refuse: "set ns \<inter> registered r \<noteq> {} \<Longrightarrow> \<exists>err. register ns r = Inl err"

fun register_all :: "(string list \<Rightarrow> 'r \<Rightarrow> string + 'r) \<Rightarrow> (string \<times> string list) list \<Rightarrow> 'r \<Rightarrow> string + 'r" where
  "register_all register [] r = Inr r"
| "register_all register ((what, ns) # rest) r =
    (case register ns r of
       Inl err \<Rightarrow> Inl (''agent: register '' @ what @ '': '' @ err)
     | Inr r' \<Rightarrow> register_all register rest r')"

text \<open>The process and runtime collectors come first, then the billing collector, then the bundles.\<close>

definition buildRegistry :: "'r \<Rightarrow> (string list \<Rightarrow> 'r \<Rightarrow> string + 'r) \<Rightarrow> string list \<Rightarrow> string list \<Rightarrow> string + 'r" where
  "buildRegistry fresh register processNames goNames =
    register_all register
      ([(''runtime collector'', processNames), (''runtime collector'', goNames), (''collector'', map ((@) metric_prefix) collector_names)] @
       concat (map (\<lambda>(label, cs). map (\<lambda>ns. (label @ '' metric'', map ((@) metric_prefix) ns)) cs) registrations)) fresh"

section \<open>What the subsystems record\<close>

text \<open>One event per recording operation; the Kafka bundle is told its one topic.\<close>

datatype metric_event =
    EvCopy duration | EvMarshal duration | EvFlush duration | EvFailure string | EvReset int | EvFallback string
  | EvStep string duration | EvAPIError string "api_error option" | EvOwner string | EvTrunk int | EvAmphora int | EvAnomalies anomalies_report
  | EvCurrent string nat | EvPinned bool | EvStats "u64 list" | EvCleaned int
  | EvTTL nat | EvRelief nat | EvResidual nat | EvSettled nat | EvReliefRun | EvGhosts nat
  | EvDepth nat | EvLRU | EvExpired nat | EvResolved
  | EvRun string | EvPass string duration | EvKick | EvRatio rat
  | EvScrape duration | EvLag int | EvConsumeError | EvReload string

definition run_on :: "('m option \<Rightarrow> 'm option) \<Rightarrow> 'm \<Rightarrow> 'm" where
  "run_on f m = (case f (Some m) of Some m' \<Rightarrow> m' | None \<Rightarrow> m)"

fun record_event :: "string \<Rightarrow> metric_event \<Rightarrow> subsystem_metrics \<Rightarrow> subsystem_metrics" where
  "record_event topic (EvCopy d) m = m\<lparr>mxWal := run_on (ObserveCopy d) (mxWal m)\<rparr>"
| "record_event topic (EvMarshal d) m = m\<lparr>mxWal := run_on (observeMarshal d) (mxWal m)\<rparr>"
| "record_event topic (EvFlush d) m = m\<lparr>mxWal := run_on (observeFlush d) (mxWal m)\<rparr>"
| "record_event topic (EvFailure stage) m = m\<lparr>mxWal := run_on (observeFailure stage) (mxWal m)\<rparr>"
| "record_event topic (EvReset n) m = m\<lparr>mxWal := run_on (SetCountersReset n) (mxWal m)\<rparr>"
| "record_event topic (EvFallback src) m = m\<lparr>mxWal := run_on (RecordLoadFallback src) (mxWal m)\<rparr>"
| "record_event topic (EvStep step d) m = m\<lparr>mxNeutron := run_on (ObserveBuilderStep step d) (mxNeutron m)\<rparr>"
| "record_event topic (EvAPIError ep err) m = m\<lparr>mxNeutron := run_on (RecordAPIError ep err) (mxNeutron m)\<rparr>"
| "record_event topic (EvOwner ow) m = m\<lparr>mxNeutron := run_on (RecordUnknownOwner ow) (mxNeutron m)\<rparr>"
| "record_event topic (EvTrunk n) m = m\<lparr>mxNeutron := run_on (SetTrunkSubports n) (mxNeutron m)\<rparr>"
| "record_event topic (EvAmphora n) m = m\<lparr>mxNeutron := run_on (SetAmphoraPorts n) (mxNeutron m)\<rparr>"
| "record_event topic (EvAnomalies a) m = m\<lparr>mxNeutron := run_on (neutron_SetAnomalies a) (mxNeutron m)\<rparr>"
| "record_event topic (EvCurrent name n) m = m\<lparr>mxBpf := run_on (SetCurrent name n) (mxBpf m)\<rparr>"
| "record_event topic (EvPinned b) m = m\<lparr>mxBpf := run_on (SetMapsPinned b) (mxBpf m)\<rparr>"
| "record_event topic (EvStats cs) m = m\<lparr>mxBpf := run_on (SetUpdateFailures cs) (mxBpf m)\<rparr>"
| "record_event topic (EvCleaned n) m = m\<lparr>mxZombie := run_on (RecordCleaned n) (mxZombie m)\<rparr>"
| "record_event topic (EvTTL n) m = m\<lparr>mxGc := run_on (RecordTTLEvictions n) (mxGc m)\<rparr>"
| "record_event topic (EvRelief n) m = m\<lparr>mxGc := run_on (RecordPressureReliefEvictions n) (mxGc m)\<rparr>"
| "record_event topic (EvResidual n) m = m\<lparr>mxGc := run_on (RecordResidualFlowEvictions n) (mxGc m)\<rparr>"
| "record_event topic (EvSettled n) m = m\<lparr>mxGc := run_on (RecordSettledFlows n) (mxGc m)\<rparr>"
| "record_event topic EvReliefRun m = m\<lparr>mxGc := run_on IncPressureReliefRuns (mxGc m)\<rparr>"
| "record_event topic (EvGhosts n) m = m\<lparr>mxGc := run_on (SetGhostsActive n) (mxGc m)\<rparr>"
| "record_event topic (EvDepth n) m = m\<lparr>mxUnresolved := run_on (SetDepth n) (mxUnresolved m)\<rparr>"
| "record_event topic EvLRU m = m\<lparr>mxUnresolved := run_on RecordLRUEviction (mxUnresolved m)\<rparr>"
| "record_event topic (EvExpired n) m = m\<lparr>mxUnresolved := run_on (RecordExpiredEvictions n) (mxUnresolved m)\<rparr>"
| "record_event topic EvResolved m = m\<lparr>mxUnresolved := run_on RecordResolved (mxUnresolved m)\<rparr>"
| "record_event topic (EvRun result) m = m\<lparr>mxReconcile := run_on (RecordRun result) (mxReconcile m)\<rparr>"
| "record_event topic (EvPass trigger d) m = m\<lparr>mxReconcile := run_on (ObservePass trigger d) (mxReconcile m)\<rparr>"
| "record_event topic EvKick m = m\<lparr>mxReconcile := run_on RecordKick (mxReconcile m)\<rparr>"
| "record_event topic (EvRatio q) m = m\<lparr>mxReconcile := run_on (SetGhostedRatio q) (mxReconcile m)\<rparr>"
| "record_event topic (EvScrape d) m = m\<lparr>mxScraper := run_on (ObserveScrape d) (mxScraper m)\<rparr>"
| "record_event topic (EvLag n) m = m\<lparr>mxKafka := run_on (SetLag topic n) (mxKafka m)\<rparr>"
| "record_event topic EvConsumeError m = m\<lparr>mxKafka := run_on (RecordConsumeError topic) (mxKafka m)\<rparr>"
| "record_event topic (EvReload result) m = m\<lparr>mxRuntime := RecordReload result (mxRuntime m)\<rparr>"

text \<open>The label values the code passes are the constants of each package.\<close>

fun event_ok :: "metric_event \<Rightarrow> bool" where
  "event_ok (EvFailure stage) = (stage \<in> set [StageMarshal, StageWrite, StageFsync, StageRenameBak, StageRenameCurrent, StageDirSync])"
| "event_ok (EvFallback src) = (src \<in> set [LoadFallbackBak, LoadFallbackEmpty])"
| "event_ok (EvAPIError ep _) = (ep \<in> set endpoints)"
| "event_ok (EvCurrent name _) = (name \<in> set [MapTelemetry, MapSubnetZoneTrie, MapMacTenant, MapAmphoraBaseIP])"
| "event_ok (EvRun result) = (result \<in> set [resultOK, resultSyncError, resultApplyError])"
| "event_ok (EvPass trigger _) = (trigger \<in> set [triggerTick, triggerKick])"
| "event_ok (EvReload result) = (result \<in> set [reloadApplied, reloadInvalid, reloadReadError])"
| "event_ok _ = True"

text \<open>The labelled families with a closed label set, and every counter.\<close>

definition closed_families :: "subsystem_metrics \<Rightarrow> (string \<times> string set) list" where
  "closed_families m =
    [(''wal_load_fallback_total'', fst ` set (loadFallback (mxWal m))),
     (''neutron_anomalies'', fst ` set (anomaliesGauge (mxNeutron m))),
     (''bpf_map_max_entries'', fst ` set (maxEntries (mxBpf m))),
     (''bpf_map_current_entries'', fst ` set (currentEntries (mxBpf m))),
     (''gc_evictions_total'', fst ` set (gcEvictions (mxGc m))),
     (''unresolved_buffer_evictions_total'', fst ` set (uEvictions (mxUnresolved m))),
     (''reconcile_runs_total'', fst ` set (rRuns (mxReconcile m))),
     (''reconcile_duration_seconds'', fst ` set (rDuration (mxReconcile m))),
     (''kafka_lag_messages'', fst ` set (kLag (mxKafka m))),
     (''kafka_consume_errors_total'', fst ` set (kConsumeErrors (mxKafka m))),
     (''config_reloads_total'', fst ` set (rtReloads (mxRuntime m)))]"

definition counters :: "subsystem_metrics \<Rightarrow> string \<Rightarrow> nat list" where
  "counters m l =
    [vec_at (flushFailures (mxWal m)) l, vec_at (loadFallback (mxWal m)) l, vec_at (unknownOwners (mxNeutron m)) l, zCleaned (mxZombie m),
     vec_at (gcEvictions (mxGc m)) l, pressureReliefRun (mxGc m), settledFlows (mxGc m), vec_at (uEvictions (mxUnresolved m)) l,
     uResolved (mxUnresolved m), vec_at (rRuns (mxReconcile m)) l, rKicks (mxReconcile m), vec_at (kConsumeErrors (mxKafka m)) l,
     vec_at (rtReloads (mxRuntime m)) l]"

lemmas recorders = ObserveCopy_def observeMarshal_def observeFlush_def observeFailure_def SetCountersReset_def RecordLoadFallback_def
  ObserveBuilderStep_def RecordAPIError_def RecordUnknownOwner_def SetTrunkSubports_def SetAmphoraPorts_def neutron_SetAnomalies_def
  SetCurrent_def SetMapsPinned_def SetUpdateFailures_def RecordCleaned_def RecordTTLEvictions_def RecordPressureReliefEvictions_def
  RecordResidualFlowEvictions_def gc_evict_def RecordSettledFlows_def IncPressureReliefRuns_def SetGhostsActive_def SetDepth_def
  RecordLRUEviction_def RecordExpiredEvictions_def RecordResolved_def RecordRun_def ObservePass_def RecordKick_def SetGhostedRatio_def
  ObserveScrape_def SetLag_def RecordConsumeError_def RecordReload_def on_bundle_def run_on_def

lemmas label_names = stage_names fallback_names map_names reason_names result_names reload_names

section \<open>Label sets\<close>

lemma vec_add_keys [simp]: "fst ` set (vec_add l n v) = insert l (fst ` set v)"
  by (simp add: vec_add_def keys_mput)

lemma vec_observe_keys [simp]: "fst ` set (vec_observe l d v) = insert l (fst ` set v)"
  by (simp add: vec_observe_def keys_mput)

lemma vec_at_add [simp]: "vec_at (vec_add l n v) l' = vec_at v l' + (if l' = l then n else 0)"
  by (simp add: vec_at_def vec_add_def)

lemma with_label_keys: "fst ` set (with_label l v) = insert l (fst ` set v)"
proof (cases "mhas v l")
  case True
  then have "l \<in> fst ` set v" by (metis domIff dom_map_of_conv_image_fst mget_def mhas_def)
  then show ?thesis using True by (auto simp: with_label_def)
qed (simp add: with_label_def keys_mput)

lemma seeded_keys: "fst ` set (seeded ls) = set ls"
proof -
  have "fst ` set (fold with_label ls v) = set ls \<union> fst ` set v" for v
    by (induction ls arbitrary: v) (auto simp: with_label_keys)
  then show ?thesis by (simp add: seeded_def)
qed

text \<open>The labels of the closed families as the constructors seed them.\<close>

definition seeds :: "string \<Rightarrow> (string \<times> string set) list" where
  "seeds topic =
    [(''wal_load_fallback_total'', {''bak'', ''empty''}), (''neutron_anomalies'', set anomalyClasses),
     (''bpf_map_max_entries'', {''telemetry_map'', ''subnet_zone_trie'', ''mac_tenant_map'', ''amphora_base_ip''}),
     (''bpf_map_current_entries'', {''telemetry_map'', ''subnet_zone_trie'', ''mac_tenant_map'', ''amphora_base_ip''}),
     (''gc_evictions_total'', {''ttl'', ''pressure_relief'', ''ghost_residual_flow''}), (''unresolved_buffer_evictions_total'', {''lru'', ''expired''}),
     (''reconcile_runs_total'', {''ok'', ''sync_error'', ''apply_error''}), (''reconcile_duration_seconds'', {''tick'', ''kick''}),
     (''kafka_lag_messages'', {topic}), (''kafka_consume_errors_total'', {topic}), (''config_reloads_total'', {''applied'', ''invalid'', ''read_error''})]"

lemma closed_families_new: "closed_families (newSubsystemMetrics neutron_NewMetrics topic) = seeds topic"
  by (auto simp: closed_families_def seeds_def newSubsystemMetrics_def Let_def wal_NewMetrics_def neutron_NewMetrics_def bpf_NewMetrics_def
      gc_NewMetrics_def unresolved_NewMetrics_def reconcile_NewMetrics_def kafka_NewMetrics_def runtime_NewMetrics_def seeded_keys SetMax_def
      SetCurrent_def on_bundle_def keys_mput label_names)

lemma event_keeps_labels:
  assumes "closed_families m = seeds topic" and "event_ok ev"
  shows "closed_families (record_event topic ev m) = seeds topic"
  using assms
  by (cases ev) (auto simp: closed_families_def seeds_def recorders keys_mput label_names anomalyClasses_def split: option.splits)

lemma event_counts_up: "list_all2 (\<le>) (counters m l) (counters (record_event topic ev m) l)"
  by (cases ev) (simp_all add: counters_def recorders split: option.split)

lemma event_failure_labels:
  "event_ok ev \<Longrightarrow> fst ` set (flushFailures (mxWal (record_event topic ev m))) \<subseteq>
    fst ` set (flushFailures (mxWal m)) \<union> {''marshal'', ''write'', ''fsync'', ''rename_bak'', ''rename_current'', ''dir_sync''}"
  by (cases ev) (auto simp: recorders label_names split: option.splits)

section \<open>Properties\<close>

text \<open>
  The health families are well formed at all times. From the bundles the agent constructs, under any
  sequence of recordings with the label values the packages define, each family with a closed label set
  exposes exactly the series it was seeded with: none is missing before the first event, and no recording
  adds one. Every counter only grows.
\<close>

theorem instruments_well_formed:
  assumes "list_all event_ok (evs @ evs')"
    and "m = fold (record_event topic) evs (newSubsystemMetrics neutron_NewMetrics topic)"
  shows "closed_families m = seeds topic \<and> list_all2 (\<le>) (counters m l) (counters (fold (record_event topic) evs' m) l)"
proof -
  have keep: "closed_families (fold (record_event topic) es m0) = seeds topic"
    if "closed_families m0 = seeds topic" "list_all event_ok es" for es m0
    using that by (induction es arbitrary: m0) (auto intro: event_keeps_labels)
  have up: "list_all2 (\<le>) (counters m0 l) (counters (fold (record_event topic) es m0) l)" for es m0
  proof (induction es arbitrary: m0)
    case Nil
    show ?case by (simp add: list_all2_refl)
  next
    case (Cons e es)
    show ?case using list_all2_trans[OF _ event_counts_up[of m0 l topic e] Cons.IH[of "record_event topic e m0"], where ?P3.0 = "(\<le>)"]
      by simp
  qed
  show ?thesis using keep[OF closed_families_new] up assms by simp
qed

theorem instruments_well_formed_witness:
  "closed_families (fold (record_event ''notifications'') [EvTTL 3, EvRun ''ok'', EvReload ''applied''] (newSubsystemMetrics neutron_NewMetrics ''notifications'')) =
     seeds ''notifications''"
  using instruments_well_formed[of "[EvTTL 3, EvRun ''ok'', EvReload ''applied'']" "[]" _ "''notifications''"] by (simp add: label_names)

text \<open>
  The stage label of a failed marshal is not among the seeds: the family starts without that series, and
  gains it with the first such failure.
\<close>

lemma marshal_stage_not_seeded:
  "''marshal'' \<notin> fst ` set (flushFailures wal_NewMetrics)"
  "fst ` set (flushFailures (run_on (observeFailure StageMarshal) wal_NewMetrics)) = insert ''marshal'' (fst ` set (flushFailures wal_NewMetrics))"
  by (simp_all add: wal_NewMetrics_def seeded_keys label_names observeFailure_def run_on_def on_bundle_def)

context metric_registry
begin

lemma register_all_accepts:
  assumes "distinct (concat (map snd cs))" and "set (concat (map snd cs)) \<inter> registered r = {}"
  shows "\<exists>r'. register_all register cs r = Inr r' \<and> registered r' = registered r \<union> set (concat (map snd cs))"
  using assms
proof (induction cs arbitrary: r)
  case (Cons c cs)
  obtain what ns where c: "c = (what, ns)" by (cases c)
  have "distinct ns" "set ns \<inter> registered r = {}" using Cons.prems by (auto simp: c)
  then obtain r1 where r1: "register ns r = Inr r1" "registered r1 = registered r \<union> set ns" using accept by blast
  have "set (concat (map snd cs)) \<inter> registered r1 = {}" "distinct (concat (map snd cs))"
    using Cons.prems by (auto simp: c r1(2))
  then obtain r' where "register_all register cs r1 = Inr r'" "registered r' = registered r1 \<union> set (concat (map snd cs))"
    using Cons.IH[of r1] by blast
  then show ?case using r1 by (auto simp: c)
qed simp

end

definition own_names :: "string list" where
  "own_names = collector_names @ concat (concat (map snd registrations))"

lemma own_names_distinct: "distinct own_names"
  by code_simp

lemma buildRegistry_names:
  "concat (map snd ([(''runtime collector'', pn), (''runtime collector'', gn), (''collector'', map ((@) metric_prefix) collector_names)] @
     concat (map (\<lambda>(label, cs). map (\<lambda>ns. (label @ '' metric'', map ((@) metric_prefix) ns)) cs) registrations))) =
   pn @ gn @ map ((@) metric_prefix) own_names"
  by (simp add: own_names_def map_concat comp_def split_def)

lemma registry_accepts_all:
  assumes "metric_registry fresh register registered" and "distinct (processNames @ goNames)"
    and "\<not> list_ex (\<lambda>n. take (length metric_prefix) n = metric_prefix) (processNames @ goNames)"
  shows "\<exists>r. buildRegistry fresh register processNames goNames = Inr r \<and>
    registered r = set processNames \<union> set goNames \<union> (@) metric_prefix ` set own_names \<and> distinct own_names"
proof -
  let ?cs = "[(''runtime collector'', processNames), (''runtime collector'', goNames), (''collector'', map ((@) metric_prefix) collector_names)] @
     concat (map (\<lambda>(label, cs). map (\<lambda>ns. (label @ '' metric'', map ((@) metric_prefix) ns)) cs) registrations)"
  have names: "concat (map snd ?cs) = processNames @ goNames @ map ((@) metric_prefix) own_names" by (rule buildRegistry_names)
  have "metric_prefix @ x \<notin> set (processNames @ goNames)" for x
  proof -
    have "take (length metric_prefix) (metric_prefix @ x) = metric_prefix" by simp
    then show ?thesis using assms(3) unfolding list_ex_iff by blast
  qed
  then have "distinct (concat (map snd ?cs))"
    unfolding names using assms(2) own_names_distinct by (auto simp: distinct_map inj_on_def)
  then obtain r where "register_all register ?cs fresh = Inr r" "registered r = registered fresh \<union> set (concat (map snd ?cs))"
    using metric_registry.register_all_accepts[OF assms(1), of ?cs fresh] metric_registry.fresh_empty[OF assms(1)] by auto
  then show ?thesis
    unfolding buildRegistry_def names metric_registry.fresh_empty[OF assms(1)] using own_names_distinct by auto
qed

text \<open>
  The agent's registry always builds, and carries every family. For any registry with the documented
  behaviour, if the names of the process and runtime collectors are distinct and none starts with the
  agent's own prefix, then no registration fails and the registry holds exactly their names and the
  prefixed names of the billing collector and of the eleven bundles, no two of which are equal.
\<close>

theorem registry_builds:
  assumes "metric_registry fresh register registered" and "distinct (processNames @ goNames)"
    and "\<not> list_ex (\<lambda>n. take (length metric_prefix) n = metric_prefix) (processNames @ goNames)"
  shows "\<exists>r. buildRegistry fresh register processNames goNames = Inr r \<and>
    registered r = set processNames \<union> set goNames \<union> (@) metric_prefix ` set own_names \<and> distinct own_names"
  by (rule registry_accepts_all[OF assms])

text \<open>A registry that keeps the list of its names.\<close>

definition name_register :: "string list \<Rightarrow> string list \<Rightarrow> string + string list" where
  "name_register ns r =
    (if list_ex (\<lambda>n. n \<in> set r) ns then Inl ''duplicate metrics collector registration attempted'' else Inr (r @ ns))"

interpretation name_registry: metric_registry "[]" name_register set
  by unfold_locales (auto simp: name_register_def list_ex_iff)

theorem registry_builds_witness:
  "\<exists>r. buildRegistry [] name_register [''process_open_fds''] [''go_goroutines''] = Inr r \<and>
    set r = {''process_open_fds''} \<union> {''go_goroutines''} \<union> (@) metric_prefix ` set own_names \<and> distinct own_names"
  using registry_builds[OF name_registry.metric_registry_axioms, of "[''process_open_fds'']" "[''go_goroutines'']"]
  by (simp add: metric_prefix_def)

end
