(* ===== verification/Config.thy ===== *)
theory Config
  imports Netip Complex_Main
begin

text \<open>
  The configuration (\<^verbatim>\<open>internal/config\<close>): the sections with their defaults and checks, the layers of
  \<^verbatim>\<open>Load\<close> (defaults, YAML file, environment, flags) and the projection onto the hot-reloadable knobs
  (\<^verbatim>\<open>internal/tunables\<close>). Error texts are kept up to their variable part. The YAML decoder, the flag
  parser and \<^verbatim>\<open>time.ParseDuration\<close> are parameters; text is ASCII.
\<close>

section \<open>Strings and floats\<close>

definition is_space :: "char \<Rightarrow> bool" where
  "is_space c \<longleftrightarrow> (of_char c :: nat) \<in> {9, 10, 11, 12, 13, 32}"

definition TrimSpace :: "string \<Rightarrow> string" where
  "TrimSpace s = rev (dropWhile is_space (rev (dropWhile is_space s)))"

definition ToLower :: "string \<Rightarrow> string" where
  "ToLower s = map lower s"

fun strings_Join :: "string list \<Rightarrow> string" where
  "strings_Join [] = []"
| "strings_Join [x] = x"
| "strings_Join (x # y # xs) = x @ '','' @ strings_Join (y # xs)"

definition IsAbs :: "string \<Rightarrow> bool" where
  "IsAbs path = HasPrefix path ''/''"

text \<open>A 64-bit float: not a number, an infinity or a rational. A comparison with not-a-number is false.\<close>

datatype f64 = NaN | NegInf | Num rat | PosInf

fun f64_le :: "f64 \<Rightarrow> f64 \<Rightarrow> bool" where
  "f64_le NaN y = False"
| "f64_le x NaN = False"
| "f64_le NegInf y = True"
| "f64_le x PosInf = True"
| "f64_le (Num a) (Num b) = (a \<le> b)"
| "f64_le x y = False"

text \<open>\<^verbatim>\<open>net.SplitHostPort\<close>, as far as whether it fails.\<close>

definition last_index :: "char \<Rightarrow> string \<Rightarrow> nat option" where
  "last_index c s = (let is = filter (\<lambda>i. s ! i = c) [0..<length s] in if is = [] then None else Some (last is))"

definition first_index :: "char \<Rightarrow> string \<Rightarrow> nat option" where
  "first_index c s = (let is = filter (\<lambda>i. s ! i = c) [0..<length s] in if is = [] then None else Some (hd is))"

definition SplitHostPort_ok :: "string \<Rightarrow> bool" where
  "SplitHostPort_ok s =
    (case last_index CHR '':'' s of
       None \<Rightarrow> False
     | Some i \<Rightarrow>
         if s ! 0 = CHR ''[''
         then (case first_index CHR '']'' s of
                 None \<Rightarrow> False
               | Some e \<Rightarrow> e + 1 = i \<and> CHR ''['' \<notin> set (drop 1 s) \<and> CHR '']'' \<notin> set (drop (e + 1) s))
         else CHR '':'' \<notin> set (take i s) \<and> CHR ''['' \<notin> set s \<and> CHR '']'' \<notin> set s)"

section \<open>Sections\<close>

abbreviation Second :: duration where "Second \<equiv> 1000000000"

record HTTPConfig =
  http_Listen :: string

definition httpDefaults :: HTTPConfig where
  "httpDefaults = \<lparr>http_Listen = '':9090''\<rparr>"

definition HTTPConfig_Validate :: "HTTPConfig \<Rightarrow> string option" where
  "HTTPConfig_Validate c =
    (if http_Listen c = [] then Some ''listen address is empty''
     else if \<not> SplitHostPort_ok (http_Listen c) then Some ''listen''
     else None)"

record BPFConfig =
  bpf_PinPath :: string
  bpf_AttachPrefixes :: "string list"
  bpf_AttachInterfaces :: "string list"
  bpf_AttachResyncInterval :: duration
  bpf_UnsafeAllowUnpinnedMaps :: bool

definition bpfDefaults :: BPFConfig where
  "bpfDefaults = \<lparr>bpf_PinPath = ''/sys/fs/bpf/lachesis'', bpf_AttachPrefixes = [''tap''], bpf_AttachInterfaces = [],
     bpf_AttachResyncInterval = 60 * Second, bpf_UnsafeAllowUnpinnedMaps = False\<rparr>"

definition minAttachResyncInterval :: duration where "minAttachResyncInterval = 10 * Second"

definition BPFConfig_Validate :: "BPFConfig \<Rightarrow> string option" where
  "BPFConfig_Validate c =
    (if bpf_PinPath c = [] then Some ''pin_path is empty''
     else if \<not> IsAbs (bpf_PinPath c) then Some ''pin_path must be absolute''
     else if list_ex (\<lambda>p. TrimSpace p = []) (bpf_AttachPrefixes c) then Some ''attach_prefixes is empty''
     else if list_ex (\<lambda>p. TrimSpace p = []) (bpf_AttachInterfaces c) then Some ''attach_interfaces is empty''
     else if bpf_AttachResyncInterval c < 0 \<or> (bpf_AttachResyncInterval c > 0 \<and> bpf_AttachResyncInterval c < minAttachResyncInterval)
     then Some ''attach_resync_interval''
     else None)"

record ScrapeConfig =
  scrape_Interval :: duration

definition scrapeDefaults :: ScrapeConfig where
  "scrapeDefaults = \<lparr>scrape_Interval = 10 * Second\<rparr>"

definition ScrapeConfig_Validate :: "ScrapeConfig \<Rightarrow> string option" where
  "ScrapeConfig_Validate c = (if scrape_Interval c < Second then Some ''interval is too small'' else None)"

record LoggingConfig =
  log_Level :: string
  log_Format :: string

definition loggingDefaults :: LoggingConfig where
  "loggingDefaults = \<lparr>log_Level = ''info'', log_Format = ''json''\<rparr>"

definition LoggingConfig_Validate :: "LoggingConfig \<Rightarrow> string option" where
  "LoggingConfig_Validate c =
    (if log_Level c \<notin> set [''debug'', ''info'', ''warn'', ''error''] then Some ''level''
     else if log_Format c \<notin> set [''json'', ''text''] then Some ''format''
     else None)"

record WALConfig =
  wal_Path :: string
  wal_FlushInterval :: duration
  wal_Enabled :: bool

definition walDefaults :: WALConfig where
  "walDefaults = \<lparr>wal_Path = ''/var/lib/lachesis/network_agent_state.json'', wal_FlushInterval = 60 * Second, wal_Enabled = True\<rparr>"

definition WALConfig_Validate :: "WALConfig \<Rightarrow> string option" where
  "WALConfig_Validate c =
    (if \<not> wal_Enabled c then None
     else if wal_Path c = [] then Some ''path is empty''
     else if \<not> IsAbs (wal_Path c) then Some ''path must be absolute''
     else if wal_FlushInterval c < Second then Some ''flush_interval is too small''
     else None)"

record NeutronConfig =
  neutron_Enabled :: bool
  neutron_CredentialsFile :: string
  neutron_AuthURL :: string
  neutron_Username :: string
  neutron_Password :: string
  neutron_ProjectName :: string
  neutron_UserDomain :: string
  neutron_ProjectDomain :: string
  neutron_Region :: string
  neutron_Interface :: string
  neutron_RequestTimeout :: duration
  neutron_RefreshLead :: duration
  neutron_UnsafeAllowAmbiguousRoutes :: bool
  neutron_MaxStaticRouteHops :: int

definition neutronDefaults :: NeutronConfig where
  "neutronDefaults = \<lparr>neutron_Enabled = False, neutron_CredentialsFile = [], neutron_AuthURL = [], neutron_Username = [], neutron_Password = [],
     neutron_ProjectName = [], neutron_UserDomain = ''default'', neutron_ProjectDomain = ''default'', neutron_Region = [], neutron_Interface = [],
     neutron_RequestTimeout = 30 * Second, neutron_RefreshLead = 300 * Second, neutron_UnsafeAllowAmbiguousRoutes = False, neutron_MaxStaticRouteHops = 16\<rparr>"

definition NeutronConfig_Validate :: "NeutronConfig \<Rightarrow> string option" where
  "NeutronConfig_Validate c =
    (if \<not> neutron_Enabled c then None
     else let hasFile = (neutron_CredentialsFile c \<noteq> []);
              hasInline = (neutron_AuthURL c \<noteq> [] \<or> neutron_Username c \<noteq> [] \<or> neutron_Password c \<noteq> [] \<or> neutron_ProjectName c \<noteq> [])
       in if hasFile \<and> hasInline then Some ''set either credentials_file or inline, not both''
          else if \<not> hasFile \<and> \<not> hasInline then Some ''credentials_file or inline is required when enabled''
          else if hasFile \<and> \<not> IsAbs (neutron_CredentialsFile c) then Some ''credentials_file must be absolute''
          else if \<not> hasFile \<and> neutron_AuthURL c = [] then Some ''auth_url is required for inline credentials''
          else if \<not> hasFile \<and> neutron_Username c = [] then Some ''username is required for inline credentials''
          else if \<not> hasFile \<and> neutron_Password c = [] then Some ''password is required for inline credentials''
          else if \<not> hasFile \<and> neutron_ProjectName c = [] then Some ''project_name is required for inline credentials''
          else if neutron_RequestTimeout c \<le> 0 then Some ''request_timeout must be positive''
          else if neutron_RefreshLead c \<le> 0 then Some ''refresh_lead must be positive''
          else if neutron_MaxStaticRouteHops c < 1 then Some ''max_static_route_hops must be at least 1''
          else None)"

definition redactedSecret :: string where "redactedSecret = ''***''"

text \<open>The value that is marshalled in place of the section.\<close>

definition NeutronConfig_MarshalJSON :: "NeutronConfig \<Rightarrow> NeutronConfig" where
  "NeutronConfig_MarshalJSON c = (if neutron_Password c \<noteq> [] then c\<lparr>neutron_Password := redactedSecret\<rparr> else c)"

record GCConfig =
  gc_PressureHighWatermark :: f64
  gc_PressureLowWatermark :: f64
  gc_PressureMaxPerPass :: int
  gc_GhostGrace :: duration
  gc_GhostSweepInterval :: duration

definition gcDefaults :: GCConfig where
  "gcDefaults = \<lparr>gc_PressureHighWatermark = Num (80 / 100), gc_PressureLowWatermark = Num (75 / 100), gc_PressureMaxPerPass = 1000,
     gc_GhostGrace = 60 * Second, gc_GhostSweepInterval = 60 * Second\<rparr>"

definition GCConfig_Validate :: "GCConfig \<Rightarrow> string option" where
  "GCConfig_Validate c =
    (if f64_le (gc_PressureHighWatermark c) (Num 0) \<or> f64_le (Num 1) (gc_PressureHighWatermark c) then Some ''pressure_high_watermark''
     else if f64_le (gc_PressureLowWatermark c) (Num 0) \<or> f64_le (gc_PressureHighWatermark c) (gc_PressureLowWatermark c) then Some ''pressure_low_watermark''
     else if gc_GhostGrace c \<le> 0 then Some ''ghost_grace''
     else if gc_GhostSweepInterval c \<le> 0 then Some ''ghost_sweep_interval''
     else if gc_PressureMaxPerPass c < 1 then Some ''pressure_max_per_pass''
     else None)"

record KafkaConfig =
  kafka_Enabled :: bool
  kafka_Brokers :: "string list"
  kafka_Topic :: string
  kafka_GroupID :: string

definition EffectiveGroupID :: "KafkaConfig \<Rightarrow> string \<Rightarrow> string \<Rightarrow> string" where
  "EffectiveGroupID c host randomFallback = kafka_GroupID c @ ''-'' @ (if host = [] then randomFallback else host)"

definition kafkaDefaults :: KafkaConfig where
  "kafkaDefaults = \<lparr>kafka_Enabled = False, kafka_Brokers = [], kafka_Topic = ''notifications.info'', kafka_GroupID = ''lachesis''\<rparr>"

definition KafkaConfig_Validate :: "KafkaConfig \<Rightarrow> string option" where
  "KafkaConfig_Validate c =
    (if \<not> kafka_Enabled c then None
     else if kafka_Brokers c = [] then Some ''brokers is required when enabled''
     else if kafka_Topic c = [] then Some ''topic must not be empty''
     else if kafka_GroupID c = [] then Some ''group_id must not be empty''
     else None)"

record ReconcileConfig =
  rec_Interval :: duration
  rec_KickDebounce :: duration

definition reconcileDefaults :: ReconcileConfig where
  "reconcileDefaults = \<lparr>rec_Interval = 300 * Second, rec_KickDebounce = Second\<rparr>"

definition ReconcileConfig_Validate :: "ReconcileConfig \<Rightarrow> string option" where
  "ReconcileConfig_Validate c =
    (if rec_Interval c < Second then Some ''reconcile interval must be >= 1s''
     else if rec_KickDebounce c < 0 then Some ''reconcile kick_debounce must be >= 0''
     else None)"

record UnresolvedConfig =
  unres_Cap :: int
  unres_TTL :: duration

definition unresolvedDefaults :: UnresolvedConfig where
  "unresolvedDefaults = \<lparr>unres_Cap = 10000, unres_TTL = 60 * Second\<rparr>"

definition UnresolvedConfig_Validate :: "UnresolvedConfig \<Rightarrow> string option" where
  "UnresolvedConfig_Validate c =
    (if unres_Cap c < 1 then Some ''unresolved cap must be >= 1''
     else if unres_TTL c \<le> 0 then Some ''unresolved ttl must be > 0''
     else None)"

section \<open>The configuration\<close>

definition Version :: string where "Version = ''1''"

record config =
  c_Version :: string
  c_HTTP :: HTTPConfig
  c_BPF :: BPFConfig
  c_Scrape :: ScrapeConfig
  c_Logging :: LoggingConfig
  c_WAL :: WALConfig
  c_Neutron :: NeutronConfig
  c_GC :: GCConfig
  c_Kafka :: KafkaConfig
  c_Reconcile :: ReconcileConfig
  c_Unresolved :: UnresolvedConfig

definition Defaults :: config where
  "Defaults = \<lparr>c_Version = Version, c_HTTP = httpDefaults, c_BPF = bpfDefaults, c_Scrape = scrapeDefaults, c_Logging = loggingDefaults,
     c_WAL = walDefaults, c_Neutron = neutronDefaults, c_GC = gcDefaults, c_Kafka = kafkaDefaults, c_Reconcile = reconcileDefaults,
     c_Unresolved = unresolvedDefaults\<rparr>"

text \<open>The sections in the order they are checked; the first failing one names the error.\<close>

fun first_section_failure :: "(string \<times> string option) list \<Rightarrow> string option" where
  "first_section_failure [] = None"
| "first_section_failure ((name, Some err) # cs) = Some (name @ '': '' @ err)"
| "first_section_failure ((name, None) # cs) = first_section_failure cs"

definition Config_Validate :: "config \<Rightarrow> string option" where
  "Config_Validate c =
    (if c_Version c \<noteq> Version then Some ''version unsupported''
     else first_section_failure
       [(''http'', HTTPConfig_Validate (c_HTTP c)), (''bpf'', BPFConfig_Validate (c_BPF c)), (''scrape'', ScrapeConfig_Validate (c_Scrape c)),
        (''logging'', LoggingConfig_Validate (c_Logging c)), (''wal'', WALConfig_Validate (c_WAL c)), (''neutron'', NeutronConfig_Validate (c_Neutron c)),
        (''gc'', GCConfig_Validate (c_GC c)), (''kafka'', KafkaConfig_Validate (c_Kafka c)), (''reconcile'', ReconcileConfig_Validate (c_Reconcile c)),
        (''unresolved'', UnresolvedConfig_Validate (c_Unresolved c))])"

record tunable_values =
  GhostGrace :: duration
  GhostSweepInterval :: duration
  ReconcileInterval :: duration
  KickDebounce :: duration
  ScrapeInterval :: duration
  WALFlushInterval :: duration
  UnresolvedTTL :: duration
  UnresolvedCap :: int
  PressureHighWatermark :: f64
  PressureLowWatermark :: f64
  PressureMaxPerPass :: int
  MaxStaticRouteHops :: int

definition Tunables :: "config \<Rightarrow> tunable_values" where
  "Tunables c = \<lparr>GhostGrace = gc_GhostGrace (c_GC c), GhostSweepInterval = gc_GhostSweepInterval (c_GC c),
     ReconcileInterval = rec_Interval (c_Reconcile c), KickDebounce = rec_KickDebounce (c_Reconcile c),
     ScrapeInterval = scrape_Interval (c_Scrape c), WALFlushInterval = wal_FlushInterval (c_WAL c),
     UnresolvedTTL = unres_TTL (c_Unresolved c), UnresolvedCap = unres_Cap (c_Unresolved c),
     PressureHighWatermark = gc_PressureHighWatermark (c_GC c), PressureLowWatermark = gc_PressureLowWatermark (c_GC c),
     PressureMaxPerPass = gc_PressureMaxPerPass (c_GC c), MaxStaticRouteHops = neutron_MaxStaticRouteHops (c_Neutron c)\<rparr>"

section \<open>Loading\<close>

text \<open>\<^verbatim>\<open>LoadYAML\<close>: reading the file, then decoding over the defaults. The decoder is a parameter.\<close>

definition LoadYAML :: "(string \<Rightarrow> string + string) \<Rightarrow> (string \<Rightarrow> config \<Rightarrow> string + config) \<Rightarrow> string \<Rightarrow> string + config" where
  "LoadYAML read decode path =
    (case read path of
       Inl err \<Rightarrow> Inl (''read '' @ path @ '': '' @ err)
     | Inr b \<Rightarrow> (case decode b Defaults of
                   Inl err \<Rightarrow> Inl (''parse '' @ path @ '': '' @ err)
                 | Inr cfg \<Rightarrow> Inr cfg))"

fun findConfigPath :: "string list \<Rightarrow> string \<Rightarrow> string" where
  "findConfigPath [] envFallback = envFallback"
| "findConfigPath (a # as) envFallback =
    (if a = ''-config'' \<or> a = ''--config''
     then (case as of [] \<Rightarrow> findConfigPath as envFallback | v # _ \<Rightarrow> v)
     else if HasPrefix a ''-config='' then drop (length ''-config='') a
     else if HasPrefix a ''--config='' then drop (length ''--config='') a
     else findConfigPath as envFallback)"

definition parseBool :: "string \<Rightarrow> bool option" where
  "parseBool s =
    (let l = ToLower s in
     if l \<in> set [''1'', ''t'', ''true'', ''y'', ''yes'', ''on''] then Some True
     else if l \<in> set [''0'', ''f'', ''false'', ''n'', ''no'', ''off''] then Some False
     else None)"

definition splitList :: "string \<Rightarrow> string list" where
  "splitList s = filter (\<lambda>p. p \<noteq> []) (map TrimSpace (split_on CHR '','' s))"

text \<open>One binding of \<^verbatim>\<open>applyEnv\<close>: an unset or empty variable changes nothing.\<close>

definition env_string :: "(string \<Rightarrow> string) \<Rightarrow> string \<Rightarrow> (string \<Rightarrow> config \<Rightarrow> config) \<Rightarrow> config \<Rightarrow> string + config" where
  "env_string getenv name upd cfg = Inr (if getenv name \<noteq> [] then upd (getenv name) cfg else cfg)"

definition env_parsed :: "(string \<Rightarrow> 'a option) \<Rightarrow> (string \<Rightarrow> string) \<Rightarrow> string \<Rightarrow> ('a \<Rightarrow> config \<Rightarrow> config) \<Rightarrow> config \<Rightarrow> string + config" where
  "env_parsed parse getenv name upd cfg =
    (if getenv name \<noteq> []
     then (case parse (getenv name) of None \<Rightarrow> Inl (name @ ''='' @ getenv name) | Some v \<Rightarrow> Inr (upd v cfg))
     else Inr cfg)"

fun run_layers :: "('c \<Rightarrow> string + 'c) list \<Rightarrow> 'c \<Rightarrow> string + 'c" where
  "run_layers [] cfg = Inr cfg"
| "run_layers (f # fs) cfg = (case f cfg of Inl err \<Rightarrow> Inl err | Inr cfg' \<Rightarrow> run_layers fs cfg')"

definition set_listen :: "string \<Rightarrow> config \<Rightarrow> config" where "set_listen v c = c\<lparr>c_HTTP := (c_HTTP c)\<lparr>http_Listen := v\<rparr>\<rparr>"
definition set_pin :: "string \<Rightarrow> config \<Rightarrow> config" where "set_pin v c = c\<lparr>c_BPF := (c_BPF c)\<lparr>bpf_PinPath := v\<rparr>\<rparr>"
definition set_prefixes :: "string list \<Rightarrow> config \<Rightarrow> config" where "set_prefixes v c = c\<lparr>c_BPF := (c_BPF c)\<lparr>bpf_AttachPrefixes := v\<rparr>\<rparr>"
definition set_interfaces :: "string list \<Rightarrow> config \<Rightarrow> config" where "set_interfaces v c = c\<lparr>c_BPF := (c_BPF c)\<lparr>bpf_AttachInterfaces := v\<rparr>\<rparr>"
definition set_unpinned :: "bool \<Rightarrow> config \<Rightarrow> config" where "set_unpinned v c = c\<lparr>c_BPF := (c_BPF c)\<lparr>bpf_UnsafeAllowUnpinnedMaps := v\<rparr>\<rparr>"
definition set_scrape :: "duration \<Rightarrow> config \<Rightarrow> config" where "set_scrape v c = c\<lparr>c_Scrape := (c_Scrape c)\<lparr>scrape_Interval := v\<rparr>\<rparr>"
definition set_level :: "string \<Rightarrow> config \<Rightarrow> config" where "set_level v c = c\<lparr>c_Logging := (c_Logging c)\<lparr>log_Level := v\<rparr>\<rparr>"
definition set_format :: "string \<Rightarrow> config \<Rightarrow> config" where "set_format v c = c\<lparr>c_Logging := (c_Logging c)\<lparr>log_Format := v\<rparr>\<rparr>"
definition set_wal_path :: "string \<Rightarrow> config \<Rightarrow> config" where "set_wal_path v c = c\<lparr>c_WAL := (c_WAL c)\<lparr>wal_Path := v\<rparr>\<rparr>"
definition set_flush :: "duration \<Rightarrow> config \<Rightarrow> config" where "set_flush v c = c\<lparr>c_WAL := (c_WAL c)\<lparr>wal_FlushInterval := v\<rparr>\<rparr>"
definition set_wal :: "bool \<Rightarrow> config \<Rightarrow> config" where "set_wal v c = c\<lparr>c_WAL := (c_WAL c)\<lparr>wal_Enabled := v\<rparr>\<rparr>"
definition set_neutron :: "bool \<Rightarrow> config \<Rightarrow> config" where "set_neutron v c = c\<lparr>c_Neutron := (c_Neutron c)\<lparr>neutron_Enabled := v\<rparr>\<rparr>"
definition set_credentials :: "string \<Rightarrow> config \<Rightarrow> config" where "set_credentials v c = c\<lparr>c_Neutron := (c_Neutron c)\<lparr>neutron_CredentialsFile := v\<rparr>\<rparr>"
definition set_ambiguous :: "bool \<Rightarrow> config \<Rightarrow> config" where "set_ambiguous v c = c\<lparr>c_Neutron := (c_Neutron c)\<lparr>neutron_UnsafeAllowAmbiguousRoutes := v\<rparr>\<rparr>"
definition set_kafka :: "bool \<Rightarrow> config \<Rightarrow> config" where "set_kafka v c = c\<lparr>c_Kafka := (c_Kafka c)\<lparr>kafka_Enabled := v\<rparr>\<rparr>"
definition set_brokers :: "string list \<Rightarrow> config \<Rightarrow> config" where "set_brokers v c = c\<lparr>c_Kafka := (c_Kafka c)\<lparr>kafka_Brokers := v\<rparr>\<rparr>"

definition applyEnv :: "(string \<Rightarrow> duration option) \<Rightarrow> (string \<Rightarrow> string) \<Rightarrow> string \<Rightarrow> config \<Rightarrow> string + config" where
  "applyEnv parseDuration getenv prefix cfg =
    (let n = (\<lambda>suffix. prefix @ ''_'' @ suffix) in run_layers
      [env_string getenv (n ''HTTP_LISTEN'') set_listen,
       env_string getenv (n ''BPF_PIN_PATH'') set_pin,
       env_string getenv (n ''BPF_ATTACH_PREFIXES'') (\<lambda>v. set_prefixes (splitList v)),
       env_string getenv (n ''BPF_ATTACH_INTERFACES'') (\<lambda>v. set_interfaces (splitList v)),
       env_parsed parseBool getenv (n ''BPF_UNSAFE_ALLOW_UNPINNED_MAPS'') set_unpinned,
       env_parsed parseDuration getenv (n ''SCRAPE_INTERVAL'') set_scrape,
       env_string getenv (n ''LOG_LEVEL'') set_level,
       env_string getenv (n ''LOG_FORMAT'') set_format,
       env_string getenv (n ''WAL_PATH'') set_wal_path,
       env_parsed parseDuration getenv (n ''WAL_FLUSH_INTERVAL'') set_flush,
       env_parsed parseBool getenv (n ''WAL_ENABLED'') set_wal,
       env_parsed parseBool getenv (n ''NEUTRON_ENABLED'') set_neutron,
       env_string getenv (n ''NEUTRON_CREDENTIALS_FILE'') set_credentials,
       env_parsed parseBool getenv (n ''NEUTRON_UNSAFE_ALLOW_AMBIGUOUS_ROUTES'') set_ambiguous,
       env_parsed parseBool getenv (n ''KAFKA_ENABLED'') set_kafka,
       env_string getenv (n ''KAFKA_BROKERS'') (\<lambda>v. set_brokers (splitList v))] cfg)"

subsection \<open>Flags\<close>

text \<open>The variables the flag set is bound to: the configuration, the path and the three scratch lists.\<close>

record flag_vars =
  v_cfg :: config
  v_configPath :: string
  v_prefixes :: string
  v_interfaces :: string
  v_brokers :: string

text \<open>\<^verbatim>\<open>strconv.ParseBool\<close>, which boolean flags use.\<close>

definition strconv_ParseBool :: "string \<Rightarrow> bool option" where
  "strconv_ParseBool s =
    (if s \<in> set [''1'', ''t'', ''T'', ''TRUE'', ''true'', ''True''] then Some True
     else if s \<in> set [''0'', ''f'', ''F'', ''FALSE'', ''false'', ''False''] then Some False
     else None)"

datatype flag_kind = StringVar "string \<Rightarrow> flag_vars \<Rightarrow> flag_vars" | BoolVar "bool \<Rightarrow> config \<Rightarrow> config" | DurationVar "duration \<Rightarrow> config \<Rightarrow> config"

definition cfg_var :: "(string \<Rightarrow> config \<Rightarrow> config) \<Rightarrow> flag_kind" where
  "cfg_var upd = StringVar (\<lambda>v s. s\<lparr>v_cfg := upd v (v_cfg s)\<rparr>)"

definition agent_flags :: "(string \<times> flag_kind) list" where
  "agent_flags =
    [(''config'', StringVar (\<lambda>v s. s\<lparr>v_configPath := v\<rparr>)), (''http-listen'', cfg_var set_listen), (''bpf-pin-path'', cfg_var set_pin),
     (''bpf-attach-prefixes'', StringVar (\<lambda>v s. s\<lparr>v_prefixes := v\<rparr>)), (''bpf-attach-interfaces'', StringVar (\<lambda>v s. s\<lparr>v_interfaces := v\<rparr>)),
     (''unsafe-allow-unpinned-maps'', BoolVar set_unpinned), (''scrape-interval'', DurationVar set_scrape),
     (''log-level'', cfg_var set_level), (''log-format'', cfg_var set_format), (''wal-path'', cfg_var set_wal_path),
     (''wal-flush-interval'', DurationVar set_flush), (''wal-enabled'', BoolVar set_wal), (''neutron-enabled'', BoolVar set_neutron),
     (''neutron-credentials-file'', cfg_var set_credentials), (''unsafe-allow-ambiguous-routes'', BoolVar set_ambiguous),
     (''kafka-enabled'', BoolVar set_kafka), (''kafka-brokers'', StringVar (\<lambda>v s. s\<lparr>v_brokers := v\<rparr>))]"

definition flag_Set :: "(string \<Rightarrow> duration option) \<Rightarrow> flag_kind \<Rightarrow> string \<Rightarrow> flag_vars \<Rightarrow> string + flag_vars" where
  "flag_Set parseDuration kind value s =
    (case kind of
       StringVar upd \<Rightarrow> Inr (upd value s)
     | BoolVar upd \<Rightarrow> (case strconv_ParseBool value of None \<Rightarrow> Inl ''invalid boolean value'' | Some b \<Rightarrow> Inr (s\<lparr>v_cfg := upd b (v_cfg s)\<rparr>))
     | DurationVar upd \<Rightarrow> (case parseDuration value of None \<Rightarrow> Inl ''invalid value'' | Some d \<Rightarrow> Inr (s\<lparr>v_cfg := upd d (v_cfg s)\<rparr>)))"

text \<open>A flag's name and the value after an equals sign, if it has one.\<close>

definition flag_name :: "string \<Rightarrow> string \<times> string option" where
  "flag_name body =
    (let name = takeWhile (\<lambda>c. c \<noteq> CHR ''='') body
     in (name, if length name < length body then Some (drop (length name + 1) body) else None))"

text \<open>\<^verbatim>\<open>FlagSet.Parse\<close>: it stops at the first argument that is not a flag, or after a double dash.\<close>

fun flag_Parse :: "(string \<Rightarrow> duration option) \<Rightarrow> (string \<times> flag_kind) list \<Rightarrow> string list \<Rightarrow> flag_vars \<Rightarrow> string + flag_vars" where
  "flag_Parse parseDuration flags [] s = Inr s"
| "flag_Parse parseDuration flags (a # as) s =
    (if length a < 2 \<or> a ! 0 \<noteq> CHR ''-'' then Inr s
     else if a = ''--'' then Inr s
     else let body = (if a ! 1 = CHR ''-'' then drop 2 a else drop 1 a) in
       if body = [] \<or> hd body = CHR ''-'' \<or> hd body = CHR ''='' then Inl (''bad flag syntax: '' @ a)
       else (case flag_name body of (name, val) \<Rightarrow>
         (case map_of flags name of
            None \<Rightarrow> Inl (''flag provided but not defined: -'' @ name)
          | Some kind \<Rightarrow>
              (case (kind, val, as) of
                 (BoolVar upd, None, _) \<Rightarrow>
                   (case flag_Set parseDuration kind ''true'' s of Inl err \<Rightarrow> Inl err | Inr s' \<Rightarrow> flag_Parse parseDuration flags as s')
               | (_, Some v, _) \<Rightarrow>
                   (case flag_Set parseDuration kind v s of Inl err \<Rightarrow> Inl err | Inr s' \<Rightarrow> flag_Parse parseDuration flags as s')
               | (_, None, []) \<Rightarrow> Inl (''flag needs an argument: -'' @ name)
               | (_, None, v # as') \<Rightarrow>
                   (case flag_Set parseDuration kind v s of Inl err \<Rightarrow> Inl err | Inr s' \<Rightarrow> flag_Parse parseDuration flags as' s')))))"

definition applyFlags :: "(string \<Rightarrow> duration option) \<Rightarrow> string \<Rightarrow> string list \<Rightarrow> config \<Rightarrow> string + config" where
  "applyFlags parseDuration configPath args cfg =
    (case flag_Parse parseDuration agent_flags args
            \<lparr>v_cfg = cfg, v_configPath = configPath, v_prefixes = strings_Join (bpf_AttachPrefixes (c_BPF cfg)),
             v_interfaces = strings_Join (bpf_AttachInterfaces (c_BPF cfg)), v_brokers = strings_Join (kafka_Brokers (c_Kafka cfg))\<rparr> of
       Inl err \<Rightarrow> Inl err
     | Inr s \<Rightarrow>
         let c0 = v_cfg s;
             c1 = (if v_prefixes s \<noteq> [] then set_prefixes (splitList (v_prefixes s)) c0 else c0);
             c2 = (if v_interfaces s \<noteq> [] then set_interfaces (splitList (v_interfaces s)) c1 else c1);
             c3 = (if v_brokers s \<noteq> [] then set_brokers (splitList (v_brokers s)) c2 else c2)
         in Inr c3)"

definition DefaultEnvPrefix :: string where "DefaultEnvPrefix = ''LACHESIS''"

definition FindConfigPath :: "string \<Rightarrow> (string \<Rightarrow> string) \<Rightarrow> string list \<Rightarrow> string" where
  "FindConfigPath envPrefix getenv args =
    (let p = (if envPrefix = [] then DefaultEnvPrefix else envPrefix) in findConfigPath args (getenv (p @ ''_CONFIG'')))"

text \<open>\<^verbatim>\<open>Load\<close> with the file system, the decoder, the environment and the duration parser as parameters.\<close>

definition config_Load :: "(string \<Rightarrow> string + string) \<Rightarrow> (string \<Rightarrow> config \<Rightarrow> string + config) \<Rightarrow> (string \<Rightarrow> duration option) \<Rightarrow>
    string \<Rightarrow> (string \<Rightarrow> string) \<Rightarrow> string list \<Rightarrow> string + config" where
  "config_Load read decode parseDuration envPrefix getenv args =
    (let p = (if envPrefix = [] then DefaultEnvPrefix else envPrefix);
         configPath = findConfigPath args (getenv (p @ ''_CONFIG''));
         layers = [\<lambda>cfg. if configPath \<noteq> [] then LoadYAML read decode configPath else Inr cfg,
                   applyEnv parseDuration getenv p,
                   applyFlags parseDuration configPath args]
     in case run_layers layers Defaults of
          Inl err \<Rightarrow> Inl (''config: '' @ err)
        | Inr cfg \<Rightarrow> (case Config_Validate cfg of None \<Rightarrow> Inr cfg | Some err \<Rightarrow> Inl err))"

section \<open>What an accepted configuration guarantees\<close>

lemma first_section_failure_None: "first_section_failure cs = None \<longleftrightarrow> (\<forall>c\<in>set cs. snd c = None)"
proof (induction cs)
  case (Cons c cs)
  then show ?case by (cases c; cases "snd c") auto
qed simp

lemmas section_checks = HTTPConfig_Validate_def BPFConfig_Validate_def ScrapeConfig_Validate_def LoggingConfig_Validate_def
  WALConfig_Validate_def NeutronConfig_Validate_def GCConfig_Validate_def KafkaConfig_Validate_def ReconcileConfig_Validate_def
  UnresolvedConfig_Validate_def

lemmas section_defaults = httpDefaults_def bpfDefaults_def scrapeDefaults_def loggingDefaults_def walDefaults_def neutronDefaults_def
  gcDefaults_def kafkaDefaults_def reconcileDefaults_def unresolvedDefaults_def

text \<open>The watermarks a check accepts: in order inside the unit interval, or not a number.\<close>

definition marks_ok :: "f64 \<Rightarrow> f64 \<Rightarrow> bool" where
  "marks_ok high low \<longleftrightarrow> (\<exists>h l. high = Num h \<and> low = Num l \<and> 0 < l \<and> l < h \<and> h < 1)"

lemma marks_checked:
  assumes "\<not> (f64_le high (Num 0) \<or> f64_le (Num 1) high)" "\<not> (f64_le low (Num 0) \<or> f64_le high low)"
  shows "high = NaN \<or> low = NaN \<or> marks_ok high low"
  using assms by (cases high; cases low) (auto simp: marks_ok_def)

text \<open>The bounds the consumers of a knob rely on; the knobs of a disabled section are not checked.\<close>

definition knobs_ok :: "bool \<Rightarrow> bool \<Rightarrow> tunable_values \<Rightarrow> bool" where
  "knobs_ok wal neutron t \<longleftrightarrow>
    ScrapeInterval t \<ge> Second \<and> ReconcileInterval t \<ge> Second \<and> KickDebounce t \<ge> 0 \<and> GhostGrace t > 0 \<and> GhostSweepInterval t > 0
    \<and> UnresolvedCap t \<ge> 1 \<and> UnresolvedTTL t > 0 \<and> PressureMaxPerPass t \<ge> 1
    \<and> (PressureHighWatermark t = NaN \<or> PressureLowWatermark t = NaN \<or> marks_ok (PressureHighWatermark t) (PressureLowWatermark t))
    \<and> (wal \<longrightarrow> WALFlushInterval t \<ge> Second) \<and> (neutron \<longrightarrow> MaxStaticRouteHops t \<ge> 1)"

lemma valid_sections:
  assumes "Config_Validate c = None"
  shows "HTTPConfig_Validate (c_HTTP c) = None" "BPFConfig_Validate (c_BPF c) = None" "ScrapeConfig_Validate (c_Scrape c) = None"
    "LoggingConfig_Validate (c_Logging c) = None" "WALConfig_Validate (c_WAL c) = None" "NeutronConfig_Validate (c_Neutron c) = None"
    "GCConfig_Validate (c_GC c) = None" "KafkaConfig_Validate (c_Kafka c) = None" "ReconcileConfig_Validate (c_Reconcile c) = None"
    "UnresolvedConfig_Validate (c_Unresolved c) = None"
  using assms by (simp_all add: Config_Validate_def first_section_failure_None split: if_splits)

lemma valid_knobs:
  assumes "Config_Validate c = None"
  shows "knobs_ok (wal_Enabled (c_WAL c)) (neutron_Enabled (c_Neutron c)) (Tunables c)"
proof -
  note v = valid_sections[OF assms]
  have "gc_PressureHighWatermark (c_GC c) = NaN \<or> gc_PressureLowWatermark (c_GC c) = NaN \<or> marks_ok (gc_PressureHighWatermark (c_GC c)) (gc_PressureLowWatermark (c_GC c))"
    using marks_checked v(7) by (auto simp: GCConfig_Validate_def split: if_splits)
  moreover have "gc_GhostGrace (c_GC c) > 0 \<and> gc_GhostSweepInterval (c_GC c) > 0 \<and> gc_PressureMaxPerPass (c_GC c) \<ge> 1"
    using v(7) by (auto simp: GCConfig_Validate_def split: if_splits)
  moreover have "scrape_Interval (c_Scrape c) \<ge> Second" using v(3) by (auto simp: ScrapeConfig_Validate_def split: if_splits)
  moreover have "wal_Enabled (c_WAL c) \<longrightarrow> wal_FlushInterval (c_WAL c) \<ge> Second" using v(5) by (auto simp: WALConfig_Validate_def split: if_splits)
  moreover have "neutron_Enabled (c_Neutron c) \<longrightarrow> neutron_MaxStaticRouteHops (c_Neutron c) \<ge> 1"
    using v(6) by (auto simp: NeutronConfig_Validate_def Let_def split: if_splits)
  moreover have "rec_Interval (c_Reconcile c) \<ge> Second \<and> rec_KickDebounce (c_Reconcile c) \<ge> 0" using v(9) by (auto simp: ReconcileConfig_Validate_def split: if_splits)
  moreover have "unres_Cap (c_Unresolved c) \<ge> 1 \<and> unres_TTL (c_Unresolved c) > 0" using v(10) by (auto simp: UnresolvedConfig_Validate_def split: if_splits)
  ultimately show ?thesis by (simp add: knobs_ok_def Tunables_def)
qed

lemma Defaults_valid: "Config_Validate Defaults = None"
  by (simp add: Config_Validate_def Defaults_def section_defaults section_checks SplitHostPort_ok_def last_index_def IsAbs_def HasPrefix_def
      TrimSpace_def is_space_def minAttachResyncInterval_def upt_rec)

section \<open>Lists as text\<close>

text \<open>An entry that survives the comma-separated form: trimmed, not empty, without a comma.\<close>

definition plain :: "string \<Rightarrow> bool" where
  "plain p \<longleftrightarrow> p \<noteq> [] \<and> CHR '','' \<notin> set p \<and> TrimSpace p = p"

lemma split_Join:
  assumes "xs \<noteq> []" "\<forall>x\<in>set xs. plain x"
  shows "split_on CHR '','' (strings_Join xs) = xs"
  using assms
proof (induction xs rule: strings_Join.induct)
  case (3 x y xs)
  then show ?case using split_on_append[of "CHR '',''" x "strings_Join (y # xs)"] by (simp add: plain_def)
qed (auto simp: plain_def split_on_single)

lemma splitList_Join:
  assumes "\<forall>x\<in>set xs. plain x"
  shows "splitList (strings_Join xs) = xs"
proof (cases "xs = []")
  case True
  then show ?thesis by (simp add: splitList_def TrimSpace_def)
next
  case False
  then show ?thesis using split_Join[OF False assms] assms by (simp add: splitList_def map_idI plain_def filter_id_conv)
qed

lemma set_same: "set_prefixes (bpf_AttachPrefixes (c_BPF c)) c = c" "set_interfaces (bpf_AttachInterfaces (c_BPF c)) c = c"
  "set_brokers (kafka_Brokers (c_Kafka c)) c = c"
  by (simp_all add: set_prefixes_def set_interfaces_def set_brokers_def)

lemma applyFlags_none:
  assumes "\<forall>x\<in>set (bpf_AttachPrefixes (c_BPF cfg)). plain x" "\<forall>x\<in>set (bpf_AttachInterfaces (c_BPF cfg)). plain x"
    "\<forall>x\<in>set (kafka_Brokers (c_Kafka cfg)). plain x"
  shows "applyFlags parseDuration path [] cfg = Inr cfg"
  by (simp add: applyFlags_def Let_def splitList_Join[OF assms(1)] splitList_Join[OF assms(2)] splitList_Join[OF assms(3)] set_same)

lemma applyEnv_none:
  assumes "\<And>n. n \<noteq> ''CONFIG'' \<Longrightarrow> getenv (prefix @ ''_'' @ n) = []"
  shows "applyEnv parseDuration getenv prefix cfg = Inr cfg"
  using assms by (simp add: applyEnv_def env_string_def env_parsed_def)

section \<open>Properties\<close>

definition plain_lists :: "config \<Rightarrow> bool" where
  "plain_lists c \<longleftrightarrow> (\<forall>x\<in>set (bpf_AttachPrefixes (c_BPF c)) \<union> set (bpf_AttachInterfaces (c_BPF c)) \<union> set (kafka_Brokers (c_Kafka c)). plain x)"



text \<open>A watermark that is not a number passes the check that is to keep relief from being switched off.\<close>

lemma nan_watermark_accepted: "Config_Validate (Defaults\<lparr>c_GC := gcDefaults\<lparr>gc_PressureHighWatermark := NaN\<rparr>\<rparr>) = None"
  using Defaults_valid
  by (simp add: Config_Validate_def Defaults_def GCConfig_Validate_def gcDefaults_def split: if_splits)

text \<open>
  A list with an empty entry is rejected by the check, but the unset flag has rewritten the list before: a boot
  accepts the file that a reload rejects.
\<close>

lemma unset_flag_rewrites_list:
  "Config_Validate (set_prefixes [''tap'', []] Defaults) \<noteq> None"
  "applyFlags parseDuration path [] (set_prefixes [''tap'', []] Defaults) = Inr Defaults"
  by (simp_all add: Config_Validate_def first_section_failure_None BPFConfig_Validate_def applyFlags_def set_prefixes_def set_interfaces_def set_brokers_def
      Defaults_def section_defaults Let_def splitList_def TrimSpace_def is_space_def HTTPConfig_Validate_def SplitHostPort_ok_def last_index_def IsAbs_def HasPrefix_def)

end
