(* ===== verification/Reload.thy ===== *)
theory Reload
  imports Config
begin

text \<open>
  Reloading at runtime (\<^verbatim>\<open>internal/runtime\<close>, \<^verbatim>\<open>internal/tunables\<close>, the level of \<^verbatim>\<open>internal/logging\<close>): the
  Manager's snapshot, the shared store of hot knobs, a SIGHUP reload and the log-level request. Each holds the
  Manager's lock and is one function; the file's content is the outcome of \<^verbatim>\<open>LoadYAML\<close>.
\<close>

section \<open>Levels\<close>

datatype level = LevelDebug | LevelInfo | LevelWarn | LevelError

definition ParseLevel :: "string \<Rightarrow> level option" where
  "ParseLevel s =
    (let l = ToLower s in
     if l = ''debug'' then Some LevelDebug
     else if l = ''info'' then Some LevelInfo
     else if l = ''warn'' then Some LevelWarn
     else if l = ''error'' then Some LevelError
     else None)"

definition SetLevel :: "string \<Rightarrow> level \<Rightarrow> string option \<times> level" where
  "SetLevel s cur = (case ParseLevel s of None \<Rightarrow> (Some ''logging: invalid level'', cur) | Some l \<Rightarrow> (None, l))"

section \<open>The knob store\<close>

datatype knob_value = KDur duration | KInt int | KFloat f64

text \<open>The fields in declaration order with their tags.\<close>

definition knob_fields :: "(string \<times> (tunable_values \<Rightarrow> knob_value)) list" where
  "knob_fields =
    [(''gc.ghost_grace'', KDur \<circ> GhostGrace), (''gc.ghost_sweep_interval'', KDur \<circ> GhostSweepInterval),
     (''reconcile.interval'', KDur \<circ> ReconcileInterval), (''reconcile.kick_debounce'', KDur \<circ> KickDebounce),
     (''scrape.interval'', KDur \<circ> ScrapeInterval), (''wal.flush_interval'', KDur \<circ> WALFlushInterval),
     (''unresolved.ttl'', KDur \<circ> UnresolvedTTL), (''unresolved.cap'', KInt \<circ> UnresolvedCap),
     (''gc.pressure_high_watermark'', KFloat \<circ> PressureHighWatermark), (''gc.pressure_low_watermark'', KFloat \<circ> PressureLowWatermark),
     (''gc.pressure_max_per_pass'', KInt \<circ> PressureMaxPerPass), (''neutron.max_static_route_hops'', KInt \<circ> MaxStaticRouteHops)]"

text \<open>Go's \<^verbatim>\<open>==\<close> on the boxed values: a float that is not a number differs from itself.\<close>

fun knob_eq :: "knob_value \<Rightarrow> knob_value \<Rightarrow> bool" where
  "knob_eq (KFloat NaN) y = False"
| "knob_eq x y = (x = y)"

record change =
  Knob :: string
  From :: knob_value
  To :: knob_value

definition Diff :: "tunable_values \<Rightarrow> tunable_values \<Rightarrow> change list" where
  "Diff oldV newV =
    map (\<lambda>(tag, get). \<lparr>Knob = tag, From = get oldV, To = get newV\<rparr>) (filter (\<lambda>(tag, get). \<not> knob_eq (get oldV) (get newV)) knob_fields)"

text \<open>\<^verbatim>\<open>oldV == newV\<close> compares field by field.\<close>

definition values_eq :: "tunable_values \<Rightarrow> tunable_values \<Rightarrow> bool" where
  "values_eq oldV newV = list_all (\<lambda>(tag, get). knob_eq (get oldV) (get newV)) knob_fields"

section \<open>The Manager\<close>

record manager =
  mConfigPath :: string
  mCurrent :: config
  mLevel :: level
  mTun :: "tunable_values option"
  mReloads :: "string list"
  mHook :: bool
  mKicks :: nat

definition Manager_New :: "string \<Rightarrow> config \<Rightarrow> level \<Rightarrow> manager" where
  "Manager_New path initial lvl = \<lparr>mConfigPath = path, mCurrent = initial, mLevel = lvl, mTun = None, mReloads = [], mHook = False, mKicks = 0\<rparr>"

definition SetTunables :: "tunable_values \<Rightarrow> manager \<Rightarrow> manager" where
  "SetTunables v m = m\<lparr>mTun := Some v\<rparr>"

definition SetOnReload :: "bool \<Rightarrow> manager \<Rightarrow> manager" where
  "SetOnReload hook m = m\<lparr>mHook := hook\<rparr>"

definition recordReload :: "string \<Rightarrow> manager \<Rightarrow> manager" where
  "recordReload result m = m\<lparr>mReloads := mReloads m @ [result]\<rparr>"

definition applyTunables :: "config \<Rightarrow> manager \<Rightarrow> manager" where
  "applyTunables new m =
    (case mTun m of
       None \<Rightarrow> m
     | Some v \<Rightarrow> if values_eq (Tunables (mCurrent m)) (Tunables new) then m else m\<lparr>mTun := Some (Tunables new)\<rparr>)"

text \<open>The load-time fields a reload compares, and those whose change it warns of.\<close>

definition warnLoadTimeChange :: "string \<Rightarrow> 'a \<Rightarrow> 'a \<Rightarrow> string list" where
  "warnLoadTimeChange field running fromYAML = (if running = fromYAML then [] else [field])"

definition load_time_warnings :: "config \<Rightarrow> config \<Rightarrow> string list" where
  "load_time_warnings cur new =
    warnLoadTimeChange ''http.listen'' (http_Listen (c_HTTP cur)) (http_Listen (c_HTTP new))
    @ warnLoadTimeChange ''bpf.pin_path'' (bpf_PinPath (c_BPF cur)) (bpf_PinPath (c_BPF new))
    @ warnLoadTimeChange ''bpf.unsafe_allow_unpinned_maps'' (bpf_UnsafeAllowUnpinnedMaps (c_BPF cur)) (bpf_UnsafeAllowUnpinnedMaps (c_BPF new))
    @ warnLoadTimeChange ''bpf.attach_resync_interval'' (bpf_AttachResyncInterval (c_BPF cur)) (bpf_AttachResyncInterval (c_BPF new))
    @ warnLoadTimeChange ''wal.path'' (wal_Path (c_WAL cur)) (wal_Path (c_WAL new))
    @ warnLoadTimeChange ''logging.format'' (log_Format (c_Logging cur)) (log_Format (c_Logging new))"

definition kick_hook :: "manager \<Rightarrow> manager" where
  "kick_hook m = (if mHook m then m\<lparr>mKicks := mKicks m + 1\<rparr> else m)"

text \<open>The result carries the error and the warnings.\<close>

definition Manager_Reload :: "string + config \<Rightarrow> manager \<Rightarrow> string option \<times> string list \<times> manager" where
  "Manager_Reload yaml m =
    (if mConfigPath m = [] then (Some ''runtime: reload disabled (no config file)'', [], m)
     else (case yaml of
             Inl err \<Rightarrow> (Some err, [], recordReload ''read_error'' m)
           | Inr new \<Rightarrow>
               (case Config_Validate new of
                  Some err \<Rightarrow> (Some (''runtime: new config invalid: '' @ err), [], recordReload ''invalid'' m)
                | None \<Rightarrow>
                    (case (if log_Level (c_Logging new) \<noteq> log_Level (c_Logging (mCurrent m))
                           then SetLevel (log_Level (c_Logging new)) (mLevel m) else (None, mLevel m)) of
                       (Some err, _) \<Rightarrow> (Some (''runtime: apply logging.level: '' @ err), [], recordReload ''invalid'' m)
                     | (None, lvl) \<Rightarrow>
                         let m1 = applyTunables new (m\<lparr>mLevel := lvl\<rparr>)
                         in (None, load_time_warnings (mCurrent m) new,
                             kick_hook (recordReload ''applied'' (m1\<lparr>mCurrent := new\<rparr>)))))))"

text \<open>The body of the request: too large, not JSON, or a level. The result is the status code.\<close>

datatype level_body = BodyTooLarge | BodyInvalid | BodyLevel string

definition handlePutLogLevel :: "level_body \<Rightarrow> manager \<Rightarrow> nat \<times> manager" where
  "handlePutLogLevel body m =
    (case body of
       BodyTooLarge \<Rightarrow> (413, m)
     | BodyInvalid \<Rightarrow> (400, m)
     | BodyLevel l \<Rightarrow>
         (case SetLevel l (mLevel m) of
            (Some err, _) \<Rightarrow> (400, m)
          | (None, lvl) \<Rightarrow> (204, m\<lparr>mLevel := lvl, mCurrent := set_level l (mCurrent m)\<rparr>)))"

text \<open>What \<^verbatim>\<open>GET /debug/config\<close> encodes: the snapshot with the secret redacted.\<close>

definition handleGetConfig :: "manager \<Rightarrow> config" where
  "handleGetConfig m = (mCurrent m)\<lparr>c_Neutron := NeutronConfig_MarshalJSON (c_Neutron (mCurrent m))\<rparr>"

datatype manager_event = Sighup "string + config" | PutLevel level_body

fun manager_step :: "manager_event \<Rightarrow> manager \<Rightarrow> manager" where
  "manager_step (Sighup yaml) m = snd (snd (Manager_Reload yaml m))"
| "manager_step (PutLevel body) m = snd (handlePutLogLevel body m)"

section \<open>Invariant\<close>

text \<open>
  The live state is the snapshot's: the level is the snapshot's level, and the store holds the snapshot's knobs, field by field.
\<close>

definition in_force :: "manager \<Rightarrow> bool" where
  "in_force m \<longleftrightarrow> ParseLevel (log_Level (c_Logging (mCurrent m))) = Some (mLevel m)
     \<and> (\<forall>v. mTun m = Some v \<longrightarrow> v = Tunables (mCurrent m))"

lemma knob_eq_eq: "knob_eq x y \<Longrightarrow> x = y"
  by (cases "(x, y)" rule: knob_eq.cases) auto

lemma values_eq_eq: "values_eq a b \<Longrightarrow> a = b"
  unfolding values_eq_def knob_fields_def by (auto dest!: knob_eq_eq)

text \<open>A swap always logs the knobs that changed.\<close>

lemma Diff_complete: "Diff a b = [] \<longleftrightarrow> values_eq a b"
  by (auto simp: Diff_def values_eq_def filter_empty_conv list_all_iff)

lemma valid_level: "Config_Validate c = None \<Longrightarrow> \<exists>l. ParseLevel (log_Level (c_Logging c)) = Some l"
  using valid_sections(4)[of c] by (auto simp: LoggingConfig_Validate_def ParseLevel_def ToLower_def lower_def Let_def split: if_splits)

lemma Tunables_set_level [simp]: "Tunables (set_level l c) = Tunables c"
  by (simp add: set_level_def Tunables_def)

lemma log_Level_set_level [simp]: "log_Level (c_Logging (set_level l c)) = l"
  by (simp add: set_level_def)

lemma reload_applied:
  assumes "mConfigPath m \<noteq> []" "yaml = Inr new" "Config_Validate new = None" "in_force m"
  shows "Manager_Reload yaml m = (None, load_time_warnings (mCurrent m) new,
     kick_hook (recordReload ''applied'' (m\<lparr>mLevel := the (ParseLevel (log_Level (c_Logging new))), mTun := map_option (\<lambda>v. Tunables new) (mTun m), mCurrent := new\<rparr>)))"
proof -
  obtain l where l: "ParseLevel (log_Level (c_Logging new)) = Some l" using valid_level[OF assms(3)] by blast
  have lvl: "(if log_Level (c_Logging new) \<noteq> log_Level (c_Logging (mCurrent m)) then SetLevel (log_Level (c_Logging new)) (mLevel m) else (None, mLevel m)) = (None, l)"
    using l assms(4) by (auto simp: SetLevel_def in_force_def)
  have tun: "applyTunables new (m\<lparr>mLevel := l\<rparr>) = m\<lparr>mLevel := l, mTun := map_option (\<lambda>v. Tunables new) (mTun m)\<rparr>"
    using assms(4) values_eq_eq[of "Tunables (mCurrent m)" "Tunables new"] by (cases "mTun m") (auto simp: applyTunables_def in_force_def)
  show ?thesis using assms(1-3) lvl tun l by (simp add: Manager_Reload_def)
qed

text \<open>The snapshot passes every check but for the spelling of a level the debug request has set.\<close>

definition checked :: "config \<Rightarrow> bool" where
  "checked c \<longleftrightarrow> Config_Validate (set_level ''info'' c) = None"

lemma checked_valid: "Config_Validate c = None \<Longrightarrow> checked c"
  by (auto simp: checked_def set_level_def Config_Validate_def first_section_failure_None LoggingConfig_Validate_def split: if_splits)

lemma checked_set_level [simp]: "checked (set_level l c) = checked c"
  by (simp add: checked_def set_level_def)

lemma checked_knobs: "checked c \<Longrightarrow> knobs_ok (wal_Enabled (c_WAL c)) (neutron_Enabled (c_Neutron c)) (Tunables c)"
  using valid_knobs[of "set_level ''info'' c"] by (simp add: checked_def) (simp add: set_level_def)

lemma reload_rejected:
  assumes "mConfigPath m = [] \<or> (\<forall>new. yaml = Inr new \<longrightarrow> Config_Validate new \<noteq> None)"
  shows "fst (Manager_Reload yaml m) \<noteq> None \<and> (snd (snd (Manager_Reload yaml m)))\<lparr>mReloads := mReloads m\<rparr> = m"
  using assms by (auto simp: Manager_Reload_def recordReload_def split: sum.splits option.splits)

lemma reload_outcome:
  assumes "in_force m"
  obtains (applied) new where "mConfigPath m \<noteq> []" "yaml = Inr new" "Config_Validate new = None"
    | (rejected) "fst (Manager_Reload yaml m) \<noteq> None" "(snd (snd (Manager_Reload yaml m)))\<lparr>mReloads := mReloads m\<rparr> = m"
  using reload_rejected[of m yaml] by blast

lemma in_force_cong: "m'\<lparr>mReloads := r\<rparr> = m \<Longrightarrow> in_force m' = in_force m \<and> mCurrent m' = mCurrent m"
  by (auto simp: in_force_def)

lemma step_keeps:
  assumes "in_force m" "checked (mCurrent m)"
  shows "in_force (manager_step ev m) \<and> checked (mCurrent (manager_step ev m))"
proof (cases ev)
  case (Sighup yaml)
  from assms(1) show ?thesis
  proof (cases rule: reload_outcome[where yaml=yaml])
    case (applied new)
    then show ?thesis
      using reload_applied[OF applied assms(1)] valid_level[of new] checked_valid[of new] Sighup
      by (auto simp: in_force_def kick_hook_def recordReload_def)
  next
    case rejected
    then show ?thesis using in_force_cong assms Sighup by fastforce
  qed
next
  case (PutLevel body)
  then show ?thesis
    using assms by (auto simp: handlePutLogLevel_def SetLevel_def in_force_def split: level_body.splits option.splits)
qed

lemma steps_keep:
  assumes "in_force m" "checked (mCurrent m)"
  shows "in_force (fold manager_step evs m) \<and> checked (mCurrent (fold manager_step evs m))"
  using assms by (induction evs arbitrary: m) (simp_all add: step_keeps)

section \<open>Properties\<close>


definition fast_yaml :: config where
  "fast_yaml = set_scrape (5 * Second) Defaults"

definition booted :: manager where
  "booted = SetOnReload True (SetTunables (Tunables Defaults) (Manager_New ''/etc/lachesis.yaml'' Defaults LevelInfo))"

lemma booted_in_force: "in_force booted" "Config_Validate (mCurrent booted) = None" "mConfigPath booted \<noteq> []"
  using Defaults_valid
  by (simp_all add: in_force_def booted_def SetOnReload_def SetTunables_def Manager_New_def Defaults_def loggingDefaults_def ParseLevel_def ToLower_def lower_def)

lemma fast_yaml_valid: "Config_Validate fast_yaml = None"
  using Defaults_valid by (simp add: fast_yaml_def set_scrape_def Config_Validate_def Defaults_def ScrapeConfig_Validate_def scrapeDefaults_def split: if_splits)

lemma parse_DEBUG: "ParseLevel ''DEBUG'' = Some LevelDebug"
  by code_simp


section \<open>What a reload does not see\<close>

text \<open>
  The snapshot takes over the load-time fields it only warned of: the same file loaded again warns of
  nothing, although the running value is still the one of the boot.
\<close>

lemma reload_forgets_running_value:
  assumes "in_force m" "mConfigPath m \<noteq> []" "Config_Validate new = None" "http_Listen (c_HTTP new) \<noteq> http_Listen (c_HTTP (mCurrent m))"
  defines "m' \<equiv> snd (snd (Manager_Reload (Inr new) m))"
  shows "''http.listen'' \<in> set (fst (snd (Manager_Reload (Inr new) m)))"
    and "http_Listen (c_HTTP (handleGetConfig m')) = http_Listen (c_HTTP new)"
    and "fst (snd (Manager_Reload (Inr new) m')) = []"
proof -
  have m': "mCurrent m' = new" "mConfigPath m' \<noteq> []"
    using reload_applied[OF assms(2) refl assms(3,1)] assms(2) by (simp_all add: m'_def kick_hook_def recordReload_def)
  have f: "in_force m'" using step_keeps[OF assms(1), of "Sighup (Inr new)"] reload_applied[OF assms(2) refl assms(3,1)] valid_level[OF assms(3)]
    by (auto simp: m'_def in_force_def kick_hook_def recordReload_def)
  show "''http.listen'' \<in> set (fst (snd (Manager_Reload (Inr new) m)))"
    using reload_applied[OF assms(2) refl assms(3,1)] assms(4) by (simp add: load_time_warnings_def warnLoadTimeChange_def)
  show "http_Listen (c_HTTP (handleGetConfig m')) = http_Listen (c_HTTP new)" using m' by (simp add: handleGetConfig_def)
  show "fst (snd (Manager_Reload (Inr new) m')) = []"
    using reload_applied[OF m'(2) refl assms(3) f] m' by (simp add: load_time_warnings_def warnLoadTimeChange_def)
qed

text \<open>
  The WAL section is checked only when the new file enables it, but its flush interval is hot: a file that disables the WAL
  puts a zero interval in force on an agent that runs with the WAL enabled.
\<close>

lemma reload_takes_unchecked_interval:
  defines "off \<equiv> set_wal False (set_flush 0 Defaults)"
  shows "wal_Enabled (c_WAL (mCurrent booted))" "fst (Manager_Reload (Inr off) booted) = None"
    "map_option WALFlushInterval (mTun (snd (snd (Manager_Reload (Inr off) booted)))) = Some 0"
proof -
  have v: "Config_Validate off = None"
    using valid_sections[OF Defaults_valid]
    by (simp add: off_def set_wal_def set_flush_def Config_Validate_def first_section_failure_None WALConfig_Validate_def) (simp add: Defaults_def)
  note r = reload_applied[OF booted_in_force(3) refl v booted_in_force(1)]
  show "wal_Enabled (c_WAL (mCurrent booted))" by (simp add: booted_def SetOnReload_def SetTunables_def Manager_New_def Defaults_def walDefaults_def)
  show "fst (Manager_Reload (Inr off) booted) = None" using r by simp
  show "map_option WALFlushInterval (mTun (snd (snd (Manager_Reload (Inr off) booted)))) = Some 0"
    using r by (simp add: kick_hook_def recordReload_def booted_def SetOnReload_def SetTunables_def off_def Tunables_def set_wal_def set_flush_def)
qed

text \<open>
  A reload reads the file alone: an interval set by the environment at boot is replaced by the file's
  although neither the file nor the environment changed.
\<close>

definition env_5s :: "string \<Rightarrow> string" where
  "env_5s n = (if n = ''LACHESIS_SCRAPE_INTERVAL'' then ''5s'' else if n = ''LACHESIS_CONFIG'' then ''/etc/lachesis.yaml'' else [])"

definition parse_5s :: "string \<Rightarrow> duration option" where
  "parse_5s v = (if v = ''5s'' then Some (5 * Second) else None)"

lemma env_override_boots: "config_Load (\<lambda>p. Inr []) (\<lambda>b c. Inr c) parse_5s [] env_5s [] = Inr fast_yaml"
proof -
  have e: "applyEnv parse_5s env_5s ''LACHESIS'' Defaults = Inr fast_yaml"
    by (simp add: applyEnv_def env_string_def env_parsed_def env_5s_def parse_5s_def fast_yaml_def)
  have f: "applyFlags parse_5s path [] fast_yaml = Inr fast_yaml" for path
    by (rule applyFlags_none) (simp_all add: fast_yaml_def set_scrape_def Defaults_def section_defaults plain_def TrimSpace_def is_space_def)
  show ?thesis using e f fast_yaml_valid by (simp add: config_Load_def Let_def DefaultEnvPrefix_def env_5s_def LoadYAML_def)
qed

lemma reload_drops_override:
  assumes "in_force m" "mConfigPath m \<noteq> []" "mCurrent m = fast_yaml" "mTun m = Some (Tunables fast_yaml)"
  shows "ScrapeInterval (Tunables fast_yaml) = 5 * Second"
    and "map_option ScrapeInterval (mTun (snd (snd (Manager_Reload (LoadYAML (\<lambda>p. Inr []) (\<lambda>b c. Inr c) (mConfigPath m)) m)))) = Some (10 * Second)"
proof -
  have y: "LoadYAML (\<lambda>p. Inr []) (\<lambda>b c. Inr c) (mConfigPath m) = Inr Defaults" by (simp add: LoadYAML_def)
  show "ScrapeInterval (Tunables fast_yaml) = 5 * Second" by (simp add: Tunables_def fast_yaml_def set_scrape_def)
  show "map_option ScrapeInterval (mTun (snd (snd (Manager_Reload (LoadYAML (\<lambda>p. Inr []) (\<lambda>b c. Inr c) (mConfigPath m)) m)))) = Some (10 * Second)"
    using reload_applied[OF assms(2) y Defaults_valid assms(1)] assms(4)
    by (simp add: kick_hook_def recordReload_def Tunables_def Defaults_def scrapeDefaults_def)
qed

end
