(* ===== verification/Cadence.thy ===== *)
theory Cadence
  imports Gc_Ghost Wal_Flush Scraper Instruments Reload
begin

text \<open>
  The two cadence loops that run on a Go ticker and follow a live knob: the ghost sweeper's \<^verbatim>\<open>Run\<close>
  (\<^verbatim>\<open>internal/gc/ghost.go\<close>), with the instruments it records, and \<^verbatim>\<open>walFlushLoop\<close> (\<^verbatim>\<open>internal/agent/walflush.go\<close>);
  the probe of the log's directory (\<^verbatim>\<open>internal/wal/wal.go\<close>), the start of the logger
  (\<^verbatim>\<open>internal/logging\<close>) and the construction of the map reader. A loop is a function of the sequence of its ticks; each tick says what the other
  goroutines did to the shared state since the last one and which knob value the loop then reads. A
  ticker panics on an interval that is not positive, so returning is part of what is shown.
\<close>

section \<open>Tickers\<close>

definition NewTicker :: "duration \<Rightarrow> duration outcome" where
  "NewTicker d = (if d \<le> 0 then Panic ''non-positive interval for NewTicker'' else Ret d)"

definition Ticker_Reset :: "duration \<Rightarrow> duration outcome" where
  "Ticker_Reset d = (if d \<le> 0 then Panic ''non-positive interval for Ticker.Reset'' else Ret d)"

text \<open>Both loops reset the ticker when the knob moved. The result is the interval then in force.\<close>

definition follow_knob :: "duration \<Rightarrow> duration \<Rightarrow> duration outcome" where
  "follow_knob cur nxt = (if nxt \<noteq> cur then Ticker_Reset nxt else Ret cur)"

lemma follow_knob_cases:
  assumes "cur > 0"
  shows "follow_knob cur nxt = (if nxt > 0 then Ret nxt else Panic ''non-positive interval for Ticker.Reset'')"
  using assms by (simp add: follow_knob_def Ticker_Reset_def)

section \<open>The ghost sweeper\<close>

text \<open>The last field collects the log lines of \<^verbatim>\<open>report\<close>: swept addresses, residual flows, settled flows.\<close>

record ('m, 'f) sweeper =
  ghWorld :: "('m, 'f) sweep_world"
  ghMx :: "gc_metrics option"
  ghGauge :: "bpf_metrics option"
  ghLog :: "(nat \<times> nat \<times> nat) list"

definition refreshMacGauge :: "('m, 'f) sweeper \<Rightarrow> ('m, 'f) sweeper" where
  "refreshMacGauge s = s\<lparr>ghGauge := SetCurrent MapMacTenant (ShardedMetadataMap_Len (swMeta (ghWorld s))) (ghGauge s)\<rparr>"

definition report :: "nat \<Rightarrow> nat \<Rightarrow> nat \<Rightarrow> nat \<Rightarrow> ('m, 'f) sweeper \<Rightarrow> ('m, 'f) sweeper" where
  "report evicted residual settled active s =
    s\<lparr>ghMx := SetGhostsActive active (RecordSettledFlows settled (RecordResidualFlowEvictions residual (RecordTTLEvictions evicted (ghMx s)))),
      ghLog := ghLog s @ (if evicted > 0 then [(evicted, residual, settled)] else [])\<rparr>"

definition sweep_pass ::
  "(u64 \<Rightarrow> 'm \<Rightarrow> kerr option \<times> 'm) \<Rightarrow> (flow_key \<Rightarrow> 'f \<Rightarrow> kerr option \<times> 'f) \<Rightarrow> ('f \<Rightarrow> flow_key list \<times> kerr option) \<Rightarrow>
   gotime \<Rightarrow> ('m, 'f) sweeper \<Rightarrow> ('m, 'f) sweeper" where
  "sweep_pass kdel fdel fiter now s =
    (case sweep kdel fdel fiter now (ghWorld s) of
       (w, evicted, residual, settled, active) \<Rightarrow> report evicted residual settled active (refreshMacGauge (s\<lparr>ghWorld := w\<rparr>)))"

text \<open>A tick: what the other goroutines did since the last one, the time, and the knob read after the sweep.\<close>

fun sweep_ticks ::
  "(u64 \<Rightarrow> 'm \<Rightarrow> kerr option \<times> 'm) \<Rightarrow> (flow_key \<Rightarrow> 'f \<Rightarrow> kerr option \<times> 'f) \<Rightarrow> ('f \<Rightarrow> flow_key list \<times> kerr option) \<Rightarrow>
   ((('m, 'f) sweep_world \<Rightarrow> ('m, 'f) sweep_world) \<times> gotime \<times> duration) list \<Rightarrow> duration \<Rightarrow> ('m, 'f) sweeper \<Rightarrow> ('m, 'f) sweeper outcome" where
  "sweep_ticks kdel fdel fiter [] cur s = Ret s"
| "sweep_ticks kdel fdel fiter ((env, now, nxt) # ts) cur s =
    (let s = sweep_pass kdel fdel fiter now (s\<lparr>ghWorld := env (ghWorld s)\<rparr>)
     in case follow_knob cur nxt of Panic e \<Rightarrow> Panic e | Ret c \<Rightarrow> sweep_ticks kdel fdel fiter ts c s)"

definition GhostSweeper_Run ::
  "(u64 \<Rightarrow> 'm \<Rightarrow> kerr option \<times> 'm) \<Rightarrow> (flow_key \<Rightarrow> 'f \<Rightarrow> kerr option \<times> 'f) \<Rightarrow> ('f \<Rightarrow> flow_key list \<times> kerr option) \<Rightarrow>
   string option \<Rightarrow> duration \<Rightarrow> ((('m, 'f) sweep_world \<Rightarrow> ('m, 'f) sweep_world) \<times> gotime \<times> duration) list \<Rightarrow>
   ('m, 'f) sweeper \<Rightarrow> ('m, 'f) sweeper outcome" where
  "GhostSweeper_Run kdel fdel fiter awaitErr knob ts s =
    (case awaitErr of
       Some _ \<Rightarrow> Ret s
     | None \<Rightarrow> (case NewTicker knob of Panic e \<Rightarrow> Panic e | Ret cur \<Rightarrow> sweep_ticks kdel fdel fiter ts cur s))"

section \<open>The flush loop\<close>

text \<open>A tick: the other goroutines, the knob read before the flush, the failing stages and the time of the flush.\<close>

fun flush_ticks :: "((agent \<Rightarrow> agent) \<times> duration \<times> (stage \<Rightarrow> bool) \<times> u64) list \<Rightarrow> duration \<Rightarrow> agent \<Rightarrow> agent outcome" where
  "flush_ticks [] cur a = Ret a"
| "flush_ticks ((env, nxt, fails, now) # ts) cur a =
    (case follow_knob cur nxt of
       Panic e \<Rightarrow> Panic e
     | Ret c \<Rightarrow> flush_ticks ts c (snd (flushWAL fails now (env a))))"

text \<open>The error is that of the final flush.\<close>

definition walFlushLoop ::
  "duration \<Rightarrow> ((agent \<Rightarrow> agent) \<times> duration \<times> (stage \<Rightarrow> bool) \<times> u64) list \<Rightarrow> (agent \<Rightarrow> agent) \<times> (stage \<Rightarrow> bool) \<times> u64 \<Rightarrow>
   agent \<Rightarrow> (stage option \<times> agent) outcome" where
  "walFlushLoop knob ts fin a =
    (case NewTicker knob of
       Panic e \<Rightarrow> Panic e
     | Ret cur \<Rightarrow>
         (case flush_ticks ts cur a of
            Panic e \<Rightarrow> Panic e
          | Ret b \<Rightarrow> (case fin of (env, fails, now) \<Rightarrow> Ret (final_flush fails now (env b)))))"

section \<open>The directory probe\<close>

text \<open>
  \<^verbatim>\<open>EnsureDir\<close> over the outcomes of its three calls: creating the directory, creating a probe of a fresh
  name, and removing it. The contents of the probe are empty, which is no envelope.
\<close>

datatype dir_error = CreateDir string | NotWritable string | RemoveProbe string

definition EnsureDir :: "string option \<Rightarrow> string + string \<Rightarrow> string option \<Rightarrow> dir \<Rightarrow> dir_error option \<times> dir" where
  "EnsureDir mkdirErr probe removeErr d =
    (case mkdirErr of
       Some e \<Rightarrow> (Some (CreateDir e), d)
     | None \<Rightarrow>
         (case probe of
            Inl e \<Rightarrow> (Some (NotWritable e), d)
          | Inr name \<Rightarrow>
              (let d' = mput name Garbage d
               in case removeErr of Some e \<Rightarrow> (Some (RemoveProbe e), d') | None \<Rightarrow> (None, mdel name d'))))"

definition syncDir :: "string option \<Rightarrow> string option \<Rightarrow> string option \<Rightarrow> string option" where
  "syncDir openErr syncErr closeErr =
    (case openErr of
       Some e \<Rightarrow> Some (''open dir: '' @ e)
     | None \<Rightarrow> (case syncErr of Some e \<Rightarrow> Some (''fsync dir: '' @ e) | None \<Rightarrow> closeErr))"

section \<open>The logger\<close>

datatype log_handler = JSONHandler | TextHandler

record log_handle =
  hLevel :: level
  hHandler :: log_handler

datatype log_error = InvalidLevel | UnknownFormat

definition Init :: "LoggingConfig \<Rightarrow> log_error + log_handle" where
  "Init cfg =
    (case ParseLevel (log_Level cfg) of
       None \<Rightarrow> Inl InvalidLevel
     | Some lvl \<Rightarrow>
         if log_Format cfg = ''json'' then Inr \<lparr>hLevel = lvl, hHandler = JSONHandler\<rparr>
         else if log_Format cfg = ''text'' then Inr \<lparr>hLevel = lvl, hHandler = TextHandler\<rparr>
         else Inl UnknownFormat)"

fun Level_String :: "level \<Rightarrow> string" where
  "Level_String LevelDebug = ''DEBUG''"
| "Level_String LevelInfo = ''INFO''"
| "Level_String LevelWarn = ''WARN''"
| "Level_String LevelError = ''ERROR''"

definition CurrentLevel :: "log_handle \<Rightarrow> string" where
  "CurrentLevel h = ToLower (Level_String (hLevel h))"

section \<open>The reader of the telemetry map\<close>

text \<open>The buffers of \<^verbatim>\<open>BPFMapReader\<close> by their lengths; a collection by the names of its maps.\<close>

record bpf_reader =
  rdNumCPU :: nat
  rdKeysBuf :: nat
  rdValsBuf :: nat

datatype reader_error = NilMap | PossibleCPU string | NotPresent string

definition NewBPFMapReader :: "bool \<Rightarrow> string + nat \<Rightarrow> reader_error + bpf_reader" where
  "NewBPFMapReader isNil cpus =
    (if isNil then Inl NilMap
     else (case cpus of
             Inl e \<Rightarrow> Inl (PossibleCPU e)
           | Inr n \<Rightarrow> Inr \<lparr>rdNumCPU = n, rdKeysBuf = batchSize, rdValsBuf = batchSize * n\<rparr>))"

definition readerFromCollection :: "string list \<Rightarrow> string + nat \<Rightarrow> reader_error + bpf_reader" where
  "readerFromCollection colMaps cpus =
    (if MapTelemetry \<notin> set colMaps then Inl (NotPresent MapTelemetry) else NewBPFMapReader False cpus)"

text \<open>
  A reader that was built never reads past its buffers: the batch it asks for has at most as many keys as
  its key buffer, and the slots of each of them lie inside its value buffer.
\<close>

lemma reader_in_bounds:
  assumes "readerFromCollection colMaps cpus = Inr r" and "bRead b \<le> rdKeysBuf r" and "i < bRead b" and "j < rdNumCPU r"
  shows "i < rdKeysBuf r \<and> i * rdNumCPU r + j < rdValsBuf r"
proof -
  have r: "rdValsBuf r = rdKeysBuf r * rdNumCPU r"
    using assms(1) by (auto simp: readerFromCollection_def NewBPFMapReader_def split: if_splits sum.splits)
  have "i * rdNumCPU r + j < Suc i * rdNumCPU r" using assms(4) by simp
  also have "\<dots> \<le> rdKeysBuf r * rdNumCPU r" by (rule mult_le_mono1) (use assms(2,3) in simp)
  finally show ?thesis using assms(2,3) r by simp
qed

section \<open>When the loops return\<close>

lemma sweep_ticks_returns:
  "cur > 0 \<Longrightarrow> (\<exists>s'. sweep_ticks kdel fdel fiter ts cur s = Ret s') = list_all (\<lambda>(env, now, nxt). nxt > 0) ts"
proof (induction ts arbitrary: cur s)
  case (Cons t ts)
  obtain env now nxt where "t = (env, now, nxt)" by (cases t)
  then show ?case using Cons by (cases "nxt > 0") (simp_all add: Let_def follow_knob_cases)
qed simp

lemma flush_ticks_returns:
  "cur > 0 \<Longrightarrow> (\<exists>b. flush_ticks ts cur a = Ret b) = list_all (\<lambda>(env, nxt, fails, now). nxt > 0) ts"
proof (induction ts arbitrary: cur a)
  case (Cons t ts)
  obtain env nxt fails now where "t = (env, nxt, fails, now)" by (cases t)
  then show ?case using Cons by (cases "nxt > 0") (simp_all add: follow_knob_cases)
qed simp

lemma ghost_run_returns:
  "(\<exists>s'. GhostSweeper_Run kdel fdel fiter awaitErr knob ts s = Ret s') =
     (awaitErr \<noteq> None \<or> knob > 0 \<and> list_all (\<lambda>(env, now, nxt). nxt > 0) ts)"
  using sweep_ticks_returns[of knob kdel fdel fiter ts s]
  by (auto simp: GhostSweeper_Run_def NewTicker_def split: option.splits)

lemma wal_loop_returns:
  "(\<exists>r. walFlushLoop knob ts fin a = Ret r) = (knob > 0 \<and> list_all (\<lambda>(env, nxt, fails, now). nxt > 0) ts)"
  using flush_ticks_returns[of knob ts a]
  by (cases "flush_ticks ts knob a"; cases fin) (auto simp: walFlushLoop_def NewTicker_def)

section \<open>The instruments tell what the log tells\<close>

abbreviation log_sum :: "(nat \<times> nat \<times> nat \<Rightarrow> nat) \<Rightarrow> ('m, 'f) sweeper \<Rightarrow> nat" where
  "log_sum f s \<equiv> sum_list (map f (ghLog s))"

definition sweeper_ok :: "('m, 'f) sweeper \<Rightarrow> bool" where
  "sweeper_ok s \<longleftrightarrow> (case ghMx s of None \<Rightarrow> False | Some m \<Rightarrow>
     vec_at (gcEvictions m) reasonTTL = log_sum fst s \<and> vec_at (gcEvictions m) reasonGhostResidualFlow = log_sum (fst \<circ> snd) s \<and>
     settledFlows m = log_sum (snd \<circ> snd) s)"

lemma sweeper_ok_cong: "ghMx s' = ghMx s \<Longrightarrow> ghLog s' = ghLog s \<Longrightarrow> sweeper_ok s' = sweeper_ok s"
  by (cases "ghMx s") (simp_all add: sweeper_ok_def)

lemma quiet_sweep:
  assumes "sweep kdel fdel fiter now w = (w', 0, residual, settled, active)"
  shows "residual = 0 \<and> settled = 0"
  using assms by (auto simp: sweep_def evictResidualFlows_def settleSwept_def split: prod.splits)

lemma report_ok:
  assumes "sweeper_ok s" and "evicted = 0 \<Longrightarrow> residual = 0 \<and> settled = 0"
  shows "sweeper_ok (report evicted residual settled active s)"
  using assms
  by (auto simp: sweeper_ok_def report_def SetGhostsActive_def RecordSettledFlows_def RecordResidualFlowEvictions_def RecordTTLEvictions_def
      gc_evict_def on_bundle_def reason_names split: option.splits)

lemma sweep_pass_ok:
  assumes "sweeper_ok s"
  shows "sweeper_ok (sweep_pass kdel fdel fiter now s)"
proof -
  obtain w e r t a where sw: "sweep kdel fdel fiter now (ghWorld s) = (w, e, r, t, a)" by (metis prod_cases5)
  have "sweeper_ok (refreshMacGauge (s\<lparr>ghWorld := w\<rparr>))" using assms by (subst sweeper_ok_cong[of _ s]) (simp_all add: refreshMacGauge_def)
  moreover have "r = 0 \<and> t = 0" if "e = 0"
    by (rule quiet_sweep) (rule sw[unfolded that])
  ultimately have "sweeper_ok (report e r t a (refreshMacGauge (s\<lparr>ghWorld := w\<rparr>)))" by (rule report_ok)
  then show ?thesis by (simp add: sweep_pass_def sw)
qed

text \<open>The fill gauge of the address map follows the metadata it mirrors.\<close>

definition gauge_fresh :: "('m, 'f) sweeper \<Rightarrow> bool" where
  "gauge_fresh s \<longleftrightarrow> (case ghGauge s of None \<Rightarrow> False | Some b \<Rightarrow>
     mget (currentEntries b) MapMacTenant = Some (ShardedMetadataMap_Len (swMeta (ghWorld s))))"

lemma sweep_pass_gauge:
  assumes "ghGauge s \<noteq> None"
  shows "gauge_fresh (sweep_pass kdel fdel fiter now s)"
  using assms by (auto simp: gauge_fresh_def sweep_pass_def refreshMacGauge_def report_def SetCurrent_def on_bundle_def split: prod.splits)

lemma sweep_ticks_keep:
  assumes "sweep_ticks kdel fdel fiter ts cur s = Ret s'" and "sweeper_ok s" and "ghGauge s \<noteq> None"
  shows "sweeper_ok s' \<and> (ts \<noteq> [] \<or> gauge_fresh s \<longrightarrow> gauge_fresh s')"
  using assms
proof (induction ts arbitrary: cur s)
  case (Cons t ts)
  obtain env now nxt where t: "t = (env, now, nxt)" by (cases t)
  let ?s = "sweep_pass kdel fdel fiter now (s\<lparr>ghWorld := env (ghWorld s)\<rparr>)"
  obtain c where c: "sweep_ticks kdel fdel fiter ts c ?s = Ret s'"
    using Cons.prems(1) t by (auto simp: Let_def split: outcome.splits)
  have "sweeper_ok ?s" by (rule sweep_pass_ok, subst sweeper_ok_cong[of _ s]) (use Cons.prems(2) in simp_all)
  moreover have g: "gauge_fresh ?s" by (rule sweep_pass_gauge) (use Cons.prems(3) in simp)
  moreover from g have "ghGauge ?s \<noteq> None" by (auto simp: gauge_fresh_def split: option.splits)
  ultimately show ?case using Cons.IH[OF c] by blast
qed simp

section \<open>Knobs of a running agent\<close>

text \<open>What a loop reads after the given reloads and requests.\<close>

definition knob_after :: "(tunable_values \<Rightarrow> duration) \<Rightarrow> manager \<Rightarrow> manager_event list \<Rightarrow> duration" where
  "knob_after f m evs =
    (let m' = fold manager_step evs m in case mTun m' of Some v \<Rightarrow> f v | None \<Rightarrow> f (Tunables (mCurrent m')))"

lemma knob_after_checked:
  assumes "in_force m" "Config_Validate (mCurrent m) = None"
  obtains c where "checked c" "knob_after f m evs = f (Tunables c)"
proof -
  have k: "in_force (fold manager_step evs m)" "checked (mCurrent (fold manager_step evs m))"
    using steps_keep[OF assms(1) checked_valid[OF assms(2)]] by simp_all
  then have "knob_after f m evs = f (Tunables (mCurrent (fold manager_step evs m)))"
    by (auto simp: knob_after_def in_force_def Let_def split: option.splits)
  with k(2) show ?thesis by (rule that)
qed

lemma sweep_knob_positive:
  assumes "in_force m" "Config_Validate (mCurrent m) = None"
  shows "knob_after GhostSweepInterval m evs > 0"
proof -
  obtain c where "checked c" "knob_after GhostSweepInterval m evs = GhostSweepInterval (Tunables c)"
    by (rule knob_after_checked[OF assms])
  then show ?thesis using checked_knobs[of c] by (simp add: knobs_ok_def)
qed

section \<open>What the loops do\<close>

text \<open>
  The sweeper never dies of a reload. Boot an agent on a checked configuration; whatever reloads and
  requests come between its ticks, and whatever the other goroutines do, the sweeper's loop returns without a
  panic, its three counters are the sums of what its log lines say, and after a sweep the fill gauge
  shows the number of addresses the metadata holds. It returns at once, and sweeps nothing, when the
  boot aborts.
\<close>

theorem ghost_loop_safe:
  assumes "in_force m" "Config_Validate (mCurrent m) = None" "sweeper_ok s" "ghGauge s \<noteq> None"
    and "ts = map (\<lambda>(env, now, evs). (env, now, knob_after GhostSweepInterval m evs)) evts"
  shows "\<exists>s'. GhostSweeper_Run kdel fdel fiter None (knob_after GhostSweepInterval m []) ts s = Ret s' \<and> sweeper_ok s' \<and>
    (evts \<noteq> [] \<longrightarrow> gauge_fresh s')"
    and "GhostSweeper_Run kdel fdel fiter (Some err) knob ts s = Ret s"
proof -
  have pos: "knob_after GhostSweepInterval m evs > 0" for evs by (rule sweep_knob_positive[OF assms(1,2)])
  have "list_all (\<lambda>(env, now, nxt). nxt > 0) ts" unfolding assms(5) by (auto simp: list_all_iff pos)
  then obtain s' where s': "GhostSweeper_Run kdel fdel fiter None (knob_after GhostSweepInterval m []) ts s = Ret s'"
    using ghost_run_returns pos by blast
  then have "sweep_ticks kdel fdel fiter ts (knob_after GhostSweepInterval m []) s = Ret s'"
    using pos[of "[]"] by (simp add: GhostSweeper_Run_def NewTicker_def)
  from sweep_ticks_keep[OF this assms(3,4)] s' assms(5)
  show "\<exists>s'. GhostSweeper_Run kdel fdel fiter None (knob_after GhostSweepInterval m []) ts s = Ret s' \<and> sweeper_ok s' \<and>
      (evts \<noteq> [] \<longrightarrow> gauge_fresh s')" by auto
qed (simp add: GhostSweeper_Run_def)

text \<open>
  The flush loop ends with a flush of everything. As long as its knob stays positive it returns, whatever
  its periodic flushes ran into, and its last act is a flush of the store as the other goroutines
  left it; the loop itself changes nothing of the agent but the directory.
\<close>

lemma flush_keeps_agent: "snd (flushWAL fails now a) = a\<lparr>agDir := agDir (snd (flushWAL fails now a))\<rparr>"
  by (simp add: flushWAL_def split: prod.splits)

theorem flush_loop_saves_all:
  assumes "knob > 0" and "list_all (\<lambda>(g, nxt, fails, now). nxt > 0) evts"
    and "ts = map (\<lambda>(g, nxt, fails, now). (\<lambda>a. a\<lparr>agState := g (agState a)\<rparr>, nxt, fails, now)) evts"
  shows "\<exists>d. walFlushLoop knob ts (env, fails, now) a =
    Ret (final_flush fails now (env (a\<lparr>agState := fold (\<lambda>(g, _). g) evts (agState a), agDir := d\<rparr>)))"
proof -
  have "\<exists>d. flush_ticks ts knob a = Ret (a\<lparr>agState := fold (\<lambda>(g, _). g) evts (agState a), agDir := d\<rparr>)"
    using assms
  proof (induction evts arbitrary: knob a ts)
    case Nil
    then show ?case by (auto intro!: exI[of _ "agDir a"])
  next
    case (Cons t evts)
    obtain g nxt fl nw where t: "t = (g, nxt, fl, nw)" by (cases t)
    let ?a = "snd (flushWAL fl nw (a\<lparr>agState := g (agState a)\<rparr>))"
    have a: "?a = a\<lparr>agState := g (agState a), agDir := agDir ?a\<rparr>" using flush_keeps_agent[of fl nw "a\<lparr>agState := g (agState a)\<rparr>"] by simp
    obtain d where "flush_ticks (tl ts) nxt ?a = Ret (?a\<lparr>agState := fold (\<lambda>(g, _). g) evts (agState ?a), agDir := d\<rparr>)"
      using Cons.IH[of nxt "tl ts" ?a] Cons.prems t by auto
    moreover have "?a\<lparr>agState := x, agDir := d\<rparr> = a\<lparr>agState := x, agDir := d\<rparr>" "agState ?a = g (agState a)" for x by (subst a; simp)+
    ultimately show ?case using Cons.prems t by (auto simp: follow_knob_cases)
  qed
  then show ?thesis using assms(1) by (auto simp: walFlushLoop_def NewTicker_def)
qed

text \<open>
  A reload can kill it. On an agent that runs with the log, a file that disables the log and sets its
  interval to zero is accepted, and the next tick of the flush loop panics.
\<close>

lemma reload_kills_flush_loop:
  defines "off \<equiv> set_wal False (set_flush 0 Defaults)"
  shows "walFlushLoop (knob_after WALFlushInterval booted []) [(env, knob_after WALFlushInterval booted [Sighup (Inr off)], fails, now)] fin a
    = Panic ''non-positive interval for Ticker.Reset''"
proof -
  have "knob_after WALFlushInterval booted [Sighup (Inr off)] = 0"
    using reload_takes_unchecked_interval(3) by (auto simp: knob_after_def off_def split: option.splits)
  moreover have "knob_after WALFlushInterval booted [] > 0"
    by (simp add: knob_after_def booted_def SetOnReload_def SetTunables_def Manager_New_def Tunables_def Defaults_def walDefaults_def)
  ultimately show ?thesis by (simp add: walFlushLoop_def NewTicker_def follow_knob_cases)
qed

section \<open>Probe and logger\<close>

text \<open>A probe that succeeds leaves the directory as it was, and only a failed removal leaves anything behind.\<close>

lemma mdel_fresh: "\<not> mhas d k \<Longrightarrow> mdel k (mput k v d) = d"
  by (simp add: mdel_def mput_def mhas_def mget_def delete_update_same delete_idem map_of_eq_None_iff)

lemma EnsureDir_clean:
  assumes "\<And>name. probe = Inr name \<Longrightarrow> \<not> mhas d name"
  shows "EnsureDir mkdirErr probe removeErr d = (err, d') \<Longrightarrow> (\<nexists>e. err = Some (RemoveProbe e)) \<Longrightarrow> d' = d"
    and "fst (EnsureDir mkdirErr probe removeErr d) = None \<longleftrightarrow> mkdirErr = None \<and> removeErr = None \<and> \<not> isl probe"
  using assms by (auto simp: EnsureDir_def Let_def mdel_fresh split: option.splits sum.splits)

text \<open>The logger starts on every checked configuration, and the level it reports reads back.\<close>

lemma level_names:
  "ToLower (Level_String LevelDebug) = ''debug''" "ToLower (Level_String LevelInfo) = ''info''"
  "ToLower (Level_String LevelWarn) = ''warn''" "ToLower (Level_String LevelError) = ''error''"
  by code_simp+

lemma parse_level_names:
  "ParseLevel ''debug'' = Some LevelDebug" "ParseLevel ''info'' = Some LevelInfo"
  "ParseLevel ''warn'' = Some LevelWarn" "ParseLevel ''error'' = Some LevelError"
  by code_simp+

lemma Init_succeeds:
  assumes "LoggingConfig_Validate c = None"
  shows "\<exists>h. Init c = Inr h \<and> CurrentLevel h = log_Level c"
  using assms by (auto simp del: Level_String.simps simp: LoggingConfig_Validate_def Init_def CurrentLevel_def parse_level_names level_names split: if_splits)

lemma CurrentLevel_reads_back: "ParseLevel (CurrentLevel h) = Some (hLevel h)"
  by (cases "hLevel h") (simp_all del: Level_String.simps add: CurrentLevel_def parse_level_names level_names)

end
