(* ===== verification/Openrc.thy ===== *)
theory Openrc
  imports Config
begin

text \<open>
  Credentials (\<^verbatim>\<open>internal/osclient\<close>, \<^verbatim>\<open>internal/neutron/credentials.go\<close>): the parser of openrc files, the fields it
  requires, and the choice between a file and inline values. The file's content, or the error of
  opening it, is a parameter; a scan error (an over-long line, a failed read) cuts the lines short.
\<close>

record Credentials =
  AuthURL :: string
  Username :: string
  Password :: string
  ProjectName :: string
  UserDomain :: string
  ProjectDomain :: string
  Region :: string
  Interface :: string

definition defaultDomain :: string where "defaultDomain = ''default''"

abbreviation quote2 :: char where "quote2 \<equiv> CHR 0x22"
abbreviation quote1 :: char where "quote1 \<equiv> CHR 0x27"
abbreviation newline :: char where "newline \<equiv> CHR 0x0A"
abbreviation carriage :: char where "carriage \<equiv> CHR 0x0D"

definition unquote :: "string \<Rightarrow> string" where
  "unquote s =
    (if length s \<ge> 2 \<and> ((hd s = quote2 \<and> last s = quote2) \<or> (hd s = quote1 \<and> last s = quote1))
     then butlast (tl s) else s)"

text \<open>\<^verbatim>\<open>bufio.ScanLines\<close>: lines without their newline and one carriage return; no empty line after the last newline.\<close>

definition drop_cr :: "string \<Rightarrow> string" where
  "drop_cr l = (if l \<noteq> [] \<and> last l = carriage then butlast l else l)"

definition scan_lines :: "string \<Rightarrow> string list" where
  "scan_lines b = (let ls = split_on newline b in map drop_cr (if last ls = [] then butlast ls else ls))"

definition TrimPrefix :: "string \<Rightarrow> string \<Rightarrow> string" where
  "TrimPrefix s p = (if HasPrefix s p then drop (length p) s else s)"

text \<open>One line: skipped, an assignment, or an error.\<close>

datatype openrc_line = Skip | Assign string string | LineError string

definition openrc_line_of :: "string \<Rightarrow> openrc_line" where
  "openrc_line_of text =
    (let line = TrimSpace text in
     if line = [] \<or> HasPrefix line ''#'' then Skip
     else let line = TrimSpace (TrimPrefix line ''export '') in
       if CHR ''='' \<notin> set line then LineError ''no = ''
       else let key = TrimSpace (takeWhile (\<lambda>c. c \<noteq> CHR ''='') line);
                val = unquote (TrimSpace (tl (dropWhile (\<lambda>c. c \<noteq> CHR ''='') line)))
            in if key = [] then LineError ''empty key'' else Assign key val)"

fun openrc_env :: "string list \<Rightarrow> (string, string) gomap \<Rightarrow> string + (string, string) gomap" where
  "openrc_env [] env = Inr env"
| "openrc_env (l # ls) env =
    (case openrc_line_of l of
       Skip \<Rightarrow> openrc_env ls env
     | LineError err \<Rightarrow> Inl err
     | Assign key val \<Rightarrow> openrc_env ls (mput key val env))"

definition env_get :: "(string, string) gomap \<Rightarrow> string \<Rightarrow> string" where
  "env_get env key = (case mget env key of None \<Rightarrow> [] | Some v \<Rightarrow> v)"

definition missing_keys :: "Credentials \<Rightarrow> string list" where
  "missing_keys c =
    (if AuthURL c = [] then [''OS_AUTH_URL''] else []) @ (if Username c = [] then [''OS_USERNAME''] else [])
    @ (if Password c = [] then [''OS_PASSWORD''] else []) @ (if ProjectName c = [] then [''OS_PROJECT_NAME''] else [])"

definition requireFields :: "Credentials \<Rightarrow> string list option" where
  "requireFields c = (if missing_keys c \<noteq> [] then Some (missing_keys c) else None)"

datatype openrc_error = OpenFailed string | BadLine string | ReadFailed string | MissingKeys "string list"

definition openrc_credentials :: "(string, string) gomap \<Rightarrow> Credentials" where
  "openrc_credentials env =
    (let c = \<lparr>AuthURL = env_get env ''OS_AUTH_URL'', Username = env_get env ''OS_USERNAME'', Password = env_get env ''OS_PASSWORD'',
              ProjectName = env_get env ''OS_PROJECT_NAME'', UserDomain = env_get env ''OS_USER_DOMAIN_NAME'',
              ProjectDomain = env_get env ''OS_PROJECT_DOMAIN_NAME'', Region = env_get env ''OS_REGION_NAME'', Interface = env_get env ''OS_INTERFACE''\<rparr>;
         c1 = (if UserDomain c = [] then c\<lparr>UserDomain := defaultDomain\<rparr> else c)
     in if ProjectDomain c1 = [] then c1\<lparr>ProjectDomain := defaultDomain\<rparr> else c1)"

text \<open>The content with the scanner's error, if any.\<close>

definition ParseOpenRC :: "string + string \<times> string option \<Rightarrow> openrc_error + Credentials" where
  "ParseOpenRC file =
    (case file of
       Inl err \<Rightarrow> Inl (OpenFailed err)
     | Inr (content, scanErr) \<Rightarrow>
         (case openrc_env (scan_lines content) [] of
            Inl err \<Rightarrow> Inl (BadLine err)
          | Inr env \<Rightarrow>
              (case scanErr of
                 Some err \<Rightarrow> Inl (ReadFailed err)
               | None \<Rightarrow>
                   let c = openrc_credentials env
                   in case requireFields c of Some ks \<Rightarrow> Inl (MissingKeys ks) | None \<Rightarrow> Inr c)))"

definition FromConfig :: "(string \<Rightarrow> string + string \<times> string option) \<Rightarrow> NeutronConfig \<Rightarrow> openrc_error + Credentials" where
  "FromConfig files c =
    (if neutron_CredentialsFile c \<noteq> [] then ParseOpenRC (files (neutron_CredentialsFile c))
     else Inr \<lparr>AuthURL = neutron_AuthURL c, Username = neutron_Username c, Password = neutron_Password c, ProjectName = neutron_ProjectName c,
               UserDomain = neutron_UserDomain c, ProjectDomain = neutron_ProjectDomain c, Region = neutron_Region c, Interface = neutron_Interface c\<rparr>)"

text \<open>Region and availability of the endpoint, or nothing for an unknown interface.\<close>

definition EndpointOpts :: "Credentials \<Rightarrow> string \<Rightarrow> (string \<times> string) option" where
  "EndpointOpts c fallbackInterface =
    (let iface = (if Interface c = [] then fallbackInterface else Interface c)
     in if iface \<in> set [''internal'', ''public'', ''admin''] then Some (Region c, iface) else None)"

section \<open>Writing a file\<close>

text \<open>The form of an exported assignment with double quotes.\<close>

definition openrc_export :: "string \<Rightarrow> string \<Rightarrow> string" where
  "openrc_export key val = ''export '' @ key @ ''='' @ [quote2] @ val @ [quote2]"

definition openrc_keys :: "Credentials \<Rightarrow> (string \<times> string) list" where
  "openrc_keys c = [(''OS_AUTH_URL'', AuthURL c), (''OS_USERNAME'', Username c), (''OS_PASSWORD'', Password c), (''OS_PROJECT_NAME'', ProjectName c),
     (''OS_USER_DOMAIN_NAME'', UserDomain c), (''OS_PROJECT_DOMAIN_NAME'', ProjectDomain c), (''OS_REGION_NAME'', Region c), (''OS_INTERFACE'', Interface c)]"

definition openrc_print :: "Credentials \<Rightarrow> string" where
  "openrc_print c = concat (map (\<lambda>(k, v). openrc_export k v @ [newline]) (openrc_keys c))"

lemma TrimSpace_id:
  assumes "s \<noteq> []" "\<not> is_space (hd s)" "\<not> is_space (last s)"
  shows "TrimSpace s = s"
proof -
  have 1: "dropWhile is_space s = s" using assms(1,2) by (cases s) auto
  have 2: "dropWhile is_space (rev s) = rev s" using assms(1,3) by (cases "rev s") (auto simp: last_rev hd_rev[symmetric])
  show ?thesis by (simp add: TrimSpace_def 1 2)
qed

lemma unquote_quoted: "unquote (quote2 # v @ [quote2]) = v"
  by (simp add: unquote_def)

lemma quote_not_space [simp]: "\<not> is_space quote2" "\<not> is_space CHR ''e''"
  by (simp_all add: is_space_def)

text \<open>A key of a shell variable.\<close>

definition shell_key :: "string \<Rightarrow> bool" where
  "shell_key k \<longleftrightarrow> k \<noteq> [] \<and> CHR ''='' \<notin> set k \<and> (\<forall>c\<in>set k. \<not> is_space c)"

lemma openrc_line_export:
  assumes "shell_key k"
  shows "openrc_line_of (openrc_export k v) = Assign k v"
proof -
  have k: "k \<noteq> []" "\<not> is_space (hd k)" "\<not> is_space (last k)" "CHR ''='' \<notin> set k" using assms by (auto simp: shell_key_def)
  define q where "q = quote2 # v @ [quote2]"
  have t: "TrimSpace (openrc_export k v) = openrc_export k v" by (rule TrimSpace_id) (simp_all add: openrc_export_def)
  have h: "\<not> HasPrefix (openrc_export k v) ''#''" by (simp add: openrc_export_def HasPrefix_def)
  have p: "TrimPrefix (openrc_export k v) ''export '' = k @ CHR ''='' # q" by (simp add: TrimPrefix_def openrc_export_def HasPrefix_def q_def)
  have t2: "TrimSpace (k @ CHR ''='' # q) = k @ CHR ''='' # q" by (rule TrimSpace_id) (use k in \<open>simp_all add: q_def\<close>)
  have kt: "TrimSpace k = k" by (rule TrimSpace_id[OF k(1-3)])
  have q: "TrimSpace q = q" by (rule TrimSpace_id) (simp_all add: q_def)
  have tw: "takeWhile (\<lambda>c. c \<noteq> CHR ''='') (k @ CHR ''='' # q) = k" "dropWhile (\<lambda>c. c \<noteq> CHR ''='') (k @ CHR ''='' # q) = CHR ''='' # q"
    using k(4) by (induction k) auto
  have u: "unquote q = v" unfolding q_def by (rule unquote_quoted)
  show ?thesis
    unfolding openrc_line_of_def t Let_def p t2 using h k(1) kt q tw u by (simp add: openrc_export_def)
qed

lemma split_lines:
  assumes "\<forall>l\<in>set ls. newline \<notin> set l"
  shows "split_on newline (concat (map (\<lambda>l. l @ [newline]) ls)) = ls @ [[]]"
  using assms by (induction ls) (simp_all add: split_on_append)

lemma scan_lines_printed:
  assumes "\<forall>l\<in>set ls. newline \<notin> set l \<and> drop_cr l = l"
  shows "scan_lines (concat (map (\<lambda>l. l @ [newline]) ls)) = ls"
  using split_lines[of ls] assms by (simp add: scan_lines_def map_idI)

lemma openrc_env_exports:
  assumes "\<forall>kv\<in>set kvs. shell_key (fst kv)"
  shows "openrc_env (map (\<lambda>(k, v). openrc_export k v) kvs) env = Inr (fold (\<lambda>(k, v). mput k v) kvs env)"
  using assms
proof (induction kvs arbitrary: env)
  case (Cons kv kvs)
  obtain k v where "kv = (k, v)" by (cases kv)
  then show ?case using Cons openrc_line_export[of k v] by simp
qed simp

lemma keys_shell: "\<forall>kv\<in>set (openrc_keys c). shell_key (fst kv)"
  by (simp add: openrc_keys_def shell_key_def is_space_def)

section \<open>Properties\<close>

text \<open>
  Credentials survive the file. A file with one exported, double-quoted assignment per field reads back as exactly those
  credentials, whatever the values hold but a line break: hash signs, quotes, equals signs and surrounding blanks
  included; when a required field is empty the parse fails and names exactly the empty ones, and an empty domain reads as the default one.
\<close>

theorem openrc_roundtrip:
  assumes "\<forall>kv\<in>set (openrc_keys c). newline \<notin> set (snd kv)"
  shows "ParseOpenRC (Inr (openrc_print c, None)) =
    (if missing_keys c \<noteq> [] then Inl (MissingKeys (missing_keys c))
     else Inr (c\<lparr>UserDomain := if UserDomain c = [] then defaultDomain else UserDomain c,
                 ProjectDomain := if ProjectDomain c = [] then defaultDomain else ProjectDomain c\<rparr>))"
proof -
  let ?ls = "map (\<lambda>(k, v). openrc_export k v) (openrc_keys c)"
  have nl: "\<forall>l\<in>set ?ls. newline \<notin> set l \<and> drop_cr l = l"
    using assms by (auto simp: openrc_keys_def openrc_export_def drop_cr_def)
  have "openrc_print c = concat (map (\<lambda>l. l @ [newline]) ?ls)" by (simp add: openrc_print_def openrc_keys_def)
  then have "scan_lines (openrc_print c) = ?ls" using scan_lines_printed[OF nl] by simp
  then have env: "openrc_env (scan_lines (openrc_print c)) [] = Inr (fold (\<lambda>(k, v). mput k v) (openrc_keys c) [])"
    using openrc_env_exports[OF keys_shell] by simp
  have cred: "openrc_credentials (fold (\<lambda>(k, v). mput k v) (openrc_keys c) []) =
      c\<lparr>UserDomain := if UserDomain c = [] then defaultDomain else UserDomain c, ProjectDomain := if ProjectDomain c = [] then defaultDomain else ProjectDomain c\<rparr>"
    by (cases c) (simp add: openrc_credentials_def openrc_keys_def env_get_def Let_def mget_Cons)
  show ?thesis unfolding ParseOpenRC_def by (simp add: env cred requireFields_def missing_keys_def)
qed

definition odd_credentials :: Credentials where
  "odd_credentials = \<lparr>AuthURL = ''http://keystone:5000/v3'', Username = ''admin'', Password = '' pa#ss=word '' @ [quote2], ProjectName = ''admin'',
     UserDomain = [], ProjectDomain = ''default'', Region = ''RegionOne'', Interface = ''internal''\<rparr>"

theorem openrc_roundtrip_witness:
  "ParseOpenRC (Inr (openrc_print odd_credentials, None)) = Inr (odd_credentials\<lparr>UserDomain := ''default''\<rparr>)"
  using openrc_roundtrip[of odd_credentials] by (simp add: openrc_keys_def odd_credentials_def missing_keys_def defaultDomain_def)

end
