(* ===== verification/Neutron_Client.thy ===== *)
theory Neutron_Client
  imports Neutron_Sync Openrc
begin

text \<open>
  The OpenStack client (\<^verbatim>\<open>internal/neutron/client.go\<close>, \<^verbatim>\<open>list.go\<close>) and the sync over its life
  (\<^verbatim>\<open>sync.go\<close>). The gophercloud library is a parameter: what authentication and the discovery of
  each service return when a client is opened, and what each list call returns when it is made. The
  records of the library's resources have the fields the code reads. The client the agent keeps is the
  set of services that were discovered, so a sync sees the cloud of its own moment through the services
  of the moment the client was opened.
\<close>

section \<open>What the library returns\<close>

record gc_network =
  GnID :: string
  GnProjectID :: string
  GnTenantID :: string
  GnName :: string
  GnShared :: bool
  GnExternal :: bool

record gc_subnet =
  GsID :: string
  GsNetworkID :: string
  GsProjectID :: string
  GsTenantID :: string
  GsCIDR :: string
  GsGatewayIP :: string
  GsIPVersion :: int

record gc_port =
  GpID :: string
  GpNetworkID :: string
  GpProjectID :: string
  GpTenantID :: string
  GpMACAddress :: string
  GpDeviceOwner :: string
  GpDeviceID :: string
  GpFixedIPs :: "(string \<times> string) list"

record gc_router =
  GrID :: string
  GrProjectID :: string
  GrTenantID :: string
  GrName :: string
  GrGatewayNetworkID :: string
  GrRoutes :: "(string \<times> string) list"

record gc_floating_ip =
  GfID :: string
  GfPortID :: string
  GfFloatingNetworkID :: string

record gc_project =
  GjID :: string
  GjName :: string

record gc_server =
  GvID :: string
  GvName :: string
  GvTenantID :: string

record gc_load_balancer =
  GlID :: string
  GlProjectID :: string
  GlProvider :: string

record gc_amphora =
  GaID :: string
  GaLoadbalancerID :: string
  GaComputeID :: string
  GaLBNetworkIP :: string
  GaStatus :: string

text \<open>A list call drains the pages and then decodes them; either step may fail.\<close>

datatype 'a listing = PagesFail string | ExtractFail string | Listed "'a list"

record cloud =
  ClNetworks :: "gc_network listing"
  ClSubnets :: "gc_subnet listing"
  ClPorts :: "gc_port listing"
  ClRouters :: "gc_router listing"
  ClFloatingIPs :: "gc_floating_ip listing"
  ClProjects :: "gc_project listing"
  ClServers :: "gc_server listing"
  ClLoadBalancers :: "gc_load_balancer listing"
  ClAmphorae :: "gc_amphora listing"

text \<open>The outcome of authentication and of the discovery of the four services: an error, or nothing.\<close>

record discovery =
  DiAuth :: "string option"
  DiNetwork :: "string + string"
  DiIdentity :: "string option"
  DiCompute :: "string option"
  DiLoadBalancer :: "string option"

section \<open>The client\<close>

record client =
  CtNetworkURL :: string
  CtCompute :: bool
  CtLoadBalancer :: bool

datatype client_error = InvalidInterface | AuthFailed string | EndpointDiscovery string | IdentityDiscovery string

definition defaultInterface :: string where "defaultInterface = ''internal''"

definition NewClient :: "discovery \<Rightarrow> Credentials \<Rightarrow> client_error + client" where
  "NewClient d creds =
    (case EndpointOpts creds defaultInterface of
       None \<Rightarrow> Inl InvalidInterface
     | Some eo \<Rightarrow>
         (case DiAuth d of
            Some err \<Rightarrow> Inl (AuthFailed err)
          | None \<Rightarrow>
              (case DiNetwork d of
                 Inl err \<Rightarrow> Inl (EndpointDiscovery err)
               | Inr url \<Rightarrow>
                   (case DiIdentity d of
                      Some err \<Rightarrow> Inl (IdentityDiscovery err)
                    | None \<Rightarrow> Inr \<lparr>CtNetworkURL = url, CtCompute = (DiCompute d = None), CtLoadBalancer = (DiLoadBalancer d = None)\<rparr>))))"

definition EndpointURL :: "client option \<Rightarrow> string" where
  "EndpointURL c = (case c of None \<Rightarrow> [] | Some c \<Rightarrow> CtNetworkURL c)"

definition preferProjectID :: "string \<Rightarrow> string \<Rightarrow> string" where
  "preferProjectID projectID tenantID = (if projectID \<noteq> [] then projectID else tenantID)"

definition list_with :: "string \<Rightarrow> string \<Rightarrow> ('a \<Rightarrow> 'b) \<Rightarrow> 'a listing \<Rightarrow> string + 'b list" where
  "list_with service what f l =
    (case l of
       PagesFail err \<Rightarrow> Inl (service @ '': list '' @ what @ '': '' @ err)
     | ExtractFail err \<Rightarrow> Inl (service @ '': extract '' @ what @ '': '' @ err)
     | Listed gcs \<Rightarrow> Inr (map f gcs))"

definition Client_ListNetworks :: "cloud \<Rightarrow> string + network list" where
  "Client_ListNetworks cl = list_with ''neutron'' ''networks''
     (\<lambda>n. \<lparr>NetID = GnID n, NetProjectID = preferProjectID (GnProjectID n) (GnTenantID n), NetName = GnName n,
           Shared = GnShared n, IsExternal = GnExternal n\<rparr>) (ClNetworks cl)"

definition Client_ListSubnets :: "cloud \<Rightarrow> string + subnet list" where
  "Client_ListSubnets cl = list_with ''neutron'' ''subnets''
     (\<lambda>s. \<lparr>SubID = GsID s, SubNetworkID = GsNetworkID s, SubProjectID = preferProjectID (GsProjectID s) (GsTenantID s),
           CIDR = GsCIDR s, GatewayIP = GsGatewayIP s, IPVersion = GsIPVersion s\<rparr>) (ClSubnets cl)"

definition Client_ListPorts :: "cloud \<Rightarrow> string + port list" where
  "Client_ListPorts cl = list_with ''neutron'' ''ports''
     (\<lambda>p. \<lparr>PortUUID = GpID p, PortNetworkID = GpNetworkID p, PortProjectID = preferProjectID (GpProjectID p) (GpTenantID p),
           MACAddress = GpMACAddress p, DeviceOwner = GpDeviceOwner p, DeviceID = GpDeviceID p,
           FixedIPs = map (\<lambda>(sid, ip). \<lparr>FixSubnetID = sid, IPAddress = ip\<rparr>) (GpFixedIPs p)\<rparr>) (ClPorts cl)"

definition Client_ListRouters :: "cloud \<Rightarrow> string + router list" where
  "Client_ListRouters cl = list_with ''neutron'' ''routers''
     (\<lambda>r. \<lparr>RtrID = GrID r, RtrProjectID = preferProjectID (GrProjectID r) (GrTenantID r), RtrName = GrName r,
           ExternalNetworkID = GrGatewayNetworkID r, Routes = map (\<lambda>(dst, nh). \<lparr>Destination = dst, Nexthop = nh\<rparr>) (GrRoutes r)\<rparr>) (ClRouters cl)"

definition Client_ListFloatingIPs :: "cloud \<Rightarrow> string + floating_ip list" where
  "Client_ListFloatingIPs cl = list_with ''neutron'' ''floatingips''
     (\<lambda>f. \<lparr>FipID = GfID f, FipPortID = GfPortID f, FloatingNetworkID = GfFloatingNetworkID f\<rparr>) (ClFloatingIPs cl)"

definition Client_ListProjects :: "cloud \<Rightarrow> string + project list" where
  "Client_ListProjects cl = list_with ''keystone'' ''projects'' (\<lambda>p. \<lparr>ProjID = GjID p, ProjName = GjName p\<rparr>) (ClProjects cl)"

text \<open>The three lists of the services that may be missing.\<close>

definition Client_ListServers :: "client \<Rightarrow> cloud \<Rightarrow> string + nova_server list" where
  "Client_ListServers c cl =
    (if \<not> CtCompute c then Inr []
     else list_with ''nova'' ''servers'' (\<lambda>s. \<lparr>SrvID = GvID s, SrvName = GvName s, SrvProjectID = GvTenantID s\<rparr>) (ClServers cl))"

definition Client_ListLoadBalancers :: "client \<Rightarrow> cloud \<Rightarrow> string + load_balancer list" where
  "Client_ListLoadBalancers c cl =
    (if \<not> CtLoadBalancer c then Inr []
     else list_with ''octavia'' ''loadbalancers'' (\<lambda>lb. \<lparr>LbID = GlID lb, LbProjectID = GlProjectID lb, Provider = GlProvider lb\<rparr>) (ClLoadBalancers cl))"

definition Client_ListAmphorae :: "client \<Rightarrow> cloud \<Rightarrow> string + amphora list" where
  "Client_ListAmphorae c cl =
    (if \<not> CtLoadBalancer c then Inr []
     else list_with ''octavia'' ''amphorae''
       (\<lambda>a. \<lparr>AmpID = GaID a, LoadBalancerID = GaLoadbalancerID a, ComputeID = GaComputeID a, LBNetworkIP = GaLBNetworkIP a, Status = GaStatus a\<rparr>)
       (ClAmphorae cl))"

definition os_client_of :: "client \<Rightarrow> cloud \<Rightarrow> os_client" where
  "os_client_of c cl =
    \<lparr>ListNetworks = Client_ListNetworks cl, ListSubnets = Client_ListSubnets cl, ListPorts = Client_ListPorts cl,
     ListRouters = Client_ListRouters cl, ListFloatingIPs = Client_ListFloatingIPs cl, ListProjects = Client_ListProjects cl,
     ListServers = Client_ListServers c cl, ListLoadBalancers = Client_ListLoadBalancers c cl, ListAmphorae = Client_ListAmphorae c cl\<rparr>"

section \<open>Syncs with one client\<close>

datatype sync_error = KeystoneAuth client_error | ListFailed string

definition Sync_live :: "discovery \<Rightarrow> cloud \<Rightarrow> Credentials \<Rightarrow> int \<Rightarrow> client option \<times> neutron \<Rightarrow>
    (client option \<times> neutron) \<times> (sync_error + sync_result)" where
  "Sync_live d cl creds maxHops cn =
    (case cn of (cli, n) \<Rightarrow>
       (case (case cli of Some c \<Rightarrow> Inr c | None \<Rightarrow> NewClient d creds) of
          Inl err \<Rightarrow> ((cli, record_err ''keystone'' n), Inl (KeystoneAuth err))
        | Inr c \<Rightarrow>
            (case fetchAll (os_client_of c cl) n of
               (n', Inl err) \<Rightarrow> ((Some c, n'), Inl (ListFailed err))
             | (n', Inr snap) \<Rightarrow> ((Some c, n'), Inr (resultFor maxHops snap)))))"

text \<open>A run of syncs: what the cloud and its catalog are at each of them, and the results.\<close>

fun sync_run :: "Credentials \<Rightarrow> int \<Rightarrow> (discovery \<times> cloud) list \<Rightarrow> client option \<times> neutron \<Rightarrow> (sync_error + sync_result) list" where
  "sync_run creds maxHops [] cn = []"
| "sync_run creds maxHops ((d, cl) # rest) cn =
    (case Sync_live d cl creds maxHops cn of (cn', r) \<Rightarrow> r # sync_run creds maxHops rest cn')"

section \<open>The live sync is the sync\<close>

text \<open>With a client open, a live sync is the sync over the lists that client returns at that moment.\<close>

lemma Sync_live_Sync:
  "(case Sync_live d cl creds h (Some c, n) of ((c', n'), r) \<Rightarrow>
      c' = Some c \<and> Sync auth h (n\<lparr>nClient := Some (os_client_of c cl)\<rparr>) =
        (n'\<lparr>nClient := Some (os_client_of c cl)\<rparr>,
         case r of Inl (ListFailed err) \<Rightarrow> Inl err | Inl (KeystoneAuth _) \<Rightarrow> Inl [] | Inr res \<Rightarrow> Inr res))"
proof -
  let ?c = "os_client_of c cl" and ?n = "n\<lparr>nClient := Some (os_client_of c cl)\<rparr>"
  show ?thesis
  proof (cases "first_failure ?c")
    case (Some f)
    obtain endpoint err where f: "f = (endpoint, err)" by (cases f)
    have "fetchAll ?c m = (record_err endpoint m, Inl err)" for m by (rule fetchAll_fails) (simp add: Some f)
    then show ?thesis by (simp add: Sync_live_def Sync_def record_err_def)
  next
    case None
    from fetchAll_none[OF None] obtain nets subs ps rs fips prjs where
      L: "ListNetworks ?c = Inr nets" "ListSubnets ?c = Inr subs" "ListPorts ?c = Inr ps" "ListRouters ?c = Inr rs"
         "ListFloatingIPs ?c = Inr fips" "ListProjects ?c = Inr prjs" by blast
    show ?thesis by (simp add: Sync_live_def Sync_def fetchAll_ok[OF L])
  qed
qed

section \<open>Missing services\<close>

lemma Sync_live_keeps: "fst (fst (Sync_live d cl creds h (Some c, n))) = Some c"
  by (simp add: Sync_live_def split: prod.split sum.split)

lemma Sync_live_no_octavia:
  assumes "\<not> CtLoadBalancer c" and "snd (Sync_live d cl creds h (Some c, n)) = Inr res"
  shows "LoadBalancers (SrSnapshot res) = [] \<and> Amphorae (SrSnapshot res) = []"
proof (cases "first_failure (os_client_of c cl)")
  case (Some f)
  obtain endpoint err where f: "f = (endpoint, err)" by (cases f)
  have "fetchAll (os_client_of c cl) n = (record_err endpoint n, Inl err)" by (rule fetchAll_fails) (simp add: Some f)
  then show ?thesis using assms by (simp add: Sync_live_def)
next
  case None
  from fetchAll_none[OF None] obtain nets subs ps rs fips prjs where
    L: "ListNetworks (os_client_of c cl) = Inr nets" "ListSubnets (os_client_of c cl) = Inr subs" "ListPorts (os_client_of c cl) = Inr ps"
       "ListRouters (os_client_of c cl) = Inr rs" "ListFloatingIPs (os_client_of c cl) = Inr fips" "ListProjects (os_client_of c cl) = Inr prjs" by blast
  have "SrSnapshot (resultFor h snap) = snap" for snap by (simp add: resultFor_def split: prod.split)
  moreover have "ListLoadBalancers (os_client_of c cl) = Inr []" "ListAmphorae (os_client_of c cl) = Inr []"
    using assms(1) by (simp_all add: os_client_of_def Client_ListLoadBalancers_def Client_ListAmphorae_def)
  ultimately show ?thesis using assms(2) by (auto simp: Sync_live_def fetchAll_ok[OF L] opt_list_def)
qed

lemma no_owners_no_data_ports: "LoadBalancers snap = [] \<Longrightarrow> AmphoraOwnerByPort snap = []"
  by (simp add: AmphoraOwnerByPort_def amphoraLBOwners_def amphoraBindings_def amphoraDataPorts_def put_where_def)

text \<open>
  A client opened while the catalog had no Octavia endpoint is kept, and none of its later syncs
  re-attributes a port, whatever the catalog carries by then: only a new process discovers the service.
\<close>

lemma octavia_absence_is_permanent:
  assumes "\<not> CtLoadBalancer c" and "Inr res \<in> set (sync_run creds h evs (Some c, n))"
  shows "AmphoraOwnerByPort (SrSnapshot res) = []"
  using assms(2)
proof (induction evs arbitrary: n)
  case (Cons ev evs)
  obtain d cl where ev: "ev = (d, cl)" by (cases ev)
  obtain c' n' r where S: "Sync_live d cl creds h (Some c, n) = ((c', n'), r)" by (metis surj_pair)
  have "c' = Some c" using Sync_live_keeps[of d cl creds h c n] S by simp
  then show ?case using Cons.prems Cons.IH[of n'] Sync_live_no_octavia[OF assms(1), of d cl creds h n res] S no_owners_no_data_ports
    by (auto simp: ev)
qed simp

end
