(* ===== verification/Shutdown.thy ===== *)
theory Shutdown
  imports Bootstrap
begin

text \<open>
  The long-lived goroutines of \<^verbatim>\<open>Agent.Run\<close> and their drain (\<^verbatim>\<open>internal/agent/worker.go\<close>, \<^verbatim>\<open>run.go\<close>). Every
  worker runs on its own context; the shutdown cancels and awaits them one row at a time, each await
  bounded by a timer. The workers and the draining goroutine interleave, so the drain is a step relation
  over the rows. A worker may return at any time; after its context is cancelled it is stopping.
\<close>

section \<open>The worker table\<close>

record worker =
  wName :: string
  wEnabled :: bool

definition workers :: "bootstrapper \<Rightarrow> worker list" where
  "workers b =
    [\<lparr>wName = ''netlink subscriber'', wEnabled = bSubscriber b\<rparr>,
     \<lparr>wName = ''ghost sweeper'', wEnabled = bSweeper b\<rparr>,
     \<lparr>wName = ''kafka consumer'', wEnabled = bKafka b\<rparr>,
     \<lparr>wName = ''reconciler'', wEnabled = bReconciler b\<rparr>,
     \<lparr>wName = ''scraper'', wEnabled = True\<rparr>,
     \<lparr>wName = ''wal'', wEnabled = WALEnabled (bCfg b)\<rparr>]"

text \<open>A disabled row has a closed done channel and a cancel that does nothing.\<close>

datatype run_state = Disabled | Running | Stopping | Exited

fun is_done :: "run_state \<Rightarrow> bool" where
  "is_done Disabled = True" | "is_done Running = False" | "is_done Stopping = False" | "is_done Exited = True"

definition startWorkers :: "worker list \<Rightarrow> run_state list" where
  "startWorkers ws = map (\<lambda>w. if wEnabled w then Running else Disabled) ws"

fun cancel_row :: "run_state \<Rightarrow> run_state" where
  "cancel_row Disabled = Disabled" | "cancel_row Running = Stopping" | "cancel_row Stopping = Stopping" | "cancel_row Exited = Exited"

section \<open>The drain\<close>

text \<open>
  The state of the drain: the row it is at, whether that row is cancelled and awaited, the rows whose
  await ran into the timer, and how each worker stands. Before the shutdown starts the drain is at no row.
\<close>

record drain =
  dRows :: "run_state list"
  dAt :: nat
  dAwaiting :: bool
  dTimedOut :: "nat set"

definition drain_start :: "worker list \<Rightarrow> drain" where
  "drain_start ws = \<lparr>dRows = startWorkers ws, dAt = 0, dAwaiting = False, dTimedOut = {}\<rparr>"

inductive drain_step :: "drain \<Rightarrow> drain \<Rightarrow> bool" where
  returns: "i < length (dRows d) \<Longrightarrow> dRows d ! i = Running \<or> dRows d ! i = Stopping \<Longrightarrow>
    drain_step d (d\<lparr>dRows := (dRows d)[i := Exited]\<rparr>)"
| cancel: "\<not> dAwaiting d \<Longrightarrow> dAt d < length (dRows d) \<Longrightarrow>
    drain_step d (d\<lparr>dRows := (dRows d)[dAt d := cancel_row (dRows d ! dAt d)], dAwaiting := True\<rparr>)"
| awaited: "dAwaiting d \<Longrightarrow> dAt d < length (dRows d) \<Longrightarrow> is_done (dRows d ! dAt d) \<Longrightarrow>
    drain_step d (d\<lparr>dAt := dAt d + 1, dAwaiting := False\<rparr>)"
| timeout: "dAwaiting d \<Longrightarrow> dAt d < length (dRows d) \<Longrightarrow>
    drain_step d (d\<lparr>dAt := dAt d + 1, dAwaiting := False, dTimedOut := insert (dAt d) (dTimedOut d)\<rparr>)"

inductive_cases drain_stepE [elim]: "drain_step d d'"

inductive drain_reachable :: "worker list \<Rightarrow> drain \<Rightarrow> bool" for ws where
  start: "drain_reachable ws (drain_start ws)"
| step: "drain_reachable ws d \<Longrightarrow> drain_step d d' \<Longrightarrow> drain_reachable ws d'"

definition drain_finished :: "drain \<Rightarrow> bool" where
  "drain_finished d \<longleftrightarrow> dAt d = length (dRows d)"

section \<open>Order\<close>

definition drain_ok :: "worker list \<Rightarrow> drain \<Rightarrow> bool" where
  "drain_ok ws d \<longleftrightarrow> length (dRows d) = length ws \<and> dAt d \<le> length ws \<and> (dAwaiting d \<longrightarrow> dAt d < length ws) \<and>
    (\<forall>i < length ws. (dRows d ! i = Disabled \<longleftrightarrow> \<not> wEnabled (ws ! i)) \<and>
       (dRows d ! i = Stopping \<longrightarrow> i < dAt d \<or> i = dAt d \<and> dAwaiting d) \<and>
       (i < dAt d \<and> i \<notin> dTimedOut d \<longrightarrow> is_done (dRows d ! i)) \<and>
       (i < dAt d \<or> i = dAt d \<and> dAwaiting d \<longrightarrow> dRows d ! i \<noteq> Running))"

lemma drain_ok_start: "drain_ok ws (drain_start ws)"
  by (auto simp: drain_ok_def drain_start_def startWorkers_def)

lemma drain_step_ok:
  assumes "drain_step d d'" "drain_ok ws d"
  shows "drain_ok ws d'"
  using assms(1)
proof cases
  case (returns i)
  have "\<forall>j < length ws. (dRows d)[i := Exited] ! j = (if j = i then Exited else dRows d ! j)" using returns assms(2) by (simp add: drain_ok_def nth_list_update)
  then show ?thesis using returns assms(2) unfolding drain_ok_def by auto
next
  case cancel
  have "\<forall>j < length ws. (dRows d)[dAt d := cancel_row (dRows d ! dAt d)] ! j = (if j = dAt d then cancel_row (dRows d ! dAt d) else dRows d ! j)"
    using cancel assms(2) by (simp add: drain_ok_def nth_list_update)
  then show ?thesis using cancel assms(2) unfolding drain_ok_def
    by (cases "dRows d ! dAt d") auto
next
  case awaited
  then show ?thesis using assms(2) unfolding drain_ok_def by (auto simp: less_Suc_eq)
next
  case timeout
  then show ?thesis using assms(2) unfolding drain_ok_def by (auto simp: less_Suc_eq)
qed

lemma drain_reachable_ok: "drain_reachable ws d \<Longrightarrow> drain_ok ws d"
proof (induction rule: drain_reachable.induct)
  case start
  show ?case by (rule drain_ok_start)
next
  case (step d d')
  then show ?case by (blast intro: drain_step_ok)
qed

text \<open>The steps of the drain itself, and a bound on how many of them are left.\<close>

definition drain_moves :: "drain \<Rightarrow> drain \<Rightarrow> bool" where
  "drain_moves d d' \<longleftrightarrow> drain_step d d' \<and> (dAt d', dAwaiting d') \<noteq> (dAt d, dAwaiting d)"

definition drain_left :: "drain \<Rightarrow> nat" where
  "drain_left d = 2 * (length (dRows d) - dAt d) - (if dAwaiting d then 1 else 0)"

lemma drain_progress: "drain_ok ws d \<Longrightarrow> \<not> drain_finished d \<Longrightarrow> \<exists>d'. drain_moves d d'"
proof -
  assume ok: "drain_ok ws d" and nf: "\<not> drain_finished d"
  then have lt: "dAt d < length (dRows d)" by (auto simp: drain_ok_def drain_finished_def)
  show ?thesis
  proof (cases "dAwaiting d")
    case True
    from drain_step.timeout[OF True lt] show ?thesis using True by (auto simp: drain_moves_def)
  next
    case False
    from drain_step.cancel[OF False lt] show ?thesis using False by (auto simp: drain_moves_def)
  qed
qed

lemma drain_bounded: "drain_step d d' \<Longrightarrow> drain_left d' + (if drain_moves d d' then 1 else 0) \<le> drain_left d"
  by (erule drain_step.cases) (auto simp: drain_left_def drain_moves_def intro: drain_step.intros)

text \<open>
  C31. Shutdown drains in order. In every interleaving of the workers with the drain: a worker is told to
  stop only after every worker before it has returned or run into its timer; without a timeout of the
  scraper, the WAL worker is not stopping before the scraper has returned, so the final flush sees the
  final tick, and likewise the reconciler and the Kafka consumer that kicks it; and the drain never gets
  stuck and ends after two of its own steps per row, when every row that did not time out has returned.
\<close>

theorem drain_in_order:
  assumes "drain_reachable (workers b) d"
  shows "(\<forall>i j. i < j \<and> j < 6 \<and> dRows d ! j = Stopping \<and> i \<notin> dTimedOut d \<longrightarrow> is_done (dRows d ! i)) \<and>
    (dRows d ! 5 = Stopping \<and> 4 \<notin> dTimedOut d \<longrightarrow> dRows d ! 4 = Exited) \<and>
    (dRows d ! 3 = Stopping \<and> 2 \<notin> dTimedOut d \<longrightarrow> dRows d ! 2 = (if bKafka b then Exited else Disabled)) \<and>
    (\<not> drain_finished d \<longrightarrow> (\<exists>d'. drain_moves d d')) \<and>
    (\<forall>d'. drain_step d d' \<longrightarrow> drain_left d' + (if drain_moves d d' then 1 else 0) \<le> drain_left d) \<and> drain_left d \<le> 12 \<and>
    (drain_finished d \<longrightarrow> (\<forall>i < 6. i \<notin> dTimedOut d \<longrightarrow> is_done (dRows d ! i)))"
proof -
  have ok: "drain_ok (workers b) d" by (rule drain_reachable_ok[OF assms])
  have len: "length (workers b) = 6" "length (dRows d) = 6" using ok by (simp_all add: drain_ok_def workers_def)
  have rows: "(dRows d ! i = Disabled \<longleftrightarrow> \<not> wEnabled (workers b ! i)) \<and> (dRows d ! i = Stopping \<longrightarrow> i < dAt d \<or> i = dAt d \<and> dAwaiting d) \<and>
      (i < dAt d \<and> i \<notin> dTimedOut d \<longrightarrow> is_done (dRows d ! i))" if "i < 6" for i
    using ok that len(1) by (simp add: drain_ok_def)
  have order: "is_done (dRows d ! i)" if "i < j" "j < 6" "dRows d ! j = Stopping" "i \<notin> dTimedOut d" for i j
    using rows[of j] rows[of i] that by auto
  have ret: "dRows d ! i = (if wEnabled (workers b ! i) then Exited else Disabled)" if "is_done (dRows d ! i)" "i < 6" for i
    using rows[OF that(2)] that(1) by (cases "dRows d ! i") auto
  have "dRows d ! 4 = Exited" if "dRows d ! 5 = Stopping" "4 \<notin> dTimedOut d"
    using ret[of 4] order[of 4 5] that by (simp add: workers_def)
  moreover have "dRows d ! 2 = (if bKafka b then Exited else Disabled)" if "dRows d ! 3 = Stopping" "2 \<notin> dTimedOut d"
    using ret[of 2] order[of 2 3] that by (simp add: workers_def)
  moreover have "is_done (dRows d ! i)" if "drain_finished d" "i < 6" "i \<notin> dTimedOut d" for i
    using rows[OF that(2)] that len(2) by (simp add: drain_finished_def)
  moreover have "drain_left d \<le> 12" using len(2) by (simp add: drain_left_def)
  ultimately show ?thesis using order drain_progress[OF ok] drain_bounded by blast
qed

theorem drain_in_order_witness:
  "\<exists>d'. drain_moves (drain_start (workers boot_start)) d'"
proof -
  have "\<not> drain_finished (drain_start (workers boot_start))" by (simp add: drain_finished_def drain_start_def startWorkers_def workers_def)
  then show ?thesis using drain_in_order[OF drain_reachable.start, of boot_start] by blast
qed

end
