(* ===== verification/Debug_Pages.thy ===== *)
theory Debug_Pages
  imports Neutron_Sync Kernel_Writer Global_State Config
begin

text \<open>
  The operator pages that answer questions about one address or list what the agent holds
  (\<^verbatim>\<open>internal/debug\<close>: \<^verbatim>\<open>debug.go\<close>, \<^verbatim>\<open>schema.go\<close>, \<^verbatim>\<open>lookup.go\<close>, \<^verbatim>\<open>flows.go\<close>,
  \<^verbatim>\<open>zones.go\<close>, \<^verbatim>\<open>anomalies.go\<close>, \<^verbatim>\<open>index.go\<close>). A page builds its view model
  from the accessors of the server and writes it; the models are the records below, field by field, and a
  response is the status with either the error text or the model. The encoding of a model as JSON or HTML
  is not part of it.

  The accessors are read-only views of the agent. The options hold for each accessor what a call returns
  during the request, or nothing when the accessor is nil. \<^verbatim>\<open>sort.Slice\<close> promises an ordered
  permutation and no order among equal elements, so the pages that sort with ties take the sort as an
  argument with that contract.
\<close>

section \<open>Sorting\<close>

text \<open>The contract of \<^verbatim>\<open>sort.Slice\<close> for one comparison.\<close>

locale sort_slice =
  fixes lt :: "'a \<Rightarrow> 'a \<Rightarrow> bool" and srt :: "'a list \<Rightarrow> 'a list"
  assumes perm: "mset (srt xs) = mset xs"
    and ordered: "sorted_wrt (\<lambda>a b. \<not> lt b a) (srt xs)"
begin

lemma set_srt: "set (srt xs) = set xs"
  by (metis perm set_mset_mset)

lemma length_srt: "length (srt xs) = length xs"
  by (metis perm size_mset)

lemma srt_Nil [simp]: "srt xs = [] \<longleftrightarrow> xs = []"
  by (metis length_0_conv length_srt)

lemma no_inversion:
  assumes "i < j" "j < length xs"
  shows "\<not> lt (srt xs ! j) (srt xs ! i)"
  using ordered[of xs] assms by (simp add: sorted_wrt_iff_nth_less length_srt)

end

text \<open>The insertion sort the library uses on short slices; the argument is the reversed sorted prefix.\<close>

fun sink :: "('a \<Rightarrow> 'a \<Rightarrow> bool) \<Rightarrow> 'a \<Rightarrow> 'a list \<Rightarrow> 'a list" where
  "sink lt x [] = [x]"
| "sink lt x (y # ys) = (if lt x y then y # sink lt x ys else x # y # ys)"

definition insertionSort :: "('a \<Rightarrow> 'a \<Rightarrow> bool) \<Rightarrow> 'a list \<Rightarrow> 'a list" where
  "insertionSort lt xs = rev (fold (sink lt) xs [])"

section \<open>The server and its accessors\<close>

record debug_options =
  DoSnapshot :: "snapshot option option"
  DoTrie :: "trie_entry list option"
  DoAnomalies :: "anomalies_report option option"
  DoLastSync :: "gotime option"
  DoMACLookup :: "(u64 \<Rightarrow> tenant_meta option) option"
  DoFlows :: "entry list option"
  DoStaleAfter :: "duration option"

record debug_server =
  SvSnapshot :: "snapshot option"
  SvTrie :: "trie_entry list"
  SvAnomalies :: "anomalies_report option"
  SvLastSync :: gotime
  SvMACLookup :: "u64 \<Rightarrow> tenant_meta option"
  SvFlows :: "entry list option"
  SvStaleAfter :: "duration option"

definition or_else :: "'a \<Rightarrow> 'a option \<Rightarrow> 'a" where
  "or_else d opt = (case opt of None \<Rightarrow> d | Some x \<Rightarrow> x)"

definition New_debug :: "debug_options \<Rightarrow> debug_server" where
  "New_debug opts =
    \<lparr>SvSnapshot = or_else None (DoSnapshot opts),
     SvTrie = or_else [] (DoTrie opts),
     SvAnomalies = or_else None (DoAnomalies opts),
     SvLastSync = or_else 0 (DoLastSync opts),
     SvMACLookup = or_else (\<lambda>_. None) (DoMACLookup opts),
     SvFlows = DoFlows opts,
     SvStaleAfter = DoStaleAfter opts\<rparr>"

text \<open>A response: the status and either the error text or the model.\<close>

record 'a response =
  RsStatus :: nat
  RsBody :: "string + 'a"

definition StatusOK :: nat where "StatusOK = 200"
definition StatusBadRequest :: nat where "StatusBadRequest = 400"

definition writeLookupJSON :: "nat \<Rightarrow> 'a \<Rightarrow> 'a response" where
  "writeLookupJSON status body = \<lparr>RsStatus = status, RsBody = Inr body\<rparr>"

definition writeLookupError :: "nat \<Rightarrow> string \<Rightarrow> 'a response" where
  "writeLookupError status msg = \<lparr>RsStatus = status, RsBody = Inl msg\<rparr>"

text \<open>
  \<^verbatim>\<open>humanAge\<close>; the floating-point seconds and minutes are truncated, which on these ranges is the integer
  quotient.
\<close>

definition time_Second :: duration where "time_Second = 1000000000"
definition time_Minute :: duration where "time_Minute = 60 * time_Second"
definition time_Hour :: duration where "time_Hour = 60 * time_Minute"

definition Itoa :: "int \<Rightarrow> string" where
  "Itoa i = (if i < 0 then CHR ''-'' # format_uint (nat (- i)) else format_uint (nat i))"

definition humanAge :: "duration \<Rightarrow> string" where
  "humanAge d0 =
    (let d = (if d0 < 0 then 0 else d0)
     in if d < time_Minute then Itoa (d div time_Second) @ ''s''
        else if d < time_Hour then Itoa (d div time_Minute) @ ''m''
        else (let h = d div time_Hour; m = (d mod time_Hour) div time_Minute
              in if m = 0 then Itoa h @ ''h'' else Itoa h @ ''h'' @ Itoa m @ ''m''))"

section \<open>Names\<close>

definition projectName :: "snapshot option \<Rightarrow> string \<Rightarrow> string" where
  "projectName snap pid = (case snap of None \<Rightarrow> [] | Some s \<Rightarrow> ProjectName s pid)"

definition ownersDisplay :: "string list \<Rightarrow> snapshot option \<Rightarrow> string" where
  "ownersDisplay ids snap =
    (if length ids = 0 then []
     else join_with '', ''
            (map (\<lambda>i. let name = projectName snap i in if name \<noteq> [] then name @ '' ('' @ i @ '')'' else i) ids))"

definition tenantDisplay :: "string \<Rightarrow> snapshot option \<Rightarrow> string" where
  "tenantDisplay tid snap =
    (if tid = [] then ''(global)''
     else (let name = projectName snap tid in if name \<noteq> [] then name else tid))"

text \<open>The ellipsis sign in UTF-8.\<close>

definition ellipsis :: string where
  "ellipsis = [CHR 0xE2, CHR 0x80, CHR 0xA6]"

definition tenantLabel :: "string \<Rightarrow> snapshot option \<Rightarrow> string" where
  "tenantLabel tid snap =
    (if tid = [] then ''(global)''
     else (let short = (if length tid > 8 then take 8 tid @ ellipsis else tid); name = projectName snap tid
           in if name = [] then short else name @ '' ('' @ short @ '')''))"

section \<open>The lookup\<close>

record lookup_query =
  LqIP :: string
  LqMAC :: string
  LqTenant :: string

record lookup_trie_row =
  LtTenantID :: string
  LtTenantName :: string
  LtPrefix :: string
  LtZone :: string

record lookup_zone_section =
  LzCode :: string
  LzVia :: string
  LzMatch :: lookup_trie_row

record lookup_subnet =
  LsID :: string
  LsCIDR :: string
  LsGatewayIP :: string

record lookup_network =
  LnID :: string
  LnName :: string
  LnShared :: bool
  LnIsExternal :: bool

record lookup_port =
  LpID :: string
  LpMAC :: string
  LpDeviceOwner :: string
  LpDeviceID :: string

record lookup_tenant =
  LoID :: string
  LoName :: string

record lookup_neutron =
  LuSubnet :: "lookup_subnet option"
  LuNetwork :: "lookup_network option"
  LuPort :: "lookup_port option"
  LuOwner :: "lookup_tenant option"

record lookup_mac_entry =
  LmFound :: bool
  LmTenantID :: string
  LmTenantName :: string
  LmPortID :: string
  LmIsAmphora :: bool

record lookup_result =
  LrQuery :: lookup_query
  LrZone :: "lookup_zone_section option"
  LrNeutron :: "lookup_neutron option"
  LrMAC :: "lookup_mac_entry option"

definition zero_query :: lookup_query where
  "zero_query = \<lparr>LqIP = [], LqMAC = [], LqTenant = []\<rparr>"

definition zero_result :: lookup_result where
  "zero_result = \<lparr>LrQuery = zero_query, LrZone = None, LrNeutron = None, LrMAC = None\<rparr>"

definition neutronSectionFrom :: "snapshot option \<Rightarrow> resource_match \<Rightarrow> lookup_neutron option" where
  "neutronSectionFrom snap m =
    (if RmSubnet m = None \<and> RmNetwork m = None \<and> RmPort m = None then None
     else (let ownerID =
             (case RmPort m of
                Some p \<Rightarrow> if PortProjectID p \<noteq> [] then PortProjectID p
                          else (case RmNetwork m of Some n \<Rightarrow> NetProjectID n | None \<Rightarrow> [])
              | None \<Rightarrow> (case RmNetwork m of Some n \<Rightarrow> NetProjectID n | None \<Rightarrow> []))
           in Some
             \<lparr>LuSubnet = map_option (\<lambda>s. \<lparr>LsID = SubID s, LsCIDR = CIDR s, LsGatewayIP = GatewayIP s\<rparr>) (RmSubnet m),
              LuNetwork = map_option (\<lambda>n. \<lparr>LnID = NetID n, LnName = NetName n, LnShared = Shared n, LnIsExternal = IsExternal n\<rparr>) (RmNetwork m),
              LuPort = map_option (\<lambda>p. \<lparr>LpID = PortUUID p, LpMAC = MACAddress p, LpDeviceOwner = DeviceOwner p, LpDeviceID = DeviceID p\<rparr>) (RmPort m),
              LuOwner = (if ownerID \<noteq> [] then Some \<lparr>LoID = ownerID, LoName = projectName snap ownerID\<rparr> else None)\<rparr>))"

definition fillIPLookup :: "debug_server \<Rightarrow> addr \<Rightarrow> string \<Rightarrow> lookup_result \<Rightarrow> lookup_result" where
  "fillIPLookup s ip tenant result =
    (let snap = SvSnapshot s; entries = SvTrie s;
         zone = (case LookupZone entries ip tenant of
                   None \<Rightarrow> LrZone result
                 | Some (row, via) \<Rightarrow>
                     Some \<lparr>LzCode = ZoneCode_String (Zone row), LzVia = via,
                           LzMatch = \<lparr>LtTenantID = TenantID row, LtTenantName = projectName snap (TenantID row),
                                      LtPrefix = Prefix_String (Prefix row), LtZone = ZoneCode_String (Zone row)\<rparr>\<rparr>)
     in result\<lparr>LrZone := zone, LrNeutron := neutronSectionFrom snap (LookupResource snap ip tenant)\<rparr>)"

text \<open>The copy into the six-byte key: missing bytes are zero, further ones are not copied.\<close>

definition mac_of_bytes :: "u8 list \<Rightarrow> mac" where
  "mac_of_bytes bs = (let b = (\<lambda>i. if i < length bs then bs ! i else 0) in Mac (b 0) (b 1) (b 2) (b 3) (b 4) (b 5))"

definition fillMACLookup :: "debug_server \<Rightarrow> u8 list \<Rightarrow> string \<Rightarrow> lookup_result \<Rightarrow> lookup_result" where
  "fillMACLookup s hw canon result =
    (let snap = SvSnapshot s;
         absent = \<lparr>LmFound = False, LmTenantID = [], LmTenantName = [], LmPortID = [], LmIsAmphora = False\<rparr>;
         entry = (case SvMACLookup s (MACKey (mac_of_bytes hw)) of
                    None \<Rightarrow> absent
                  | Some meta \<Rightarrow> \<lparr>LmFound = True, LmTenantID = ProjectID meta, LmTenantName = projectName snap (ProjectID meta),
                                  LmPortID = PortID meta, LmIsAmphora = IsAmphora meta\<rparr>)
     in result\<lparr>LrNeutron := neutronSectionFrom snap (LookupPortByMAC snap canon), LrMAC := Some entry\<rparr>)"

text \<open>
  The texts of the two parse errors: \<^verbatim>\<open>addr_err\<close> stands for that of \<^verbatim>\<open>netip.ParseAddr\<close>;
  \<^verbatim>\<open>net.ParseMAC\<close> names the address it was given.
\<close>

definition mac_err :: "string \<Rightarrow> string" where
  "mac_err s = ''address '' @ s @ '': invalid MAC address''"

definition runLookup :: "(string \<Rightarrow> string) \<Rightarrow> debug_server \<Rightarrow> string \<Rightarrow> string \<Rightarrow> string \<Rightarrow> lookup_result \<times> string" where
  "runLookup addr_err s ip mac tenant =
    (if ip = [] \<and> mac = [] then (zero_result, [])
     else if ip \<noteq> [] \<and> mac \<noteq> [] then (zero_result, ''specify either ip or mac, not both'')
     else (let result = zero_result\<lparr>LrQuery := \<lparr>LqIP = ip, LqMAC = mac, LqTenant = tenant\<rparr>\<rparr>
           in if ip \<noteq> []
              then (case ParseAddr ip of
                      None \<Rightarrow> (zero_result, ''invalid ip: '' @ addr_err ip)
                    | Some addr \<Rightarrow> (fillIPLookup s addr tenant result, []))
              else (case ParseMAC mac of
                      None \<Rightarrow> (zero_result, ''invalid mac'' @ '': '' @ mac_err mac)
                    | Some hw \<Rightarrow>
                        if length hw \<noteq> 6 then (zero_result, ''invalid mac'')
                        else (let canon = HardwareAddr_String hw
                              in (fillMACLookup s hw canon (result\<lparr>LrQuery := (LrQuery result)\<lparr>LqMAC := canon\<rparr>\<rparr>), [])))))"

text \<open>A query string is the function from a parameter to its first value, empty when absent.\<close>

definition handleLookup :: "(string \<Rightarrow> string) \<Rightarrow> debug_server \<Rightarrow> (string \<Rightarrow> string) \<Rightarrow> lookup_result response" where
  "handleLookup addr_err s q =
    (let ip = TrimSpace (q ''ip''); mac = TrimSpace (q ''mac''); tenant = TrimSpace (q ''tenant'')
     in if ip = [] \<and> mac = [] then writeLookupError StatusBadRequest ''provide ?ip=<addr> or ?mac=<addr>''
        else (case runLookup addr_err s ip mac tenant of (result, errMsg) \<Rightarrow>
                if errMsg \<noteq> [] then writeLookupError StatusBadRequest errMsg
                else writeLookupJSON StatusOK result))"

section \<open>Flows\<close>

record flow_row =
  FrSrcMAC :: string
  FrDstMAC :: string
  FrDirection :: string
  FrZone :: string
  FrBytes :: u64
  FrPackets :: u64

record flows_result =
  FlMAC :: string
  FlTotal :: nat
  FlRows :: "flow_row list"

fun macString :: "mac \<Rightarrow> string" where
  "macString (Mac a b c d e f) = HardwareAddr_String [a, b, c, d, e, f]"

definition flow_row_of :: "entry \<Rightarrow> flow_row" where
  "flow_row_of e =
    \<lparr>FrSrcMAC = macString (SrcMac (EKey e)), FrDstMAC = macString (DstMac (EKey e)),
     FrDirection = Direction_String (Direction (EKey e)), FrZone = ZoneCode_String (DstZone (EKey e)),
     FrBytes = Bytes (ETotal e), FrPackets = Packets (ETotal e)\<rparr>"

definition flow_less :: "flow_row \<Rightarrow> flow_row \<Rightarrow> bool" where
  "flow_less a b \<longleftrightarrow> FrBytes a > FrBytes b"

definition handleFlows :: "(flow_row list \<Rightarrow> flow_row list) \<Rightarrow> debug_server \<Rightarrow> (string \<Rightarrow> string) \<Rightarrow> flows_result response" where
  "handleFlows srt s query =
    (let q = TrimSpace (query ''mac'')
     in if q = [] then writeLookupError StatusBadRequest ''provide ?mac=<addr>''
        else (case ParseMAC q of
                None \<Rightarrow> writeLookupError StatusBadRequest (''malformed mac: '' @ q)
              | Some hw \<Rightarrow>
                  if length hw \<noteq> 6 then writeLookupError StatusBadRequest (''malformed mac: '' @ q)
                  else (let want = MACKey (mac_of_bytes hw);
                            rows = (case SvFlows s of
                                      None \<Rightarrow> []
                                    | Some es \<Rightarrow> map flow_row_of
                                        (filter (\<lambda>e. \<not> (MACKey (SrcMac (EKey e)) \<noteq> want \<and> MACKey (DstMac (EKey e)) \<noteq> want)) es));
                            rows = srt rows
                        in writeLookupJSON StatusOK \<lparr>FlMAC = HardwareAddr_String hw, FlTotal = length rows, FlRows = rows\<rparr>)))"

section \<open>Zones\<close>

record tenant_option =
  ToID :: string
  ToLabel :: string

record zone_row =
  ZrTenant :: string
  ZrTenantName :: string
  ZrPrefix :: string
  ZrZone :: string

record zones_model =
  ZmSynced :: bool
  ZmLastSync :: gotime
  ZmTenants :: "tenant_option list"
  ZmRows :: "zone_row list"

definition buildZonesModel :: "trie_entry list \<Rightarrow> snapshot option \<Rightarrow> gotime \<Rightarrow> zones_model" where
  "buildZonesModel entries snap lastSync =
    (let model = \<lparr>ZmSynced = (lastSync \<noteq> 0), ZmLastSync = lastSync, ZmTenants = [], ZmRows = []\<rparr>
     in if length entries = 0 then model
        else (let seen = fold (\<lambda>e. mput (TenantID e) ()) entries []
              in model
                \<lparr>ZmRows := map (\<lambda>e. \<lparr>ZrTenant = TenantID e, ZrTenantName = tenantDisplay (TenantID e) snap,
                                      ZrPrefix = Prefix_String (Prefix e), ZrZone = ZoneCode_String (Zone e)\<rparr>) entries,
                 ZmTenants := map (\<lambda>i. \<lparr>ToID = i, ToLabel = tenantLabel i snap\<rparr>) (sort (map fst seen))\<rparr>))"

definition handleZones :: "debug_server \<Rightarrow> zones_model" where
  "handleZones s = buildZonesModel (SvTrie s) (SvSnapshot s) (SvLastSync s)"

section \<open>Anomalies\<close>

record cycle_row =
  CrSourceTenant :: string
  CrSourceTenantName :: string
  CrSourceRouter :: string
  CrDestination :: string
  CrLoopRouter :: string

record ambiguity_row =
  AmSourceTenant :: string
  AmSourceTenantName :: string
  AmRouterID :: string
  AmDestination :: string
  AmOwners :: "string list"
  AmOwnersDisplay :: string

record dangling_row =
  DgSourceTenant :: string
  DgSourceTenantName :: string
  DgSourceRouter :: string
  DgDestination :: string
  DgNexthop :: string

record zero_trie_row =
  ZeTenantID :: string
  ZeTenantName :: string
  ZeNetworks :: nat
  ZeRouters :: nat
  ZePorts :: nat

record dup_mac_row =
  DmMAC :: string
  DmPortIDs :: "string list"
  DmRouterIDs :: "string list"
  DmPortsDisplay :: string
  DmRoutersDisplay :: string

record multi_external_row =
  MePortID :: string
  MeServerID :: string
  MeProjectID :: string
  MeTenantName :: string
  MeCandidates :: "string list"
  MePicked :: string
  MeCandidatesDisplay :: string

record anomalies_model =
  AmTotal :: nat
  AmCycles :: "cycle_row list"
  AmAmbiguities :: "ambiguity_row list"
  AmDanglingRoutes :: "dangling_row list"
  AmZeroTrieTenants :: "zero_trie_row list"
  AmDuplicateRouterMACs :: "dup_mac_row list"
  AmMultiExternalPaths :: "multi_external_row list"

definition buildAnomaliesModel :: "anomalies_report option \<Rightarrow> snapshot option \<Rightarrow> anomalies_model" where
  "buildAnomaliesModel a snap =
    (case a of
       None \<Rightarrow> \<lparr>AmTotal = 0, AmCycles = [], AmAmbiguities = [], AmDanglingRoutes = [], AmZeroTrieTenants = [],
                AmDuplicateRouterMACs = [], AmMultiExternalPaths = []\<rparr>
     | Some a \<Rightarrow>
         \<lparr>AmTotal = Total_anomalies a,
          AmCycles = map (\<lambda>h. \<lparr>CrSourceTenant = ChSourceTenant h, CrSourceTenantName = projectName snap (ChSourceTenant h),
              CrSourceRouter = ChSourceRouter h, CrDestination = Prefix_String (ChDestination h), CrLoopRouter = ChLoopRouter h\<rparr>) (ArCycles a),
          AmAmbiguities = map (\<lambda>h. \<lparr>AmSourceTenant = AhSourceTenant h, AmSourceTenantName = projectName snap (AhSourceTenant h),
              AmRouterID = AhRouterID h, AmDestination = Prefix_String (AhDestination h), AmOwners = AhOwners h,
              AmOwnersDisplay = ownersDisplay (AhOwners h) snap\<rparr>) (ArAmbiguities a),
          AmDanglingRoutes = map (\<lambda>h. \<lparr>DgSourceTenant = DrSourceTenant h, DgSourceTenantName = projectName snap (DrSourceTenant h),
              DgSourceRouter = DrSourceRouter h, DgDestination = DrDestination h, DgNexthop = DrNexthop h\<rparr>) (DanglingRoutes a),
          AmZeroTrieTenants = map (\<lambda>h. \<lparr>ZeTenantID = ZtTenantID h, ZeTenantName = projectName snap (ZtTenantID h),
              ZeNetworks = ZtNetworks h, ZeRouters = ZtRouters h, ZePorts = ZtPorts h\<rparr>) (ZeroTrieTenants a),
          AmDuplicateRouterMACs = map (\<lambda>h. \<lparr>DmMAC = DupMAC h, DmPortIDs = DupPortIDs h, DmRouterIDs = DupRouterIDs h,
              DmPortsDisplay = join_with '', '' (DupPortIDs h), DmRoutersDisplay = join_with '', '' (DupRouterIDs h)\<rparr>) (DuplicateRouterMACs a),
          AmMultiExternalPaths = map (\<lambda>h. \<lparr>MePortID = MhPortID h, MeServerID = MhServerID h, MeProjectID = MhProjectID h,
              MeTenantName = projectName snap (MhProjectID h), MeCandidates = MhCandidates h, MePicked = MhPicked h,
              MeCandidatesDisplay = join_with '', '' (MhCandidates h)\<rparr>) (MultiExternalPaths a)\<rparr>)"

definition handleAnomalies :: "debug_server \<Rightarrow> anomalies_model" where
  "handleAnomalies s = buildAnomaliesModel (SvAnomalies s) (SvSnapshot s)"

section \<open>The index\<close>

record index_counts =
  IcTenants :: nat
  IcNetworks :: nat
  IcSubnets :: nat
  IcPorts :: nat
  IcRouters :: nat
  IcTrieRows :: nat

record anomaly_counts =
  AcTotal :: nat
  AcCycles :: nat
  AcAmbiguities :: nat
  AcDanglingRoutes :: nat
  AcZeroTrieTenants :: nat
  AcDuplicateRouterMACs :: nat
  AcMultiExternalPaths :: nat

record index_model =
  ImSynced :: bool
  ImLastSync :: gotime
  ImSyncAgeText :: string
  ImSyncStale :: bool
  ImCounts :: index_counts
  ImAnomalies :: anomaly_counts
  ImLookupQuery :: lookup_query
  ImLookupResult :: "lookup_result option"
  ImLookupError :: string

definition syncStaleThreshold :: duration where "syncStaleThreshold = 5 * time_Minute"

definition staleAfter :: "debug_server \<Rightarrow> duration" where
  "staleAfter s = (case SvStaleAfter s of Some d \<Rightarrow> d | None \<Rightarrow> syncStaleThreshold)"

text \<open>The map of tenants, one store per resource with an owner.\<close>

definition mark_tenant :: "string \<Rightarrow> (string, unit) gomap \<Rightarrow> (string, unit) gomap" where
  "mark_tenant t m = (if t \<noteq> [] then mput t () m else m)"

definition countTenants :: "snapshot \<Rightarrow> nat" where
  "countTenants snap =
    (let tenants = fold (\<lambda>n. mark_tenant (NetProjectID n)) (Networks snap) [];
         tenants = fold (\<lambda>r. mark_tenant (RtrProjectID r)) (Routers snap) tenants;
         tenants = fold (\<lambda>p. mark_tenant (PortProjectID p)) (Ports snap) tenants
     in length tenants)"

text \<open>\<^verbatim>\<open>Time.Sub\<close> saturates at the range of a duration.\<close>

definition time_Sub :: "gotime \<Rightarrow> gotime \<Rightarrow> duration" where
  "time_Sub t u = max (- (2 ^ 63)) (min (2 ^ 63 - 1) (t - u))"

definition zero_counts :: index_counts where
  "zero_counts = \<lparr>IcTenants = 0, IcNetworks = 0, IcSubnets = 0, IcPorts = 0, IcRouters = 0, IcTrieRows = 0\<rparr>"

definition zero_anomaly_counts :: anomaly_counts where
  "zero_anomaly_counts = \<lparr>AcTotal = 0, AcCycles = 0, AcAmbiguities = 0, AcDanglingRoutes = 0, AcZeroTrieTenants = 0,
     AcDuplicateRouterMACs = 0, AcMultiExternalPaths = 0\<rparr>"

definition buildIndexModel :: "snapshot option \<Rightarrow> trie_entry list \<Rightarrow> anomalies_report option \<Rightarrow> gotime \<Rightarrow> gotime \<Rightarrow> duration \<Rightarrow> index_model" where
  "buildIndexModel snap trie anomalies lastSync now stale =
    (let age = time_Sub now lastSync; synced = (lastSync \<noteq> 0);
         cs = (case snap of None \<Rightarrow> zero_counts
               | Some s \<Rightarrow> zero_counts\<lparr>IcNetworks := length (Networks s), IcSubnets := length (Subnets s), IcPorts := length (Ports s),
                   IcRouters := length (Routers s), IcTenants := countTenants s\<rparr>)
     in \<lparr>ImSynced = synced, ImLastSync = lastSync,
         ImSyncAgeText = (if synced then humanAge age @ '' ago'' else []),
         ImSyncStale = (synced \<and> age > stale),
         ImCounts = cs\<lparr>IcTrieRows := length trie\<rparr>,
         ImAnomalies = (case anomalies of None \<Rightarrow> zero_anomaly_counts
           | Some a \<Rightarrow> \<lparr>AcTotal = Total_anomalies a, AcCycles = length (ArCycles a), AcAmbiguities = length (ArAmbiguities a),
               AcDanglingRoutes = length (DanglingRoutes a), AcZeroTrieTenants = length (ZeroTrieTenants a),
               AcDuplicateRouterMACs = length (DuplicateRouterMACs a), AcMultiExternalPaths = length (MultiExternalPaths a)\<rparr>),
         ImLookupQuery = zero_query, ImLookupResult = None, ImLookupError = []\<rparr>)"

definition handleIndex :: "(string \<Rightarrow> string) \<Rightarrow> debug_server \<Rightarrow> gotime \<Rightarrow> (string \<Rightarrow> string) \<Rightarrow> index_model" where
  "handleIndex addr_err s now q =
    (let model = buildIndexModel (SvSnapshot s) (SvTrie s) (SvAnomalies s) (SvLastSync s) now (staleAfter s);
         ip = TrimSpace (q ''ip''); mac = TrimSpace (q ''mac''); tenant = TrimSpace (q ''tenant'')
     in if ip \<noteq> [] \<or> mac \<noteq> []
        then (let model = model\<lparr>ImLookupQuery := \<lparr>LqIP = ip, LqMAC = mac, LqTenant = tenant\<rparr>\<rparr>
              in case runLookup addr_err s ip mac tenant of (result, errMsg) \<Rightarrow>
                   if errMsg \<noteq> [] then model\<lparr>ImLookupError := errMsg\<rparr>
                   else model\<lparr>ImLookupResult := Some result,
                              ImLookupQuery := (ImLookupQuery model)\<lparr>LqMAC := LqMAC (LrQuery result)\<rparr>\<rparr>)
        else model)"

section \<open>The accessors the agent wires\<close>

text \<open>
  \<^verbatim>\<open>openHTTP\<close> binds the pages to the Neutron subsystem, the metadata map, the live reconcile interval and the
  live flow rows.
\<close>

definition debug_wiring :: "neutron \<Rightarrow> sharded_map \<Rightarrow> duration \<Rightarrow> global_state \<Rightarrow> debug_options" where
  "debug_wiring n meta reconcileInterval st =
    \<lparr>DoSnapshot = Some (nSnapshot n), DoTrie = Some (Trie_accessor n), DoAnomalies = Some (nAnomalies n),
     DoLastSync = Some (or_else 0 (LastSyncTime n)), DoMACLookup = Some (ShardedMetadataMap_Lookup meta),
     DoFlows = Some (case SnapshotWithSettled [] [] [] [] st of (ents, _, _, _) \<Rightarrow> ents),
     DoStaleAfter = Some reconcileInterval\<rparr>"

section \<open>The sort keeps its contract\<close>

lemma mset_sink: "mset (sink lt x ys) = add_mset x (mset ys)"
  by (induction ys) auto

lemma mset_fold_sink: "mset (fold (sink lt) xs acc) = mset xs + mset acc"
  by (induction xs arbitrary: acc) (auto simp: mset_sink)

lemma set_sink: "set (sink lt x ys) = insert x (set ys)"
  by (induction ys) auto

lemma sorted_sink:
  assumes "\<And>a b. lt a b \<Longrightarrow> \<not> lt b a" and "\<And>a b c. \<not> lt a b \<Longrightarrow> \<not> lt b c \<Longrightarrow> \<not> lt a c"
  shows "sorted_wrt (\<lambda>a b. \<not> lt a b) ys \<Longrightarrow> sorted_wrt (\<lambda>a b. \<not> lt a b) (sink lt x ys)"
proof (induction ys)
  case (Cons y ys)
  have y: "\<not> lt y z" if "z \<in> set ys" for z using Cons.prems that by simp
  show ?case
  proof (cases "lt x y")
    case True
    then have "\<not> lt y z" if "z \<in> set (sink lt x ys)" for z using assms(1) y that by (auto simp: set_sink)
    then show ?thesis using True Cons by simp
  next
    case False
    have "\<not> lt x z" if "z \<in> set ys" for z using assms(2)[OF False y[OF that]] .
    then show ?thesis using False Cons.prems by simp
  qed
qed simp

lemma insertionSort_contract:
  assumes "\<And>a b. lt a b \<Longrightarrow> \<not> lt b a" and "\<And>a b c. \<not> lt a b \<Longrightarrow> \<not> lt b c \<Longrightarrow> \<not> lt a c"
  shows "sort_slice lt (insertionSort lt)"
proof
  have "sorted_wrt (\<lambda>a b. \<not> lt a b) (fold (sink lt) xs acc)" if "sorted_wrt (\<lambda>a b. \<not> lt a b) acc" for xs acc
    using that by (induction xs arbitrary: acc) (simp_all add: sorted_sink[of lt, OF assms])
  then show "sorted_wrt (\<lambda>a b. \<not> lt b a) (insertionSort lt xs)" for xs
    by (simp add: insertionSort_def sorted_wrt_rev)
qed (simp add: insertionSort_def mset_fold_sink)

interpretation flow_sort: sort_slice flow_less "insertionSort flow_less"
  by (rule insertionSort_contract) (auto simp: flow_less_def)

section \<open>Lookups\<close>

lemma ParseAddr_Nil [simp]: "ParseAddr [] = None"
  by (simp add: ParseAddr_def)

lemma ParseMAC_Nil [simp]: "ParseMAC [] = None"
  by (simp add: ParseMAC_def)

lemma runLookup_ip:
  "ParseAddr ip = Some a \<Longrightarrow> runLookup e s ip [] tenant =
     (fillIPLookup s a tenant (zero_result\<lparr>LrQuery := \<lparr>LqIP = ip, LqMAC = [], LqTenant = tenant\<rparr>\<rparr>), [])"
  by (auto simp: runLookup_def Let_def)

lemma runLookup_mac:
  "ParseMAC mac = Some hw \<Longrightarrow> length hw = 6 \<Longrightarrow> runLookup e s [] mac tenant =
     (fillMACLookup s hw (HardwareAddr_String hw)
        (zero_result\<lparr>LrQuery := \<lparr>LqIP = [], LqMAC = HardwareAddr_String hw, LqTenant = tenant\<rparr>\<rparr>), [])"
  by (auto simp: runLookup_def Let_def)

lemma trie_no_v6: "LookupZone (fst (buildTrie snap h)) (Addr6 a z) t = None"
proof -
  have "\<not> Contains (Prefix e) (Addr6 a z)" if "e \<in> set (fst (buildTrie snap h))" for e
    using trie_row_prefix_ok[OF that] by (auto simp: row_prefix_ok_def Contains_def)
  then have "fold (longest_step (Addr6 a z) T) es None = None" if "set es \<subseteq> set (fst (buildTrie snap h))" for es T
    using that by (induction es) (auto simp: longest_step_def)
  then show ?thesis by (simp add: LookupZone_def longestPrefixForTenant_def)
qed

lemma mac_of_bytes_six: "mac_of_bytes [a, b, c, d, e, f] = Mac a b c d e f"
  by (simp add: mac_of_bytes_def Let_def)

lemma length_six: "length hw = 6 \<longleftrightarrow> (\<exists>a b c d e f. hw = [a, b, c, d, e, f])"
  by (auto simp: numeral_eq_Suc length_Suc_conv)

lemma macString_mac_of_bytes: "length hw = 6 \<Longrightarrow> macString (mac_of_bytes hw) = HardwareAddr_String hw"
  by (auto simp: length_six mac_of_bytes_six)

section \<open>Counts\<close>

lemma mwf_mark [simp]: "mwf m \<Longrightarrow> mwf (mark_tenant t m)"
  by (simp add: mark_tenant_def mwf_mput)

lemma keys_mark: "fst ` set (mark_tenant t m) = (if t = [] then fst ` set m else insert t (fst ` set m))"
  by (simp add: mark_tenant_def keys_mput)

lemma fold_mark:
  assumes "mwf m"
  shows "mwf (fold (\<lambda>x. mark_tenant (f x)) xs m) \<and>
    fst ` set (fold (\<lambda>x. mark_tenant (f x)) xs m) = fst ` set m \<union> (f ` set xs - {[]})"
  using assms by (induction xs arbitrary: m) (auto simp: keys_mark)

lemma length_keys: "mwf m \<Longrightarrow> length m = card (fst ` set m)"
  by (metis distinct_card length_map list.set_map mwf_def)

lemma fold_seen:
  assumes "mwf m"
  shows "mwf (fold (\<lambda>x. mput (f x) ()) xs m) \<and> fst ` set (fold (\<lambda>x. mput (f x) ()) xs m) = fst ` set m \<union> f ` set xs"
  using assms by (induction xs arbitrary: m) (auto simp: keys_mput)

text \<open>
  The tenant count of the index is the number of tenants the trie builder collects, as the comment on
  \<^verbatim>\<open>countTenants\<close> says.
\<close>

lemma countTenants_collected:
  "countTenants snap = length (collectTenants (Networks snap) (Ports snap) (Routers snap))"
proof -
  let ?a = "fold (\<lambda>n. mark_tenant (NetProjectID n)) (Networks snap) []"
  let ?b = "fold (\<lambda>r. mark_tenant (RtrProjectID r)) (Routers snap) ?a"
  let ?c = "fold (\<lambda>p. mark_tenant (PortProjectID p)) (Ports snap) ?b"
  have a: "mwf ?a" "fst ` set ?a = NetProjectID ` set (Networks snap) - {[]}" using fold_mark[of "[]" NetProjectID "Networks snap"] by simp_all
  have b: "mwf ?b" "fst ` set ?b = fst ` set ?a \<union> (RtrProjectID ` set (Routers snap) - {[]})" using fold_mark[OF a(1), of RtrProjectID "Routers snap"] by simp_all
  have c: "mwf ?c" "fst ` set ?c = fst ` set ?b \<union> (PortProjectID ` set (Ports snap) - {[]})" using fold_mark[OF b(1), of PortProjectID "Ports snap"] by simp_all
  have "length ?c = card (fst ` set ?c)" by (rule length_keys[OF c(1)])
  also have "fst ` set ?c = set (collectTenants (Networks snap) (Ports snap) (Routers snap))"
    unfolding c(2) b(2) a(2) by (auto simp: collectTenants_def)
  also have "card \<dots> = length (collectTenants (Networks snap) (Ports snap) (Routers snap))"
    by (rule distinct_card) (simp add: collectTenants_def)
  finally show ?thesis by (simp add: countTenants_def)
qed

section \<open>Examples\<close>

definition ex_debug_server :: debug_server where
  "ex_debug_server = New_debug \<lparr>DoSnapshot = None, DoTrie = Some (fst (buildTrie ex_trie_snapshot 16)), DoAnomalies = None,
     DoLastSync = None, DoMACLookup = None, DoFlows = None, DoStaleAfter = None\<rparr>"

definition ex_ip_query :: "string \<Rightarrow> string" where
  "ex_ip_query p = (if p = ''ip'' then '' 8.8.8.8'' else if p = ''tenant'' then ''a'' else [])"

lemma TrimSpace_ex [simp]: "TrimSpace (ex_ip_query ''ip'') = ''8.8.8.8''" "TrimSpace (ex_ip_query ''tenant'') = ''a''" "TrimSpace (ex_ip_query ''mac'') = []"
  by (simp_all add: TrimSpace_def ex_ip_query_def is_space_def)

lemma ParseAddr_ex: "ParseAddr ''8.8.8.8'' = Some (Addr4 0x08080808)"
  by code_simp

definition ex_mac_query :: "string \<Rightarrow> string" where
  "ex_mac_query p = (if p = ''mac'' then ''FA-16-3E-00-00-01'' else [])"

lemma TrimSpace_mac [simp]: "TrimSpace (ex_mac_query ''mac'') = ''FA-16-3E-00-00-01''" "TrimSpace (ex_mac_query ''ip'') = []"
  by (simp_all add: TrimSpace_def ex_mac_query_def is_space_def)

lemma ParseMAC_ex: "ParseMAC ''FA-16-3E-00-00-01'' = Some [0xFA, 0x16, 0x3E, 0, 0, 1]"
  by code_simp

definition ex_flow :: "u8 \<Rightarrow> u8 \<Rightarrow> flow_key" where
  "ex_flow a b = \<lparr>SrcMac = Mac 0xFA 0x16 0x3E 0 0 a, DstMac = Mac 0xFA 0x16 0x3E 0 0 b, EthProto = 8, Direction = 0, DstZone = 1, L4Proto = 1, Pad = 0\<rparr>"

definition ex_flow_state :: global_state where
  "ex_flow_state = \<lparr>counts = map (\<lambda>(k, n). (k, \<lparr>Total = zero_metrics\<lparr>Bytes := n\<rparr>, LastEbpfRaw = zero_metrics\<rparr>))
     [(ex_flow 1 2, 10), (ex_flow 2 3, 99), (ex_flow 3 1, 70)], tenantSettled = [], serverSettled = [], totalSettled = []\<rparr>"

definition ex_neutron :: neutron where
  "ex_neutron = \<lparr>nClient = None, nSnapshot = None, nTrie = None, nAnomalies = None, nLastSync = 0, nApiErrors = [], nGauge = None\<rparr>"

definition ex_debug_meta :: sharded_map where
  "ex_debug_meta = ShardedMetadataMap_Insert (MACKey (Mac 0xFA 0x16 0x3E 0 0 1))
     \<lparr>ProjectID = ''a'', ServerID = ''srv'', PortID = ''port'', ExternalNetwork = [], IsAmphora = False, DeleteAt = 0\<rparr> ShardedMetadataMap_New"

definition mac_key :: "u8 list \<Rightarrow> u64" where
  "mac_key hw = MACKey (mac_of_bytes hw)"

section \<open>Properties\<close>

text \<open>
  C38. The lookup page tells the operator what the kernel does. Take the situation of a full write of a
  built trie (any map with the documented longest-prefix behaviour, empty before the write, no error, no
  two rows of one tenant and prefix with different zones) and a server that serves the same rows. A query
  with an IPv4 address and the tenant is answered with status 200, and the zone section carries the label
  of the zone the kernel gives a packet from a VM of that tenant to the address at an unknown hardware
  address; the section is absent only if the kernel reports a miss.
\<close>

theorem lookup_reports_kernel_zone:
  assumes "lpm_map kget kupd kdel kiter en klpm"
    and "interner_ok t" and "length (fst (buildTrie snap h)) + length (forward t) < 2 ^ 31"
    and "rows_agree (fst (buildTrie snap h))" and "\<And>k. kget m k = None"
    and "WriteSubnetZoneTrie en kupd (Some m) (fst (buildTrie snap h)) (Some t) = Ret ((Some m', Some t'), n, None)"
    and "mget (forward t') (TrimSpace (q ''tenant'')) = Some tid"
    and "macs (MACKey vm) = Some (TenantValue tid isAmphora)" and "macs (MACKey peer) = None"
    and "SvTrie s = fst (buildTrie snap h)" and "TrimSpace (q ''tenant'') \<noteq> []" and "TrimSpace (q ''mac'') = []"
    and "ParseAddr (TrimSpace (q ''ip'')) = Some (Addr4 ip)"
  shows "\<exists>r. handleLookup addr_err s q = \<lparr>RsStatus = 200, RsBody = Inr r\<rparr> \<and>
    (let kernel = lookup_zone macs amp (klpm m') vm peer local_ip (native_uint32 en (As4 ip))
     in case LrZone r of None \<Rightarrow> kernel = ZoneMiss | Some z \<Rightarrow> LzCode z = ZoneCode_String kernel)"
proof -
  let ?tenant = "TrimSpace (q ''tenant'')" and ?ip = "TrimSpace (q ''ip'')"
  let ?r = "fillIPLookup s (Addr4 ip) ?tenant (zero_result\<lparr>LrQuery := \<lparr>LqIP = ?ip, LqMAC = [], LqTenant = ?tenant\<rparr>\<rparr>)"
  have "?ip \<noteq> []" using assms(13) by auto
  then have H: "handleLookup addr_err s q = \<lparr>RsStatus = 200, RsBody = Inr ?r\<rparr>"
    by (simp add: handleLookup_def Let_def assms(12) runLookup_ip[OF assms(13)] writeLookupJSON_def StatusOK_def)
  have K: "lookup_zone macs amp (klpm m') vm peer local_ip (native_uint32 en (As4 ip)) =
    (case LookupZone (SvTrie s) (Addr4 ip) ?tenant of None \<Rightarrow> ZoneMiss | Some (e, _) \<Rightarrow> Zone e)"
    unfolding assms(10) by (rule kernel_zone_of_rows[OF assms(1-6,11,7-9)])
  show ?thesis
    using H K by (auto simp: fillIPLookup_def Let_def zero_result_def split: option.splits)
qed

theorem lookup_reports_kernel_zone_witness:
  "\<exists>r. handleLookup (\<lambda>_. []) ex_debug_server ex_ip_query = \<lparr>RsStatus = 200, RsBody = Inr r\<rparr> \<and>
    (let kernel = lookup_zone (\<lambda>k. if k = MACKey (Mac 0 0 0 0 0 1) then Some (TenantValue 1 False) else None) (\<lambda>_. None)
       (lpm_assoc Little [(lpm_of Little (0, catchall), ZoneExternal), (lpm_of Little (0, metadataPrefix), ZoneInfra)])
       (Mac 0 0 0 0 0 1) (Mac 0 0 0 0 0 2) 0 (native_uint32 Little (As4 0x08080808))
     in case LrZone r of None \<Rightarrow> kernel = ZoneMiss | Some z \<Rightarrow> LzCode z = ZoneCode_String kernel)"
  by (rule lookup_reports_kernel_zone[OF bounded_lpm_map ex_lpm_write(1) _ ex_lpm_write(3) _ ex_lpm_write(4)])
    (simp_all add: ex_trie_rows ex_lpm_write(2) mget_Cons ex_debug_server_def New_debug_def or_else_def ParseAddr_ex del: MACKey.simps)

text \<open>
  The lookup endpoint answers every request, and refuses exactly the malformed ones: the status is 200
  or 400, it is 400 exactly when neither or both of the two addresses are given, the IP address does not
  parse, or the hardware address does not parse or does not have six bytes; the body is an error text
  exactly in that case. The same lookup on the index page never fails: it shows the result or the error.
\<close>

theorem lookup_refuses_exactly_malformed:
  "let ip = TrimSpace (q ''ip''); mac = TrimSpace (q ''mac'');
       bad = ((ip = []) = (mac = []) \<or> (ip \<noteq> [] \<and> ParseAddr ip = None) \<or>
              (mac \<noteq> [] \<and> map_option length (ParseMAC mac) \<noteq> Some 6))
   in RsStatus (handleLookup addr_err s q) = (if bad then 400 else 200) \<and>
      isl (RsBody (handleLookup addr_err s q)) = bad \<and>
      (ImLookupError (handleIndex addr_err s now q) \<noteq> []) = (bad \<and> (ip \<noteq> [] \<or> mac \<noteq> [])) \<and>
      (ImLookupResult (handleIndex addr_err s now q) = None) = bad"
  unfolding handleLookup_def handleIndex_def runLookup_def Let_def writeLookupJSON_def writeLookupError_def
    StatusOK_def StatusBadRequest_def buildIndexModel_def
  by (auto split: option.splits)

text \<open>
  The flows page shows exactly the flows of one hardware address, largest first. For a query that
  names a six-byte address in any spelling, over a live state and any sort with the contract of the
  library: the answer is 200 with the address in its canonical form, the rows are those of the entries
  whose source or destination is that address (each once), no row precedes one with more bytes, and the
  total is their number.
\<close>

theorem flows_page_exact:
  assumes "sort_slice flow_less srt"
    and "ParseMAC (TrimSpace (q ''mac'')) = Some hw" and "length hw = 6"
    and "SvFlows s = Some (fst (SnapshotWithSettled [] [] [] [] g))"
  shows "\<exists>rows. handleFlows srt s q = \<lparr>RsStatus = 200, RsBody = Inr \<lparr>FlMAC = macString (mac_of_bytes hw), FlTotal = length rows, FlRows = rows\<rparr>\<rparr> \<and>
    mset rows = image_mset (\<lambda>(k, c). flow_row_of \<lparr>EKey = k, ETotal = Total c\<rparr>)
      (filter_mset (\<lambda>(k, c). mac_of_bytes hw \<in> {SrcMac k, DstMac k}) (mset (counts g))) \<and>
    sorted_wrt (\<lambda>a b. FrBytes a \<ge> FrBytes b) rows"
proof -
  have ne: "TrimSpace (q ''mac'') \<noteq> []" using assms(2) by auto
  let ?es = "filter (\<lambda>e. \<not> (SrcMac (EKey e) \<noteq> mac_of_bytes hw \<and> DstMac (EKey e) \<noteq> mac_of_bytes hw)) (fst (SnapshotWithSettled [] [] [] [] g))"
  let ?rows = "srt (map flow_row_of ?es)"
  have "handleFlows srt s q = \<lparr>RsStatus = 200, RsBody = Inr \<lparr>FlMAC = macString (mac_of_bytes hw), FlTotal = length ?rows, FlRows = ?rows\<rparr>\<rparr>"
    unfolding handleFlows_def Let_def macString_mac_of_bytes[OF assms(3)]
    using ne assms(2-4) by (simp add: writeLookupJSON_def StatusOK_def)
  moreover have "mset ?rows = image_mset (\<lambda>(k, c). flow_row_of \<lparr>EKey = k, ETotal = Total c\<rparr>)
      (filter_mset (\<lambda>(k, c). mac_of_bytes hw \<in> {SrcMac k, DstMac k}) (mset (counts g)))"
    unfolding sort_slice.perm[OF assms(1)] by (auto simp: SnapshotWithSettled_def filter_map comp_def split_def intro!: image_mset_cong arg_cong[where f = "image_mset _"] filter_mset_cong)
  moreover have "sorted_wrt (\<lambda>a b. FrBytes a \<ge> FrBytes b) ?rows"
    using sort_slice.ordered[OF assms(1), of "map flow_row_of ?es"] by (simp add: flow_less_def not_less)
  ultimately show ?thesis by blast
qed

theorem flows_page_exact_witness:
  "\<exists>rows. handleFlows (insertionSort flow_less) (New_debug (debug_wiring ex_neutron ShardedMetadataMap_New 0 ex_flow_state)) ex_mac_query =
      \<lparr>RsStatus = 200, RsBody = Inr \<lparr>FlMAC = ''fa:16:3e:00:00:01'', FlTotal = length rows, FlRows = rows\<rparr>\<rparr> \<and>
    map FrBytes rows = [70, 10]"
proof -
  let ?s = "New_debug (debug_wiring ex_neutron ShardedMetadataMap_New 0 ex_flow_state)"
  have six: "length [0xFA, 0x16, 0x3E, 0, 0, 1 :: u8] = 6" by simp
  have fl: "SvFlows ?s = Some (fst (SnapshotWithSettled [] [] [] [] ex_flow_state))"
    by (simp add: New_debug_def debug_wiring_def SnapshotWithSettled_def)
  have pm: "ParseMAC (TrimSpace (ex_mac_query ''mac'')) = Some [0xFA, 0x16, 0x3E, 0, 0, 1]" by (simp add: ParseMAC_ex)
  obtain rows where r: "handleFlows (insertionSort flow_less) ?s ex_mac_query =
      \<lparr>RsStatus = 200, RsBody = Inr \<lparr>FlMAC = macString (mac_of_bytes [0xFA, 0x16, 0x3E, 0, 0, 1]), FlTotal = length rows, FlRows = rows\<rparr>\<rparr>"
    "mset rows = image_mset (\<lambda>(k, c). flow_row_of \<lparr>EKey = k, ETotal = Total c\<rparr>)
      (filter_mset (\<lambda>(k, c). mac_of_bytes [0xFA, 0x16, 0x3E, 0, 0, 1] \<in> {SrcMac k, DstMac k}) (mset (counts ex_flow_state)))"
    "sorted_wrt (\<lambda>a b. FrBytes a \<ge> FrBytes b) rows"
    using flows_page_exact[where q = ex_mac_query, OF flow_sort.sort_slice_axioms pm six fl] by blast
  have "macString (mac_of_bytes [0xFA, 0x16, 0x3E, 0, 0, 1]) = ''fa:16:3e:00:00:01''" by code_simp
  moreover have "mset (map FrBytes rows) = {#10, 70#}"
    unfolding mset_map r(2) by (simp add: ex_flow_state_def ex_flow_def mac_of_bytes_def Let_def flow_row_of_def)
  moreover have "sorted (rev (map FrBytes rows))" using r(3) by (simp add: sorted_wrt_rev sorted_wrt_map)
  ultimately have "rev (map FrBytes rows) = sort (rev [70, 10])"
    by (intro properties_for_sort[symmetric]) (simp_all add: add_mset_commute)
  then show ?thesis using r(1) \<open>macString _ = _\<close> by (auto simp: rev_swap)
qed

text \<open>
  The hardware-address lookup names the tenant that pays. For the server the agent wires and a query
  that spells a six-byte address in any of the accepted forms, the answer is 200, echoes the canonical
  form, and its section on the metadata map agrees with the attribution of every flow whose VM side is
  that address: the entry is found with the tenant and the port the flow is billed to, or it is not found
  and the flow is billed to the unknown tenant.
\<close>

theorem mac_lookup_names_billed_tenant:
  assumes "TrimSpace (q ''ip'') = []" and "ParseMAC (TrimSpace (q ''mac'')) = Some hw" and "length hw = 6"
    and "VMMAC key = mac_key hw" and "s = New_debug (debug_wiring n meta interval st)"
  shows "\<exists>r entry. handleLookup addr_err s q = \<lparr>RsStatus = 200, RsBody = Inr r\<rparr> \<and>
    LqMAC (LrQuery r) = HardwareAddr_String hw \<and> ParseMAC (LqMAC (LrQuery r)) = Some hw \<and>
    LrMAC r = Some entry \<and>
    (let bill = Resolver_Resolve meta routers key
     in if LmFound entry then LmTenantID entry = AtTenant bill \<and> LmPortID entry = AtPortID bill
        else AtTenant bill = UnknownTenantID \<and> LmTenantID entry = [])"
proof -
  have "TrimSpace (q ''mac'') \<noteq> []" using assms(2) by auto
  then show ?thesis
    by (auto simp: handleLookup_def Let_def assms(1) runLookup_mac[OF assms(2,3)] writeLookupJSON_def StatusOK_def
        fillMACLookup_def ParseMAC_String[OF assms(3)] Resolver_Resolve_def assms(4,5) mac_key_def New_debug_def debug_wiring_def or_else_def
        split: option.split)
qed

theorem mac_lookup_names_billed_tenant_witness:
  "\<exists>r entry. handleLookup (\<lambda>_. []) (New_debug (debug_wiring ex_neutron ex_debug_meta 0 ex_flow_state)) ex_mac_query =
      \<lparr>RsStatus = 200, RsBody = Inr r\<rparr> \<and>
    LqMAC (LrQuery r) = HardwareAddr_String [0xFA, 0x16, 0x3E, 0, 0, 1] \<and> ParseMAC (LqMAC (LrQuery r)) = Some [0xFA, 0x16, 0x3E, 0, 0, 1] \<and>
    LrMAC r = Some entry \<and>
    (let bill = Resolver_Resolve ex_debug_meta None (ex_flow 1 2)
     in if LmFound entry then LmTenantID entry = AtTenant bill \<and> LmPortID entry = AtPortID bill
        else AtTenant bill = UnknownTenantID \<and> LmTenantID entry = [])"
  by (rule mac_lookup_names_billed_tenant)
    (simp_all add: ParseMAC_ex VMMAC_def ex_flow_def mac_key_def mac_of_bytes_def Let_def DirectionIngress_def)

text \<open>
  After a commit the pages show that commit, and they agree with each other. The index is synced, is
  stale exactly when the age exceeds the live reconcile interval, and counts the rows the zones page
  lists, which are the committed trie rows in order; the zones page offers each tenant of the trie once,
  in order; the anomaly total of the index, the rows of the anomalies page and the published gauge are the
  same number; and the tenant count is the number of tenants the trie builder collected.
\<close>

theorem pages_show_commit:
  assumes "t0 \<noteq> 0"
  shows "let n = Commit r t0 n0; s = New_debug (debug_wiring n meta interval st);
       i = handleIndex addr_err s now q; z = handleZones s; a = handleAnomalies s
   in ImSynced i \<and> ImSyncStale i = (time_Sub now t0 > interval) \<and>
      IcTrieRows (ImCounts i) = length (ZmRows z) \<and>
      map (\<lambda>w. (ZrTenant w, ZrPrefix w, ZrZone w)) (ZmRows z) =
        map (\<lambda>e. (TenantID e, Prefix_String (Prefix e), ZoneCode_String (Zone e))) (SrEntries r) \<and>
      sorted_wrt (<) (map ToID (ZmTenants z)) \<and> set (map ToID (ZmTenants z)) = TenantID ` set (SrEntries r) \<and>
      AcTotal (ImAnomalies i) = AmTotal a \<and>
      AmTotal a = length (AmCycles a) + length (AmAmbiguities a) + length (AmDanglingRoutes a) + length (AmZeroTrieTenants a) +
        length (AmDuplicateRouterMACs a) + length (AmMultiExternalPaths a) \<and>
      map_option Total_anomalies (nGauge n) = Some (AmTotal a) \<and>
      IcTenants (ImCounts i) = length (collectTenants (Networks (SrSnapshot r)) (Ports (SrSnapshot r)) (Routers (SrSnapshot r)))"
proof -
  let ?n = "Commit r t0 n0" and ?seen = "fold (\<lambda>e. mput (TenantID e) ()) (SrEntries r) []"
  let ?s = "New_debug (debug_wiring ?n meta interval st)"
  have n: "nSnapshot ?n = Some (SrSnapshot r)" "nTrie ?n = Some (SrEntries r)" "nAnomalies ?n = Some (SrAnomalies r)" "nLastSync ?n = t0"
    "nGauge ?n = Some (SrAnomalies r)" by (simp_all add: Commit_def commit_stores_def)
  have s: "SvSnapshot ?s = Some (SrSnapshot r)" "SvTrie ?s = SrEntries r" "SvAnomalies ?s = Some (SrAnomalies r)" "SvLastSync ?s = t0"
    "staleAfter ?s = interval"
    using assms n by (simp_all add: New_debug_def debug_wiring_def or_else_def Trie_accessor_def LastSyncTime_def staleAfter_def)
  define i0 where "i0 = buildIndexModel (SvSnapshot ?s) (SvTrie ?s) (SvAnomalies ?s) (SvLastSync ?s) now (staleAfter ?s)"
  have i: "ImSynced (handleIndex addr_err ?s now q) = ImSynced i0" "ImSyncStale (handleIndex addr_err ?s now q) = ImSyncStale i0"
    "ImCounts (handleIndex addr_err ?s now q) = ImCounts i0" "ImAnomalies (handleIndex addr_err ?s now q) = ImAnomalies i0"
    unfolding handleIndex_def i0_def[symmetric] Let_def by (simp_all split: prod.split)
  have seen: "distinct (map fst ?seen)" "set (map fst ?seen) = TenantID ` set (SrEntries r)"
    using fold_seen[of "[]" TenantID "SrEntries r"] by (simp_all add: mwf_def)
  have z: "map ToID (ZmTenants (handleZones ?s)) = sort (map fst ?seen)"
    "map (\<lambda>w. (ZrTenant w, ZrPrefix w, ZrZone w)) (ZmRows (handleZones ?s)) =
     map (\<lambda>e. (TenantID e, Prefix_String (Prefix e), ZoneCode_String (Zone e))) (SrEntries r)"
    unfolding handleZones_def s buildZonesModel_def Let_def by (simp_all add: comp_def)
  have "length (ZmRows (handleZones ?s)) = length (SrEntries r)" using arg_cong[OF z(2), of length] by simp
  moreover have "sorted_wrt (<) (sort (map fst ?seen))" using seen(1) by (simp add: strict_sorted_iff)
  ultimately show ?thesis
    unfolding Let_def i z n option.map using assms seen(2)
    by (simp add: i0_def s buildIndexModel_def Let_def handleAnomalies_def buildAnomaliesModel_def Total_anomalies_def countTenants_collected)
qed

theorem pages_show_commit_witness:
  "let n = Commit (resultFor 16 ex_trie_snapshot) 5 ex_neutron; s = New_debug (debug_wiring n ShardedMetadataMap_New 60 ex_flow_state)
   in ImSynced (handleIndex (\<lambda>_. []) s 99 ex_mac_query) \<and> map ToID (ZmTenants (handleZones s)) = [[]]"
proof -
  have e: "SrEntries (resultFor 16 ex_trie_snapshot) = fst (buildTrie ex_trie_snapshot 16)" by (simp add: resultFor_def split: prod.split)
  have "xs = [[]]" if "sorted_wrt (<) xs" "set xs = {[]}" for xs :: "string list"
    using that by (cases xs; cases "tl xs") auto
  then show ?thesis
    using pages_show_commit[of 5 "resultFor 16 ex_trie_snapshot" ex_neutron ShardedMetadataMap_New 60 ex_flow_state "\<lambda>_. []" 99 ex_mac_query]
    unfolding Let_def e by (simp add: ex_trie_rows)
qed

end
