(* ===== verification/Debug_Topology.thy ===== *)
theory Debug_Topology
  imports Debug_Pages
begin

text \<open>
  The topology pages (\<^verbatim>\<open>internal/debug/topology.go\<close>, \<^verbatim>\<open>topology_tenant.go\<close>): the directory of tenants with
  their counts of cross-tenant attachments and extraroutes, and the view of one tenant with its networks,
  router cards and cross-tenant extraroutes. Both are pure functions of one snapshot. The maps from a
  tenant to its counts and from a router to its card are iterated in an unspecified order and then sorted,
  so the sort is an argument with the contract of \<^verbatim>\<open>sort.Slice\<close>.
\<close>

section \<open>Models\<close>

record directory_row =
  RwTenantID :: string
  RwTenantName :: string
  RwNetworks :: nat
  RwRouters :: nat
  RwOutAttach :: nat
  RwInAttach :: nat
  RwOutExtra :: nat
  RwInExtra :: nat
  RwCrossTotal :: nat

record topology_directory_model =
  TdSynced :: bool
  TdLastSync :: gotime
  TdRows :: "directory_row list"

record tenant_summary =
  TsNetworks :: nat
  TsRouters :: nat
  TsAttachments :: nat
  TsExtraroutes :: nat
  TsCrossAttach :: nat
  TsCrossExtraroute :: nat

record tenant_network_row =
  TnID :: string
  TnName :: string
  TnCIDRs :: "string list"
  TnKind :: string

record router_attachment_row =
  RaNetworkID :: string
  RaNetworkName :: string
  RaNetworkTenantID :: string
  RaNetworkTenantName :: string
  RaIP :: string
  RaCrossTenant :: bool

record router_extraroute_row =
  ReDestination :: string
  ReNexthop :: string
  ReNextRouterID :: string
  ReNextRouterTenantID :: string
  ReNextRouterTenantName :: string
  ReCrossTenant :: bool

record tenant_router_card =
  CdID :: string
  CdName :: string
  CdExternalGatewayID :: string
  CdExternalGatewayName :: string
  CdAttachments :: "router_attachment_row list"
  CdExtraroutes :: "router_extraroute_row list"

record extraroute_row =
  XrDirection :: string
  XrSourceRouterID :: string
  XrSourceTenantID :: string
  XrSourceTenantName :: string
  XrDestination :: string
  XrNexthop :: string
  XrTargetRouterID :: string
  XrTargetTenantID :: string
  XrTargetTenantName :: string

record topology_tenant_model =
  TtSynced :: bool
  TtLastSync :: gotime
  TtTenantID :: string
  TtTenantName :: string
  TtNotFound :: bool
  TtSummary :: tenant_summary
  TtNetworks :: "tenant_network_row list"
  TtRouters :: "tenant_router_card list"
  TtExtraroutes :: "extraroute_row list"

definition extrarouteOut :: string where "extrarouteOut = ''out''"
definition extrarouteIn :: string where "extrarouteIn = ''in''"

section \<open>Indexes\<close>

definition displayName :: "string \<Rightarrow> string \<Rightarrow> string" where
  "displayName name uid = (if name \<noteq> [] then name else if length uid > 8 then take 8 uid @ ellipsis else uid)"

definition indexNetworks :: "snapshot \<Rightarrow> (string, network) gomap" where
  "indexNetworks snap = fold (\<lambda>n. mput (NetID n) n) (Networks snap) []"

definition indexRouters :: "snapshot \<Rightarrow> (string, router) gomap" where
  "indexRouters snap = fold (\<lambda>r. mput (RtrID r) r) (Routers snap) []"

definition indexPortsByIP :: "snapshot \<Rightarrow> (string, port) gomap" where
  "indexPortsByIP snap = fold (\<lambda>p m. fold (\<lambda>fip. mput (IPAddress fip) p) (FixedIPs p) m) (Ports snap) []"

definition indexSubnetsByNetwork :: "snapshot \<Rightarrow> (string, string list) gomap" where
  "indexSubnetsByNetwork snap =
    fold (\<lambda>s m. mput (SubNetworkID s) (or_else [] (mget m (SubNetworkID s)) @ [CIDR s]) m) (Subnets snap) []"

section \<open>The directory\<close>

record tenant_stats =
  stNetworks :: nat
  stRouters :: nat
  outAttach :: nat
  inAttach :: nat
  outExtra :: nat
  inExtra :: nat

definition zero_stats :: tenant_stats where
  "zero_stats = \<lparr>stNetworks = 0, stRouters = 0, outAttach = 0, inAttach = 0, outExtra = 0, inExtra = 0\<rparr>"

text \<open>The closure \<^verbatim>\<open>get\<close> followed by an update through the pointer it returns.\<close>

definition at_tenant :: "string \<Rightarrow> (tenant_stats \<Rightarrow> tenant_stats) \<Rightarrow> (string, tenant_stats) gomap \<Rightarrow> (string, tenant_stats) gomap" where
  "at_tenant t f m = mput t (f (or_else zero_stats (mget m t))) m"

text \<open>The router and the network a port attaches, when both are known.\<close>

definition attachment :: "snapshot \<Rightarrow> port \<Rightarrow> (router \<times> network) option" where
  "attachment snap p =
    (if DeviceOwner p \<noteq> DeviceOwnerRouterInterface then None
     else (case (mget (indexRouters snap) (DeviceID p), mget (indexNetworks snap) (PortNetworkID p)) of
             (Some rt, Some nw) \<Rightarrow> Some (rt, nw)
           | _ \<Rightarrow> None))"

text \<open>The router behind the next hop of a route.\<close>

definition next_router :: "snapshot \<Rightarrow> route \<Rightarrow> router option" where
  "next_router snap rte =
    (case mget (indexPortsByIP snap) (Nexthop rte) of
       None \<Rightarrow> None
     | Some np \<Rightarrow> if DeviceOwner np \<noteq> DeviceOwnerRouterInterface then None else mget (indexRouters snap) (DeviceID np))"

definition count_attachment :: "snapshot \<Rightarrow> port \<Rightarrow> (string, tenant_stats) gomap \<Rightarrow> (string, tenant_stats) gomap" where
  "count_attachment snap p m =
    (case attachment snap p of
       None \<Rightarrow> m
     | Some (rt, nw) \<Rightarrow>
         if RtrProjectID rt = NetProjectID nw then m
         else at_tenant (NetProjectID nw) (\<lambda>s. s\<lparr>inAttach := inAttach s + 1\<rparr>)
                (at_tenant (RtrProjectID rt) (\<lambda>s. s\<lparr>outAttach := outAttach s + 1\<rparr>) m))"

definition count_extraroute :: "snapshot \<Rightarrow> router \<Rightarrow> route \<Rightarrow> (string, tenant_stats) gomap \<Rightarrow> (string, tenant_stats) gomap" where
  "count_extraroute snap r rte m =
    (case next_router snap rte of
       None \<Rightarrow> m
     | Some nxt \<Rightarrow>
         if RtrProjectID r = RtrProjectID nxt then m
         else at_tenant (RtrProjectID nxt) (\<lambda>s. s\<lparr>inExtra := inExtra s + 1\<rparr>)
                (at_tenant (RtrProjectID r) (\<lambda>s. s\<lparr>outExtra := outExtra s + 1\<rparr>) m))"

definition perTenant :: "snapshot \<Rightarrow> (string, tenant_stats) gomap" where
  "perTenant snap =
    (let m = fold (\<lambda>n. at_tenant (NetProjectID n) (\<lambda>s. s\<lparr>stNetworks := stNetworks s + 1\<rparr>)) (Networks snap) [];
         m = fold (\<lambda>r. at_tenant (RtrProjectID r) (\<lambda>s. s\<lparr>stRouters := stRouters s + 1\<rparr>)) (Routers snap) m;
         m = fold (count_attachment snap) (Ports snap) m
     in fold (\<lambda>r m. fold (count_extraroute snap r) (Routes r) m) (Routers snap) m)"

definition directory_row_of :: "snapshot \<Rightarrow> string \<times> tenant_stats \<Rightarrow> directory_row" where
  "directory_row_of snap ts =
    (case ts of (tid, s) \<Rightarrow>
       \<lparr>RwTenantID = tid, RwTenantName = tenantDisplay tid (Some snap), RwNetworks = stNetworks s, RwRouters = stRouters s,
        RwOutAttach = outAttach s, RwInAttach = inAttach s, RwOutExtra = outExtra s, RwInExtra = inExtra s,
        RwCrossTotal = outAttach s + inAttach s + outExtra s + inExtra s\<rparr>)"

definition directory_less :: "directory_row \<Rightarrow> directory_row \<Rightarrow> bool" where
  "directory_less a b =
    (if RwCrossTotal a \<noteq> RwCrossTotal b then RwCrossTotal a > RwCrossTotal b else RwTenantName a < RwTenantName b)"

definition buildTopologyDirectoryModel ::
  "(directory_row list \<Rightarrow> directory_row list) \<Rightarrow> snapshot option \<Rightarrow> gotime \<Rightarrow> topology_directory_model" where
  "buildTopologyDirectoryModel srt snap lastSync =
    \<lparr>TdSynced = (lastSync \<noteq> 0), TdLastSync = lastSync,
     TdRows = (case snap of None \<Rightarrow> [] | Some sn \<Rightarrow> srt (map (directory_row_of sn) (perTenant sn)))\<rparr>"

definition handleTopology :: "(directory_row list \<Rightarrow> directory_row list) \<Rightarrow> debug_server \<Rightarrow> topology_directory_model" where
  "handleTopology srt s = buildTopologyDirectoryModel srt (SvSnapshot s) (SvLastSync s)"

section \<open>One tenant\<close>

text \<open>What the two walks of the tenant view accumulate.\<close>

record tenant_walk =
  wSummary :: tenant_summary
  wCards :: "(string, tenant_router_card) gomap"
  wExtra :: "extraroute_row list"

definition network_row :: "snapshot \<Rightarrow> network \<Rightarrow> tenant_network_row" where
  "network_row snap n =
    \<lparr>TnID = NetID n, TnName = displayName (NetName n) (NetID n),
     TnCIDRs = or_else [] (mget (indexSubnetsByNetwork snap) (NetID n)),
     TnKind = (if IsExternal n then ''external'' else if Shared n then ''shared'' else [])\<rparr>"

definition new_card :: "snapshot \<Rightarrow> router \<Rightarrow> tenant_router_card" where
  "new_card snap r =
    \<lparr>CdID = RtrID r, CdName = RtrName r, CdExternalGatewayID = ExternalNetworkID r,
     CdExternalGatewayName =
       (if ExternalNetworkID r = [] then []
        else (case mget (indexNetworks snap) (ExternalNetworkID r) of Some ext \<Rightarrow> NetName ext | None \<Rightarrow> [])),
     CdAttachments = [], CdExtraroutes = []\<rparr>"

definition routerCards :: "snapshot \<Rightarrow> string \<Rightarrow> (string, tenant_router_card) gomap" where
  "routerCards snap tenant =
    fold (\<lambda>r m. if RtrProjectID r \<noteq> tenant then m else mput (RtrID r) (new_card snap r) m) (Routers snap) []"

definition on_card :: "string \<Rightarrow> (tenant_router_card \<Rightarrow> tenant_router_card) \<Rightarrow> tenant_walk \<Rightarrow> tenant_walk" where
  "on_card rid f w =
    (case mget (wCards w) rid of None \<Rightarrow> w | Some c \<Rightarrow> w\<lparr>wCards := mput rid (f c) (wCards w)\<rparr>)"

definition walk_port :: "snapshot \<Rightarrow> string \<Rightarrow> port \<Rightarrow> tenant_walk \<Rightarrow> tenant_walk" where
  "walk_port snap tenant p w =
    (case attachment snap p of
       None \<Rightarrow> w
     | Some (rt, nw) \<Rightarrow>
         if RtrProjectID rt \<noteq> tenant \<and> NetProjectID nw \<noteq> tenant then w
         else (let cross = (RtrProjectID rt \<noteq> NetProjectID nw);
                   su = wSummary w;
                   su = (if cross then su\<lparr>TsCrossAttach := TsCrossAttach su + 1\<rparr> else su);
                   su = su\<lparr>TsAttachments := TsAttachments su + 1\<rparr>;
                   w = w\<lparr>wSummary := su\<rparr>
               in if RtrProjectID rt = tenant
                  then on_card (RtrID rt) (\<lambda>c. c\<lparr>CdAttachments := CdAttachments c @
                     [\<lparr>RaNetworkID = NetID nw, RaNetworkName = displayName (NetName nw) (NetID nw),
                       RaNetworkTenantID = NetProjectID nw, RaNetworkTenantName = ProjectName snap (NetProjectID nw),
                       RaIP = (case FixedIPs p of [] \<Rightarrow> [] | fip # _ \<Rightarrow> IPAddress fip), RaCrossTenant = cross\<rparr>]\<rparr>) w
                  else w))"

definition walk_route :: "snapshot \<Rightarrow> string \<Rightarrow> router \<Rightarrow> route \<Rightarrow> tenant_walk \<Rightarrow> tenant_walk" where
  "walk_route snap tenant r rte w =
    (let nxt = next_router snap rte;
         involves = (RtrProjectID r = tenant \<or> (case nxt of None \<Rightarrow> False | Some n \<Rightarrow> RtrProjectID n = tenant))
     in if \<not> involves then w
        else (let cross = (case nxt of None \<Rightarrow> False | Some n \<Rightarrow> RtrProjectID r \<noteq> RtrProjectID n);
                  su = wSummary w;
                  su = (if cross then su\<lparr>TsCrossExtraroute := TsCrossExtraroute su + 1\<rparr> else su);
                  su = su\<lparr>TsExtraroutes := TsExtraroutes su + 1\<rparr>;
                  w = w\<lparr>wSummary := su\<rparr>;
                  line = \<lparr>ReDestination = Destination rte, ReNexthop = Nexthop rte,
                          ReNextRouterID = (case nxt of None \<Rightarrow> [] | Some n \<Rightarrow> RtrID n),
                          ReNextRouterTenantID = (case nxt of None \<Rightarrow> [] | Some n \<Rightarrow> RtrProjectID n),
                          ReNextRouterTenantName = (case nxt of None \<Rightarrow> [] | Some n \<Rightarrow> ProjectName snap (RtrProjectID n)),
                          ReCrossTenant = cross\<rparr>;
                  w = (if RtrProjectID r = tenant
                       then on_card (RtrID r) (\<lambda>c. c\<lparr>CdExtraroutes := CdExtraroutes c @ [line]\<rparr>) w else w)
              in case nxt of
                   None \<Rightarrow> w
                 | Some n \<Rightarrow>
                     if cross
                     then w\<lparr>wExtra := wExtra w @
                       [\<lparr>XrDirection = (if RtrProjectID r = tenant then extrarouteOut else extrarouteIn),
                         XrSourceRouterID = RtrID r, XrSourceTenantID = RtrProjectID r, XrSourceTenantName = ProjectName snap (RtrProjectID r),
                         XrDestination = Destination rte, XrNexthop = Nexthop rte,
                         XrTargetRouterID = RtrID n, XrTargetTenantID = RtrProjectID n,
                         XrTargetTenantName = ProjectName snap (RtrProjectID n)\<rparr>]\<rparr>
                     else w))"

definition cardCrossCount :: "tenant_router_card \<Rightarrow> nat" where
  "cardCrossCount c = length (filter RaCrossTenant (CdAttachments c)) + length (filter ReCrossTenant (CdExtraroutes c))"

definition network_less :: "tenant_network_row \<Rightarrow> tenant_network_row \<Rightarrow> bool" where
  "network_less a b \<longleftrightarrow> TnName a < TnName b"

definition extraroute_less :: "extraroute_row \<Rightarrow> extraroute_row \<Rightarrow> bool" where
  "extraroute_less a b =
    (if XrDirection a \<noteq> XrDirection b then XrDirection a = extrarouteOut else XrSourceRouterID a < XrSourceRouterID b)"

definition card_less :: "tenant_router_card \<Rightarrow> tenant_router_card \<Rightarrow> bool" where
  "card_less a b =
    (if cardCrossCount a \<noteq> cardCrossCount b then cardCrossCount a > cardCrossCount b else CdID a < CdID b)"

definition zero_summary :: tenant_summary where
  "zero_summary = \<lparr>TsNetworks = 0, TsRouters = 0, TsAttachments = 0, TsExtraroutes = 0, TsCrossAttach = 0, TsCrossExtraroute = 0\<rparr>"

definition walk_tenant :: "snapshot \<Rightarrow> string \<Rightarrow> tenant_walk" where
  "walk_tenant snap tenant =
    (let w = \<lparr>wSummary = zero_summary, wCards = routerCards snap tenant, wExtra = []\<rparr>;
         w = fold (walk_port snap tenant) (Ports snap) w
     in fold (\<lambda>r w. fold (walk_route snap tenant r) (Routes r) w) (Routers snap) w)"

definition buildTopologyTenantModel ::
  "(tenant_network_row list \<Rightarrow> tenant_network_row list) \<Rightarrow> (extraroute_row list \<Rightarrow> extraroute_row list) \<Rightarrow>
   (tenant_router_card list \<Rightarrow> tenant_router_card list) \<Rightarrow> snapshot option \<Rightarrow> string \<Rightarrow> gotime \<Rightarrow> topology_tenant_model" where
  "buildTopologyTenantModel srtN srtE srtC snap tenant lastSync =
    (case snap of
       None \<Rightarrow> \<lparr>TtSynced = (lastSync \<noteq> 0), TtLastSync = lastSync, TtTenantID = tenant, TtTenantName = [], TtNotFound = True,
                TtSummary = zero_summary, TtNetworks = [], TtRouters = [], TtExtraroutes = []\<rparr>
     | Some sn \<Rightarrow>
         (let nets = srtN (map (network_row sn) (filter (\<lambda>n. NetProjectID n = tenant) (Networks sn)));
              w = walk_tenant sn tenant;
              cards = srtC (map snd (wCards w));
              su = (wSummary w)\<lparr>TsNetworks := length nets, TsRouters := length cards\<rparr>
          in \<lparr>TtSynced = (lastSync \<noteq> 0), TtLastSync = lastSync, TtTenantID = tenant, TtTenantName = ProjectName sn tenant,
              TtNotFound = (TsNetworks su = 0 \<and> TsRouters su = 0 \<and> TsCrossAttach su = 0 \<and> TsCrossExtraroute su = 0),
              TtSummary = su, TtNetworks = nets, TtRouters = cards, TtExtraroutes = srtE (wExtra w)\<rparr>))"

definition handleTopologyTenant ::
  "(tenant_network_row list \<Rightarrow> tenant_network_row list) \<Rightarrow> (extraroute_row list \<Rightarrow> extraroute_row list) \<Rightarrow>
   (tenant_router_card list \<Rightarrow> tenant_router_card list) \<Rightarrow> debug_server \<Rightarrow> string \<Rightarrow> topology_tenant_model" where
  "handleTopologyTenant srtN srtE srtC s tenant = buildTopologyTenantModel srtN srtE srtC (SvSnapshot s) tenant (SvLastSync s)"

section \<open>Cross-tenant edges\<close>

text \<open>An edge is the pair of the tenant it leaves and the tenant it enters.\<close>

definition cross_attach :: "snapshot \<Rightarrow> port \<Rightarrow> (string \<times> string) list" where
  "cross_attach snap p =
    (case attachment snap p of
       None \<Rightarrow> []
     | Some (rt, nw) \<Rightarrow> if RtrProjectID rt = NetProjectID nw then [] else [(RtrProjectID rt, NetProjectID nw)])"

definition cross_extra :: "snapshot \<Rightarrow> router \<Rightarrow> route \<Rightarrow> (string \<times> string) list" where
  "cross_extra snap r rte =
    (case next_router snap rte of
       None \<Rightarrow> []
     | Some nxt \<Rightarrow> if RtrProjectID r = RtrProjectID nxt then [] else [(RtrProjectID r, RtrProjectID nxt)])"

definition attach_edges :: "snapshot \<Rightarrow> (string \<times> string) list" where
  "attach_edges snap = concat (map (cross_attach snap) (Ports snap))"

definition extra_edges :: "snapshot \<Rightarrow> (string \<times> string) list" where
  "extra_edges snap = concat (map (\<lambda>r. concat (map (cross_extra snap r) (Routes r))) (Routers snap))"

definition out_of :: "string \<Rightarrow> (string \<times> string) list \<Rightarrow> nat" where
  "out_of t es = length (filter (\<lambda>e. fst e = t) es)"

definition into :: "string \<Rightarrow> (string \<times> string) list \<Rightarrow> nat" where
  "into t es = length (filter (\<lambda>e. snd e = t) es)"

definition touching :: "string \<Rightarrow> (string \<times> string) list \<Rightarrow> nat" where
  "touching t es = length (filter (\<lambda>e. fst e = t \<or> snd e = t) es)"

lemma out_of_simps [simp]: "out_of t [] = 0" "out_of t (e # es) = (if fst e = t then 1 else 0) + out_of t es" "out_of t (es @ fs) = out_of t es + out_of t fs"
  by (simp_all add: out_of_def)

lemma into_simps [simp]: "into t [] = 0" "into t (e # es) = (if snd e = t then 1 else 0) + into t es" "into t (es @ fs) = into t es + into t fs"
  by (simp_all add: into_def)

lemma touching_simps [simp]: "touching t [] = 0" "touching t (e # es) = (if fst e = t \<or> snd e = t then 1 else 0) + touching t es"
    "touching t (es @ fs) = touching t es + touching t fs"
  by (simp_all add: touching_def)

text \<open>No edge is a loop, so it touches a tenant once.\<close>

lemma touching_split: "(\<And>a b. (a, b) \<in> set es \<Longrightarrow> a \<noteq> b) \<Longrightarrow> touching t es = out_of t es + into t es"
proof (induction es)
  case (Cons e es)
  have "fst e \<noteq> snd e" using Cons.prems[of "fst e" "snd e"] by simp
  moreover have "touching t es = out_of t es + into t es" using Cons by simp
  ultimately show ?case by auto
qed simp

lemma attach_edges_proper: "(a, b) \<in> set (attach_edges snap) \<Longrightarrow> a \<noteq> b"
  by (auto simp: attach_edges_def cross_attach_def split: option.splits if_splits)

lemma extra_edges_proper: "(a, b) \<in> set (extra_edges snap) \<Longrightarrow> a \<noteq> b"
  by (auto simp: extra_edges_def cross_extra_def split: option.splits if_splits)

section \<open>The indexes hold what the snapshot has\<close>

lemma fold_index_in: "mget (fold (\<lambda>x. mput (f x) x) xs m) k = Some v \<Longrightarrow> mget m k = Some v \<or> (v \<in> set xs \<and> f v = k)"
proof (induction xs arbitrary: m)
  case (Cons x xs)
  have "mget (fold (\<lambda>x. mput (f x) x) xs (mput (f x) x m)) k = Some v" using Cons.prems by simp
  from Cons.IH[OF this] show ?case by (auto split: if_splits)
qed simp

lemma indexRouters_in: "mget (indexRouters snap) k = Some r \<Longrightarrow> r \<in> set (Routers snap) \<and> RtrID r = k"
  unfolding indexRouters_def using fold_index_in[of RtrID "Routers snap" "[]" k r] by simp

lemma indexNetworks_in: "mget (indexNetworks snap) k = Some n \<Longrightarrow> n \<in> set (Networks snap) \<and> NetID n = k"
  unfolding indexNetworks_def using fold_index_in[of NetID "Networks snap" "[]" k n] by simp

lemma attachment_in: "attachment snap p = Some (rt, nw) \<Longrightarrow> rt \<in> set (Routers snap) \<and> nw \<in> set (Networks snap)"
  by (auto simp: attachment_def dest: indexRouters_in indexNetworks_in split: option.splits if_splits)

lemma next_router_in: "next_router snap rte = Some r \<Longrightarrow> r \<in> set (Routers snap)"
  by (auto simp: next_router_def dest: indexRouters_in split: option.splits if_splits)

lemma attach_edges_owned: "(a, b) \<in> set (attach_edges snap) \<Longrightarrow> a \<in> RtrProjectID ` set (Routers snap) \<and> b \<in> NetProjectID ` set (Networks snap)"
  by (auto simp: attach_edges_def cross_attach_def dest!: attachment_in[OF sym] attachment_in split: option.splits if_splits)

lemma extra_edges_owned: "(a, b) \<in> set (extra_edges snap) \<Longrightarrow> a \<in> RtrProjectID ` set (Routers snap) \<and> b \<in> RtrProjectID ` set (Routers snap)"
  by (auto simp: extra_edges_def cross_extra_def dest!: next_router_in[OF sym] next_router_in split: option.splits if_splits)

section \<open>The counts of the directory\<close>

definition stats_of :: "(string, tenant_stats) gomap \<Rightarrow> string \<Rightarrow> tenant_stats" where
  "stats_of m t = or_else zero_stats (mget m t)"

lemma stats_of_at [simp]: "stats_of (at_tenant t f m) t' = (if t' = t then f (stats_of m t) else stats_of m t')"
  by (simp add: stats_of_def at_tenant_def or_else_def)

lemma mwf_at_tenant [simp]: "mwf m \<Longrightarrow> mwf (at_tenant t f m)"
  by (simp add: at_tenant_def)

lemma keys_at_tenant: "fst ` set (at_tenant t f m) = insert t (fst ` set m)"
  by (simp add: at_tenant_def keys_mput)

lemma fold_concat_map: "fold (\<lambda>x. fold g (f x)) xs m = fold g (concat (map f xs)) m"
  by (induction xs arbitrary: m) simp_all

lemma fold_at_tenant:
  "stats_of (fold (\<lambda>x. at_tenant (k x) f) xs m) t = (f ^^ length (filter (\<lambda>x. k x = t) xs)) (stats_of m t)"
  by (induction xs arbitrary: m) (simp_all add: funpow_swap1)

lemma fold_at_tenant_keys:
  assumes "mwf m"
  shows "mwf (fold (\<lambda>x. at_tenant (k x) f) xs m) \<and> fst ` set (fold (\<lambda>x. at_tenant (k x) f) xs m) = fst ` set m \<union> k ` set xs"
  using assms by (induction xs arbitrary: m) (auto simp: keys_at_tenant)

definition count_edge :: "(tenant_stats \<Rightarrow> tenant_stats) \<Rightarrow> (tenant_stats \<Rightarrow> tenant_stats) \<Rightarrow> string \<times> string \<Rightarrow>
    (string, tenant_stats) gomap \<Rightarrow> (string, tenant_stats) gomap" where
  "count_edge fo fi e m = at_tenant (snd e) fi (at_tenant (fst e) fo m)"

abbreviation "out_a \<equiv> (\<lambda>s. s\<lparr>outAttach := outAttach s + 1\<rparr>)"
abbreviation "in_a \<equiv> (\<lambda>s. s\<lparr>inAttach := inAttach s + 1\<rparr>)"
abbreviation "out_x \<equiv> (\<lambda>s. s\<lparr>outExtra := outExtra s + 1\<rparr>)"
abbreviation "in_x \<equiv> (\<lambda>s. s\<lparr>inExtra := inExtra s + 1\<rparr>)"

lemma count_attachment_edges: "count_attachment snap p = fold (count_edge out_a in_a) (cross_attach snap p)"
  by (rule ext) (auto simp: count_attachment_def cross_attach_def count_edge_def split: option.splits)

lemma count_extraroute_edges: "count_extraroute snap r rte = fold (count_edge out_x in_x) (cross_extra snap r rte)"
  by (rule ext) (auto simp: count_extraroute_def cross_extra_def count_edge_def split: option.splits)

lemma perTenant_edges:
  "perTenant snap =
    fold (count_edge out_x in_x) (extra_edges snap)
     (fold (count_edge out_a in_a) (attach_edges snap)
       (fold (\<lambda>r. at_tenant (RtrProjectID r) (\<lambda>s. s\<lparr>stRouters := stRouters s + 1\<rparr>)) (Routers snap)
         (fold (\<lambda>n. at_tenant (NetProjectID n) (\<lambda>s. s\<lparr>stNetworks := stNetworks s + 1\<rparr>)) (Networks snap) [])))"
  by (simp add: perTenant_def Let_def count_attachment_edges[abs_def] count_extraroute_edges[abs_def] fold_concat_map extra_edges_def attach_edges_def)

lemma stats_attach: "stats_of (fold (count_edge out_a in_a) es m) t =
    (stats_of m t)\<lparr>outAttach := outAttach (stats_of m t) + out_of t es, inAttach := inAttach (stats_of m t) + into t es\<rparr>"
  by (induction es arbitrary: m) (auto simp: count_edge_def)

lemma stats_extra: "stats_of (fold (count_edge out_x in_x) es m) t =
    (stats_of m t)\<lparr>outExtra := outExtra (stats_of m t) + out_of t es, inExtra := inExtra (stats_of m t) + into t es\<rparr>"
  by (induction es arbitrary: m) (auto simp: count_edge_def)

lemma count_edge_keys:
  assumes "mwf m"
  shows "mwf (fold (count_edge fo fi) es m) \<and> fst ` set (fold (count_edge fo fi) es m) = fst ` set m \<union> fst ` set es \<union> snd ` set es"
  using assms by (induction es arbitrary: m) (auto simp: count_edge_def keys_at_tenant)

lemma funpow_networks: "((\<lambda>s. s\<lparr>stNetworks := stNetworks s + 1\<rparr>) ^^ n) s = s\<lparr>stNetworks := stNetworks s + n\<rparr>"
  by (induction n) simp_all

lemma funpow_routers: "((\<lambda>s. s\<lparr>stRouters := stRouters s + 1\<rparr>) ^^ n) s = s\<lparr>stRouters := stRouters s + n\<rparr>"
  by (induction n) simp_all

lemma stats_of_perTenant:
  "stats_of (perTenant snap) t =
    \<lparr>stNetworks = length (filter (\<lambda>n. NetProjectID n = t) (Networks snap)),
     stRouters = length (filter (\<lambda>r. RtrProjectID r = t) (Routers snap)),
     outAttach = out_of t (attach_edges snap), inAttach = into t (attach_edges snap),
     outExtra = out_of t (extra_edges snap), inExtra = into t (extra_edges snap)\<rparr>"
  unfolding perTenant_edges stats_extra stats_attach fold_at_tenant funpow_networks funpow_routers
  by (simp add: stats_of_def or_else_def zero_stats_def)

lemma perTenant_keys:
  "mwf (perTenant snap)" "fst ` set (perTenant snap) = NetProjectID ` set (Networks snap) \<union> RtrProjectID ` set (Routers snap)"
proof -
  let ?n = "fold (\<lambda>n. at_tenant (NetProjectID n) (\<lambda>s. s\<lparr>stNetworks := stNetworks s + 1\<rparr>)) (Networks snap) []"
  let ?r = "fold (\<lambda>r. at_tenant (RtrProjectID r) (\<lambda>s. s\<lparr>stRouters := stRouters s + 1\<rparr>)) (Routers snap) ?n"
  let ?a = "fold (count_edge out_a in_a) (attach_edges snap) ?r"
  have n: "mwf ?n \<and> fst ` set ?n = fst ` set ([] :: (string \<times> tenant_stats) list) \<union> NetProjectID ` set (Networks snap)"
    by (rule fold_at_tenant_keys) simp
  have r: "mwf ?r \<and> fst ` set ?r = fst ` set ?n \<union> RtrProjectID ` set (Routers snap)" by (rule fold_at_tenant_keys) (use n in simp)
  have a: "mwf ?a \<and> fst ` set ?a = fst ` set ?r \<union> fst ` set (attach_edges snap) \<union> snd ` set (attach_edges snap)"
    by (rule count_edge_keys) (use r in simp)
  have x: "mwf (perTenant snap) \<and> fst ` set (perTenant snap) = fst ` set ?a \<union> fst ` set (extra_edges snap) \<union> snd ` set (extra_edges snap)"
    unfolding perTenant_edges by (rule count_edge_keys) (use a in simp)
  then show "mwf (perTenant snap)" by blast
  have "fst ` set (attach_edges snap) \<subseteq> RtrProjectID ` set (Routers snap)" "snd ` set (attach_edges snap) \<subseteq> NetProjectID ` set (Networks snap)"
    "fst ` set (extra_edges snap) \<subseteq> RtrProjectID ` set (Routers snap)" "snd ` set (extra_edges snap) \<subseteq> RtrProjectID ` set (Routers snap)"
    using attach_edges_owned extra_edges_owned by fastforce+
  then show "fst ` set (perTenant snap) = NetProjectID ` set (Networks snap) \<union> RtrProjectID ` set (Routers snap)"
    using x a r n by auto
qed

lemma perTenant_in: "(t, st) \<in> set (perTenant snap) \<Longrightarrow> st = stats_of (perTenant snap) t"
  using perTenant_keys(1)[of snap] by (simp add: stats_of_def or_else_def mget_in_set)

section \<open>The walks of the tenant view\<close>

definition card_total :: "tenant_walk \<Rightarrow> int" where
  "card_total w = msum (\<lambda>_ c. int (cardCrossCount c)) (wCards w)"

lemma on_card_same [simp]: "wSummary (on_card k f w) = wSummary w" "wExtra (on_card k f w) = wExtra w"
  "mwf (wCards w) \<Longrightarrow> mwf (wCards (on_card k f w))" "mhas (wCards (on_card k f w)) k' = mhas (wCards w) k'"
  by (auto simp: on_card_def mhas_def split: option.splits)

lemma card_total_on_card:
  "mhas (wCards w) k \<Longrightarrow> (\<And>c. cardCrossCount (f c) = cardCrossCount c + d) \<Longrightarrow> card_total (on_card k f w) = card_total w + int d"
  by (auto simp: card_total_def on_card_def mhas_def msum_mput)

lemma card_total_simps [simp]: "card_total (w\<lparr>wSummary := x\<rparr>) = card_total w" "card_total (w\<lparr>wExtra := y\<rparr>) = card_total w"
  by (simp_all add: card_total_def)

lemma length_on_card [simp]: "length (wCards (on_card k f w)) = length (wCards w)"
  by (auto simp: on_card_def length_mput mhas_def split: option.splits)

text \<open>The invariant of the walks: every router of the tenant has its card.\<close>

definition cards_ready :: "snapshot \<Rightarrow> string \<Rightarrow> tenant_walk \<Rightarrow> bool" where
  "cards_ready snap t w \<longleftrightarrow> (\<forall>r\<in>set (Routers snap). RtrProjectID r = t \<longrightarrow> mhas (wCards w) (RtrID r))"

lemma walk_port_effect:
  assumes "cards_ready snap t w"
  shows "cards_ready snap t (walk_port snap t p w) \<and> wExtra (walk_port snap t p w) = wExtra w \<and>
    length (wCards (walk_port snap t p w)) = length (wCards w) \<and>
    TsCrossAttach (wSummary (walk_port snap t p w)) = TsCrossAttach (wSummary w) + touching t (cross_attach snap p) \<and>
    TsCrossExtraroute (wSummary (walk_port snap t p w)) = TsCrossExtraroute (wSummary w) \<and>
    card_total (walk_port snap t p w) = card_total w + int (out_of t (cross_attach snap p))"
proof (cases "attachment snap p")
  case None
  then show ?thesis using assms by (simp add: walk_port_def cross_attach_def)
next
  case (Some rn)
  obtain rt nw where rn: "rn = (rt, nw)" by (cases rn)
  have "mhas (wCards w) (RtrID rt)" if "RtrProjectID rt = t"
    using assms that attachment_in[of snap p rt nw] Some rn by (auto simp: cards_ready_def)
  then show ?thesis
    using assms Some rn
    by (auto simp: walk_port_def cross_attach_def Let_def cards_ready_def card_total_on_card[where d = 0] card_total_on_card[where d = 1] cardCrossCount_def)
qed

lemma walk_route_effect:
  assumes "cards_ready snap t w" and "r \<in> set (Routers snap)"
  shows "cards_ready snap t (walk_route snap t r rte w) \<and>
    length (wExtra (walk_route snap t r rte w)) = length (wExtra w) + touching t (cross_extra snap r rte) \<and>
    length (wCards (walk_route snap t r rte w)) = length (wCards w) \<and>
    TsCrossAttach (wSummary (walk_route snap t r rte w)) = TsCrossAttach (wSummary w) \<and>
    TsCrossExtraroute (wSummary (walk_route snap t r rte w)) = TsCrossExtraroute (wSummary w) + touching t (cross_extra snap r rte) \<and>
    card_total (walk_route snap t r rte w) = card_total w + int (out_of t (cross_extra snap r rte))"
proof -
  have card: "mhas (wCards w) (RtrID r)" if "RtrProjectID r = t" using assms that by (auto simp: cards_ready_def)
  show ?thesis
  proof (cases "next_router snap rte")
    case None
    then show ?thesis using assms(1) card
      by (auto simp: walk_route_def cross_extra_def Let_def cards_ready_def card_total_on_card[where d = 0] cardCrossCount_def)
  next
    case (Some n)
    then show ?thesis using assms(1) card
      by (auto simp: walk_route_def cross_extra_def Let_def cards_ready_def card_total_on_card[where d = 0] card_total_on_card[where d = 1]
          cardCrossCount_def)
  qed
qed

lemma fold_walk_port:
  "cards_ready snap t w \<Longrightarrow> cards_ready snap t (fold (walk_port snap t) ps w) \<and> wExtra (fold (walk_port snap t) ps w) = wExtra w \<and>
    length (wCards (fold (walk_port snap t) ps w)) = length (wCards w) \<and>
    TsCrossAttach (wSummary (fold (walk_port snap t) ps w)) = TsCrossAttach (wSummary w) + touching t (concat (map (cross_attach snap) ps)) \<and>
    TsCrossExtraroute (wSummary (fold (walk_port snap t) ps w)) = TsCrossExtraroute (wSummary w) \<and>
    card_total (fold (walk_port snap t) ps w) = card_total w + int (out_of t (concat (map (cross_attach snap) ps)))"
proof (induction ps arbitrary: w)
  case (Cons p ps)
  show ?case using Cons.IH[of "walk_port snap t p w"] walk_port_effect[OF Cons.prems, of p] by auto
qed simp

lemma fold_walk_routes:
  assumes "r \<in> set (Routers snap)"
  shows "cards_ready snap t w \<Longrightarrow> cards_ready snap t (fold (walk_route snap t r) rts w) \<and>
    length (wExtra (fold (walk_route snap t r) rts w)) = length (wExtra w) + touching t (concat (map (cross_extra snap r) rts)) \<and>
    length (wCards (fold (walk_route snap t r) rts w)) = length (wCards w) \<and>
    TsCrossAttach (wSummary (fold (walk_route snap t r) rts w)) = TsCrossAttach (wSummary w) \<and>
    TsCrossExtraroute (wSummary (fold (walk_route snap t r) rts w)) = TsCrossExtraroute (wSummary w) + touching t (concat (map (cross_extra snap r) rts)) \<and>
    card_total (fold (walk_route snap t r) rts w) = card_total w + int (out_of t (concat (map (cross_extra snap r) rts)))"
proof (induction rts arbitrary: w)
  case (Cons x xs)
  show ?case using Cons.IH[of "walk_route snap t r x w"] walk_route_effect[OF Cons.prems assms, of x] by auto
qed simp

lemma fold_walk_routers:
  "set rs \<subseteq> set (Routers snap) \<Longrightarrow> cards_ready snap t w \<Longrightarrow>
   (let w' = fold (\<lambda>r w. fold (walk_route snap t r) (Routes r) w) rs w;
        es = concat (map (\<lambda>r. concat (map (cross_extra snap r) (Routes r))) rs)
    in length (wExtra w') = length (wExtra w) + touching t es \<and> length (wCards w') = length (wCards w) \<and>
       TsCrossAttach (wSummary w') = TsCrossAttach (wSummary w) \<and>
       TsCrossExtraroute (wSummary w') = TsCrossExtraroute (wSummary w) + touching t es \<and>
       card_total w' = card_total w + int (out_of t es))"
proof (induction rs arbitrary: w)
  case (Cons r rs)
  show ?case using Cons.IH[of "fold (walk_route snap t r) (Routes r) w"] fold_walk_routes[of r snap t w "Routes r"] Cons.prems
    by (simp add: Let_def)
qed simp

lemma routerCards_fold:
  "\<lbrakk>mwf m; \<And>k c. mget m k = Some c \<Longrightarrow> cardCrossCount c = 0\<rbrakk> \<Longrightarrow>
   (let m' = fold (\<lambda>r m. if RtrProjectID r \<noteq> t then m else mput (RtrID r) (new_card snap r) m) rs m
    in mwf m' \<and> (\<forall>k. mhas m' k \<longleftrightarrow> mhas m k \<or> (\<exists>r\<in>set rs. RtrProjectID r = t \<and> RtrID r = k)) \<and>
       (\<forall>k c. mget m' k = Some c \<longrightarrow> cardCrossCount c = 0))"
proof (induction rs arbitrary: m)
  case (Cons r rs)
  have "cardCrossCount c = 0" if "mget (mput (RtrID r) (new_card snap r) m) k = Some c" for k c
    using that Cons.prems(2) by (auto simp: new_card_def cardCrossCount_def split: if_splits)
  then show ?case
    using Cons.IH[of m] Cons.IH[of "mput (RtrID r) (new_card snap r) m"] Cons.prems by (auto simp: Let_def)
qed (auto simp: Let_def)

lemma routerCards_props:
  shows "mwf (routerCards snap t)"
    and "mhas (routerCards snap t) k \<longleftrightarrow> (\<exists>r\<in>set (Routers snap). RtrProjectID r = t \<and> RtrID r = k)"
    and "mget (routerCards snap t) k = Some c \<Longrightarrow> cardCrossCount c = 0"
  using routerCards_fold[of "[]" t snap "Routers snap"] by (auto simp: Let_def routerCards_def mhas_def)

lemma routerCards_empty: "routerCards snap t = [] \<longleftrightarrow> t \<notin> RtrProjectID ` set (Routers snap)"
proof -
  have "m = [] \<longleftrightarrow> (\<forall>k. \<not> mhas m k)" for m :: "(string, tenant_router_card) gomap"
    by (cases m) (auto simp: mhas_def mget_Cons)
  then show ?thesis using routerCards_props(2)[of snap t] by (auto simp: image_iff)
qed

lemma walk_tenant_effect:
  shows "length (wExtra (walk_tenant snap t)) = touching t (extra_edges snap)"
    and "length (wCards (walk_tenant snap t)) = length (routerCards snap t)"
    and "TsCrossAttach (wSummary (walk_tenant snap t)) = touching t (attach_edges snap)"
    and "TsCrossExtraroute (wSummary (walk_tenant snap t)) = touching t (extra_edges snap)"
    and "card_total (walk_tenant snap t) = int (out_of t (attach_edges snap) + out_of t (extra_edges snap))"
proof -
  let ?w0 = "\<lparr>wSummary = zero_summary, wCards = routerCards snap t, wExtra = []\<rparr>"
  have ready: "cards_ready snap t ?w0" by (auto simp: cards_ready_def routerCards_props)
  have "card_total ?w0 = 0"
    unfolding card_total_def using routerCards_props(1,3)[of snap t] by (intro msum_zero) (auto simp: mget_in_set)
  then show "length (wExtra (walk_tenant snap t)) = touching t (extra_edges snap)"
    "length (wCards (walk_tenant snap t)) = length (routerCards snap t)"
    "TsCrossAttach (wSummary (walk_tenant snap t)) = touching t (attach_edges snap)"
    "TsCrossExtraroute (wSummary (walk_tenant snap t)) = touching t (extra_edges snap)"
    "card_total (walk_tenant snap t) = int (out_of t (attach_edges snap) + out_of t (extra_edges snap))"
    using fold_walk_port[OF ready, of "Ports snap"] fold_walk_routers[of "Routers snap" snap t "fold (walk_port snap t) (Ports snap) ?w0"]
    by (simp_all add: walk_tenant_def Let_def attach_edges_def extra_edges_def zero_summary_def)
qed

section \<open>The sorts of the two pages\<close>

interpretation directory_sort: sort_slice directory_less "insertionSort directory_less"
  by (rule insertionSort_contract) (auto simp: directory_less_def split: if_splits)

interpretation network_sort: sort_slice network_less "insertionSort network_less"
  by (rule insertionSort_contract) (auto simp: network_less_def)

interpretation card_sort: sort_slice card_less "insertionSort card_less"
  by (rule insertionSort_contract) (auto simp: card_less_def split: if_splits)

text \<open>The comparison of extraroutes is an order on the two directions only; the sort by key keeps its contract everywhere.\<close>

definition extraroute_key :: "extraroute_row \<Rightarrow> bool \<times> string" where
  "extraroute_key r = (XrDirection r \<noteq> extrarouteOut, XrSourceRouterID r)"

interpretation extraroute_sort: sort_slice extraroute_less "sort_key extraroute_key"
proof
  fix xs :: "extraroute_row list"
  have "sorted_wrt (\<lambda>a b. extraroute_key a \<le> extraroute_key b) (sort_key extraroute_key xs)"
    using sorted_sort_key[of extraroute_key xs] by (simp add: sorted_map)
  then show "sorted_wrt (\<lambda>a b. \<not> extraroute_less b a) (sort_key extraroute_key xs)"
    by (rule sorted_wrt_mono_rel[rotated]) (auto simp: extraroute_less_def extraroute_key_def less_eq_prod_def)
qed simp

section \<open>Properties\<close>

lemma directory_rows:
  assumes "sort_slice directory_less srt"
  shows "mset (TdRows (buildTopologyDirectoryModel srt (Some snap) lastSync)) = mset (map (directory_row_of snap) (perTenant snap))"
  using sort_slice.perm[OF assms] by (simp add: buildTopologyDirectoryModel_def)

lemma int_sum_snd: "int (sum_list (map f (map snd m))) = msum (\<lambda>_ v. int (f v)) m"
  by (induction m) auto

lemma sum_cards:
  assumes "sort_slice card_less srt"
  shows "int (sum_list (map cardCrossCount (srt (map snd (wCards w))))) = card_total w"
proof -
  have "sum_list (map cardCrossCount (srt (map snd (wCards w)))) = sum_list (map cardCrossCount (map snd (wCards w)))"
    by (metis mset_map sort_slice.perm[OF assms] sum_mset_sum_list)
  also have "int \<dots> = card_total w" by (simp only: card_total_def int_sum_snd)
  finally show ?thesis .
qed

lemma tenant_view_summary:
  fixes snap :: snapshot and tenant :: string and lastSync :: gotime
  assumes "sort_slice network_less srtN" and "sort_slice extraroute_less srtE" and "sort_slice card_less srtC"
  defines "view \<equiv> buildTopologyTenantModel srtN srtE srtC (Some snap) tenant lastSync"
  shows "TsNetworks (TtSummary view) = length (filter (\<lambda>n. NetProjectID n = tenant) (Networks snap))"
    and "TsRouters (TtSummary view) = length (routerCards snap tenant)"
    and "TsCrossAttach (TtSummary view) = touching tenant (attach_edges snap)"
    and "TsCrossExtraroute (TtSummary view) = touching tenant (extra_edges snap)"
    and "length (TtExtraroutes view) = touching tenant (extra_edges snap)"
    and "sum_list (map cardCrossCount (TtRouters view)) = out_of tenant (attach_edges snap) + out_of tenant (extra_edges snap)"
proof -
  show "sum_list (map cardCrossCount (TtRouters view)) = out_of tenant (attach_edges snap) + out_of tenant (extra_edges snap)"
    using sum_cards[OF assms(3), of "walk_tenant snap tenant"] walk_tenant_effect(5)[of snap tenant]
    by (simp add: view_def buildTopologyTenantModel_def Let_def flip: of_nat_add)
qed (simp_all add: view_def buildTopologyTenantModel_def Let_def walk_tenant_effect sort_slice.length_srt[OF assms(1)]
    sort_slice.length_srt[OF assms(2)] sort_slice.length_srt[OF assms(3)])

text \<open>
  The view is not found exactly when the tenant owns neither a network nor a router: ports and subnets do
  not count, and a cross-tenant edge always belongs to such an owner.
\<close>

lemma tenant_view_not_found:
  assumes "sort_slice network_less srtN" and "sort_slice extraroute_less srtE" and "sort_slice card_less srtC"
  shows "TtNotFound (buildTopologyTenantModel srtN srtE srtC (Some snap) tenant lastSync) =
    (tenant \<notin> NetProjectID ` set (Networks snap) \<union> RtrProjectID ` set (Routers snap))"
proof -
  let ?view = "buildTopologyTenantModel srtN srtE srtC (Some snap) tenant lastSync"
  note su = tenant_view_summary[OF assms, of snap tenant lastSync]
  have "touching tenant (attach_edges snap) = 0 \<and> touching tenant (extra_edges snap) = 0"
    if "tenant \<notin> NetProjectID ` set (Networks snap) \<union> RtrProjectID ` set (Routers snap)"
    using that attach_edges_owned[of _ _ snap] extra_edges_owned[of _ _ snap] unfolding touching_def length_0_conv filter_empty_conv by fastforce
  moreover have "TtNotFound ?view = (TsNetworks (TtSummary ?view) = 0 \<and> TsRouters (TtSummary ?view) = 0 \<and>
      TsCrossAttach (TtSummary ?view) = 0 \<and> TsCrossExtraroute (TtSummary ?view) = 0)"
    by (simp add: buildTopologyTenantModel_def Let_def)
  ultimately show ?thesis unfolding su(1-4) by (auto simp: routerCards_empty filter_empty_conv)
qed


lemma sum_indicator: "distinct ks \<Longrightarrow> a \<in> set ks \<Longrightarrow> sum_list (map (\<lambda>t. if a = t then 1 else 0) ks) = (1 :: nat)"
proof (induction ks)
  case (Cons k ks)
  have "sum_list (map (\<lambda>t. if a = t then 1 else 0) ks) = (0 :: nat)" if "a \<notin> set ks" using that by (induction ks) auto
  then show ?case using Cons by auto
qed simp

lemma sum_out_of: "distinct ks \<Longrightarrow> fst ` set es \<subseteq> set ks \<Longrightarrow> sum_list (map (\<lambda>t. out_of t es) ks) = length es"
  by (induction es) (simp_all add: sum_list_addf sum_indicator)

lemma sum_into: "distinct ks \<Longrightarrow> snd ` set es \<subseteq> set ks \<Longrightarrow> sum_list (map (\<lambda>t. into t es) ks) = length es"
  by (induction es) (simp_all add: sum_list_addf sum_indicator)

lemma sum_rows:
  fixes f :: "directory_row \<Rightarrow> nat"
  assumes "sort_slice directory_less srt" and "\<And>t. f (directory_row_of snap (t, stats_of (perTenant snap) t)) = g t"
  shows "sum_list (map f (TdRows (buildTopologyDirectoryModel srt (Some snap) lastSync))) = sum_list (map g (map fst (perTenant snap)))"
proof -
  have "sum_list (map f (TdRows (buildTopologyDirectoryModel srt (Some snap) lastSync))) = sum_list (map f (map (directory_row_of snap) (perTenant snap)))"
    by (simp only: sum_mset_sum_list[symmetric] mset_map directory_rows[OF assms(1)])
  also have "map f (map (directory_row_of snap) (perTenant snap)) = map g (map fst (perTenant snap))"
    using assms(2) by (auto dest: perTenant_in)
  finally show ?thesis .
qed

text \<open>
  The directory balances: summed over its rows, the attachments that leave a tenant and those that
  enter one are both the number of router ports that attach a router of one tenant to a network of
  another, and likewise for the extraroutes, so that no cross-tenant edge is lost or counted twice.
\<close>

theorem directory_balances:
  assumes "sort_slice directory_less srt"
  shows "let rows = TdRows (buildTopologyDirectoryModel srt (Some snap) lastSync)
    in sum_list (map RwOutAttach rows) = length (attach_edges snap) \<and> sum_list (map RwInAttach rows) = length (attach_edges snap) \<and>
       sum_list (map RwOutExtra rows) = length (extra_edges snap) \<and> sum_list (map RwInExtra rows) = length (extra_edges snap) \<and>
       sum_list (map RwCrossTotal rows) = 2 * (length (attach_edges snap) + length (extra_edges snap))"
proof -
  let ?rows = "TdRows (buildTopologyDirectoryModel srt (Some snap) lastSync)" and ?ks = "map fst (perTenant snap)"
  have ks: "distinct ?ks" "set ?ks = NetProjectID ` set (Networks snap) \<union> RtrProjectID ` set (Routers snap)"
    using perTenant_keys[of snap] by (simp_all add: mwf_def)
  have sub: "fst ` set (attach_edges snap) \<subseteq> set ?ks" "snd ` set (attach_edges snap) \<subseteq> set ?ks"
    "fst ` set (extra_edges snap) \<subseteq> set ?ks" "snd ` set (extra_edges snap) \<subseteq> set ?ks"
    unfolding ks(2) using attach_edges_owned extra_edges_owned by fastforce+
  have parts: "sum_list (map RwOutAttach ?rows) = length (attach_edges snap)" "sum_list (map RwInAttach ?rows) = length (attach_edges snap)"
    "sum_list (map RwOutExtra ?rows) = length (extra_edges snap)" "sum_list (map RwInExtra ?rows) = length (extra_edges snap)"
    using sum_rows[OF assms, of RwOutAttach snap "\<lambda>t. out_of t (attach_edges snap)" lastSync]
      sum_rows[OF assms, of RwInAttach snap "\<lambda>t. into t (attach_edges snap)" lastSync]
      sum_rows[OF assms, of RwOutExtra snap "\<lambda>t. out_of t (extra_edges snap)" lastSync]
      sum_rows[OF assms, of RwInExtra snap "\<lambda>t. into t (extra_edges snap)" lastSync]
      sum_out_of[OF ks(1) sub(1)] sum_into[OF ks(1) sub(2)] sum_out_of[OF ks(1) sub(3)] sum_into[OF ks(1) sub(4)]
    by (simp_all add: directory_row_of_def stats_of_perTenant)
  have "RwCrossTotal row = RwOutAttach row + RwInAttach row + RwOutExtra row + RwInExtra row" if "row \<in> set ?rows" for row
    using that mset_eq_setD[OF directory_rows[OF assms, of snap lastSync]] by (auto simp: directory_row_of_def)
  then have "sum_list (map RwCrossTotal ?rows) = sum_list (map (\<lambda>row. RwOutAttach row + RwInAttach row + RwOutExtra row + RwInExtra row) ?rows)"
    by (intro arg_cong[where f = sum_list] map_cong) simp_all
  also have "\<dots> = 2 * (length (attach_edges snap) + length (extra_edges snap))" by (simp add: sum_list_addf parts)
  finally show ?thesis using parts by (simp add: Let_def)
qed

definition ex_topology :: snapshot where
  "ex_topology =
    \<lparr>Networks = [\<lparr>NetID = ''n1'', NetProjectID = ''b'', NetName = ''net'', Shared = False, IsExternal = False\<rparr>],
     Subnets = [],
     Ports = [\<lparr>PortUUID = ''p1'', PortNetworkID = ''n1'', PortProjectID = ''a'', MACAddress = [], DeviceOwner = DeviceOwnerRouterInterface,
               DeviceID = ''r1'', FixedIPs = [\<lparr>FixSubnetID = [], IPAddress = ''10.0.0.1''\<rparr>]\<rparr>],
     Routers = [\<lparr>RtrID = ''r1'', RtrProjectID = ''a'', RtrName = [], ExternalNetworkID = [], Routes = []\<rparr>,
                \<lparr>RtrID = ''r2'', RtrProjectID = ''c'', RtrName = [], ExternalNetworkID = [],
                 Routes = [\<lparr>Destination = ''10.9.0.0/16'', Nexthop = ''10.0.0.1''\<rparr>]\<rparr>],
     FloatingIPs = [], Projects = [], Servers = [], LoadBalancers = [], Amphorae = []\<rparr>"

lemma ex_topology_edges: "attach_edges ex_topology = [(''a'', ''b'')]" "extra_edges ex_topology = [(''c'', ''a'')]"
  by (simp_all add: attach_edges_def extra_edges_def cross_attach_def cross_extra_def attachment_def next_router_def ex_topology_def
      indexRouters_def indexNetworks_def indexPortsByIP_def mput_Cons mget_Cons)

theorem directory_balances_witness:
  "sum_list (map RwCrossTotal (TdRows (buildTopologyDirectoryModel (insertionSort directory_less) (Some ex_topology) 7))) = 4"
  using directory_balances[OF directory_sort.sort_slice_axioms, of ex_topology 7] by (simp add: Let_def ex_topology_edges)


end
