(* ===== verification/Agent_Run.thy ===== *)
theory Agent_Run
  imports Shutdown Collector Instruments Debug_Topology Reload Openrc
begin

text \<open>
  The composition root and its life (\<^verbatim>\<open>internal/agent/agent.go\<close>, \<^verbatim>\<open>options.go\<close>, \<^verbatim>\<open>http.go\<close>, \<^verbatim>\<open>run.go\<close>,
  \<^verbatim>\<open>cmd/agent/main.go\<close>): the construction of the agent with its error paths, the route table of its HTTP
  surface, and the run from the start of the workers to the return, as a step relation in which the
  workers, the HTTP server and the draining goroutine interleave. Opening the listener, serving and the
  server's own shutdown are given by their outcomes.
\<close>

section \<open>Construction\<close>

record 'r agent_options =
  oConfig :: config
  oConfigPath :: string
  oReader :: bool
  oLog :: "level option"
  oFiles :: "string \<Rightarrow> string + string \<times> string option"
  oFresh :: 'r
  oRegister :: "string list \<Rightarrow> 'r \<Rightarrow> string + 'r"
  oProcessNames :: "string list"
  oGoNames :: "string list"
  oListen :: "string \<Rightarrow> string + string"

record 'r agent =
  agConfig :: config
  agState :: global_state
  agMeta :: sharded_map
  agRouters :: router_macs
  agTun :: tunable_values
  agCreds :: "Credentials option"
  agInterner :: interner
  agMx :: subsystem_metrics
  agManager :: manager
  agRegistry :: 'r
  agAddr :: string
  agCountersResetAt :: int

datatype agent_error = NoReader | NoLog | BadCredentials openrc_error | RegisterFailed string | ListenFailed string

definition Options_validate :: "'r agent_options \<Rightarrow> agent_error option" where
  "Options_validate opts = (if \<not> oReader opts then Some NoReader else if oLog opts = None then Some NoLog else None)"

text \<open>The defaults of the two optional inputs: the resolver over the agent's own maps and a fresh sequencer.\<close>

definition resolverOrDefault :: "(flow_key \<Rightarrow> attribution) option \<Rightarrow> sharded_map \<Rightarrow> router_macs option \<Rightarrow> flow_key \<Rightarrow> attribution" where
  "resolverOrDefault opt meta routers = (case opt of Some r \<Rightarrow> r | None \<Rightarrow> Resolver_Resolve meta routers)"

definition sequencerOrDefault :: "sequencer option \<Rightarrow> sequencer" where
  "sequencerOrDefault opt = (case opt of Some s \<Rightarrow> s | None \<Rightarrow> Sequencer_New)"

text \<open>\<^verbatim>\<open>neutron.New\<close>: the credentials are resolved at once when the subsystem is enabled.\<close>

definition neutron_New :: "'r agent_options \<Rightarrow> openrc_error + Credentials option" where
  "neutron_New opts =
    (if neutron_Enabled (c_Neutron (oConfig opts))
     then (case FromConfig (oFiles opts) (c_Neutron (oConfig opts)) of Inl err \<Rightarrow> Inl err | Inr creds \<Rightarrow> Inr (Some creds))
     else Inr None)"

definition openHTTP :: "'r agent_options \<Rightarrow> tunable_values \<Rightarrow> level \<Rightarrow> agent_error + ('r \<times> manager \<times> string)" where
  "openHTTP opts tun lvl =
    (case buildRegistry (oFresh opts) (oRegister opts) (oProcessNames opts) (oGoNames opts) of
       Inl err \<Rightarrow> Inl (RegisterFailed err)
     | Inr reg \<Rightarrow>
         (let mgr = SetTunables tun (Manager_New (oConfigPath opts) (oConfig opts) lvl)
          in case oListen opts (http_Listen (c_HTTP (oConfig opts))) of
               Inl err \<Rightarrow> Inl (ListenFailed err)
             | Inr addr \<Rightarrow> Inr (reg, mgr, addr)))"

definition New_agent :: "'r agent_options \<Rightarrow> agent_error + 'r agent" where
  "New_agent opts =
    (case Options_validate opts of
       Some err \<Rightarrow> Inl err
     | None \<Rightarrow>
         (case neutron_New opts of
            Inl err \<Rightarrow> Inl (BadCredentials err)
          | Inr creds \<Rightarrow>
              (let tun = Tunables (oConfig opts); lvl = or_else LevelInfo (oLog opts)
               in case openHTTP opts tun lvl of
                    Inl err \<Rightarrow> Inl err
                  | Inr (reg, mgr, addr) \<Rightarrow>
                      Inr \<lparr>agConfig = oConfig opts, agState = Global_State.New, agMeta = ShardedMetadataMap_New, agRouters = NewRouterMACs,
                           agTun = tun, agCreds = creds, agInterner = NewTenantInterner,
                           agMx = newSubsystemMetrics neutron_NewMetrics (kafka_Topic (c_Kafka (oConfig opts))),
                           agManager = mgr, agRegistry = reg, agAddr = addr, agCountersResetAt = 0\<rparr>)))"

text \<open>The seeds of a WAL restore, between construction and the run.\<close>

definition SeedState :: "flow_record list \<Rightarrow> 'r agent \<Rightarrow> 'r agent" where
  "SeedState records a = a\<lparr>agState := Restore records (agState a)\<rparr>"

definition SeedTenantSettled :: "tenant_settled_record list \<Rightarrow> 'r agent \<Rightarrow> 'r agent" where
  "SeedTenantSettled records a = a\<lparr>agState := RestoreTenantSettled records (agState a)\<rparr>"

definition SeedServerSettled :: "server_settled_record list \<Rightarrow> 'r agent \<Rightarrow> 'r agent" where
  "SeedServerSettled records a = a\<lparr>agState := RestoreServerSettled records (agState a)\<rparr>"

definition SeedTotalSettled :: "total_settled_record list \<Rightarrow> 'r agent \<Rightarrow> 'r agent" where
  "SeedTotalSettled records a = a\<lparr>agState := RestoreTotalSettled records (agState a)\<rparr>"

definition setCountersReset :: "int \<Rightarrow> 'r agent \<Rightarrow> 'r agent" where
  "setCountersReset unixSeconds a =
    a\<lparr>agCountersResetAt := unixSeconds, agMx := (agMx a)\<lparr>mxWal := run_on (SetCountersReset unixSeconds) (mxWal (agMx a))\<rparr>\<rparr>"

section \<open>Routes\<close>

text \<open>
  The handlers behind the listener. A pattern with the method GET also serves HEAD; a path that a
  GET pattern names but the method does not fit goes to the fallback, which takes every method; a path
  that only lacks the final slash of a pattern is redirected. Paths are taken as cleaned by the server.
\<close>

datatype page =
    Metrics | Index | AnomaliesPage | LookupPage | FlowsPage | ZonesPage | TopologyPage | TenantPage string | Pprof string
  | GetConfig | PutLogLevel | Redirect | MethodNotAllowed | NotFound

definition reads :: "string \<Rightarrow> bool" where
  "reads meth \<longleftrightarrow> meth = ''GET'' \<or> meth = ''HEAD''"

definition DebugHandler_route :: "string \<Rightarrow> string \<Rightarrow> page" where
  "DebugHandler_route meth path =
    (if path = ''/debug/config'' then (if reads meth then GetConfig else MethodNotAllowed)
     else if path = ''/debug/log-level'' then (if meth = ''PUT'' then PutLogLevel else MethodNotAllowed)
     else NotFound)"

definition tenant_of_path :: "string \<Rightarrow> string option" where
  "tenant_of_path path =
    (let p = ''/debug/topology/''; t = drop (length p) path
     in if HasPrefix path p \<and> t \<noteq> [] \<and> CHR ''/'' \<notin> set t then Some t else None)"

definition page_of_path :: "string \<Rightarrow> page option" where
  "page_of_path path =
    (if path = ''/debug'' \<or> path = ''/debug/'' then Some Index
     else if path = ''/debug/anomalies'' then Some AnomaliesPage
     else if path = ''/debug/lookup'' then Some LookupPage
     else if path = ''/debug/flows'' then Some FlowsPage
     else if path = ''/debug/zones'' then Some ZonesPage
     else if path = ''/debug/topology'' then Some TopologyPage
     else if tenant_of_path path \<noteq> None then map_option TenantPage (tenant_of_path path)
     else if HasPrefix path ''/debug/pprof/'' then Some (Pprof (drop 13 path))
     else None)"

definition Handler_route :: "(string \<Rightarrow> string \<Rightarrow> page) option \<Rightarrow> string \<Rightarrow> string \<Rightarrow> page" where
  "Handler_route fallback meth path =
    (case (if reads meth then page_of_path path else None) of
       Some pg \<Rightarrow> pg
     | None \<Rightarrow>
         if reads meth \<and> path = ''/debug/pprof'' then Redirect
         else (case fallback of
                 Some f \<Rightarrow> if HasPrefix path ''/debug/'' then f meth path else if path = ''/debug'' then Redirect else NotFound
               | None \<Rightarrow> if page_of_path path \<noteq> None then MethodNotAllowed else NotFound))"

definition buildHTTPHandler_route :: "string \<Rightarrow> string \<Rightarrow> page" where
  "buildHTTPHandler_route meth path =
    (if path = ''/metrics'' then Metrics
     else if path = ''/debug'' \<or> HasPrefix path ''/debug/'' then Handler_route (Some DebugHandler_route) meth path
     else NotFound)"

section \<open>The run\<close>

text \<open>
  The phases of \<^verbatim>\<open>Agent.Run\<close>. The error is the one it will return; the drain carries the worker rows from
  the start on, and moves only when the drain has begun.
\<close>

datatype run_phase = Serving | StoppingHTTP | Draining | Returned

record run =
  rPhase :: run_phase
  rErr :: "string option"
  rSighup :: bool
  rDrain :: drain

definition run_start :: "worker list \<Rightarrow> run" where
  "run_start ws = \<lparr>rPhase = Serving, rErr = None, rSighup = True, rDrain = drain_start ws\<rparr>"

inductive run_step :: "run \<Rightarrow> run \<Rightarrow> bool" where
  worker_returns: "i < length (dRows (rDrain s)) \<Longrightarrow> dRows (rDrain s) ! i = Running \<or> dRows (rDrain s) ! i = Stopping \<Longrightarrow> rPhase s \<noteq> Returned \<Longrightarrow>
    run_step s (s\<lparr>rDrain := (rDrain s)\<lparr>dRows := (dRows (rDrain s))[i := Exited]\<rparr>\<rparr>)"
| cancelled: "rPhase s = Serving \<Longrightarrow> run_step s (s\<lparr>rPhase := StoppingHTTP\<rparr>)"
| server_ended: "rPhase s = Serving \<Longrightarrow> run_step s (s\<lparr>rPhase := Draining, rErr := err\<rparr>)"
| http_stopped: "rPhase s = StoppingHTTP \<Longrightarrow> run_step s (s\<lparr>rPhase := Draining\<rparr>)"
| http_failed: "rPhase s = StoppingHTTP \<Longrightarrow> run_step s (s\<lparr>rPhase := Draining, rErr := Some (''agent: http shutdown: '' @ err)\<rparr>)"
| drains: "rPhase s = Draining \<Longrightarrow> drain_step (rDrain s) d \<Longrightarrow> run_step s (s\<lparr>rDrain := d\<rparr>)"
| return: "rPhase s = Draining \<Longrightarrow> drain_finished (rDrain s) \<Longrightarrow> run_step s (s\<lparr>rPhase := Returned, rSighup := False\<rparr>)"

inductive_cases run_stepE: "run_step s s'"

inductive run_reachable :: "worker list \<Rightarrow> run \<Rightarrow> bool" for ws where
  run_init: "run_reachable ws (run_start ws)"
| run_next: "run_reachable ws s \<Longrightarrow> run_step s s' \<Longrightarrow> run_reachable ws s'"

text \<open>
  What \<^verbatim>\<open>main\<close> does with the outcomes of the bootstrap and of the run: the deferred close of the BPF collection and
  the exit code. An exit through \<^verbatim>\<open>os.Exit\<close> runs no deferred call.
\<close>

definition main_agent :: "string option \<Rightarrow> string option \<Rightarrow> bool \<times> nat" where
  "main_agent bootErr runErr =
    (case bootErr of
       Some _ \<Rightarrow> (False, 1)
     | None \<Rightarrow> (case runErr of Some _ \<Rightarrow> (False, 1) | None \<Rightarrow> (True, 0)))"

section \<open>Construction succeeds\<close>

lemma New_agent_succeeds:
  assumes "metric_registry (oFresh opts) (oRegister opts) registered" and "distinct (oProcessNames opts @ oGoNames opts)"
    and "\<not> list_ex (\<lambda>n. take (length metric_prefix) n = metric_prefix) (oProcessNames opts @ oGoNames opts)"
    and "oReader opts" and "oLog opts = Some lvl" and "neutron_New opts = Inr creds"
    and "oListen opts (http_Listen (c_HTTP (oConfig opts))) = Inr addr"
  shows "\<exists>a. New_agent opts = Inr a \<and> agAddr a = addr \<and> agCreds a = creds \<and> agState a = Global_State.New \<and>
    mTun (agManager a) = Some (agTun a) \<and> agTun a = Tunables (mCurrent (agManager a)) \<and> mLevel (agManager a) = lvl \<and>
    registered (agRegistry a) = set (oProcessNames opts) \<union> set (oGoNames opts) \<union> (@) metric_prefix ` set own_names"
proof -
  obtain r where r: "buildRegistry (oFresh opts) (oRegister opts) (oProcessNames opts) (oGoNames opts) = Inr r"
    "registered r = set (oProcessNames opts) \<union> set (oGoNames opts) \<union> (@) metric_prefix ` set own_names"
    using registry_accepts_all[OF assms(1-3)] by blast
  then show ?thesis
    using assms(4-7) by (simp add: New_agent_def Options_validate_def openHTTP_def or_else_def SetTunables_def Manager_New_def Let_def)
qed

text \<open>Before the metadata is there, every scrape carries the labels of the stub resolver.\<close>

lemma fresh_agent_unknown: "Collect (resolverOrDefault None ShardedMetadataMap_New routers) = Collect UnknownTenant_Resolve"
proof -
  have "resolverOrDefault None ShardedMetadataMap_New routers = UnknownTenant_Resolve"
    by (rule ext) (simp add: resolverOrDefault_def Resolver_Resolve_def UnknownTenant_Resolve_def Lookup_New)
  then show ?thesis by simp
qed

section \<open>Routes\<close>

text \<open>The two routes of the runtime manager are reached through the debug handler, and no page shadows them.\<close>

lemma manager_routes:
  "reads m \<Longrightarrow> buildHTTPHandler_route m ''/debug/config'' = GetConfig" "buildHTTPHandler_route ''PUT'' ''/debug/log-level'' = PutLogLevel"
  by (simp_all add: buildHTTPHandler_route_def Handler_route_def page_of_path_def tenant_of_path_def HasPrefix_def DebugHandler_route_def reads_def)

lemma tenant_route:
  assumes "t \<noteq> []" and "CHR ''/'' \<notin> set t" and "reads m"
  shows "buildHTTPHandler_route m (''/debug/topology/'' @ t) = TenantPage t"
proof -
  have "tenant_of_path (''/debug/topology/'' @ t) = Some t" using assms(1,2) by (simp add: tenant_of_path_def HasPrefix_def)
  then show ?thesis using assms by (simp add: buildHTTPHandler_route_def Handler_route_def page_of_path_def HasPrefix_def)
qed

section \<open>The run keeps its order\<close>

text \<open>How far a run is from its return, counting only the steps of the run's own goroutine.\<close>

definition run_left :: "run \<Rightarrow> nat" where
  "run_left s = (case rPhase s of Serving \<Rightarrow> 2 + drain_left (rDrain s) + 1 | StoppingHTTP \<Rightarrow> 1 + drain_left (rDrain s) + 1
     | Draining \<Rightarrow> drain_left (rDrain s) + 1 | Returned \<Rightarrow> 0)"

definition run_ok :: "worker list \<Rightarrow> run \<Rightarrow> bool" where
  "run_ok ws s \<longleftrightarrow> drain_reachable ws (rDrain s) \<and> rSighup s = (rPhase s \<noteq> Returned) \<and>
    (rPhase s \<in> {Serving, StoppingHTTP} \<longrightarrow> dAt (rDrain s) = 0 \<and> \<not> dAwaiting (rDrain s) \<and> rErr s = None) \<and>
    (rPhase s = Returned \<longrightarrow> drain_finished (rDrain s))"

lemma run_ok_start: "run_ok ws (run_start ws)"
  by (simp add: run_ok_def run_start_def drain_reachable.start) (simp add: drain_start_def)

lemma run_step_ok:
  assumes "run_step s s'" "run_ok ws s"
  shows "run_ok ws s'"
  using assms(1)
proof cases
  case (worker_returns i)
  have "drain_step (rDrain s) ((rDrain s)\<lparr>dRows := (dRows (rDrain s))[i := Exited]\<rparr>)" by (rule drain_step.returns) (use worker_returns in auto)
  then show ?thesis using worker_returns assms(2) drain_reachable.step by (auto simp: run_ok_def)
next
  case (drains d)
  then show ?thesis using assms(2) drain_reachable.step by (auto simp: run_ok_def)
qed (use assms(2) in \<open>auto simp: run_ok_def\<close>)

lemma run_reachable_ok: "run_reachable ws s \<Longrightarrow> run_ok ws s"
proof (induction rule: run_reachable.induct)
  case run_init
  show ?case by (rule run_ok_start)
next
  case (run_next s s')
  then show ?case by (blast intro: run_step_ok)
qed

lemma returns_left: "i < length (dRows d) \<Longrightarrow> drain_left (d\<lparr>dRows := (dRows d)[i := x]\<rparr>) = drain_left d"
  by (simp add: drain_left_def)

lemma run_step_left:
  assumes "run_step s s'"
  shows "run_left s' \<le> run_left s"
  using assms
proof cases
  case (drains d)
  then show ?thesis using drain_bounded[of "rDrain s" d] by (auto simp: run_left_def)
qed (auto simp: run_left_def returns_left split: run_phase.splits)

lemma run_progress:
  assumes "run_ok ws s" and "rPhase s \<in> {StoppingHTTP, Draining}"
  shows "\<exists>s'. run_step s s' \<and> run_left s' < run_left s"
proof (cases "rPhase s = StoppingHTTP")
  case True
  from run_step.http_stopped[OF True] show ?thesis using True by (auto simp: run_left_def)
next
  case False
  then have D: "rPhase s = Draining" using assms(2) by auto
  show ?thesis
  proof (cases "drain_finished (rDrain s)")
    case True
    from run_step.return[OF D True] show ?thesis using D by (auto simp: run_left_def)
  next
    case False
    obtain d where d: "drain_moves (rDrain s) d" using drain_progress[OF drain_reachable_ok False] assms(1) by (auto simp: run_ok_def)
    then have "drain_left d < drain_left (rDrain s)" using drain_bounded[of "rDrain s" d] by (auto simp: drain_moves_def)
    then show ?thesis using run_step.drains[OF D, of d] d D by (auto simp: run_left_def drain_moves_def)
  qed
qed



text \<open>An error of the run ends the process without the deferred close of the collection.\<close>

lemma main_skips_close: "main_agent None (Some err) = (False, 1)" "main_agent None None = (True, 0)"
  by (simp_all add: main_agent_def)

end
