(* ===== verification/Spec2Isabelle.thy ===== *)
theory Spec2Isabelle
  imports Wal_Flush Gc_Ghost Collector Scraper Cold_Start Kick Cadence Neutron_Client Agent_Run
begin

text \<open>
  A verification library for the lachesis agent.

  \<^bold>\<open>The program.\<close> Lachesis meters the network traffic of OpenStack tenants on a compute host. A BPF
  program on each VM's tap device counts bytes and packets per flow in kernel maps and classifies the peer
  into a zone by a longest-prefix-match trie. The agent (Go, \<^verbatim>\<open>internal/\<close>) reads those maps on a timer,
  turns the raw counters into monotone series per tenant, server and zone, keeps the metadata that
  attributes a hardware address to its tenant in step with Neutron, survives restarts through a
  write-ahead log, keeps the kernel maps below their limits, and exposes the series to Prometheus.

  \<^bold>\<open>The parts and their theories,\<close> in the order they build on each other.

  \<^item> \<^verbatim>\<open>Go_Prelude\<close>: machine integers, Go maps as association lists in any order, sums over
    maps, outcomes with panics. \<^verbatim>\<open>Netip\<close>: what the sources use of \<^verbatim>\<open>net/netip\<close>, \<^verbatim>\<open>net\<close> and \<^verbatim>\<open>strings\<close>.
  \<^item> \<^verbatim>\<open>Bpf_Abi\<close> (\<^verbatim>\<open>internal/bpf\<close>): the records shared with the kernel, their codes, key packing, map-size check.
  \<^item> \<^verbatim>\<open>Global_State\<close> (\<^verbatim>\<open>internal/state\<close>): the counter store; delta math across kernel-entry lifetimes,
    settling, pruning, snapshot and restore, and a refinement to a ledger of numbers.
  \<^item> \<^verbatim>\<open>Metadata\<close> (\<^verbatim>\<open>internal/metadata\<close>): the sharded address map refines one map; interned tenant ids.
  \<^item> \<^verbatim>\<open>Unresolved\<close> (\<^verbatim>\<open>internal/unresolved\<close>): the bounded buffer of flows without metadata and the classifier.
  \<^item> \<^verbatim>\<open>Gc_Pressure\<close>, \<^verbatim>\<open>Gc_Ghost\<close> (\<^verbatim>\<open>internal/gc\<close>) and \<^verbatim>\<open>Kernel_Map\<close> (the adapters of the agent): relief between
    watermarks by a size-bounded heap, and the sweep of expired addresses over kernel maps that may fail.
  \<^item> \<^verbatim>\<open>Wal\<close>, \<^verbatim>\<open>Wal_Flush\<close> (\<^verbatim>\<open>internal/wal\<close>, \<^verbatim>\<open>internal/agent/walflush.go\<close>): the save rotation with every crash
    point, the load ladder, flush and restore.
  \<^item> \<^verbatim>\<open>Collector\<close> (\<^verbatim>\<open>internal/metrics\<close>): one scrape, from the store to the samples.
  \<^item> \<^verbatim>\<open>Scraper\<close> (\<^verbatim>\<open>internal/scraper\<close>, \<^verbatim>\<open>reader_linux.go\<close>): the drain of the kernel map and the tick.
  \<^item> \<^verbatim>\<open>Neutron\<close>, \<^verbatim>\<open>Neutron_Trie\<close>, \<^verbatim>\<open>Neutron_Attrib\<close>, \<^verbatim>\<open>Neutron_Sync\<close> (\<^verbatim>\<open>internal/neutron\<close>): the static-route
    resolver, the zone rows, the userspace lookup, attribution, anomalies, sync and commit.
  \<^item> \<^verbatim>\<open>Kernel_Writer\<close> (\<^verbatim>\<open>internal/kernelwriter\<close>, \<^verbatim>\<open>lookup_zone\<close> of \<^verbatim>\<open>bpf/telemetry.c\<close>): the full and the incremental
    writer of the trie, and the agreement of kernel and userspace classification.
  \<^item> \<^verbatim>\<open>Reconcile\<close>, \<^verbatim>\<open>Kick\<close> (\<^verbatim>\<open>internal/reconcile\<close>, \<^verbatim>\<open>internal/kafka\<close>): one pass, and what starts it: the
    loop with its debounce and the consumer of notifications.
  \<^item> \<^verbatim>\<open>Boot\<close>, \<^verbatim>\<open>Cold_Start\<close>, \<^verbatim>\<open>Bootstrap\<close>, \<^verbatim>\<open>Shutdown\<close> (\<^verbatim>\<open>internal/boot\<close>, \<^verbatim>\<open>internal/agent\<close>): the phase barrier, the first
    synchronisation with its retries, the startup sequence and the ordered drain.
  \<^item> \<^verbatim>\<open>Tc_Attach\<close>, \<^verbatim>\<open>Netlink\<close> (\<^verbatim>\<open>internal/tcattach\<close>, \<^verbatim>\<open>internal/zombie\<close>, \<^verbatim>\<open>internal/netlink\<close>): binding the programs to
    links, the hunt for orphans, the link subscriber and its sweep.
  \<^item> \<^verbatim>\<open>Config\<close>, \<^verbatim>\<open>Reload\<close>, \<^verbatim>\<open>Openrc\<close> (\<^verbatim>\<open>internal/config\<close>, \<^verbatim>\<open>internal/tunables\<close>, \<^verbatim>\<open>internal/runtime\<close>,
    \<^verbatim>\<open>internal/logging\<close>, \<^verbatim>\<open>internal/osclient\<close>): loading and checking the configuration, reloading it, and credentials.
  \<^item> \<^verbatim>\<open>Cadence\<close> (\<^verbatim>\<open>ghost.go\<close>, \<^verbatim>\<open>walflush.go\<close>, \<^verbatim>\<open>wal.go\<close>, \<^verbatim>\<open>logging.go\<close>): the sweeper's and the flush loop's cadence under live knobs, the
    probe of the log directory and the start of the logger.
  \<^item> \<^verbatim>\<open>Neutron_Client\<close> (\<^verbatim>\<open>client.go\<close> and \<^verbatim>\<open>list.go\<close> of \<^verbatim>\<open>internal/neutron\<close>): the API client over what gophercloud returns, and runs of syncs
    with one client.
  \<^item> \<^verbatim>\<open>Instruments\<close> (the \<^verbatim>\<open>metrics.go\<close> files, \<^verbatim>\<open>subsystem_metrics.go\<close>): every instrument bundle with its recording methods, and their registration.
  \<^item> \<^verbatim>\<open>Debug_Pages\<close>, \<^verbatim>\<open>Debug_Topology\<close> (\<^verbatim>\<open>internal/debug\<close>): the read-only pages: index, lookup, flows, zones, anomalies and the two
    topology views, from the request to the model they write out.
  \<^item> \<^verbatim>\<open>Agent_Run\<close> (\<^verbatim>\<open>internal/agent\<close>, \<^verbatim>\<open>cmd/agent\<close>): construction of the agent, the routes of its HTTP surface, and the run to its end.

  \<^bold>\<open>How the code is modelled.\<close> A struct is a record, an operation under a lock is one function of it, and a
  function that may fail returns its error beside the state it leaves, so that an error path is a branch. A loop over a Go map
  takes the map's association list, and the theorems hold for every order. A counter is a 64-bit word and its sum wraps; durations and times are integers in nanoseconds. Goroutines that
  interleave (the boot barrier, the drain, the kick loop) are step relations with invariants over every
  reachable state; a goroutine whose loop is a sequence of independent rounds (scraper, subscriber, reload, consumer) is a function of that sequence.

  \<^bold>\<open>Interfaces.\<close> What the code relies on of a library or the kernel is a locale with its documented laws: kernel maps
  (\<^verbatim>\<open>kernel_map\<close>, \<^verbatim>\<open>trie_map\<close>, \<^verbatim>\<open>lpm_map\<close>), traffic control (\<^verbatim>\<open>tc_kernel\<close>, \<^verbatim>\<open>tc_kernel_del\<close>, \<^verbatim>\<open>tc_links\<close>), and what the subscriber
  relies on of its attacher (\<^verbatim>\<open>attacher\<close>), which the attach path is shown to provide (\<^verbatim>\<open>tc_attacher\<close>), \<^verbatim>\<open>sort.Slice\<close> (\<^verbatim>\<open>sort_slice\<close>) and the
  Prometheus registry (\<^verbatim>\<open>metric_registry\<close>). Each is interpreted on a concrete table, and
  the witnesses run on those.

  \<^bold>\<open>What is shown.\<close> Accounting: no byte is lost or counted twice across kernel-entry lifetimes, late binding,
  eviction, settling, pruning, restarts and reconcile passes, and a scrape exposes exactly the tiers of the store. Classification:
  the rows are those the topology asks for, kernel and userspace agree, and a trie moves to the next with no moment
  at which an address loses its row. Durability: every crash point of a flush keeps a readable log. Liveness and order: boot phases mean
  what they say, shutdown drains in order, no kick is lost, the subscriber keeps trying within its bounds. Control: attaching is all or nothing,
  a sweep restores the truth, a reload is all or nothing and keeps every knob inside its checked bounds. Visibility: every scrape is a valid
  exposition, every instrument can be registered and its label sets stay closed, the lookup page names the zone the kernel applies, and
  the two topology pages agree with each other.

  \<^bold>\<open>Bounds and fuel.\<close> The hop limit of the route trace is the code's own; it is shown not to matter when it is
  at least the number of routers. The batch drain takes the number of rounds from the kernel's answers and is shown complete for a map
  that fits. Retries take the list of outcomes of their attempts, of any length. All other loops recurse on their data and are total.

  \<^bold>\<open>Where the code does not do what it says\<close> lemmas pin the behaviour: a row evicted in mid-tick is counted twice, a delete of a missing
  trie row blocks commits, a reload takes the interval of a disabled section unchecked, drops overrides of the environment and forgets
  which load-time values run, a watermark that is not a number is accepted, an unset list flag rewrites its list, a load balancer service that appears late is never
  used, one failure stage is not seeded, an IPv6 query finds no zone, and an error of the run skips the close of the collection.

  \<^bold>\<open>Not modelled.\<close> The packet path of the BPF program (C) but for its zone lookup; serving over \<^verbatim>\<open>net/http\<close> and the
  templates and JSON writers of the pages; the libraries gophercloud, kafka-go, YAML, JSON, netlink and Prometheus, which are parameters; log lines;
  and the test harnesses (\<^verbatim>\<open>internal/scenariotest\<close>, \<^verbatim>\<open>internal/testenv\<close>, \<^verbatim>\<open>internal/loadtest\<close>, \<^verbatim>\<open>internal/perfbench\<close>), which
  are not part of the agent: they drive a deployment from outside and check what it exposes.
\<close>

end
